(* ===== verification/Sift_Prelude.thy ===== *)
theory Sift_Prelude
  imports Main "HOL-Library.Sublist"
begin

text \<open>
  Shared vocabulary of the development: results that may carry an exception,
  loops that stop at the first exception, and the interface of a state machine
  whose operations keep an invariant.

  A Python call that may raise is a value of type \<open>'e + 'a\<close>: \<open>Inl\<close> is the
  exception, \<open>Inr\<close> the returned value.  \<open>res_bind\<close> is sequencing, \<open>guard_res\<close>
  is \<open>if cond: raise\<close>, \<open>for_each\<close> is a \<open>for\<close> loop whose body may raise and
  \<open>map_res\<close> is a loop that appends one value per iteration.
\<close>

named_theorems res_simps \<open>rewriting of results: sequencing, guards and loops\<close>
named_theorems str_simps \<open>rewriting of the Python string operations\<close>
named_theorems path_simps \<open>rewriting of paths and containment\<close>

section \<open>Results\<close>

fun res_bind :: "'e + 'a \<Rightarrow> ('a \<Rightarrow> 'e + 'b) \<Rightarrow> 'e + 'b" where
  "res_bind (Inl e) f = Inl e"
| "res_bind (Inr x) f = f x"

definition guard_res :: "bool \<Rightarrow> 'e \<Rightarrow> 'e + unit" where
  "guard_res b e = (if b then Inl e else Inr ())"

fun for_each :: "('a \<Rightarrow> 'e + unit) \<Rightarrow> 'a list \<Rightarrow> 'e + unit" where
  "for_each f [] = Inr ()"
| "for_each f (x # xs) = res_bind (f x) (\<lambda>_. for_each f xs)"

fun map_res :: "('a \<Rightarrow> 'e + 'b) \<Rightarrow> 'a list \<Rightarrow> 'e + 'b list" where
  "map_res f [] = Inr []"
| "map_res f (x # xs) =
     res_bind (f x) (\<lambda>y. res_bind (map_res f xs) (\<lambda>ys. Inr (y # ys)))"

text \<open>\<open>any(test(x) for x in xs)\<close> with a test that may raise: it stops at the first hit.\<close>

fun any_res :: "('a \<Rightarrow> 'e + bool) \<Rightarrow> 'a list \<Rightarrow> 'e + bool" where
  "any_res f [] = Inr False"
| "any_res f (x # xs) = res_bind (f x) (\<lambda>b. if b then Inr True else any_res f xs)"

definition is_ok :: "'e + 'a \<Rightarrow> bool" where
  "is_ok r = (case r of Inl _ \<Rightarrow> False | Inr _ \<Rightarrow> True)"

lemma res_bind_Inr_iff [simp, res_simps]:
  "res_bind m f = Inr y \<longleftrightarrow> (\<exists>x. m = Inr x \<and> f x = Inr y)"
  by (cases m) auto

lemma res_bind_Inl_iff [res_simps]:
  "res_bind m f = Inl e \<longleftrightarrow> m = Inl e \<or> (\<exists>x. m = Inr x \<and> f x = Inl e)"
  by (cases m) auto

lemma guard_res_Inr_iff [simp, res_simps]: "guard_res b e = Inr u \<longleftrightarrow> \<not> b"
  by (cases u) (simp add: guard_res_def)

lemma guard_res_Inl_iff [simp, res_simps]: "guard_res b e = Inl e' \<longleftrightarrow> b \<and> e' = e"
  by (auto simp: guard_res_def)

lemma guard_res_simps [simp]: "guard_res True e = Inl e" "guard_res False e = Inr ()"
  by (simp_all add: guard_res_def)

lemma for_each_Inr_iff [simp, res_simps]:
  "for_each f xs = Inr u \<longleftrightarrow> (\<forall>x \<in> set xs. f x = Inr ())"
  by (induction xs) auto

lemma map_res_Inr_iff [res_simps]:
  "map_res f xs = Inr ys \<longleftrightarrow> list_all2 (\<lambda>x y. f x = Inr y) xs ys"
  by (induction xs arbitrary: ys) (auto simp: list_all2_Cons1)

lemma map_res_length: "map_res f xs = Inr ys \<Longrightarrow> length ys = length xs"
  by (auto simp: map_res_Inr_iff dest: list_all2_lengthD)

lemma map_res_member:
  "map_res f xs = Inr ys \<Longrightarrow> y \<in> set ys \<Longrightarrow> \<exists>x \<in> set xs. f x = Inr y"
  by (fastforce simp: map_res_Inr_iff list_all2_conv_all_nth in_set_conv_nth)

lemma map_res_each: "map_res f xs = Inr ys \<Longrightarrow> x \<in> set xs \<Longrightarrow> \<exists>y. f x = Inr y"
  by (induction xs arbitrary: ys) auto

lemma map_res_images:
  "map_res f xs = Inr ys \<Longrightarrow> (\<exists>y \<in> set ys. P y) \<longleftrightarrow> (\<exists>x \<in> set xs. \<exists>y. f x = Inr y \<and> P y)"
  by (induction xs arbitrary: ys) auto

lemma map_res_cong [fundef_cong]:
  "xs = ys \<Longrightarrow> (\<And>x. x \<in> set ys \<Longrightarrow> f x = g x) \<Longrightarrow> map_res f xs = map_res g ys"
  by (induction ys arbitrary: xs) auto

lemma any_res_False [simp, res_simps]:
  "any_res f xs = Inr False \<longleftrightarrow> (\<forall>x \<in> set xs. f x = Inr False)"
  by (induction xs) auto

lemma any_res_True: "any_res f xs = Inr True \<Longrightarrow> \<exists>x \<in> set xs. f x = Inr True"
  by (induction xs) (auto split: if_splits)

lemma is_ok_simps [simp]: "is_ok (Inl e) = False" "is_ok (Inr x) = True"
  by (simp_all add: is_ok_def)

lemma is_ok_iff: "is_ok r \<longleftrightarrow> (\<exists>x. r = Inr x)"
  by (cases r) auto

section \<open>Objects and their calls\<close>

text \<open>
  Several components are an object with a lock around every method: a state, and
  a method call that maps the state to a new one and a returned value.
  \<open>run_state\<close> and \<open>run_outputs\<close> are the state after a sequence of calls and the values
  the calls return.
\<close>

fun run_state :: "('op \<Rightarrow> 's \<Rightarrow> 's \<times> 'r) \<Rightarrow> 'op list \<Rightarrow> 's \<Rightarrow> 's" where
  "run_state call [] s = s"
| "run_state call (op # ops) s = run_state call ops (fst (call op s))"

fun run_outputs :: "('op \<Rightarrow> 's \<Rightarrow> 's \<times> 'r) \<Rightarrow> 'op list \<Rightarrow> 's \<Rightarrow> 'r list" where
  "run_outputs call [] s = []"
| "run_outputs call (op # ops) s = snd (call op s) # run_outputs call ops (fst (call op s))"

fun all_enabled :: "('op \<Rightarrow> 's \<Rightarrow> 's \<times> 'r) \<Rightarrow> ('s \<Rightarrow> 'op \<Rightarrow> bool) \<Rightarrow> 'op list \<Rightarrow> 's \<Rightarrow> bool" where
  "all_enabled call enabled [] s = True"
| "all_enabled call enabled (op # ops) s =
     (enabled s op \<and> all_enabled call enabled ops (fst (call op s)))"

lemma run_state_append: "run_state call (xs @ ys) s = run_state call ys (run_state call xs s)"
  by (induction xs arbitrary: s) auto

lemma run_outputs_length [simp]: "length (run_outputs call ops s) = length ops"
  by (induction ops arbitrary: s) auto

lemma always_enabled: "all_enabled call (\<lambda>_ _. True) ops s"
  by (induction ops arbitrary: s) auto

text \<open>The promise of an object: an invariant that every enabled call keeps.\<close>

locale guarded_object =
  fixes call :: "'op \<Rightarrow> 's \<Rightarrow> 's \<times> 'r"
    and enabled :: "'s \<Rightarrow> 'op \<Rightarrow> bool"
    and inv :: "'s \<Rightarrow> bool"
  assumes call_inv: "inv s \<Longrightarrow> enabled s op \<Longrightarrow> inv (fst (call op s))"
begin

lemma run_inv: "inv s \<Longrightarrow> all_enabled call enabled ops s \<Longrightarrow> inv (run_state call ops s)"
  by (induction ops arbitrary: s) (auto intro: call_inv)

end

text \<open>The promise of an implementation: from related states every call returns what the
  specification returns and leads to related states.\<close>

locale simulation =
  fixes impl :: "'op \<Rightarrow> 's \<Rightarrow> 's \<times> 'r"
    and spec :: "'op \<Rightarrow> 'a \<Rightarrow> 'a \<times> 'r"
    and enabled :: "'a \<Rightarrow> 'op \<Rightarrow> bool"
    and rel :: "'s \<Rightarrow> 'a \<Rightarrow> bool"
  assumes sim_output: "rel s a \<Longrightarrow> enabled a op \<Longrightarrow> snd (impl op s) = snd (spec op a)"
    and sim_state: "rel s a \<Longrightarrow> enabled a op \<Longrightarrow> rel (fst (impl op s)) (fst (spec op a))"
begin

lemma outputs_agree:
  "rel s a \<Longrightarrow> all_enabled spec enabled ops a \<Longrightarrow> run_outputs impl ops s = run_outputs spec ops a"
  by (induction ops arbitrary: s a) (auto simp: sim_output sim_state)

lemma states_agree:
  "rel s a \<Longrightarrow> all_enabled spec enabled ops a \<Longrightarrow> rel (run_state impl ops s) (run_state spec ops a)"
  by (induction ops arbitrary: s a) (auto simp: sim_state)

end

section \<open>Lists\<close>

lemma takeWhile_dropWhile_all:
  "list_all P (takeWhile P xs)"
  by (induction xs) auto

lemma filter_dropWhile_not:
  "filter (\<lambda>c. \<not> P c) (dropWhile P xs) = filter (\<lambda>c. \<not> P c) xs"
  by (induction xs) auto

lemma set_dropWhile_subset: "set (dropWhile P xs) \<subseteq> set xs"
  by (induction xs) auto

lemma dropWhile_all_iff: "(\<forall>x \<in> set (dropWhile P xs). P x) \<longleftrightarrow> (\<forall>x \<in> set xs. P x)"
  by (induction xs) auto

end
