(* ===== verification/Py_String.thy ===== *)
theory Py_String
  imports Sift_Prelude
begin

text \<open>
  The part of Python's \<open>str\<close> the modelled code uses.  A \<open>str\<close> is an Isabelle
  \<open>string\<close>: one 8-bit \<open>char\<close> per code point, so the model covers the code points
  U+0000 to U+00FF, on which the classification below (\<open>isspace\<close>, \<open>isdigit\<close>,
  \<open>isalnum\<close>, \<open>lower\<close>) is Python's.
  The last section is the standard library's \<open>fnmatch.fnmatchcase\<close>.
\<close>

section \<open>Characters\<close>

abbreviation code :: "char \<Rightarrow> nat" where
  "code c \<equiv> of_char c"

definition in_range :: "nat \<Rightarrow> nat \<Rightarrow> char \<Rightarrow> bool" where
  "in_range lo hi c \<longleftrightarrow> lo \<le> code c \<and> code c \<le> hi"

definition isspace :: "char \<Rightarrow> bool" where
  "isspace c \<longleftrightarrow> in_range 9 13 c \<or> in_range 28 32 c \<or> code c = 133 \<or> code c = 160"

definition isdigit :: "char \<Rightarrow> bool" where
  "isdigit c \<longleftrightarrow> in_range 48 57 c \<or> code c = 178 \<or> code c = 179 \<or> code c = 185"

definition isalpha :: "char \<Rightarrow> bool" where
  "isalpha c \<longleftrightarrow> in_range 65 90 c \<or> in_range 97 122 c \<or> code c = 170 \<or> code c = 181 \<or>
     code c = 186 \<or> in_range 192 214 c \<or> in_range 216 246 c \<or> in_range 248 255 c"

definition isalnum :: "char \<Rightarrow> bool" where
  "isalnum c \<longleftrightarrow> isalpha c \<or> isdigit c \<or> in_range 188 190 c"

definition lower_char :: "char \<Rightarrow> char" where
  "lower_char c =
     (if in_range 65 90 c \<or> (in_range 192 222 c \<and> code c \<noteq> 215)
      then char_of (code c + 32) else c)"

definition is_word_char :: "char \<Rightarrow> bool" where
  "is_word_char c \<longleftrightarrow> isalnum c \<or> c = CHR ''_''"

lemma of_char_bound [simp]: "(of_char c :: nat) < 256"
  by (metis of_char_mod_256 mod_less_divisor zero_less_numeral)

lemma lower_char_code:
  "code (lower_char c) =
     (if in_range 65 90 c \<or> (in_range 192 222 c \<and> code c \<noteq> 215) then code c + 32 else code c)"
proof -
  have "code c + 32 < 256" if "in_range 65 90 c \<or> (in_range 192 222 c \<and> code c \<noteq> 215)"
    using that by (auto simp: in_range_def)
  then show ?thesis
    by (auto simp: lower_char_def take_bit_eq_mod)
qed

lemma lower_char_idem [simp]: "lower_char (lower_char c) = lower_char c"
proof -
  have "\<not> (in_range 65 90 (lower_char c) \<or>
      (in_range 192 222 (lower_char c) \<and> code (lower_char c) \<noteq> 215))"
    unfolding in_range_def lower_char_code by (auto simp: in_range_def)
  then show ?thesis
    unfolding lower_char_def [of "lower_char c"] by (rule if_not_P)
qed

text \<open>The printable ASCII characters, for evaluation.\<close>

lemma lower_char_ascii [simp]:
  "lower_char (CHR 0x20) = CHR 0x20"
  "lower_char (CHR 0x21) = CHR 0x21"
  "lower_char (CHR 0x22) = CHR 0x22"
  "lower_char (CHR 0x23) = CHR 0x23"
  "lower_char (CHR 0x24) = CHR 0x24"
  "lower_char (CHR 0x25) = CHR 0x25"
  "lower_char (CHR 0x26) = CHR 0x26"
  "lower_char (CHR 0x27) = CHR 0x27"
  "lower_char (CHR 0x28) = CHR 0x28"
  "lower_char (CHR 0x29) = CHR 0x29"
  "lower_char (CHR 0x2A) = CHR 0x2A"
  "lower_char (CHR 0x2B) = CHR 0x2B"
  "lower_char (CHR 0x2C) = CHR 0x2C"
  "lower_char (CHR 0x2D) = CHR 0x2D"
  "lower_char (CHR 0x2E) = CHR 0x2E"
  "lower_char (CHR 0x2F) = CHR 0x2F"
  "lower_char (CHR 0x30) = CHR 0x30"
  "lower_char (CHR 0x31) = CHR 0x31"
  "lower_char (CHR 0x32) = CHR 0x32"
  "lower_char (CHR 0x33) = CHR 0x33"
  "lower_char (CHR 0x34) = CHR 0x34"
  "lower_char (CHR 0x35) = CHR 0x35"
  "lower_char (CHR 0x36) = CHR 0x36"
  "lower_char (CHR 0x37) = CHR 0x37"
  "lower_char (CHR 0x38) = CHR 0x38"
  "lower_char (CHR 0x39) = CHR 0x39"
  "lower_char (CHR 0x3A) = CHR 0x3A"
  "lower_char (CHR 0x3B) = CHR 0x3B"
  "lower_char (CHR 0x3C) = CHR 0x3C"
  "lower_char (CHR 0x3D) = CHR 0x3D"
  "lower_char (CHR 0x3E) = CHR 0x3E"
  "lower_char (CHR 0x3F) = CHR 0x3F"
  "lower_char (CHR 0x40) = CHR 0x40"
  "lower_char (CHR 0x41) = CHR 0x61"
  "lower_char (CHR 0x42) = CHR 0x62"
  "lower_char (CHR 0x43) = CHR 0x63"
  "lower_char (CHR 0x44) = CHR 0x64"
  "lower_char (CHR 0x45) = CHR 0x65"
  "lower_char (CHR 0x46) = CHR 0x66"
  "lower_char (CHR 0x47) = CHR 0x67"
  "lower_char (CHR 0x48) = CHR 0x68"
  "lower_char (CHR 0x49) = CHR 0x69"
  "lower_char (CHR 0x4A) = CHR 0x6A"
  "lower_char (CHR 0x4B) = CHR 0x6B"
  "lower_char (CHR 0x4C) = CHR 0x6C"
  "lower_char (CHR 0x4D) = CHR 0x6D"
  "lower_char (CHR 0x4E) = CHR 0x6E"
  "lower_char (CHR 0x4F) = CHR 0x6F"
  "lower_char (CHR 0x50) = CHR 0x70"
  "lower_char (CHR 0x51) = CHR 0x71"
  "lower_char (CHR 0x52) = CHR 0x72"
  "lower_char (CHR 0x53) = CHR 0x73"
  "lower_char (CHR 0x54) = CHR 0x74"
  "lower_char (CHR 0x55) = CHR 0x75"
  "lower_char (CHR 0x56) = CHR 0x76"
  "lower_char (CHR 0x57) = CHR 0x77"
  "lower_char (CHR 0x58) = CHR 0x78"
  "lower_char (CHR 0x59) = CHR 0x79"
  "lower_char (CHR 0x5A) = CHR 0x7A"
  "lower_char (CHR 0x5B) = CHR 0x5B"
  "lower_char (CHR 0x5C) = CHR 0x5C"
  "lower_char (CHR 0x5D) = CHR 0x5D"
  "lower_char (CHR 0x5E) = CHR 0x5E"
  "lower_char (CHR 0x5F) = CHR 0x5F"
  "lower_char (CHR 0x60) = CHR 0x60"
  "lower_char (CHR 0x61) = CHR 0x61"
  "lower_char (CHR 0x62) = CHR 0x62"
  "lower_char (CHR 0x63) = CHR 0x63"
  "lower_char (CHR 0x64) = CHR 0x64"
  "lower_char (CHR 0x65) = CHR 0x65"
  "lower_char (CHR 0x66) = CHR 0x66"
  "lower_char (CHR 0x67) = CHR 0x67"
  "lower_char (CHR 0x68) = CHR 0x68"
  "lower_char (CHR 0x69) = CHR 0x69"
  "lower_char (CHR 0x6A) = CHR 0x6A"
  "lower_char (CHR 0x6B) = CHR 0x6B"
  "lower_char (CHR 0x6C) = CHR 0x6C"
  "lower_char (CHR 0x6D) = CHR 0x6D"
  "lower_char (CHR 0x6E) = CHR 0x6E"
  "lower_char (CHR 0x6F) = CHR 0x6F"
  "lower_char (CHR 0x70) = CHR 0x70"
  "lower_char (CHR 0x71) = CHR 0x71"
  "lower_char (CHR 0x72) = CHR 0x72"
  "lower_char (CHR 0x73) = CHR 0x73"
  "lower_char (CHR 0x74) = CHR 0x74"
  "lower_char (CHR 0x75) = CHR 0x75"
  "lower_char (CHR 0x76) = CHR 0x76"
  "lower_char (CHR 0x77) = CHR 0x77"
  "lower_char (CHR 0x78) = CHR 0x78"
  "lower_char (CHR 0x79) = CHR 0x79"
  "lower_char (CHR 0x7A) = CHR 0x7A"
  "lower_char (CHR 0x7B) = CHR 0x7B"
  "lower_char (CHR 0x7C) = CHR 0x7C"
  "lower_char (CHR 0x7D) = CHR 0x7D"
  "lower_char (CHR 0x7E) = CHR 0x7E"
  by (simp_all add: lower_char_def in_range_def char_of_def bit_0)

section \<open>Strings\<close>

definition lower :: "string \<Rightarrow> string" where
  "lower s = map lower_char s"

definition casefold :: "string \<Rightarrow> string" where
  "casefold s = concat (map (\<lambda>c. if code c = 223 then ''ss'' else [lower_char c]) s)"

definition lstrip_by :: "(char \<Rightarrow> bool) \<Rightarrow> string \<Rightarrow> string" where
  "lstrip_by P s = dropWhile P s"

definition strip_by :: "(char \<Rightarrow> bool) \<Rightarrow> string \<Rightarrow> string" where
  "strip_by P s = rev (dropWhile P (rev (dropWhile P s)))"

definition strip :: "string \<Rightarrow> string" where
  "strip s = strip_by isspace s"

definition startswith :: "string \<Rightarrow> string \<Rightarrow> bool" where
  "startswith s p \<longleftrightarrow> take (length p) s = p"

definition endswith :: "string \<Rightarrow> string \<Rightarrow> bool" where
  "endswith s p \<longleftrightarrow> startswith (rev s) (rev p)"

text \<open>\<open>contains s p\<close> is Python's \<open>p in s\<close>.\<close>

fun contains :: "string \<Rightarrow> string \<Rightarrow> bool" where
  "contains [] p = (p = [])"
| "contains (c # s) p = (startswith (c # s) p \<or> contains s p)"

definition replace_char :: "char \<Rightarrow> char \<Rightarrow> string \<Rightarrow> string" where
  "replace_char a b s = map (\<lambda>c. if c = a then b else c) s"

text \<open>\<open>s.split(c, 1)\<close>: the part before the first \<open>c\<close>, and the part after it if there is one.\<close>

definition before_char :: "char \<Rightarrow> string \<Rightarrow> string" where
  "before_char c s = takeWhile (\<lambda>x. x \<noteq> c) s"

definition after_char :: "char \<Rightarrow> string \<Rightarrow> string" where
  "after_char c s = tl (dropWhile (\<lambda>x. x \<noteq> c) s)"

text \<open>\<open>s.rsplit(c, 1)[-1]\<close>: the part after the last \<open>c\<close>.\<close>

definition after_last :: "char \<Rightarrow> string \<Rightarrow> string" where
  "after_last c s = rev (takeWhile (\<lambda>x. x \<noteq> c) (rev s))"

lemma lower_idem [simp, str_simps]: "lower (lower s) = lower s"
  by (simp add: lower_def)

lemma lower_simps [simp]: "lower [] = []" "lower (a @ b) = lower a @ lower b"
  by (simp_all add: lower_def)

lemma startswith_prefix [str_simps]: "startswith s p \<longleftrightarrow> prefix p s"
  by (metis append_eq_conv_conj append_take_drop_id prefix_def startswith_def)

lemma startswith_simps [simp, code]:
  "startswith s [] = True"
  "startswith [] (d # p) = False"
  "startswith (c # s) (d # p) = (c = d \<and> startswith s p)"
  by (simp_all add: startswith_def)

lemma contains_iff [str_simps]: "contains s p \<longleftrightarrow> (\<exists>a b. s = a @ p @ b)"
proof (induction s)
  case Nil
  then show ?case by auto
next
  case (Cons c s)
  show ?case
  proof
    assume "contains (c # s) p"
    then consider "prefix p (c # s)" | "contains s p"
      by (auto simp: startswith_prefix)
    then show "\<exists>a b. c # s = a @ p @ b"
    proof cases
      case 1
      then show ?thesis by (metis append_Nil prefixE)
    next
      case 2
      with Cons.IH show ?thesis by (metis append_Cons)
    qed
  next
    assume "\<exists>a b. c # s = a @ p @ b"
    then obtain a b where ab: "c # s = a @ p @ b" by blast
    show "contains (c # s) p"
    proof (cases a)
      case Nil
      with ab have "prefix p (c # s)" by simp
      then show ?thesis by (simp add: startswith_prefix)
    next
      case (Cons x xs)
      with ab have "s = xs @ p @ b" by simp
      with Cons.IH show ?thesis by auto
    qed
  qed
qed

lemma contains_single [str_simps]: "contains s [c] \<longleftrightarrow> c \<in> set s"
  by (induction s) (auto simp: startswith_prefix)

lemma set_strip_by: "set (strip_by P s) \<subseteq> set s"
  unfolding strip_by_def by (auto dest!: set_dropWhileD)

lemma set_strip: "set (strip s) \<subseteq> set s"
  by (simp add: strip_def set_strip_by)

lemma filter_strip_by:
  "filter (\<lambda>c. \<not> P c) (strip_by P s) = filter (\<lambda>c. \<not> P c) s"
  by (simp add: strip_by_def filter_dropWhile_not flip: rev_filter)

lemma strip_filter [str_simps]:
  "filter (\<lambda>c. \<not> isspace c) (strip s) = filter (\<lambda>c. \<not> isspace c) s"
  by (simp add: strip_def filter_strip_by)

lemma strip_empty_iff: "strip s = [] \<longleftrightarrow> list_all isspace s"
  by (simp add: strip_def strip_by_def list_all_iff dropWhile_all_iff)

lemma before_char_notin [str_simps]: "c \<notin> set (before_char c s)"
  by (auto simp: before_char_def dest: set_takeWhileD)

lemma after_last_notin [str_simps]: "c \<notin> set (after_last c s)"
  by (auto simp: after_last_def dest: set_takeWhileD)

lemma split_at_char:
  "c \<in> set s \<Longrightarrow> s = before_char c s @ c # after_char c s"
  unfolding before_char_def after_char_def
  by (metis (mono_tags, lifting) dropWhile_eq_Nil_conv hd_dropWhile list.collapse
      takeWhile_dropWhile_id)

section \<open>fnmatch\<close>

text \<open>
  \<open>fnmatch.fnmatchcase(name, pat)\<close>: \<open>*\<close> is any sequence, \<open>?\<close> one character,
  \<open>[seq]\<close> and \<open>[!seq]\<close> a character (not) in a class of characters and ranges;
  a \<open>[\<close> with no closing bracket is itself.  The closing bracket is searched
  after an optional \<open>!\<close> and one character that may be \<open>]\<close>.
\<close>

definition class_body :: "string \<Rightarrow> (string \<times> string) option" where
  "class_body p =
     (let bang = (if startswith p ''!'' then 1 else 0);
          skip = (if startswith (drop bang p) '']'' then Suc bang else bang);
          stuff = take skip p @ before_char (CHR '']'') (drop skip p)
      in if CHR '']'' \<in> set (drop skip p)
         then Some (stuff, after_char (CHR '']'') (drop skip p)) else None)"

fun class_items :: "string \<Rightarrow> char \<Rightarrow> bool" where
  "class_items (a # d # b # s) c =
     (if d = CHR ''-'' then in_range (code a) (code b) c \<or> class_items s c
      else c = a \<or> class_items (d # b # s) c)"
| "class_items (a # s) c = (c = a \<or> class_items s c)"
| "class_items [] c = False"

definition class_match :: "string \<Rightarrow> char \<Rightarrow> bool" where
  "class_match stuff c =
     (if startswith stuff ''!'' then \<not> class_items (tl stuff) c else class_items stuff c)"

lemma length_after_char: "length (after_char c s) \<le> length s"
  unfolding after_char_def by (metis diff_le_self length_dropWhile_le length_tl order_trans)

lemma class_body_shorter: "class_body p = Some (stuff, rest) \<Longrightarrow> length rest \<le> length p"
  using length_after_char [of "CHR '']''"]
  by (auto simp: class_body_def Let_def split: if_splits)
    (metis diff_le_self le_trans length_drop)+

function fnmatchcase :: "string \<Rightarrow> string \<Rightarrow> bool" where
  "fnmatchcase name [] = (name = [])"
| "fnmatchcase name (p # pat) =
     (if p = CHR ''*'' then
        fnmatchcase name pat \<or> (case name of [] \<Rightarrow> False | _ # cs \<Rightarrow> fnmatchcase cs (p # pat))
      else case name of
        [] \<Rightarrow> False
      | c # cs \<Rightarrow>
          if p = CHR ''?'' then fnmatchcase cs pat
          else if p = CHR ''['' then
            (case class_body pat of
               None \<Rightarrow> c = p \<and> fnmatchcase cs pat
             | Some (stuff, rest) \<Rightarrow> class_match stuff c \<and> fnmatchcase cs rest)
          else c = p \<and> fnmatchcase cs pat)"
  by pat_completeness auto
termination
  by (relation "measure (\<lambda>(name, pat). length name + length pat)")
    (auto dest: class_body_shorter)

text \<open>A pattern with none of the special characters matches only itself.\<close>

definition is_literal_pattern :: "string \<Rightarrow> bool" where
  "is_literal_pattern p \<longleftrightarrow> list_all (\<lambda>c. c \<noteq> CHR ''*'' \<and> c \<noteq> CHR ''?'' \<and> c \<noteq> CHR ''['') p"

lemma fnmatchcase_literal [str_simps]:
  "is_literal_pattern p \<Longrightarrow> fnmatchcase s p \<longleftrightarrow> s = p"
  by (induction p arbitrary: s) (auto simp: is_literal_pattern_def split: list.splits)

lemma fnmatchcase_star: "fnmatchcase s ''*''"
  by (induction s) auto

lemma fnmatchcase_prefix_star:
  "is_literal_pattern p \<Longrightarrow> fnmatchcase (p @ s) (p @ ''*'')"
  using fnmatchcase_star [of s] by (induction p) (auto simp: is_literal_pattern_def)

lemma fnmatchcase_star_suffix:
  "is_literal_pattern p \<Longrightarrow> fnmatchcase (s @ p) (CHR ''*'' # p)"
  by (induction s) (auto simp: fnmatchcase_literal)

end
