(* ===== verification/Py_Shlex.thy ===== *)
theory Py_Shlex
  imports Py_String
begin

text \<open>
  The standard library's \<open>shlex.split(s, comments=True)\<close> in POSIX mode, as
  \<open>security.py\<close> calls it: \<open>whitespace_split\<close> is on, \<open>#\<close> starts a comment that runs
  to the end of the line (inside a word too), the quotes are \<open>'\<close> and \<open>"\<close>, and a
  backslash escapes the next character outside quotes and, inside \<open>"\<close>, only a
  \<open>"\<close> or a backslash.
  \<open>shlex_go\<close> is the loop of \<open>read_token\<close> run to the end of the input: the lexer's state,
  whether the current token had a quoted part, the token read so far, the input left.
\<close>

datatype shlex_error = NoClosingQuotation | NoEscapedCharacter

datatype lex_state =
    LSpace
  | LQuote char
  | LEscape "char option"  \<comment> \<open>\<open>escapedstate\<close>: \<open>None\<close> is the word state, \<open>Some q\<close> the quote \<open>q\<close>\<close>
  | LWord

abbreviation squote :: char where "squote \<equiv> CHR 0x27"
abbreviation dquote :: char where "dquote \<equiv> CHR 0x22"
abbreviation backslash :: char where "backslash \<equiv> CHR 0x5C"
abbreviation newline :: char where "newline \<equiv> CHR 0x0A"
abbreviation carriage :: char where "carriage \<equiv> CHR 0x0D"
abbreviation hash :: char where "hash \<equiv> CHR 0x23"

definition lex_ws :: "char \<Rightarrow> bool" where
  "lex_ws c \<longleftrightarrow> c = CHR '' '' \<or> c = CHR 0x09 \<or> c = carriage \<or> c = newline"

definition is_quote :: "char \<Rightarrow> bool" where
  "is_quote c \<longleftrightarrow> c = squote \<or> c = dquote"

text \<open>\<open>instream.readline()\<close>: the input after the end of the line.\<close>

definition skip_line :: "string \<Rightarrow> string" where
  "skip_line s = tl (dropWhile (\<lambda>c. c \<noteq> newline) s)"

definition emit :: "bool \<Rightarrow> string \<Rightarrow> string list \<Rightarrow> string list" where
  "emit quoted tok ts = (if tok \<noteq> [] \<or> quoted then tok # ts else ts)"

lemma length_skip_line [termination_simp]: "length (skip_line s) \<le> length s"
  unfolding skip_line_def by (metis diff_le_self length_dropWhile_le length_tl order_trans)

function shlex_go :: "lex_state \<Rightarrow> bool \<Rightarrow> string \<Rightarrow> string \<Rightarrow> shlex_error + string list" where
  "shlex_go LSpace q tok [] = Inr (emit q tok [])"
| "shlex_go LSpace q tok (c # cs) =
     (if lex_ws c then
        (if tok \<noteq> [] \<or> q then res_bind (shlex_go LSpace False [] cs) (\<lambda>ts. Inr (tok # ts))
         else shlex_go LSpace q tok cs)
      else if c = hash then shlex_go LSpace q tok (skip_line cs)
      else if c = backslash then shlex_go (LEscape None) q tok cs
      else if is_quote c then shlex_go (LQuote c) q tok cs
      else shlex_go LWord q [c] cs)"
| "shlex_go (LQuote k) q tok [] = Inl NoClosingQuotation"
| "shlex_go (LQuote k) q tok (c # cs) =
     (if c = k then shlex_go LWord True tok cs
      else if c = backslash \<and> k = dquote then shlex_go (LEscape (Some k)) True tok cs
      else shlex_go (LQuote k) True (tok @ [c]) cs)"
| "shlex_go (LEscape e) q tok [] = Inl NoEscapedCharacter"
| "shlex_go (LEscape e) q tok (c # cs) =
     (case e of
        None \<Rightarrow> shlex_go LWord q (tok @ [c]) cs
      | Some k \<Rightarrow>
          shlex_go (LQuote k) q
            (tok @ (if c \<noteq> backslash \<and> c \<noteq> k then [backslash] else []) @ [c]) cs)"
| "shlex_go LWord q tok [] = Inr (emit q tok [])"
| "shlex_go LWord q tok (c # cs) =
     (if lex_ws c then
        (if tok \<noteq> [] \<or> q then res_bind (shlex_go LSpace False [] cs) (\<lambda>ts. Inr (tok # ts))
         else shlex_go LSpace q tok cs)
      else if c = hash then
        (if tok \<noteq> [] \<or> q
         then res_bind (shlex_go LSpace False [] (skip_line cs)) (\<lambda>ts. Inr (tok # ts))
         else shlex_go LSpace q tok (skip_line cs))
      else if is_quote c then shlex_go (LQuote c) q tok cs
      else if c = backslash then shlex_go (LEscape None) q tok cs
      else shlex_go LWord q (tok @ [c]) cs)"
  by pat_completeness auto
termination
  by (relation "measure (\<lambda>(st, q, tok, s). length s)") (auto intro: le_imp_less_Suc length_skip_line)

definition shlex_split :: "string \<Rightarrow> shlex_error + string list" where
  "shlex_split s = shlex_go LSpace False [] s"

section \<open>Tokens hold only characters of the input\<close>

lemma set_skip_line: "set (skip_line s) \<subseteq> set s"
  unfolding skip_line_def by (metis list.set_sel(2) list.sel(2) set_dropWhileD subsetI)

lemma shlex_go_chars:
  "shlex_go st q tok s = Inr ts \<Longrightarrow> t \<in> set ts \<Longrightarrow> set t \<subseteq> set tok \<union> set s \<union> {backslash}"
proof (induction st q tok s arbitrary: ts rule: shlex_go.induct)
  case (2 q tok c cs)
  then show ?case
    using set_skip_line [of cs] by (fastforce split: if_splits)
next
  case (8 q tok c cs)
  then show ?case
    using set_skip_line [of cs] by (fastforce split: if_splits)
next
  case (6 e q tok c cs)
  then show ?case by (fastforce split: option.splits if_splits)
qed (fastforce simp: emit_def split: if_splits)+

end
