(* ===== verification/Command_Parser.thy ===== *)
theory Command_Parser
  imports Py_Shlex
begin

text \<open>
  The command parser of \<open>sift_core/execute/security.py\<close>: \<open>split_command_by_operators\<close>
  cuts a command line at its unquoted operators, and
  \<open>parse_subcommand_argv_and_redirects\<close> marks the unquoted redirections of one
  subcommand, tokenises it with \<open>shlex\<close> and separates arguments from redirections.
  The loops over an index are recursions over the characters left; \<open>current\<close> and the
  scanner's state are arguments.
  Theorems: the cut loses no character, no stage holds an unquoted operator, and for
  text with no comment sign the marker byte never reaches an argument.
\<close>

section \<open>Splitting at operators\<close>

datatype scan_state = NORMAL | SINGLE | DOUBLE | ESCAPE | ESCAPE_DOUBLE

abbreviation amp :: char where "amp \<equiv> CHR ''&''"
abbreviation pipe :: char where "pipe \<equiv> CHR ''|''"
abbreviation gt :: char where "gt \<equiv> CHR ''>''"
abbreviation lt :: char where "lt \<equiv> CHR ''<''"
abbreviation semi :: char where "semi \<equiv> CHR '';''"

text \<open>\<open>next((c for c in reversed(current) if not c.isspace()), "")\<close>.\<close>

definition last_nonspace :: "string \<Rightarrow> char option" where
  "last_nonspace current = find (\<lambda>c. \<not> isspace c) (rev current)"

function split_go :: "scan_state \<Rightarrow> string \<Rightarrow> string \<Rightarrow> (string \<times> string) list" where
  "split_go st current [] = (if current \<noteq> [] then [(strip current, [])] else [])"
| "split_go st current (c # cs) =
     (if st = ESCAPE then split_go NORMAL (current @ [c]) cs
      else if st = ESCAPE_DOUBLE then split_go DOUBLE (current @ [c]) cs
      else if st = SINGLE then
        split_go (if c = squote then NORMAL else SINGLE) (current @ [c]) cs
      else if st = DOUBLE then
        (if c = backslash then split_go ESCAPE_DOUBLE (current @ [c]) cs
         else split_go (if c = dquote then NORMAL else DOUBLE) (current @ [c]) cs)
      else if c = backslash then split_go ESCAPE (current @ [c]) cs
      else if c = squote then split_go SINGLE (current @ [c]) cs
      else if c = dquote then split_go DOUBLE (current @ [c]) cs
      else if c = amp \<and> startswith cs ''&'' then
        (strip current, ''&&'') # split_go NORMAL [] (tl cs)
      else if c = pipe \<and> startswith cs ''|'' then
        (strip current, ''||'') # split_go NORMAL [] (tl cs)
      else if c = amp then
        (if startswith cs ''>'' \<or> last_nonspace current = Some gt
         then split_go NORMAL (current @ [c]) cs
         else (strip current, ''&'') # split_go NORMAL [] cs)
      else if c = newline \<or> c = carriage then (strip current, '';'') # split_go NORMAL [] cs
      else if c = pipe then (strip current, ''|'') # split_go NORMAL [] cs
      else if c = semi then (strip current, '';'') # split_go NORMAL [] cs
      else split_go NORMAL (current @ [c]) cs)"
  by pat_completeness auto
termination
  by (relation "measure (\<lambda>(st, current, s). length s)") auto

definition split_command_by_operators :: "string \<Rightarrow> (string \<times> string) list" where
  "split_command_by_operators cmd_str = split_go NORMAL [] cmd_str"

section \<open>Arguments and redirections of one subcommand\<close>

datatype parse_error =
    ControlCharacters
  | UnsupportedRedirection
  | LexError shlex_error
  | MissingTarget string

abbreviation redir_mark :: char where "redir_mark \<equiv> CHR 0x01"

definition marked :: "string \<Rightarrow> string" where
  "marked op = [redir_mark] @ op @ [redir_mark]"

definition spaced :: "string \<Rightarrow> string" where
  "spaced op = '' '' @ marked op @ '' ''"

definition prepend :: "string \<Rightarrow> parse_error + string \<Rightarrow> parse_error + string" where
  "prepend w r = res_bind r (\<lambda>x. Inr (w @ x))"

function mark_go :: "scan_state \<Rightarrow> string \<Rightarrow> parse_error + string" where
  "mark_go st [] = Inr []"
| "mark_go st (c # cs) =
     (if st = ESCAPE then prepend [c] (mark_go NORMAL cs)
      else if st = ESCAPE_DOUBLE then prepend [c] (mark_go DOUBLE cs)
      else if st = SINGLE then
        prepend [c] (mark_go (if c = squote then NORMAL else SINGLE) cs)
      else if st = DOUBLE then
        (if c = backslash then prepend [c] (mark_go ESCAPE_DOUBLE cs)
         else prepend [c] (mark_go (if c = dquote then NORMAL else DOUBLE) cs))
      else if c = backslash then prepend [c] (mark_go ESCAPE cs)
      else if c = squote then prepend [c] (mark_go SINGLE cs)
      else if c = dquote then prepend [c] (mark_go DOUBLE cs)
      else if startswith (c # cs) ''2>&1'' then prepend (spaced ''2>&1'') (mark_go NORMAL (drop 3 cs))
      else if startswith (c # cs) ''2>>'' then prepend (spaced ''2>>'') (mark_go NORMAL (drop 2 cs))
      else if startswith (c # cs) ''2>'' then prepend (spaced ''2>'') (mark_go NORMAL (drop 1 cs))
      else if startswith (c # cs) ''&>>'' then prepend (spaced ''&>>'') (mark_go NORMAL (drop 2 cs))
      else if startswith (c # cs) ''&>'' then prepend (spaced ''&>'') (mark_go NORMAL (drop 1 cs))
      else if startswith (c # cs) ''>&'' \<or> (isdigit c \<and> startswith cs ''>'')
        then Inl UnsupportedRedirection
      else if startswith (c # cs) ''>>'' then prepend (spaced ''>>'') (mark_go NORMAL (drop 1 cs))
      else if c = gt then prepend (spaced ''>'') (mark_go NORMAL cs)
      else if startswith (c # cs) ''<<'' then prepend (spaced ''<<'') (mark_go NORMAL (drop 1 cs))
      else if c = lt then prepend (spaced ''<'') (mark_go NORMAL cs)
      else prepend [c] (mark_go NORMAL cs))"
  by pat_completeness auto
termination
  by (relation "measure (\<lambda>(st, s). length s)") auto

definition redirect_op :: "string \<Rightarrow> string option" where
  "redirect_op tok =
     (if startswith tok [redir_mark] \<and> endswith tok [redir_mark] \<and> 2 < length tok
      then Some (butlast (tl tok)) else None)"

definition file_redirects :: "string list" where
  "file_redirects = [''>'', ''>>'', ''<'', ''<<'', ''2>'', ''2>>'', ''&>'', ''&>>'']"

fun classify_tokens ::
  "string list \<Rightarrow> parse_error + (string list \<times> (string \<times> string) list)" where
  "classify_tokens [] = Inr ([], [])"
| "classify_tokens (tok # toks) =
     (if redirect_op tok = Some ''2>&1'' then
        res_bind (classify_tokens toks) (\<lambda>(argv, redirects). Inr (argv, (''2>&1'', []) # redirects))
      else case redirect_op tok of
        Some op \<Rightarrow>
          if op \<in> set file_redirects then
            (case toks of
               [] \<Rightarrow> Inl (MissingTarget op)
             | target # rest \<Rightarrow>
                 res_bind (classify_tokens rest)
                   (\<lambda>(argv, redirects). Inr (argv, (op, target) # redirects)))
          else res_bind (classify_tokens toks) (\<lambda>(argv, redirects). Inr (tok # argv, redirects))
      | None \<Rightarrow> res_bind (classify_tokens toks) (\<lambda>(argv, redirects). Inr (tok # argv, redirects)))"

definition parse_subcommand_argv_and_redirects ::
  "string \<Rightarrow> parse_error + (string list \<times> (string \<times> string) list)" where
  "parse_subcommand_argv_and_redirects subcmd_str =
     (if contains subcmd_str [CHR 0x00] \<or> contains subcmd_str [redir_mark]
      then Inl ControlCharacters
      else res_bind (mark_go NORMAL subcmd_str) (\<lambda>spaced_str.
        case shlex_split spaced_str of
          Inl e \<Rightarrow> Inl (LexError e)
        | Inr tokens \<Rightarrow> classify_tokens tokens))"

section \<open>The cut loses nothing\<close>

definition ink :: "string \<Rightarrow> string" where
  "ink s = filter (\<lambda>c. \<not> isspace c \<and> c \<noteq> semi) s"

lemma ink_simps [simp]:
  "ink [] = []" "ink (a @ b) = ink a @ ink b"
  "ink (c # s) = (if isspace c \<or> c = semi then ink s else c # ink s)"
  by (simp_all add: ink_def)

lemma ink_strip [simp]: "ink (strip s) = ink s"
proof -
  have "ink t = filter (\<lambda>c. c \<noteq> semi) (filter (\<lambda>c. \<not> isspace c) t)" for t
    by (simp add: ink_def conj_commute)
  then show ?thesis by (simp only: strip_filter)
qed

lemma space_chars [simp]:
  "isspace newline" "isspace carriage" "\<not> isspace amp" "\<not> isspace pipe" "\<not> isspace gt"
  "\<not> isspace squote" "\<not> isspace dquote" "\<not> isspace backslash" "\<not> isspace semi"
  by (simp_all add: isspace_def in_range_def)

lemma startswith_single: "startswith cs [c] \<Longrightarrow> \<exists>ds. cs = c # ds"
  by (cases cs) auto

text \<open>One step of the scanner: the state after a character, whether the character starts
  an operator there, and what the cut does in either case.\<close>

fun next_state :: "scan_state \<Rightarrow> char \<Rightarrow> scan_state" where
  "next_state ESCAPE c = NORMAL"
| "next_state ESCAPE_DOUBLE c = DOUBLE"
| "next_state SINGLE c = (if c = squote then NORMAL else SINGLE)"
| "next_state DOUBLE c =
     (if c = backslash then ESCAPE_DOUBLE else if c = dquote then NORMAL else DOUBLE)"
| "next_state NORMAL c =
     (if c = backslash then ESCAPE else if c = squote then SINGLE
      else if c = dquote then DOUBLE else NORMAL)"

definition is_op :: "scan_state \<Rightarrow> char option \<Rightarrow> char \<Rightarrow> string \<Rightarrow> bool" where
  "is_op st prev c cs \<longleftrightarrow> st = NORMAL \<and>
     (c = amp \<and> (startswith cs ''&'' \<or> \<not> startswith cs ''>'' \<and> prev \<noteq> Some gt) \<or>
      c = newline \<or> c = carriage \<or> c = pipe \<or> c = semi)"

lemma split_go_plain:
  "\<not> is_op st (last_nonspace current) c cs \<Longrightarrow>
   split_go st current (c # cs) = split_go (next_state st c) (current @ [c]) cs"
  by (cases st) (auto simp: is_op_def)

lemma split_go_op:
  assumes "is_op st (last_nonspace current) c cs"
  obtains op rest where
    "split_go st current (c # cs) = (strip current, op) # split_go NORMAL [] rest"
    "length rest \<le> length cs" "ink op @ ink rest = ink (c # cs)"
proof -
  have st: "st = NORMAL" using assms by (simp add: is_op_def)
  consider "c = amp" "startswith cs ''&''" | "c = amp" "\<not> startswith cs ''&''"
      "\<not> startswith cs ''>''" "last_nonspace current \<noteq> Some gt"
    | "c = newline \<or> c = carriage \<or> c = semi" | "c = pipe" "startswith cs ''|''"
    | "c = pipe" "\<not> startswith cs ''|''"
    using assms by (auto simp: is_op_def)
  then show ?thesis
  proof cases
    case 1
    then obtain ds where "cs = amp # ds" using startswith_single by blast
    with 1 st show ?thesis by (intro that [of "''&&''" ds]) simp_all
  next
    case 2
    with st show ?thesis by (intro that [of "''&''" cs]) auto
  next
    case 3
    with st show ?thesis by (intro that [of "'';''" cs]) auto
  next
    case 4
    then obtain ds where "cs = pipe # ds" using startswith_single by blast
    with 4 st show ?thesis by (intro that [of "''||''" ds]) simp_all
  next
    case 5
    with st show ?thesis by (intro that [of "''|''" cs]) auto
  qed
qed

text \<open>Induction along the scanner: a plain character, or an operator and what follows it.\<close>

lemma scan_induct [case_names Nil Plain Op]:
  assumes "\<And>st current. P st current []"
    and "\<And>st current c cs. \<not> is_op st (last_nonspace current) c cs \<Longrightarrow>
      P (next_state st c) (current @ [c]) cs \<Longrightarrow> P st current (c # cs)"
    and "\<And>st current c cs. is_op st (last_nonspace current) c cs \<Longrightarrow>
      (\<And>rest. length rest \<le> length cs \<Longrightarrow> P NORMAL [] rest) \<Longrightarrow> P st current (c # cs)"
  shows "P st current s"
proof (induction s arbitrary: st current rule: length_induct)
  case (1 s)
  show ?case
  proof (cases s)
    case Nil
    with assms(1) show ?thesis by simp
  next
    case (Cons c cs)
    with 1 have "P st' current' rest" if "length rest \<le> length cs" for st' current' rest
      using that by simp
    with Cons assms(2,3) show ?thesis
      by (cases "is_op st (last_nonspace current) c cs") simp_all
  qed
qed

lemma ink_split_go:
  "concat (map (\<lambda>(piece, op). ink piece @ ink op) (split_go st current s)) = ink (current @ s)"
proof (induction st current s rule: scan_induct)
  case (Nil st current)
  then show ?case by simp
next
  case (Plain st current c cs)
  then show ?case by (simp add: split_go_plain del: split_go.simps)
next
  case (Op st current c cs)
  from Op(1) show ?case
  proof (rule split_go_op)
    fix op rest
    assume "split_go st current (c # cs) = (strip current, op) # split_go NORMAL [] rest"
      and "length rest \<le> length cs" and "ink op @ ink rest = ink (c # cs)"
    with Op(2) [of rest] show ?thesis
      by (simp del: split_go.simps ink_simps(3))
  qed
qed

section \<open>No stage holds an operator\<close>

text \<open>\<open>opfree st prev s\<close>: scanning \<open>s\<close> from state \<open>st\<close>, after a text whose last non-space
  character is \<open>prev\<close>, meets no operator.\<close>

fun opfree :: "scan_state \<Rightarrow> char option \<Rightarrow> string \<Rightarrow> bool" where
  "opfree st prev [] = True"
| "opfree st prev (c # cs) =
     (\<not> is_op st prev c cs \<and> opfree (next_state st c) (if isspace c then prev else Some c) cs)"

lemma last_nonspace_append [simp]:
  "last_nonspace (a @ [c]) = (if isspace c then last_nonspace a else Some c)"
  by (simp add: last_nonspace_def)

lemma last_nonspace_Nil [simp]: "last_nonspace [] = None"
  by (simp add: last_nonspace_def)

lemma split_go_opfree:
  "opfree st (last_nonspace current) s \<Longrightarrow>
   split_go st current s = (if current @ s \<noteq> [] then [(strip (current @ s), [])] else [])"
  by (induction s arbitrary: st current) (simp_all add: split_go_plain del: split_go.simps(2))

lemma next_state_space: "isspace c \<Longrightarrow> next_state NORMAL c = NORMAL"
  by auto

lemma opfree_drop_space:
  "isspace c \<Longrightarrow> opfree NORMAL prev (c # s) \<Longrightarrow> opfree NORMAL prev s"
  by (simp add: next_state_space del: next_state.simps)

lemma is_op_butlast_space:
  "isspace c \<Longrightarrow> \<not> is_op st prev d (s @ [c]) \<Longrightarrow> \<not> is_op st prev d s"
  by (cases s) (auto simp: is_op_def)

lemma opfree_butlast_space:
  "isspace c \<Longrightarrow> opfree st prev (s @ [c]) \<Longrightarrow> opfree st prev s"
  by (induction s arbitrary: st prev) (auto dest: is_op_butlast_space)

lemma opfree_strip:
  assumes s: "opfree NORMAL None s"
  shows "opfree NORMAL None (strip s)"
proof -
  have lead: "opfree NORMAL None (dropWhile isspace t)" if "opfree NORMAL None t" for t
    using that by (induction t) (auto dest: opfree_drop_space simp del: opfree.simps(2))
  have trail: "opfree NORMAL None (rev (dropWhile isspace t))" if "opfree NORMAL None (rev t)" for t
    using that by (induction t) (auto dest: opfree_butlast_space)
  from trail [of "rev (dropWhile isspace s)"] lead [OF s] show ?thesis
    by (simp add: strip_def strip_by_def)
qed

text \<open>The scanner has read \<open>current\<close> without meeting an operator, looking at most one
  character ahead into \<open>s\<close>.\<close>

definition read_clean :: "scan_state \<Rightarrow> string \<Rightarrow> string \<Rightarrow> bool" where
  "read_clean st current s \<longleftrightarrow>
     (\<forall>r. startswith r ''>'' = startswith s ''>'' \<and> (startswith r ''&'' \<longrightarrow> startswith s ''&'') \<longrightarrow>
        opfree st (last_nonspace current) r \<longrightarrow> opfree NORMAL None (current @ r))"

lemma read_clean_Nil [simp]: "read_clean NORMAL [] s"
  by (simp add: read_clean_def)

lemma read_clean_step:
  assumes "read_clean st current (c # cs)" and "\<not> is_op st (last_nonspace current) c cs"
  shows "read_clean (next_state st c) (current @ [c]) cs"
  unfolding read_clean_def
proof (intro allI impI)
  fix r
  assume r: "startswith r ''>'' = startswith cs ''>'' \<and> (startswith r ''&'' \<longrightarrow> startswith cs ''&'')"
    and "opfree (next_state st c) (last_nonspace (current @ [c])) r"
  moreover from r assms(2) have "\<not> is_op st (last_nonspace current) c r"
    by (auto simp: is_op_def)
  ultimately have "opfree st (last_nonspace current) (c # r)" by simp
  with assms(1) have "opfree NORMAL None (current @ c # r)"
    by (auto simp: read_clean_def simp del: opfree.simps)
  then show "opfree NORMAL None ((current @ [c]) @ r)" by simp
qed

lemma read_clean_done:
  assumes "read_clean st current s" and "\<not> startswith s ''>''"
  shows "opfree NORMAL None (strip current)"
proof (rule opfree_strip)
  have "opfree NORMAL None (current @ [])"
    using assms unfolding read_clean_def by (metis opfree.simps(1) startswith_simps(2))
  then show "opfree NORMAL None current" by simp
qed

lemma split_go_pieces:
  "read_clean st current s \<Longrightarrow> (piece, op) \<in> set (split_go st current s) \<Longrightarrow>
   opfree NORMAL None piece"
proof (induction st current s rule: scan_induct)
  case (Nil st current)
  then show ?case by (auto dest: read_clean_done split: if_splits)
next
  case (Plain st current c cs)
  then show ?case by (simp add: split_go_plain read_clean_step del: split_go.simps)
next
  case (Op st current c cs)
  have "\<not> startswith (c # cs) ''>''" using Op(1) by (auto simp: is_op_def)
  with Op(3) have cur: "opfree NORMAL None (strip current)" by (rule read_clean_done)
  from Op(1) show ?case
  proof (rule split_go_op)
    fix op' rest
    assume "split_go st current (c # cs) = (strip current, op') # split_go NORMAL [] rest"
      and "length rest \<le> length cs"
    with Op(2) [of rest] Op(4) cur show ?thesis by (auto simp del: split_go.simps)
  qed
qed


text \<open>No stage hides a further command: every stage the cut returns holds no unquoted
  operator, so cutting it again returns it alone with no operator.\<close>

theorem split_stages_operator_free:
  assumes "(piece, op) \<in> set (split_command_by_operators cmd_str)"
  shows "split_command_by_operators piece =
    (if piece = [] then [] else [(strip piece, [])])"
proof -
  from assms have "opfree NORMAL None piece"
    using split_go_pieces [OF read_clean_Nil] by (simp add: split_command_by_operators_def)
  then show ?thesis
    by (simp add: split_command_by_operators_def split_go_opfree)
qed

theorem split_stages_operator_free_witness:
  "(''cat 'x;y' 2>&1'', ''|'') \<in> set (split_command_by_operators ''cat 'x;y' 2>&1 | wc'') \<and>
   split_command_by_operators ''cat 'x;y' 2>&1'' = [(strip ''cat 'x;y' 2>&1'', [])]"
proof -
  have m: "(''cat 'x;y' 2>&1'', ''|'') \<in> set (split_command_by_operators ''cat 'x;y' 2>&1 | wc'')"
    by code_simp
  from split_stages_operator_free [OF m] m show ?thesis by simp
qed

section \<open>Markers and arguments\<close>

text \<open>The lexer's states that a scanner state can meet on text with no comment sign.\<close>

fun same_state :: "scan_state \<Rightarrow> lex_state \<Rightarrow> bool" where
  "same_state NORMAL l = (l = LSpace \<or> l = LWord)"
| "same_state SINGLE l = (l = LQuote squote)"
| "same_state DOUBLE l = (l = LQuote dquote)"
| "same_state ESCAPE l = (l = LEscape None)"
| "same_state ESCAPE_DOUBLE l = (l = LEscape (Some dquote))"

definition all_ops :: "string list" where
  "all_ops = ''2>&1'' # file_redirects"

definition clean_token :: "string \<Rightarrow> bool" where
  "clean_token t \<longleftrightarrow> redir_mark \<notin> set t \<or> (\<exists>op \<in> set all_ops. t = marked op)"

lemma lex_plain:
  assumes "\<not> lex_ws c" "c \<noteq> hash" "c \<noteq> backslash" "\<not> is_quote c"
  shows "shlex_go LSpace q tok (c # cs) = shlex_go LWord q [c] cs"
    and "shlex_go LWord q tok (c # cs) = shlex_go LWord q (tok @ [c]) cs"
  using assms by auto

text \<open>A marked operator ends the current token and is a token of its own.\<close>

lemma shlex_spaced:
  assumes "op \<in> set all_ops" and "l = LSpace \<or> l = LWord"
    and "shlex_go l q tok (spaced op @ rest) = Inr ts"
  shows "\<exists>us. shlex_go LSpace False [] rest = Inr us \<and> ts = emit q tok (marked op # us)"
  using assms
  by (auto simp: all_ops_def file_redirects_def spaced_def marked_def lex_ws_def is_quote_def emit_def
      split: if_splits)

lemma lex_keep:
  "shlex_go l' q' tok' rest = Inr ts \<Longrightarrow> same_state st' l' \<Longrightarrow> redir_mark \<notin> set tok' \<Longrightarrow>
   \<exists>l' q' tok' us. same_state st' l' \<and> shlex_go l' q' tok' rest = Inr us \<and>
     redir_mark \<notin> set tok' \<and> set ts \<subseteq> insert tok (set us)"
  by (intro exI [of _ l'] exI [of _ q'] exI [of _ tok'] exI [of _ ts]) auto

lemma lex_step_normal:
  assumes st: "st = NORMAL" and "same_state st l" and "c \<noteq> hash" and "shlex_go l q tok (c # rest) = Inr ts"
    and "c \<noteq> redir_mark" and "redir_mark \<notin> set tok"
  shows "\<exists>l' q' tok' us. same_state (next_state st c) l' \<and> shlex_go l' q' tok' rest = Inr us \<and>
    redir_mark \<notin> set tok' \<and> set ts \<subseteq> insert tok (set us)"
proof -
  have l: "l = LSpace \<or> l = LWord" using assms(2) st by simp
  consider "lex_ws c" | "c = backslash" | "c = squote" | "c = dquote"
    | "\<not> lex_ws c" "c \<noteq> backslash" "\<not> is_quote c"
    by (auto simp: is_quote_def)
  then show ?thesis
  proof cases
    case 1
    then have "c \<noteq> backslash" "c \<noteq> squote" "c \<noteq> dquote" by (auto simp: lex_ws_def)
    then have n: "next_state st c = NORMAL" using st by simp
    from 1 l assms(3,4) have "\<exists>us. shlex_go LSpace False [] rest = Inr us \<and> set ts \<subseteq> insert tok (set us)"
      by (auto split: if_splits)
    then obtain us where "shlex_go LSpace False [] rest = Inr us" "set ts \<subseteq> insert tok (set us)"
      by blast
    then show ?thesis unfolding n
      by (intro exI [of _ LSpace] exI [of _ False] exI [of _ "[]"] exI [of _ us]) simp
  next
    case 5
    with l assms st have "\<exists>tok'. shlex_go LWord q tok' rest = Inr ts \<and> redir_mark \<notin> set tok'"
      by (auto simp: lex_plain)
    moreover have "next_state st c = NORMAL" using 5 st by (simp add: is_quote_def)
    ultimately show ?thesis by auto
  next
    case 2
    then have "shlex_go (LEscape None) q tok rest = Inr ts"
      using l assms(3,4) by (auto simp: lex_ws_def is_quote_def)
    moreover have "next_state st c = ESCAPE" using 2 st by simp
    ultimately show ?thesis using assms(6) by (auto intro: lex_keep)
  next
    case 3
    then have "shlex_go (LQuote squote) q tok rest = Inr ts"
      using l assms(3,4) by (auto simp: lex_ws_def is_quote_def)
    moreover have "next_state st c = SINGLE" using 3 st by simp
    ultimately show ?thesis using assms(6) by (auto intro: lex_keep)
  next
    case 4
    then have "shlex_go (LQuote dquote) q tok rest = Inr ts"
      using l assms(3,4) by (auto simp: lex_ws_def is_quote_def)
    moreover have "next_state st c = DOUBLE" using 4 st by simp
    ultimately show ?thesis using assms(6) by (auto intro: lex_keep)
  qed
qed

lemma lex_step_single:
  assumes st: "st = SINGLE" and "same_state st l" and "c \<noteq> hash" and "shlex_go l q tok (c # rest) = Inr ts"
    and "c \<noteq> redir_mark" and "redir_mark \<notin> set tok"
  shows "\<exists>l' q' tok' us. same_state (next_state st c) l' \<and> shlex_go l' q' tok' rest = Inr us \<and>
    redir_mark \<notin> set tok' \<and> set ts \<subseteq> insert tok (set us)"
proof -
  from assms have r: "if c = squote then shlex_go LWord True tok rest = Inr ts
      else shlex_go (LQuote squote) True (tok @ [c]) rest = Inr ts" by (simp split: if_splits)
  show ?thesis
  proof (cases "c = squote")
    case True
    with r have "shlex_go LWord True tok rest = Inr ts" by simp
    then show ?thesis by (rule lex_keep) (use st True assms(5,6) in auto)
  next
    case False
    with r have "shlex_go (LQuote squote) True (tok @ [c]) rest = Inr ts" by simp
    then show ?thesis by (rule lex_keep) (use st False assms(5,6) in auto)
  qed
qed

lemma lex_step_double:
  assumes st: "st = DOUBLE" and "same_state st l" and "c \<noteq> hash" and "shlex_go l q tok (c # rest) = Inr ts"
    and "c \<noteq> redir_mark" and "redir_mark \<notin> set tok"
  shows "\<exists>l' q' tok' us. same_state (next_state st c) l' \<and> shlex_go l' q' tok' rest = Inr us \<and>
    redir_mark \<notin> set tok' \<and> set ts \<subseteq> insert tok (set us)"
proof -
  from assms have r: "if c = dquote then shlex_go LWord True tok rest = Inr ts
      else if c = backslash then shlex_go (LEscape (Some dquote)) True tok rest = Inr ts
      else shlex_go (LQuote dquote) True (tok @ [c]) rest = Inr ts" by (simp split: if_splits)
  consider "c = dquote" | "c = backslash" | "c \<noteq> dquote" "c \<noteq> backslash" by blast
  then show ?thesis
  proof cases
    case 1
    with r have "shlex_go LWord True tok rest = Inr ts" by simp
    then show ?thesis by (rule lex_keep) (use st 1 assms(5,6) in auto)
  next
    case 2
    with r have "shlex_go (LEscape (Some dquote)) True tok rest = Inr ts" by simp
    then show ?thesis by (rule lex_keep) (use st 2 assms(5,6) in auto)
  next
    case 3
    with r have "shlex_go (LQuote dquote) True (tok @ [c]) rest = Inr ts" by simp
    then show ?thesis by (rule lex_keep) (use st 3 assms(5,6) in auto)
  qed
qed

lemma lex_step:
  assumes "same_state st l" and "c \<noteq> hash" and "shlex_go l q tok (c # rest) = Inr ts"
    and "c \<noteq> redir_mark" and "redir_mark \<notin> set tok"
  shows "\<exists>l' q' tok' us. same_state (next_state st c) l' \<and> shlex_go l' q' tok' rest = Inr us \<and>
    redir_mark \<notin> set tok' \<and> set ts \<subseteq> insert tok (set us)"
proof (cases st)
  case NORMAL
  then show ?thesis using assms by (rule lex_step_normal)
next
  case ESCAPE
  with assms have "shlex_go LWord q (tok @ [c]) rest = Inr ts" by simp
  then show ?thesis by (rule lex_keep) (use ESCAPE assms(4,5) in auto)
next
  case ESCAPE_DOUBLE
  with assms have "shlex_go (LQuote dquote) q
      (tok @ (if c \<noteq> backslash \<and> c \<noteq> dquote then [backslash] else []) @ [c]) rest = Inr ts" by simp
  then show ?thesis by (rule lex_keep) (use ESCAPE_DOUBLE assms(4,5) in auto)
next
  case SINGLE
  then show ?thesis using assms by (rule lex_step_single)
next
  case DOUBLE
  then show ?thesis using assms by (rule lex_step_double)
qed

lemma prepend_Inr [simp]: "prepend w r = Inr out \<longleftrightarrow> (\<exists>x. r = Inr x \<and> out = w @ x)"
  by (auto simp: prepend_def)

lemma mark_step:
  assumes "mark_go st (c # cs) = Inr out"
  shows "(\<exists>x. out = c # x \<and> mark_go (next_state st c) cs = Inr x) \<or>
    (st = NORMAL \<and> (\<exists>op \<in> set all_ops. \<exists>n x. out = spaced op @ x \<and> mark_go NORMAL (drop n cs) = Inr x))"
proof (cases "st = NORMAL \<and> c \<noteq> backslash \<and> c \<noteq> squote \<and> c \<noteq> dquote")
  case False
  with assms show ?thesis by (cases st) (auto split: if_splits)
next
  case True
  then have n: "next_state st c = NORMAL" by simp
  have d0: "drop 0 cs = cs" by simp
  from True assms show ?thesis
    unfolding n by (simp add: all_ops_def file_redirects_def split: if_splits) (metis d0)+
qed

lemma marked_tokens_clean:
  assumes "mark_go st s = Inr out" and "same_state st l" and "shlex_go l q tok out = Inr ts"
    and "hash \<notin> set s" and "redir_mark \<notin> set s" and "redir_mark \<notin> set tok"
  shows "\<forall>t \<in> set ts. clean_token t"
  using assms
proof (induction s arbitrary: st out l q tok ts rule: length_induct)
  case (1 s)
  show ?case
  proof (cases s)
    case Nil
    with "1.prems" have "out = []" by simp
    with "1.prems" show ?thesis
      by (cases st) (auto simp: emit_def clean_token_def split: if_splits)
  next
    case (Cons c cs)
    from mark_step [OF "1.prems"(1) [unfolded Cons]] show ?thesis
    proof (elim disjE exE conjE bexE)
      fix x
      assume x: "out = c # x" "mark_go (next_state st c) cs = Inr x"
      from lex_step [OF "1.prems"(2) _ "1.prems"(3) [unfolded x(1)] _ "1.prems"(6)] "1.prems"(4,5) Cons
      obtain l' q' tok' us where "same_state (next_state st c) l'"
        "shlex_go l' q' tok' x = Inr us" "redir_mark \<notin> set tok'" "set ts \<subseteq> insert tok (set us)"
        by auto
      moreover from this "1.IH" x(2) "1.prems"(4,5) Cons have "\<forall>t \<in> set us. clean_token t"
        by (metis length_Cons lessI list.set_intros(2))
      ultimately show ?thesis using "1.prems"(6) by (auto simp: clean_token_def)
    next
      fix op n x
      assume op: "st = NORMAL" "op \<in> set all_ops" "out = spaced op @ x"
        "mark_go NORMAL (drop n cs) = Inr x"
      from shlex_spaced [OF op(2) _ "1.prems"(3) [unfolded op(3)]] "1.prems"(2) op(1)
      obtain us where us: "shlex_go LSpace False [] x = Inr us" "ts = emit q tok (marked op # us)"
        by auto
      have "length (drop n cs) < length s" using Cons by simp
      moreover have "hash \<notin> set (drop n cs)" "redir_mark \<notin> set (drop n cs)"
        using "1.prems"(4,5) Cons by (auto dest: in_set_dropD)
      ultimately have "\<forall>t \<in> set us. clean_token t"
        using "1.IH" op(4) us(1) by (metis empty_iff list.set(1) same_state.simps(1))
      with us(2) op(2) "1.prems"(6) show ?thesis
        by (auto simp: emit_def clean_token_def)
    qed
  qed
qed

lemma redirect_op_marked: "op \<noteq> [] \<Longrightarrow> redirect_op (marked op) = Some op"
  by (simp add: redirect_op_def marked_def endswith_def Suc_lessI)

lemma all_ops_nonempty: "op \<in> set all_ops \<Longrightarrow> op \<noteq> []"
  by (auto simp: all_ops_def file_redirects_def)

lemma classify_clean:
  "classify_tokens toks = Inr (argv, redirects) \<Longrightarrow> \<forall>t \<in> set toks. clean_token t \<Longrightarrow>
   (\<forall>a \<in> set argv. redir_mark \<notin> set a) \<and> (\<forall>(op, target) \<in> set redirects. op \<in> set all_ops)"
proof (induction toks arbitrary: argv redirects rule: classify_tokens.induct)
  case 1
  then show ?case by simp
next
  case (2 tok toks)
  have ops: "redirect_op tok = Some op" if "tok = marked op" "op \<in> set all_ops" for op
    using that redirect_op_marked all_ops_nonempty by blast
  have "clean_token tok" using "2.prems" by simp
  then consider "redir_mark \<notin> set tok" | op where "op \<in> set all_ops" "redirect_op tok = Some op"
    using ops unfolding clean_token_def by blast
  then show ?case
  proof cases
    case 1
    then have "redirect_op tok = None"
      by (cases tok) (auto simp: redirect_op_def)
    with 1 2 show ?thesis by fastforce
  next
    case (2 op)
    with "2.IH" "2.prems" show ?thesis
      by (cases toks) (fastforce simp: all_ops_def split: if_splits)+
  qed
qed

lemma parse_steps:
  assumes "parse_subcommand_argv_and_redirects s = Inr (argv, redirects)"
  shows "\<exists>out toks. redir_mark \<notin> set s \<and> mark_go NORMAL s = Inr out \<and> shlex_split out = Inr toks \<and>
    classify_tokens toks = Inr (argv, redirects)"
  using assms unfolding parse_subcommand_argv_and_redirects_def contains_single
  by (cases "mark_go NORMAL s"; cases "shlex_split (projr (mark_go NORMAL s))") (auto split: if_splits)

lemma classify_ops:
  "classify_tokens toks = Inr (argv, redirects) \<Longrightarrow> (op, target) \<in> set redirects \<Longrightarrow> op \<in> set all_ops"
  by (induction toks arbitrary: argv redirects rule: classify_tokens.induct)
    (fastforce simp: all_ops_def split: if_splits option.splits list.splits)+

lemma parse_ops:
  "parse_subcommand_argv_and_redirects s = Inr (argv, redirects) \<Longrightarrow> (op, target) \<in> set redirects \<Longrightarrow>
   op \<in> set all_ops"
  using parse_steps classify_ops by blast

text \<open>For a subcommand with no comment sign the parser tells redirections from
  arguments: every operator it returns is one of the nine supported ones, and no
  argument holds the internal marker byte, so no unquoted redirection is passed to the
  program as an argument.\<close>

theorem parse_argv_has_no_marker:
  assumes "parse_subcommand_argv_and_redirects s = Inr (argv, redirects)" and "hash \<notin> set s"
  shows "(\<forall>a \<in> set argv. redir_mark \<notin> set a) \<and>
    (\<forall>(op, target) \<in> set redirects. op \<in> set all_ops)"
proof -
  from parse_steps [OF assms(1)] obtain out toks where "redir_mark \<notin> set s"
    and "mark_go NORMAL s = Inr out" and "shlex_go LSpace False [] out = Inr toks"
    and c: "classify_tokens toks = Inr (argv, redirects)"
    unfolding shlex_split_def by blast
  then have "\<forall>t \<in> set toks. clean_token t"
    using assms(2) by (intro marked_tokens_clean [of NORMAL s out LSpace False "[]" toks]) auto
  with c show ?thesis by (rule classify_clean)
qed

theorem parse_argv_has_no_marker_witness:
  "parse_subcommand_argv_and_redirects ''grep '>' f 2>&1 > o'' =
     Inr ([''grep'', ''>'', ''f''], [(''2>&1'', []), (''>'', ''o'')]) \<and>
   list_all (\<lambda>a. redir_mark \<notin> set a) [''grep'', ''>'', ''f'']"
proof -
  have p: "parse_subcommand_argv_and_redirects ''grep '>' f 2>&1 > o'' =
     Inr ([''grep'', ''>'', ''f''], [(''2>&1'', []), (''>'', ''o'')])"
    by code_simp
  have "hash \<notin> set ''grep '>' f 2>&1 > o''" by simp
  from parse_argv_has_no_marker [OF p this] p show ?thesis by simp
qed

text \<open>The two limits of that statement.  A quote inside a comment is a quote for the
  marker scanner and not for \<open>shlex\<close>, so after it the two disagree and a redirection
  becomes an argument with marker bytes.  And a redirection operator is accepted as the
  target of another one.\<close>

lemma comment_quote_leaks_marker:
  "parse_subcommand_argv_and_redirects (''echo # '' @ [squote, newline, squote] @ '' > x '' @ [squote]) =
     Inr ([''echo'', '' '' @ spaced ''>'' @ '' x ''], [])"
  by code_simp

lemma operator_taken_as_target:
  "parse_subcommand_argv_and_redirects ''ls > > x'' = Inr ([''ls'', ''x''], [(''>'', marked ''>'')])"
  by code_simp

end
