(* ===== verification/Py_Text.thy ===== *)
theory Py_Text
  imports Py_String
begin

text \<open>
  Cutting text at a separator and joining it again, decimal numerals and upper case: Python's
  \<open>str.split(c)\<close>, \<open>c.join\<close>, \<open>str(n)\<close>, \<open>str.isdigit\<close>, \<open>int(s)\<close> and \<open>str.upper\<close>, with the facts the
  components share: splitting and joining are inverse, and the numerals without leading
  zeros are exactly the texts of the numbers.
\<close>

section \<open>Splitting and joining\<close>

fun split_char :: "char \<Rightarrow> string \<Rightarrow> string list" where
  "split_char c [] = [[]]"
| "split_char c (x # xs) =
     (if x = c then [] # split_char c xs
      else (case split_char c xs of [] \<Rightarrow> [[x]] | w # ws \<Rightarrow> (x # w) # ws))"

fun join_char :: "char \<Rightarrow> string list \<Rightarrow> string" where
  "join_char c [] = []"
| "join_char c [w] = w"
| "join_char c (w # ws) = w @ c # join_char c ws"

lemma split_char_no_sep: "w \<in> set (split_char c s) \<Longrightarrow> c \<notin> set w"
  by (induction s arbitrary: w) (auto split: if_splits list.splits)

lemma split_char_ne [simp]: "split_char c s \<noteq> []"
  by (induction s) (auto split: list.splits)

lemma split_char_join: "c \<notin> set w \<Longrightarrow> split_char c (w @ c # s) = w # split_char c s"
  by (induction w) auto

lemma split_char_single: "c \<notin> set w \<Longrightarrow> split_char c w = [w]"
  by (induction w) auto

lemma join_split_char: "join_char c (split_char c s) = s"
proof (induction s)
  case (Cons x s)
  obtain w ws where "split_char c s = w # ws" by (cases "split_char c s") simp_all
  with Cons show ?case by (cases ws) auto
qed simp

lemma split_join_char: "ws \<noteq> [] \<Longrightarrow> \<forall>w \<in> set ws. c \<notin> set w \<Longrightarrow> split_char c (join_char c ws) = ws"
  by (induction c ws rule: join_char.induct) (simp_all add: split_char_join split_char_single)

lemma split_char_eq_iff:
  "split_char c s = ws \<longleftrightarrow> ws \<noteq> [] \<and> (\<forall>w \<in> set ws. c \<notin> set w) \<and> s = join_char c ws"
  using join_split_char split_join_char split_char_no_sep split_char_ne by metis

lemma set_join_char: "set (join_char c ws) \<subseteq> insert c (\<Union>(set ` set ws))"
  by (induction c ws rule: join_char.induct) auto

lemma length_join_char: "ws \<noteq> [] \<Longrightarrow> length (join_char c ws) + 1 = sum_list (map length ws) + length ws"
  by (induction c ws rule: join_char.induct) auto

lemma set_split_char: "w \<in> set (split_char c s) \<Longrightarrow> set w \<subseteq> set s"
  by (induction s arbitrary: w) (fastforce split: if_splits list.splits)+

lemma length_split_char: "length (split_char c s) = Suc (length (filter (\<lambda>x. x = c) s))"
  by (induction s) (auto split: list.splits)

lemma startswith_char [str_simps]: "startswith s [c] \<longleftrightarrow> s \<noteq> [] \<and> hd s = c"
  by (cases s) auto

lemma endswith_char [str_simps]: "endswith s [c] \<longleftrightarrow> s \<noteq> [] \<and> last s = c"
  by (cases s rule: rev_cases) (simp_all add: endswith_def)

section \<open>Decimal numerals\<close>

text \<open>\<open>int(s)\<close> of a text of digits 0 to 9; the other digits of Latin-1 are refused by it.\<close>

definition ascii_digit :: "char \<Rightarrow> bool" where
  "ascii_digit c \<longleftrightarrow> in_range 48 57 c"

definition int_digits :: "string \<Rightarrow> nat" where
  "int_digits s = foldl (\<lambda>n c. 10 * n + (code c - 48)) 0 s"

definition str_isdigit :: "string \<Rightarrow> bool" where
  "str_isdigit s \<longleftrightarrow> s \<noteq> [] \<and> list_all isdigit s"

definition int_text :: "string \<Rightarrow> nat option" where
  "int_text s = (if s \<noteq> [] \<and> list_all ascii_digit s then Some (int_digits s) else None)"

fun dec_digits :: "nat \<Rightarrow> string" where
  "dec_digits n = (if n < 10 then [char_of (48 + n)] else dec_digits (n div 10) @ [char_of (48 + n mod 10)])"

declare dec_digits.simps [simp del]

lemma digit_code: "n < 10 \<Longrightarrow> code (char_of (48 + n :: nat)) = 48 + n"
  by (simp add: take_bit_eq_mod)

lemma ascii_digit_char: "n < 10 \<Longrightarrow> ascii_digit (char_of (48 + n :: nat))"
  by (simp add: ascii_digit_def in_range_def digit_code)

lemma ascii_digit_of: "ascii_digit c \<Longrightarrow> c = char_of (48 + (code c - 48)) \<and> code c - 48 < 10"
  unfolding ascii_digit_def in_range_def by (rule conjI) (simp, linarith)

lemma int_digits_snoc: "int_digits (s @ [c]) = 10 * int_digits s + (code c - 48)"
  by (simp add: int_digits_def)

lemma dec_digits_ascii: "list_all ascii_digit (dec_digits n)"
proof (induction n rule: dec_digits.induct)
  case (1 n)
  then show ?case by (subst dec_digits.simps) (auto simp: ascii_digit_char)
qed

lemma dec_digits_ne [simp]: "dec_digits n \<noteq> []"
  by (subst dec_digits.simps) simp

lemma int_dec_digits [simp]: "int_digits (dec_digits n) = n"
proof (induction n rule: dec_digits.induct)
  case (1 n)
  show ?case
  proof (cases "n < 10")
    case True
    then show ?thesis by (subst dec_digits.simps) (simp add: int_digits_def digit_code)
  next
    case False
    then have "int_digits (dec_digits n) = 10 * (n div 10) + (code (char_of (48 + n mod 10)) - 48)"
      using 1 [OF False] by (subst dec_digits.simps) (simp only: if_False int_digits_snoc simp_thms)
    also have "\<dots> = n" by (subst digit_code) simp_all
    finally show ?thesis .
  qed
qed

text \<open>A text of digits is the numeral of its value exactly when it has no leading zero.\<close>

lemma hd_dec_digits: "hd (dec_digits n) = CHR ''0'' \<longleftrightarrow> n = 0"
proof (induction n rule: dec_digits.induct)
  case (1 n)
  show ?case
  proof (cases "n < 10")
    case True
    have "char_of (48 + n) = CHR ''0'' \<longleftrightarrow> code (char_of (48 + n)) = code (CHR ''0'')" by (metis char_of_char)
    then show ?thesis using True by (subst dec_digits.simps) (simp add: digit_code)
  next
    case False
    then show ?thesis using 1 by (subst dec_digits.simps) (simp add: hd_append)
  qed
qed

lemma numeral_iff:
  assumes "s \<noteq> []" and "list_all ascii_digit s"
  shows "dec_digits (int_digits s) = s \<longleftrightarrow> length s = 1 \<or> hd s \<noteq> CHR ''0''"
  using assms
proof (induction s rule: rev_induct)
  case (snoc c s)
  let ?d = "code c - 48"
  have c: "c = char_of (48 + ?d)" and d: "?d < 10" using snoc.prems ascii_digit_of [of c] by auto
  show ?case
  proof (cases "s = []")
    case True
    have "dec_digits (int_digits [c]) = [char_of (48 + ?d)]"
      using d by (subst dec_digits.simps) (simp add: int_digits_def)
    with True c show ?thesis by simp
  next
    case False
    then have IH: "dec_digits (int_digits s) = s \<longleftrightarrow> length s = 1 \<or> hd s \<noteq> CHR ''0''"
      and digits: "list_all ascii_digit s" using snoc by auto
    have hd: "hd (s @ [c]) = hd s" and len: "length (s @ [c]) \<noteq> 1" using False by auto
    show ?thesis
    proof (cases "int_digits s = 0")
      case True
      have "dec_digits (int_digits (s @ [c])) = [char_of (48 + ?d)]"
        using True d by (subst dec_digits.simps) (simp add: int_digits_snoc)
      moreover have "hd s = CHR ''0''"
      proof (cases "length s = 1 \<or> hd s \<noteq> CHR ''0''")
        case True
        with IH \<open>int_digits s = 0\<close> have "hd (dec_digits 0) = hd s" by simp
        with hd_dec_digits [of 0] show ?thesis by simp
      qed simp
      ultimately show ?thesis using False hd len by auto
    next
      case nz: False
      have "int_digits (s @ [c]) \<ge> 10" using nz by (simp add: int_digits_snoc)
      then have "dec_digits (int_digits (s @ [c])) = dec_digits (int_digits s) @ [char_of (48 + ?d)]"
        using d by (subst dec_digits.simps) (simp add: int_digits_snoc)
      then have step: "dec_digits (int_digits (s @ [c])) = s @ [c] \<longleftrightarrow> dec_digits (int_digits s) = s" using c by auto
      have one: "hd s \<noteq> CHR ''0''" if "length s = 1"
      proof
        assume "hd s = CHR ''0''"
        with that have "s = ''0''" by (cases s) auto
        with nz show False by (simp add: int_digits_def)
      qed
      show ?thesis unfolding step IH hd using len one by blast
    qed
  qed
qed simp

section \<open>Upper case\<close>

text \<open>The two letters with a capital outside Latin-1 are left.\<close>

definition upper_char :: "char \<Rightarrow> string" where
  "upper_char c = (if in_range 97 122 c \<or> (in_range 224 254 c \<and> code c \<noteq> 247) then [char_of (code c - 32)]
     else if code c = 223 then ''SS'' else [c])"

definition upper :: "string \<Rightarrow> string" where
  "upper s = concat (map upper_char s)"

end
