(* ===== verification/Host.thy ===== *)
theory Host
  imports Sift_Prelude Py_Text
begin

text \<open>
  What the policy code reads of its surroundings, and the resolution of paths.

  \<^item> A \<open>pathlib\<close> path is a list of names with a mark for the leading slash
    (\<open>py_path\<close>); \<open>parse_path\<close> is the constructor \<open>Path(s)\<close>, \<open>path_str\<close> is \<open>str(p)\<close> of an
    absolute path and \<open>path_join\<close> is the operator \<open>/\<close>.
  \<^item> \<open>host\<close> is the process environment: working directory, home, temporary
    directory, environment variables, the request's \<open>AuthorityContext\<close>, and the file
    system as far as the code asks it (symbolic links, executables, the case
    document).
  \<^item> \<open>real_path\<close> is \<open>Path.resolve()\<close>: it walks the names of a path, drops the last name
    at \<open>..\<close> and continues with the target at a symbolic link.  A walk that does not
    end (a cycle of links, where \<open>resolve\<close> raises) has the value \<open>None\<close>.

  Shown here: a resolved path holds no link and no \<open>..\<close> and resolves to itself, and
  parsing the text of such a path gives it back.
\<close>

section \<open>Paths\<close>

type_synonym comps = "string list"

datatype py_path = AbsPath comps | RelPath comps

abbreviation slash :: char where "slash \<equiv> CHR ''/''"

definition path_names :: "string \<Rightarrow> comps" where
  "path_names s = filter (\<lambda>w. w \<noteq> [] \<and> w \<noteq> ''.'') (split_char slash s)"

definition parse_path :: "string \<Rightarrow> py_path" where
  "parse_path s = (if startswith s ''/'' then AbsPath (path_names s) else RelPath (path_names s))"

fun join_names :: "comps \<Rightarrow> string" where
  "join_names [] = []"
| "join_names [n] = n"
| "join_names (n # ns) = n @ slash # join_names ns"

definition path_str :: "comps \<Rightarrow> string" where
  "path_str p = slash # join_names p"

fun py_path_str :: "py_path \<Rightarrow> string" where
  "py_path_str (AbsPath p) = path_str p"
| "py_path_str (RelPath p) = (if p = [] then ''.'' else join_names p)"

fun path_join :: "py_path \<Rightarrow> string \<Rightarrow> py_path" where
  "path_join (AbsPath p) s =
     (case parse_path s of AbsPath q \<Rightarrow> AbsPath q | RelPath q \<Rightarrow> AbsPath (p @ q))"
| "path_join (RelPath p) s =
     (case parse_path s of AbsPath q \<Rightarrow> AbsPath q | RelPath q \<Rightarrow> RelPath (p @ q))"

definition path_name :: "comps \<Rightarrow> string" where
  "path_name p = (if p = [] then [] else last p)"

section \<open>The process and its file system\<close>

text \<open>\<open>AuthorityContext\<close>, with the fields the resolvers read.\<close>

record authority_context =
  case_id :: string
  case_key :: string
  artifact_path :: "string option"
  db_active :: bool

text \<open>\<open>AuthorityContext.case_dir\<close>: the empty string counts as absent.\<close>

definition context_case_dir :: "authority_context \<Rightarrow> string option" where
  "context_case_dir ctx =
     (case artifact_path ctx of
        None \<Rightarrow> None
      | Some s \<Rightarrow> if s = [] then None else Some s)"

record host =
  cwd :: comps
  home :: comps
  tmpdir :: comps
  environ :: "string \<Rightarrow> string option"
  active_case :: "authority_context option"
  readlink :: "comps \<Rightarrow> string option"
  fs_is_dir :: "py_path \<Rightarrow> bool"
  fs_exists :: "py_path \<Rightarrow> bool"
  case_yaml_id :: "py_path \<Rightarrow> string option"
  which :: "string \<Rightarrow> string option"
  is_executable :: "py_path \<Rightarrow> bool"
  opt_bin_dirs :: "string list"
  nfc :: "string \<Rightarrow> string"

definition getenv :: "host \<Rightarrow> string \<Rightarrow> string" where
  "getenv h name = (case environ h name of None \<Rightarrow> [] | Some v \<Rightarrow> v)"

text \<open>\<open>_env_db_active\<close> and \<open>db_authority_active\<close>.\<close>

definition env_db_active :: "host \<Rightarrow> bool" where
  "env_db_active h \<longleftrightarrow>
     lower (strip (getenv h ''SIFT_DB_ACTIVE'')) \<in> set [''1'', ''true'', ''yes'', ''on'']"

definition db_authority_active :: "host \<Rightarrow> bool" where
  "db_authority_active h \<longleftrightarrow>
     (case active_case h of Some ctx \<Rightarrow> db_active ctx | None \<Rightarrow> False) \<or> env_db_active h"

section \<open>Resolution\<close>

partial_function (option) walk ::
  "(comps \<Rightarrow> string option) \<Rightarrow> comps \<Rightarrow> comps \<Rightarrow> comps option" where
  [code]: "walk links path rest =
     (case rest of
        [] \<Rightarrow> Some path
      | name # rest' \<Rightarrow>
          if name = ''..'' then walk links (butlast path) rest'
          else (case links (path @ [name]) of
                  None \<Rightarrow> walk links (path @ [name]) rest'
                | Some target \<Rightarrow>
                    (case parse_path target of
                       AbsPath q \<Rightarrow> walk links [] (q @ rest')
                     | RelPath q \<Rightarrow> walk links path (q @ rest'))))"

definition real_path :: "host \<Rightarrow> comps \<Rightarrow> comps option" where
  "real_path h p = walk (readlink h) [] p"

fun absolute :: "host \<Rightarrow> py_path \<Rightarrow> comps" where
  "absolute h (AbsPath p) = p"
| "absolute h (RelPath p) = cwd h @ p"

section \<open>Resolved paths\<close>

definition plain_name :: "string \<Rightarrow> bool" where
  "plain_name w \<longleftrightarrow> w \<noteq> [] \<and> w \<noteq> ''.'' \<and> w \<noteq> ''..'' \<and> slash \<notin> set w"

definition canonical :: "(comps \<Rightarrow> string option) \<Rightarrow> comps \<Rightarrow> bool" where
  "canonical links p \<longleftrightarrow>
     (\<forall>w \<in> set p. plain_name w) \<and> (\<forall>q n. prefix (q @ [n]) p \<longrightarrow> links (q @ [n]) = None)"

text \<open>The names a parsed text can hold.\<close>

definition parsed_names :: "comps \<Rightarrow> bool" where
  "parsed_names p \<longleftrightarrow> (\<forall>w \<in> set p. w \<noteq> [] \<and> w \<noteq> ''.'' \<and> slash \<notin> set w)"

lemma parsed_names_simps [simp]:
  "parsed_names []" "parsed_names (p @ q) \<longleftrightarrow> parsed_names p \<and> parsed_names q"
  "parsed_names (w # p) \<longleftrightarrow> w \<noteq> [] \<and> w \<noteq> ''.'' \<and> slash \<notin> set w \<and> parsed_names p"
  by (auto simp: parsed_names_def)

lemma parsed_path_names [simp, intro]: "parsed_names (path_names s)"
  using split_char_no_sep by (fastforce simp: parsed_names_def path_names_def)

lemma canonical_Nil [simp]: "canonical links []"
  by (simp add: canonical_def)

lemma canonical_snoc [simp]:
  "canonical links (p @ [n]) \<longleftrightarrow> canonical links p \<and> plain_name n \<and> links (p @ [n]) = None"
  by (auto simp: canonical_def)

lemma canonical_butlast: "canonical links p \<Longrightarrow> canonical links (butlast p)"
  by (cases p rule: rev_cases) auto

lemma canonical_append: "canonical links (p @ q) \<Longrightarrow> canonical links p"
  by (auto simp: canonical_def prefix_append)

lemma canonical_parsed: "canonical links p \<Longrightarrow> parsed_names p"
  by (auto simp: canonical_def parsed_names_def plain_name_def)

lemma parse_path_names:
  "parse_path s = AbsPath q \<Longrightarrow> parsed_names q" "parse_path s = RelPath q \<Longrightarrow> parsed_names q"
  by (auto simp: parse_path_def split: if_splits)

lemma walk_canonical_raw:
  "walk links path rest = Some r \<Longrightarrow> canonical links path \<longrightarrow> parsed_names rest \<longrightarrow> canonical links r"
proof (rule walk.raw_induct [where P = "\<lambda>links path rest r.
    canonical links path \<longrightarrow> parsed_names rest \<longrightarrow> canonical links r"], goal_cases)
  case (1 go links path rest r)
  show ?case
  proof (intro impI)
    assume c: "canonical links path" and "parsed_names rest"
    then show "canonical links r"
      using 1 canonical_butlast [OF c]
      by (auto simp: plain_name_def split: list.splits if_splits option.splits py_path.splits)
        (metis canonical_Nil parse_path_names parsed_names_simps(2))+
  qed
qed assumption

lemma walk_canonical:
  "walk links path rest = Some r \<Longrightarrow> canonical links path \<Longrightarrow> parsed_names rest \<Longrightarrow> canonical links r"
  using walk_canonical_raw by blast

lemma walk_keeps_canonical: "canonical links (p @ q) \<Longrightarrow> walk links p q = Some (p @ q)"
proof (induction q arbitrary: p)
  case Nil
  then show ?case by (simp add: walk.simps)
next
  case (Cons n q)
  have "canonical links (p @ [n])"
    using Cons.prems canonical_append [of links "p @ [n]" q] by simp
  with Cons show ?case
    by (subst walk.simps) (auto simp: plain_name_def)
qed

text \<open>Parsing the text of a resolved path gives the path.\<close>

lemma path_names_join: "parsed_names p \<Longrightarrow> path_names (join_names p) = p"
proof (induction p rule: join_names.induct)
  case (3 n m ns)
  then show ?case by (simp add: path_names_def split_char_join)
qed (auto simp: path_names_def split_char_single)

lemma path_round_trip: "parsed_names p \<Longrightarrow> parse_path (path_str p) = AbsPath p"
  using path_names_join [of p]
  by (simp add: parse_path_def path_str_def) (simp add: path_names_def)

lemma path_str_inject: "parsed_names p \<Longrightarrow> parsed_names q \<Longrightarrow> path_str p = path_str q \<Longrightarrow> p = q"
  using path_round_trip by (metis py_path.inject(1))

lemma real_path_canonical:
  "parsed_names p \<Longrightarrow> real_path h p = Some r \<Longrightarrow> canonical (readlink h) r"
  unfolding real_path_def by (rule walk_canonical) auto

lemma real_path_fix: "canonical (readlink h) p \<Longrightarrow> real_path h p = Some p"
  using walk_keeps_canonical [of "readlink h" "[]" p] by (simp add: real_path_def)

end
