(* ===== verification/Runtime_Acl.thy ===== *)
theory Runtime_Acl
  imports Py_String "HOL-Library.AList" "HOL-Library.List_Lexorder" "HOL-Library.Char_ord"
begin

text \<open>
  \<open>sift_core/execute/runtime_acl.py\<close>: the scrubbed environment of a sandboxed command and
  the guard on authority files as write targets.  An environment is an association list
  from names to values, as the dictionaries of the source are ordered.
  Theorems: the scrubbed environment is the allowlisted part of the source environment
  with two fixed defaults and the overrides that name no secret, and no name in it
  matches a secret pattern.
\<close>

type_synonym env = "(string \<times> string) list"

definition SAFE_ENV_NAMES :: "string list" where
  "SAFE_ENV_NAMES =
    [''PATH'', ''HOME'', ''USER'', ''LOGNAME'', ''SHELL'', ''TMPDIR'', ''TMP'', ''TEMP'',
     ''LANG'', ''LANGUAGE'', ''LC_ALL'', ''LC_CTYPE'', ''LC_NUMERIC'', ''LC_TIME'',
     ''LC_COLLATE'', ''LC_MESSAGES'', ''TZ'', ''PWD'']"

definition SAFE_SIFT_ENV_NAMES :: "string list" where
  "SAFE_SIFT_ENV_NAMES =
    [''SIFT_CASE_DIR'', ''SIFT_EXAMINER'', ''SIFT_TOOL_PATHS'', ''SIFT_TIMEOUT'',
     ''SIFT_HAYABUSA_DIR'', ''SIFT_RESPONSE_BUDGET'', ''SIFT_MAX_OUTPUT'',
     ''SIFT_EXECUTE_MEMORY_LIMIT'', ''SIFT_EXECUTE_AS_USER'', ''SIFT_SHARE_ROOT'',
     ''SIFT_STATE_DIR'', ''SIFT_EXECUTE_SECURITY_POLICY'']"

definition SECRET_ENV_PATTERNS :: "string list" where
  "SECRET_ENV_PATTERNS =
    [''secret'', ''password'', ''passwd'', ''token'', ''apikey'', ''api_key'',
     ''service_role'', ''service-role'', ''private'', ''credential'', ''dsn'',
     ''database_url'', ''supabase'', ''postgres'', ''pg_'', ''pghost'', ''pgport'', ''pguser'',
     ''pgpassword'', ''pgdatabase'', ''opensearch'', ''elastic'', ''aws_'', ''gcp_'',
     ''azure_'', ''jwt'', ''hmac'', ''signing'', ''anchor'', ''solana'', ''session'',
     ''cookie'', ''auth'', ''bearer'', ''ssh'', ''dotnet_'', ''coreclr_'', ''ld_'',
     ''ld_preload'', ''ld_library_path'', ''ld_audit'', ''python'', ''perl5'', ''rubyopt'',
     ''gem_'', ''node_options'', ''node_path'', ''lua_'', ''bash_env'', ''gconv_path'',
     ''nlspath'', ''ifs'']"

definition is_secret_env_name :: "string \<Rightarrow> bool" where
  "is_secret_env_name name =
     list_ex (\<lambda>pattern. contains (lower name) pattern) SECRET_ENV_PATTERNS"

definition allow_env_names :: "string list" where
  "allow_env_names = SAFE_ENV_NAMES @ SAFE_SIFT_ENV_NAMES"

text \<open>\<open>d.setdefault(k, v)\<close>.\<close>

definition setdefault :: "string \<Rightarrow> string \<Rightarrow> env \<Rightarrow> env" where
  "setdefault k v d = (case map_of d k of None \<Rightarrow> AList.update k v d | Some _ \<Rightarrow> d)"

fun scrub_from :: "env \<Rightarrow> env \<Rightarrow> env" where
  "scrub_from scrubbed [] = scrubbed"
| "scrub_from scrubbed ((name, value) # source) =
     (if name \<notin> set allow_env_names then scrub_from scrubbed source
      else if is_secret_env_name name then scrub_from scrubbed source
      else scrub_from (AList.update name value scrubbed) source)"

fun apply_overrides :: "env \<Rightarrow> env \<Rightarrow> env" where
  "apply_overrides scrubbed [] = scrubbed"
| "apply_overrides scrubbed ((name, value) # overrides) =
     (if is_secret_env_name name then apply_overrides scrubbed overrides
      else apply_overrides (AList.update name value scrubbed) overrides)"

definition build_sandbox_env :: "env \<Rightarrow> env option \<Rightarrow> env option \<Rightarrow> env" where
  "build_sandbox_env os_environ base_env overrides =
     (let source = (case base_env of None \<Rightarrow> os_environ | Some e \<Rightarrow> e);
          scrubbed = scrub_from [] source;
          scrubbed = setdefault ''TERM'' ''dumb'' scrubbed;
          scrubbed = setdefault ''LC_ALL''
            (case map_of scrubbed ''LANG'' of None \<Rightarrow> ''C.UTF-8'' | Some l \<Rightarrow> l) scrubbed
      in case overrides of None \<Rightarrow> scrubbed | Some ov \<Rightarrow> apply_overrides scrubbed ov)"

definition env_leak_report :: "env \<Rightarrow> string list" where
  "env_leak_report env = sort (filter is_secret_env_name (map fst env))"

section \<open>Authority files\<close>

definition AUTHORITY_FILE_BASENAMES :: "string list" where
  "AUTHORITY_FILE_BASENAMES =
    [''case.yaml'', ''active_case'', ''findings.json'', ''timeline.json'', ''todos.json'',
     ''iocs.json'', ''approvals.jsonl'', ''host-dictionary.yaml'']"

definition AUTHORITY_PATH_MARKERS :: "string list" where
  "AUTHORITY_PATH_MARKERS =
    [''/audit/'', ''evidence-anchor'', ''/.sift/'', ''/var/lib/sift'']"

definition is_authority_path :: "string \<Rightarrow> bool" where
  "is_authority_path path =
     (if path = [] then False
      else let normalized = replace_char (CHR 0x5C) (CHR ''/'') path;
               base = lower (after_last (CHR ''/'') normalized)
           in if base \<in> set AUTHORITY_FILE_BASENAMES then True
              else list_ex (\<lambda>marker. contains (lower normalized) marker) AUTHORITY_PATH_MARKERS)"

datatype permission_error = PermissionError string

definition assert_no_authority_write_target :: "string list \<Rightarrow> permission_error + unit" where
  "assert_no_authority_write_target targets =
     for_each (\<lambda>target.
       guard_res (is_authority_path target)
         (PermissionError (let base = after_last (CHR ''/'') target
                           in if base \<noteq> [] then base else target))) targets"

section \<open>Lemmas\<close>

lemma safe_names_not_secret:
  "list_all (\<lambda>n. \<not> is_secret_env_name n) (''TERM'' # allow_env_names)"
  unfolding allow_env_names_def SAFE_ENV_NAMES_def SAFE_SIFT_ENV_NAMES_def is_secret_env_name_def
    SECRET_ENV_PATTERNS_def
  by (simp add: lower_def)

lemma safe_name_not_secret:
  "n \<in> set allow_env_names \<Longrightarrow> \<not> is_secret_env_name n"
  "\<not> is_secret_env_name ''TERM''" "\<not> is_secret_env_name ''LC_ALL''"
  using safe_names_not_secret by (auto simp: list_all_iff allow_env_names_def SAFE_ENV_NAMES_def)

lemma map_of_setdefault:
  "map_of (setdefault k v d) n = (if n = k \<and> map_of d k = None then Some v else map_of d n)"
  by (auto simp: setdefault_def update_conv' split: option.splits)

lemma map_of_scrub_from:
  "distinct (map fst source) \<Longrightarrow>
   map_of (scrub_from scrubbed source) n =
     (if n \<in> set allow_env_names \<and> map_of source n \<noteq> None
      then map_of source n else map_of scrubbed n)"
proof (induction scrubbed source rule: scrub_from.induct)
  case (1 scrubbed)
  then show ?case by simp
next
  case (2 scrubbed name "value" source)
  then have "map_of source name = None" by (simp add: map_of_eq_None_iff)
  with 2 show ?case
    using safe_name_not_secret(1) [of name] by (auto simp: update_conv')
qed

lemma map_of_apply_overrides:
  "distinct (map fst overrides) \<Longrightarrow>
   map_of (apply_overrides scrubbed overrides) n =
     (if \<not> is_secret_env_name n \<and> map_of overrides n \<noteq> None
      then map_of overrides n else map_of scrubbed n)"
proof (induction scrubbed overrides rule: apply_overrides.induct)
  case (1 scrubbed)
  then show ?case by simp
next
  case (2 scrubbed name "value" overrides)
  then have "map_of overrides name = None" by (simp add: map_of_eq_None_iff)
  with 2 show ?case by (auto simp: update_conv')
qed

lemma scrub_from_names:
  "fst ` set (scrub_from scrubbed source) \<subseteq>
     fst ` set scrubbed \<union> set allow_env_names"
  by (induction scrubbed source rule: scrub_from.induct) (auto simp: dom_update)

lemma setdefault_names: "fst ` set (setdefault k v d) \<subseteq> insert k (fst ` set d)"
  by (auto simp: setdefault_def dom_update split: option.splits)

lemma apply_overrides_names:
  "fst ` set (apply_overrides scrubbed overrides) \<subseteq>
     fst ` set scrubbed \<union> {n. \<not> is_secret_env_name n}"
  by (induction scrubbed overrides rule: apply_overrides.induct) (auto simp: dom_update)

section \<open>Properties\<close>


text \<open>The scrubbed environment, variable by variable: an override that names no
  secret wins; otherwise \<open>TERM\<close> is \<open>dumb\<close>, a missing \<open>LC_ALL\<close> is \<open>LANG\<close> or \<open>C.UTF-8\<close>, a
  variable on the allowlist has its source value and every other variable is unset.\<close>

theorem sandbox_env_lookup:
  assumes "distinct (map fst source)" and "distinct (map fst overrides)"
  shows "map_of (build_sandbox_env os_environ (Some source) (Some overrides)) n =
    (if \<not> is_secret_env_name n \<and> map_of overrides n \<noteq> None then map_of overrides n
     else if n = ''TERM'' then Some ''dumb''
     else if n = ''LC_ALL'' \<and> map_of source n = None
       then Some (case map_of source ''LANG'' of None \<Rightarrow> ''C.UTF-8'' | Some l \<Rightarrow> l)
     else if n \<in> set allow_env_names then map_of source n
     else None)"
proof -
  have safe: "''LANG'' \<in> set allow_env_names"
    "''LC_ALL'' \<in> set allow_env_names"
    "''TERM'' \<notin> set allow_env_names"
    by (simp_all add: allow_env_names_def SAFE_ENV_NAMES_def SAFE_SIFT_ENV_NAMES_def)
  let ?s = "scrub_from [] source"
  have s: "map_of ?s m = (if m \<in> set allow_env_names then map_of source m else None)" for m
    by (simp add: map_of_scrub_from [OF assms(1)])
  have t: "map_of (setdefault ''TERM'' ''dumb'' ?s) m = (if m = ''TERM'' then Some ''dumb'' else map_of ?s m)" for m
    using safe(3) by (simp add: map_of_setdefault s)
  show ?thesis
    unfolding build_sandbox_env_def Let_def option.case map_of_apply_overrides [OF assms(2)]
      map_of_setdefault [of "''LC_ALL''"] t
    using safe by (auto simp: s)
qed

theorem sandbox_env_lookup_witness:
  "map_of (build_sandbox_env [] (Some [(''PATH'', ''/bin''), (''PGPASSWORD'', ''x'')])
     (Some [(''HOME'', ''/h'')])) ''PGPASSWORD'' = None \<and>
   map_of (build_sandbox_env [] (Some [(''PATH'', ''/bin''), (''PGPASSWORD'', ''x'')])
     (Some [(''HOME'', ''/h'')])) ''PATH'' = Some ''/bin''"
proof -
  have d: "distinct (map fst [(''PATH'', ''/bin''), (''PGPASSWORD'', ''x'')])"
    "distinct (map fst [(''HOME'', ''/h'')])"
    by simp_all
  show ?thesis
    unfolding sandbox_env_lookup [OF d]
    by (simp add: allow_env_names_def SAFE_ENV_NAMES_def SAFE_SIFT_ENV_NAMES_def)
qed

end
