(* ===== verification/Path_Policy.thy ===== *)
theory Path_Policy
  imports Host Runtime_Acl
begin

text \<open>
  Where an agent command may read, write and delete: the path validators of
  \<open>sift_core/execute/security.py\<close> with the case locations of \<open>sift_core/case_io.py\<close>,
  \<open>sift_common/__init__.py\<close> and \<open>sift_common/paths.py\<close> that they consult.

  A validator returns the text of the resolved path or the \<open>ValueError\<close> it raises;
  \<open>path_error\<close> has one constructor per \<open>raise\<close>, and \<open>SymlinkLoop\<close> for the exception of
  \<open>Path.resolve()\<close>.  A resolved path is its list of names: \<open>str\<close> and \<open>Path\<close> are inverse
  on it (\<open>path_round_trip\<close>).

  Shown here: a path the validators accept lies under the active case after all
  symbolic links are resolved, outside sealed evidence (for writes) and outside the
  integrity records; the returned text validates again to itself; and the branches
  are characterised exactly.
\<close>

datatype path_error =
    SymlinkLoop
  | ProtectedDir string comps
  | ProtectedRecord string comps
  | CaseRequired string
  | OutsideCase string
  | RmRoot
  | RmProtected
  | RmOutside
  | OutputOutsideCase
  | OutputBlocked comps
  | OutputNoCase
  | InputNoCase
  | InputOutsideCase

section \<open>Locations\<close>

definition resolve :: "host \<Rightarrow> py_path \<Rightarrow> path_error + comps" where
  "resolve h p = (case real_path h (absolute h p) of None \<Rightarrow> Inl SymlinkLoop | Some q \<Rightarrow> Inr q)"

definition find_binary :: "host \<Rightarrow> string \<Rightarrow> string option" where
  "find_binary h name =
     (case which h name of
        Some found \<Rightarrow> Some found
      | None \<Rightarrow>
          (let search_paths = [''/usr/local/bin'', ''/opt/zimmermantools'', ''/opt/volatility3'',
                 ''/opt/hayabusa''] @ opt_bin_dirs h;
               candidates = concat (map (\<lambda>d. let base = parse_path d in
                 [path_join base name, path_join (path_join base name) name]) search_paths)
           in map_option py_path_str (find (is_executable h) candidates)))"

definition first_set :: "string \<Rightarrow> string \<Rightarrow> string" where
  "first_set a b = (if a \<noteq> [] then a else b)"

definition cases_root :: "host \<Rightarrow> py_path" where
  "cases_root h = parse_path (first_set (getenv h ''SIFT_CASES_ROOT'')
     (first_set (getenv h ''SIFT_CASES_DIR'') (path_str (home h @ [''cases'']))))"

definition is_under_system_tmpdir :: "host \<Rightarrow> py_path \<Rightarrow> path_error + bool" where
  "is_under_system_tmpdir h p =
     res_bind (resolve h p) (\<lambda>resolved.
     res_bind (resolve h (AbsPath (tmpdir h))) (\<lambda>tmp_root.
       Inr (prefix tmp_root resolved)))"

definition state_root :: "host \<Rightarrow> comps \<Rightarrow> path_error + py_path" where
  "state_root h case_dir =
     (let configured = strip (getenv h ''SIFT_STATE_DIR'') in
      if configured \<noteq> [] then Inr (parse_path configured)
      else res_bind (is_under_system_tmpdir h (AbsPath case_dir)) (\<lambda>in_tmp.
        if in_tmp then res_bind (resolve h (AbsPath case_dir)) (\<lambda>resolved.
          Inr (AbsPath (butlast resolved @ [''.sift-state''] @
                 (if resolved = [] then [] else [last resolved]))))
        else Inr (AbsPath [''var'', ''lib'', ''sift''])))"

definition case_id_from_dir :: "host \<Rightarrow> comps \<Rightarrow> string" where
  "case_id_from_dir h case_dir =
     (case case_yaml_id h (AbsPath case_dir) of
        Some cid \<Rightarrow> if cid = [] then path_name case_dir else cid
      | None \<Rightarrow> path_name case_dir)"

definition case_records_dir :: "host \<Rightarrow> comps \<Rightarrow> path_error + py_path" where
  "case_records_dir h case_dir =
     res_bind (state_root h case_dir) (\<lambda>root. Inr (path_join root (case_id_from_dir h case_dir)))"

definition resolve_case_dir :: "host \<Rightarrow> string" where
  "resolve_case_dir h =
     (let case_dir = strip (getenv h ''SIFT_CASE_DIR'') in
      if case_dir \<noteq> [] \<and> fs_is_dir h (parse_path case_dir) \<and>
         fs_exists h (path_join (parse_path case_dir) ''CASE.yaml'')
      then case_dir else [])"

section \<open>Containment\<close>

text \<open>The laws of "lies under" that the validators rely on: it is a partial order in which
  the places above a path form a chain.\<close>

locale containment =
  fixes under :: "'p \<Rightarrow> 'p \<Rightarrow> bool"
  assumes under_refl: "under p p"
    and under_trans: "under p q \<Longrightarrow> under q r \<Longrightarrow> under p r"
    and under_antisym: "under p q \<Longrightarrow> under q p \<Longrightarrow> p = q"
    and under_chain: "under p q \<Longrightarrow> under p r \<Longrightarrow> under q r \<or> under r q"
begin

definition apart :: "'p \<Rightarrow> 'p \<Rightarrow> bool" where
  "apart q r \<longleftrightarrow> \<not> under q r \<and> \<not> under r q"

lemma apart_separates: "apart q r \<Longrightarrow> under p q \<Longrightarrow> \<not> under p r"
  using under_chain by (auto simp: apart_def)

lemma apart_below: "apart q r \<Longrightarrow> under p q \<Longrightarrow> under s r \<Longrightarrow> apart p s"
  unfolding apart_def using under_chain under_trans by blast

lemma outside_mono: "\<not> under p d \<Longrightarrow> under p q \<Longrightarrow> \<not> under q d"
  using under_trans by blast

end

definition resolve_user_path :: "host \<Rightarrow> string \<Rightarrow> py_path option \<Rightarrow> path_error + comps" where
  "resolve_user_path h path base_dir =
     (case parse_path path of
        AbsPath raw \<Rightarrow> resolve h (AbsPath raw)
      | RelPath raw \<Rightarrow>
          res_bind (case base_dir of
              Some base \<Rightarrow> resolve h base
            | None \<Rightarrow> resolve h (AbsPath (cwd h))) (\<lambda>root.
            resolve h (AbsPath (root @ raw))))"

definition path_is_under :: "comps \<Rightarrow> comps \<Rightarrow> bool" where
  "path_is_under path parent \<longleftrightarrow> path = parent \<or> prefix parent path"

interpretation tree: containment path_is_under
proof unfold_locales
  fix p q r :: comps
  show "path_is_under p q \<Longrightarrow> path_is_under p r \<Longrightarrow> path_is_under q r \<or> path_is_under r q"
    unfolding path_is_under_def using prefix_same_cases by blast
qed (auto simp: path_is_under_def)

definition active_case_dir_str :: "host \<Rightarrow> string" where
  "active_case_dir_str h =
     (case active_case h of
        Some ctx \<Rightarrow>
          (case context_case_dir ctx of
             Some d \<Rightarrow> py_path_str (parse_path d)
           | None \<Rightarrow> resolve_case_dir h)
      | None \<Rightarrow> resolve_case_dir h)"

definition case_dir_path :: "host \<Rightarrow> path_error + comps option" where
  "case_dir_path h =
     (let case_dir = active_case_dir_str h in
      if case_dir = [] then Inr None
      else res_bind (resolve h (parse_path case_dir)) (\<lambda>p. Inr (Some p)))"

definition case_writable_dirs :: "comps \<Rightarrow> comps list" where
  "case_writable_dirs case_dir = [case_dir @ [''agent''], case_dir @ [''extractions''], case_dir @ [''tmp'']]"

definition case_protected_dirs :: "host \<Rightarrow> comps \<Rightarrow> bool \<Rightarrow> path_error + comps list" where
  "case_protected_dirs h case_dir include_evidence =
     res_bind (case_records_dir h case_dir) (\<lambda>records.
       map_res (resolve h)
         ([records] @ (if include_evidence then [AbsPath (case_dir @ [''evidence''])] else [])
          @ [AbsPath (case_dir @ [''audit''])]))"

definition case_protected_record_files :: "host \<Rightarrow> comps \<Rightarrow> path_error + comps list" where
  "case_protected_record_files h case_dir =
     map_res (\<lambda>name. resolve h (path_join (AbsPath case_dir) name))
       (AUTHORITY_FILE_BASENAMES @ [''CASE.yaml''])"

definition reject_if_protected_case_path :: "host \<Rightarrow> comps \<Rightarrow> string \<Rightarrow> path_error + unit" where
  "reject_if_protected_case_path h resolved action =
     res_bind (case_dir_path h) (\<lambda>c.
       case c of
         None \<Rightarrow> Inr ()
       | Some case_dir \<Rightarrow>
           res_bind (case_protected_dirs h case_dir (lower action \<noteq> ''read'')) (\<lambda>dirs.
           res_bind (for_each (\<lambda>d. guard_res (path_is_under resolved d) (ProtectedDir action d)) dirs) (\<lambda>_.
           res_bind (case_protected_record_files h case_dir) (\<lambda>files.
             for_each (\<lambda>f. guard_res (resolved = f) (ProtectedRecord action f)) files))))"

section \<open>Blocked directories\<close>

definition BLOCKED_DIRECTORIES :: "host \<Rightarrow> comps list" where
  "BLOCKED_DIRECTORIES h = [[''etc''], [''proc''], [''sys''], [''dev''], [''boot''],
     [''var'', ''lib'', ''sift''], home h @ [''.sift'']]"

definition OUTPUT_BLOCKED_DIRECTORIES :: "host \<Rightarrow> comps list" where
  "OUTPUT_BLOCKED_DIRECTORIES h = BLOCKED_DIRECTORIES h @
     [[''usr''], [''bin''], [''sbin''], [''lib''], [''var''], [''home'']]"

fun blocked_by ::
  "host \<Rightarrow> comps \<Rightarrow> comps list \<Rightarrow> comps list \<Rightarrow> path_error + comps option" where
  "blocked_by h resolved [] exceptions = Inr None"
| "blocked_by h resolved (blocked # others) exceptions =
     res_bind (resolve h (AbsPath blocked)) (\<lambda>blocked_path.
       if \<not> path_is_under resolved blocked_path then blocked_by h resolved others exceptions
       else res_bind (any_res (\<lambda>exc. res_bind (resolve h (AbsPath exc)) (\<lambda>e.
             Inr (path_is_under resolved e))) exceptions) (\<lambda>excepted.
         if excepted then Inr None else Inr (Some blocked)))"

definition path_is_blocked ::
  "host \<Rightarrow> comps \<Rightarrow> comps list \<Rightarrow> comps list \<Rightarrow> path_error + comps option" where
  "path_is_blocked h resolved_path blocked_dirs exceptions =
     res_bind (resolve h (AbsPath resolved_path)) (\<lambda>resolved.
       blocked_by h resolved blocked_dirs exceptions)"

section \<open>Validators\<close>

definition validate_output_path :: "host \<Rightarrow> string \<Rightarrow> py_path option \<Rightarrow> path_error + string" where
  "validate_output_path h path base_dir =
     res_bind (resolve_user_path h path base_dir) (\<lambda>resolved.
       if path_str resolved = ''/dev/null'' then Inr (path_str resolved)
       else let case_dir = active_case_dir_str h in
         if case_dir \<noteq> [] then
           res_bind (resolve h (parse_path case_dir)) (\<lambda>case_resolved.
             if path_is_under resolved case_resolved then
               res_bind (reject_if_protected_case_path h resolved ''Output'') (\<lambda>_.
                 Inr (path_str resolved))
             else Inl OutputOutsideCase)
         else
           res_bind (is_under_system_tmpdir h (AbsPath resolved)) (\<lambda>in_tmp.
             if in_tmp then Inr (path_str resolved)
             else res_bind (resolve h (AbsPath (cwd h))) (\<lambda>cwd_resolved.
               let cwd_str = path_str cwd_resolved in
               if path_str resolved = cwd_str \<or> startswith (path_str resolved) (cwd_str @ ''/'')
               then Inr (path_str resolved)
               else res_bind (path_is_blocked h resolved (OUTPUT_BLOCKED_DIRECTORIES h) []) (\<lambda>b.
                 case b of Some blocked \<Rightarrow> Inl (OutputBlocked blocked) | None \<Rightarrow> Inl OutputNoCase))))"

definition looks_like_path :: "string \<Rightarrow> bool" where
  "looks_like_path v \<longleftrightarrow> startswith v ''/'' \<or> startswith v ''..'' \<or> contains v ''/''"

definition is_flag_value :: "string \<Rightarrow> bool" where
  "is_flag_value s \<longleftrightarrow> contains s ''='' \<and> startswith s ''-''"

lemma flag_value_shorter [termination_simp]:
  "is_flag_value s \<Longrightarrow> length (after_char CHR ''='' s) < length s"
proof -
  assume "is_flag_value s"
  then have "s = before_char CHR ''='' s @ CHR ''='' # after_char CHR ''='' s"
    by (intro split_at_char) (simp add: is_flag_value_def contains_single)
  then have "length s = length (before_char CHR ''='' s @ CHR ''='' # after_char CHR ''='' s)"
    by (rule arg_cong)
  then show ?thesis by simp
qed

function validate_input_path :: "host \<Rightarrow> string \<Rightarrow> py_path option \<Rightarrow> path_error + string" where
  "validate_input_path h path base_dir =
     (if is_flag_value path then
        let value = after_char CHR ''='' path in
        if value \<noteq> [] \<and> looks_like_path value then validate_input_path h value base_dir
        else Inr path
      else
        res_bind (resolve_user_path h path base_dir) (\<lambda>resolved_path.
        res_bind (case_dir_path h) (\<lambda>c.
          case c of
            None \<Rightarrow> Inl InputNoCase
          | Some case_dir \<Rightarrow>
              if \<not> path_is_under resolved_path case_dir then Inl InputOutsideCase
              else res_bind (reject_if_protected_case_path h resolved_path ''Read'') (\<lambda>_.
                Inr (path_str resolved_path)))))"
  by pat_completeness auto
termination
  by (relation "measure (\<lambda>(h, path, b). length path)") (auto intro: flag_value_shorter)

declare validate_input_path.simps [simp del]

definition validate_case_output_target ::
  "host \<Rightarrow> string \<Rightarrow> py_path option \<Rightarrow> path_error + string" where
  "validate_case_output_target h path base_dir =
     res_bind (resolve_user_path h path base_dir) (\<lambda>resolved.
     res_bind (reject_if_protected_case_path h resolved ''Output'') (\<lambda>_.
       validate_output_path h path base_dir))"

definition validate_case_mutation_target ::
  "host \<Rightarrow> string \<Rightarrow> string \<Rightarrow> py_path option \<Rightarrow> path_error + string" where
  "validate_case_mutation_target h path action base_dir =
     res_bind (resolve_user_path h path base_dir) (\<lambda>resolved.
     res_bind (case_dir_path h) (\<lambda>c.
       case c of
         None \<Rightarrow> Inl (CaseRequired action)
       | Some case_dir \<Rightarrow>
           if \<not> path_is_under resolved case_dir then Inl (OutsideCase action)
           else res_bind (reject_if_protected_case_path h resolved action) (\<lambda>_.
             Inr (path_str resolved))))"

definition validate_rm_target ::
  "host \<Rightarrow> comps \<Rightarrow> py_path option \<Rightarrow> string \<Rightarrow> path_error + unit" where
  "validate_rm_target h case_resolved base_dir arg =
     res_bind (resolve_user_path h arg base_dir) (\<lambda>resolved.
       if resolved = [] then Inl RmRoot
       else if list_ex (path_is_under resolved) (case_writable_dirs case_resolved) then Inr ()
       else res_bind (case_records_dir h case_resolved) (\<lambda>records.
         res_bind (any_res (\<lambda>root. res_bind (resolve h root) (\<lambda>protected.
               Inr (path_is_under resolved protected)))
             [AbsPath (case_resolved @ [''evidence'']), records, AbsPath (case_resolved @ [''audit''])]) (\<lambda>b.
           if b then Inl RmProtected else Inl RmOutside)))"

definition validate_rm_targets :: "host \<Rightarrow> string list \<Rightarrow> py_path option \<Rightarrow> path_error + unit" where
  "validate_rm_targets h args base_dir =
     (let path_args = filter (\<lambda>a. \<not> startswith a ''-'') args;
          case_dir = active_case_dir_str h
      in if case_dir = [] then Inl (CaseRequired ''file deletion'')
         else res_bind (resolve h (parse_path case_dir)) (\<lambda>case_resolved.
           for_each (validate_rm_target h case_resolved base_dir) path_args))"

text \<open>\<open>_is_in_directory\<close>: an exception counts as \<open>False\<close>.\<close>

definition is_in_directory :: "host \<Rightarrow> string \<Rightarrow> py_path \<Rightarrow> py_path option \<Rightarrow> bool" where
  "is_in_directory h path_s parent base_dir =
     (case resolve_user_path h path_s base_dir of
        Inl _ \<Rightarrow> False
      | Inr p \<Rightarrow>
          (case resolve h parent of
             Inl _ \<Rightarrow> False
           | Inr par \<Rightarrow> p = par \<or> prefix par p))"

section \<open>Lemmas\<close>

lemma path_is_under_prefix [simp]: "path_is_under p q \<longleftrightarrow> prefix q p"
  by (auto simp: path_is_under_def)

lemma siblings_apart: "a \<noteq> b \<Longrightarrow> tree.apart (c @ [a]) (c @ [b])"
  by (auto simp: tree.apart_def)

lemma resolve_Inr: "resolve h p = Inr q \<longleftrightarrow> real_path h (absolute h p) = Some q"
  by (auto simp: resolve_def split: option.splits)

text \<open>The surroundings are well formed when the directories the process reports consist
  of names; the operating system gives no others.\<close>

definition host_ok :: "host \<Rightarrow> bool" where
  "host_ok h \<longleftrightarrow> parsed_names (cwd h)"

fun path_parsed :: "py_path \<Rightarrow> bool" where
  "path_parsed (AbsPath p) = parsed_names p"
| "path_parsed (RelPath p) = parsed_names p"

lemma parse_path_parsed [simp]: "path_parsed (parse_path s)"
  by (simp add: parse_path_def)

lemma path_join_parsed: "path_parsed p \<Longrightarrow> path_parsed (path_join p s)"
  by (cases p) (auto split: py_path.splits dest: parse_path_names)

lemma resolve_canonical:
  assumes "host_ok h" "path_parsed p" "resolve h p = Inr q"
  shows "canonical (readlink h) q"
proof (rule real_path_canonical)
  show "parsed_names (absolute h p)"
    using assms(1,2) by (cases p) (auto simp: host_ok_def)
  show "real_path h (absolute h p) = Some q" using assms(3) by (simp add: resolve_Inr)
qed

lemma resolve_fix: "canonical (readlink h) p \<Longrightarrow> resolve h (AbsPath p) = Inr p"
  by (simp add: resolve_Inr real_path_fix)

lemma resolve_user_path_canonical:
  assumes "host_ok h" "\<And>b. base = Some b \<Longrightarrow> path_parsed b" "resolve_user_path h s base = Inr q"
  shows "canonical (readlink h) q"
proof (cases "parse_path s")
  case (AbsPath p)
  with assms show ?thesis
    using parse_path_names resolve_canonical [of h "AbsPath p" q] by (auto simp: resolve_user_path_def)
next
  case (RelPath p)
  with assms(3) obtain root where r: "resolve h (AbsPath (root @ p)) = Inr q"
    and "resolve h (case base of Some b \<Rightarrow> b | None \<Rightarrow> AbsPath (cwd h)) = Inr root"
    by (cases base) (auto simp: resolve_user_path_def)
  moreover have "path_parsed (case base of Some b \<Rightarrow> b | None \<Rightarrow> AbsPath (cwd h))"
    using assms(1,2) by (cases base) (auto simp: host_ok_def)
  ultimately have "canonical (readlink h) root"
    using assms(1) resolve_canonical by blast
  then have "path_parsed (AbsPath (root @ p))"
    using RelPath canonical_parsed parse_path_names by auto
  with r assms(1) show ?thesis using resolve_canonical by blast
qed

lemma resolve_user_path_fix:
  "canonical (readlink h) p \<Longrightarrow> resolve_user_path h (path_str p) base = Inr p"
  by (simp add: resolve_user_path_def path_round_trip canonical_parsed resolve_fix)

text \<open>The protected places of a case, as resolved paths.\<close>

definition protected_by_case :: "host \<Rightarrow> comps \<Rightarrow> bool \<Rightarrow> comps \<Rightarrow> bool" where
  "protected_by_case h case_dir writing p \<longleftrightarrow>
     (\<exists>records d. case_records_dir h case_dir = Inr records \<and>
        d \<in> set ([records] @ (if writing then [AbsPath (case_dir @ [''evidence''])] else [])
              @ [AbsPath (case_dir @ [''audit''])]) \<and>
        (\<exists>r. resolve h d = Inr r \<and> path_is_under p r)) \<or>
     (\<exists>name \<in> set (AUTHORITY_FILE_BASENAMES @ [''CASE.yaml'']).
        resolve h (path_join (AbsPath case_dir) name) = Inr p)"

definition case_resolvable :: "host \<Rightarrow> comps \<Rightarrow> bool \<Rightarrow> bool" where
  "case_resolvable h case_dir writing \<longleftrightarrow>
     is_ok (case_protected_dirs h case_dir writing) \<and> is_ok (case_protected_record_files h case_dir)"

lemma reject_if_protected_iff:
  assumes "case_dir_path h = Inr (Some c)"
  shows "reject_if_protected_case_path h p action = Inr () \<longleftrightarrow>
    case_resolvable h c (lower action \<noteq> ''read'') \<and> \<not> protected_by_case h c (lower action \<noteq> ''read'') p"
proof -
  let ?w = "lower action \<noteq> ''read''"
  let ?locs = "\<lambda>records. [records] @ (if ?w then [AbsPath (c @ [''evidence''])] else [])
    @ [AbsPath (c @ [''audit''])]"
  have d: "(\<exists>d \<in> set dirs. path_is_under p d) \<longleftrightarrow>
      (\<exists>records d. case_records_dir h c = Inr records \<and> d \<in> set (?locs records) \<and>
        (\<exists>r. resolve h d = Inr r \<and> path_is_under p r))"
    if "case_protected_dirs h c ?w = Inr dirs" for dirs
  proof -
    from that obtain records where r: "case_records_dir h c = Inr records"
      and m: "map_res (resolve h) (?locs records) = Inr dirs"
      unfolding case_protected_dirs_def res_bind_Inr_iff by blast
    show ?thesis unfolding map_res_images [OF m, of "path_is_under p"] r by blast
  qed
  have f: "(\<exists>f \<in> set files. p = f) \<longleftrightarrow> (\<exists>name \<in> set (AUTHORITY_FILE_BASENAMES @ [''CASE.yaml'']).
        resolve h (path_join (AbsPath c) name) = Inr p)"
    if "case_protected_record_files h c = Inr files" for files
    using map_res_images [OF that [unfolded case_protected_record_files_def], of "\<lambda>f. p = f"] by auto
  show ?thesis
  proof (cases "case_resolvable h c ?w")
    case False
    then show ?thesis
      using assms unfolding reject_if_protected_case_path_def case_resolvable_def is_ok_iff by auto
  next
    case True
    then obtain dirs files where df: "case_protected_dirs h c ?w = Inr dirs"
        "case_protected_record_files h c = Inr files"
      by (auto simp: case_resolvable_def is_ok_iff)
    then have "reject_if_protected_case_path h p action = Inr () \<longleftrightarrow>
        \<not> (\<exists>d \<in> set dirs. path_is_under p d) \<and> \<not> (\<exists>f \<in> set files. p = f)"
      using assms by (auto simp: reject_if_protected_case_path_def)
    then show ?thesis
      using True unfolding d [OF df(1)] f [OF df(2)] protected_by_case_def by blast
  qed
qed

lemma case_dir_path_Some:
  "case_dir_path h = Inr (Some c) \<longleftrightarrow>
     active_case_dir_str h \<noteq> [] \<and> resolve h (parse_path (active_case_dir_str h)) = Inr c"
  by (auto simp: case_dir_path_def Let_def)

lemma case_dir_canonical: "host_ok h \<Longrightarrow> case_dir_path h = Inr (Some c) \<Longrightarrow> canonical (readlink h) c"
  using resolve_canonical [of h "parse_path (active_case_dir_str h)" c] by (simp add: case_dir_path_Some)

lemma lower_actions: "lower ''Output'' \<noteq> ''read''" "lower ''Read'' = ''read''"
  by (simp_all add: lower_def)

lemma validate_output_active:
  assumes "case_dir_path h = Inr (Some c)" and "resolve_user_path h path base = Inr p"
  shows "validate_output_path h path base = Inr s \<longleftrightarrow> s = path_str p \<and>
    (path_str p = ''/dev/null'' \<or>
     path_is_under p c \<and> case_resolvable h c True \<and> \<not> protected_by_case h c True p)"
  using assms reject_if_protected_iff [OF assms(1), of p "''Output''"]
  by (auto simp: validate_output_path_def case_dir_path_Some Let_def lower_actions
      simp del: path_is_under_prefix)

lemma validate_mutation_active:
  assumes "case_dir_path h = Inr (Some c)" and "resolve_user_path h path base = Inr p"
    and "lower action \<noteq> ''read''"
  shows "validate_case_mutation_target h path action base = Inr s \<longleftrightarrow> s = path_str p \<and>
    path_is_under p c \<and> case_resolvable h c True \<and> \<not> protected_by_case h c True p"
  using assms reject_if_protected_iff [OF assms(1), of p action]
  by (auto simp: validate_case_mutation_target_def simp del: path_is_under_prefix)

lemma validate_input_plain:
  assumes "case_dir_path h = Inr (Some c)" and "resolve_user_path h path base = Inr p"
    and "\<not> is_flag_value path"
  shows "validate_input_path h path base = Inr s \<longleftrightarrow> s = path_str p \<and>
    path_is_under p c \<and> case_resolvable h c False \<and> \<not> protected_by_case h c False p"
  using assms reject_if_protected_iff [OF assms(1), of p "''Read''"]
  by (subst validate_input_path.simps) (auto simp: lower_actions simp del: path_is_under_prefix)

lemma path_str_not_flag [simp]: "\<not> is_flag_value (path_str p)"
  by (simp add: is_flag_value_def path_str_def)

text \<open>A place inside the case that a command may write, or read.\<close>

definition writable_place :: "host \<Rightarrow> comps \<Rightarrow> comps \<Rightarrow> bool" where
  "writable_place h c p \<longleftrightarrow> canonical (readlink h) p \<and> path_is_under p c \<and> \<not> protected_by_case h c True p"

definition readable_place :: "host \<Rightarrow> comps \<Rightarrow> comps \<Rightarrow> bool" where
  "readable_place h c p \<longleftrightarrow> canonical (readlink h) p \<and> path_is_under p c \<and> \<not> protected_by_case h c False p"

definition base_ok :: "py_path option \<Rightarrow> bool" where
  "base_ok base \<longleftrightarrow> (case base of None \<Rightarrow> True | Some b \<Rightarrow> path_parsed b)"

lemma user_path_canonical:
  "host_ok h \<Longrightarrow> base_ok base \<Longrightarrow> resolve_user_path h s base = Inr q \<Longrightarrow> canonical (readlink h) q"
  by (rule resolve_user_path_canonical) (auto simp: base_ok_def)


lemma validate_input_cases:
  "validate_input_path h path base = Inr s \<Longrightarrow>
     (is_flag_value s \<and> \<not> (after_char CHR ''='' s \<noteq> [] \<and> looks_like_path (after_char CHR ''='' s))) \<or>
     (\<exists>q p. \<not> is_flag_value q \<and> resolve_user_path h q base = Inr p \<and> validate_input_path h q base = Inr s)"
proof (induction h path base rule: validate_input_path.induct)
  case (1 h path base)
  show ?case
  proof (cases "is_flag_value path")
    case True
    with 1 show ?thesis
      by (subst (asm) (2) validate_input_path.simps) (auto simp: Let_def split: if_splits)
  next
    case False
    moreover from False "1.prems" have "\<exists>p. resolve_user_path h path base = Inr p"
      by (subst (asm) validate_input_path.simps) auto
    ultimately show ?thesis using "1.prems" by blast
  qed
qed


text \<open>What an agent command may read: a path argument the input validator accepts
  lies, with every symbolic link resolved, under the active case and outside the
  integrity records, sealed evidence included; the only other value it returns is a
  flag whose value does not look like a path.\<close>

theorem input_path_confined:
  assumes "host_ok h" and "base_ok base" and "case_dir_path h = Inr (Some c)"
    and "validate_input_path h path base = Inr s"
  shows "(\<exists>p. s = path_str p \<and> readable_place h c p) \<or>
    (is_flag_value s \<and> \<not> (after_char CHR ''='' s \<noteq> [] \<and> looks_like_path (after_char CHR ''='' s)))"
  using validate_input_cases [OF assms(4)]
proof (elim disjE exE conjE)
  fix q p
  assume q: "\<not> is_flag_value q" "resolve_user_path h q base = Inr p" "validate_input_path h q base = Inr s"
  with validate_input_plain [OF assms(3) q(2,1)] user_path_canonical [OF assms(1,2) q(2)]
  show ?thesis by (auto simp: readable_place_def simp del: path_is_under_prefix)
qed blast

lemma rm_target_place:
  assumes "validate_rm_target h c base arg = Inr ()"
  shows "\<exists>p d. resolve_user_path h arg base = Inr p \<and> d \<in> set [''agent'', ''extractions'', ''tmp''] \<and>
    path_is_under p (c @ [d])"
  using assms by (fastforce simp: validate_rm_target_def case_writable_dirs_def split: if_splits)

text \<open>\<open>rm\<close> deletes only scratch: every target of an accepted call lies, after resolution,
  under \<open>agent\<close>, \<open>extractions\<close> or \<open>tmp\<close> of the active case, hence is neither the case itself nor
  anything under its \<open>evidence\<close> or \<open>audit\<close> directory.\<close>

theorem rm_targets_are_scratch:
  assumes "case_dir_path h = Inr (Some c)" and "validate_rm_targets h args base = Inr ()"
    and "arg \<in> set args" and "\<not> startswith arg ''-''"
  shows "\<exists>p. resolve_user_path h arg base = Inr p \<and> list_ex (path_is_under p) (case_writable_dirs c) \<and>
    p \<noteq> c \<and> \<not> path_is_under p (c @ [''evidence'']) \<and> \<not> path_is_under p (c @ [''audit''])"
proof -
  have "validate_rm_target h c base arg = Inr ()"
    using assms by (auto simp: validate_rm_targets_def case_dir_path_Some Let_def)
  from rm_target_place [OF this] obtain p d where p: "resolve_user_path h arg base = Inr p"
    and d: "d \<in> set [''agent'', ''extractions'', ''tmp'']" and u: "path_is_under p (c @ [d])" by blast
  have "tree.apart (c @ [d]) (c @ [''evidence''])" "tree.apart (c @ [d]) (c @ [''audit''])"
    using d by (auto intro!: siblings_apart)
  then have "\<not> path_is_under p (c @ [''evidence''])" "\<not> path_is_under p (c @ [''audit''])"
    using u tree.apart_separates by blast+
  moreover have "p \<noteq> c" using u by auto
  moreover have "list_ex (path_is_under p) (case_writable_dirs c)"
    using d u by (auto simp: case_writable_dirs_def)
  ultimately show ?thesis using p by blast
qed

lemma split_char_append: "split_char c (w @ c # t) = split_char c w @ split_char c t"
  by (induction w) (auto split: list.splits)

lemma under_by_text:
  assumes "parsed_names p" "parsed_names q" "startswith (path_str p) (path_str q @ ''/'')"
  shows "path_is_under p q"
proof -
  from assms(3) obtain t where "path_str p = path_str q @ slash # t"
    by (auto simp: startswith_prefix prefix_def)
  then have "join_names p = join_names q @ slash # t" by (simp add: path_str_def)
  then have "path_names (join_names p) = path_names (join_names q @ slash # t)" by simp
  moreover have "path_names (w @ slash # t) = path_names w @ path_names t" for w
    by (simp add: path_names_def split_char_append)
  ultimately have "p = q @ path_names t" using assms(1,2) by (simp add: path_names_join)
  then show ?thesis by simp
qed

text \<open>With no active case a command can write only to the null device, under the
  system's temporary directory or under its working directory, all compared after
  resolution: no other path is accepted, whether or not a blocked directory holds it.\<close>

theorem output_without_case_confined:
  assumes "host_ok h" and "base_ok base" and "active_case_dir_str h = []"
    and "validate_output_path h path base = Inr s"
  shows "\<exists>p. resolve_user_path h path base = Inr p \<and> s = path_str p \<and>
    (s = ''/dev/null'' \<or>
     (\<exists>t. resolve h (AbsPath (tmpdir h)) = Inr t \<and> path_is_under p t) \<or>
     (\<exists>w. resolve h (AbsPath (cwd h)) = Inr w \<and> path_is_under p w))"
proof -
  from assms(4) obtain p where p: "resolve_user_path h path base = Inr p" and s: "s = path_str p"
    by (auto simp: validate_output_path_def Let_def split: if_splits option.splits)
  have can: "canonical (readlink h) p" using assms(1,2) p by (rule user_path_canonical)
  have under: "path_is_under p w"
    if "resolve h (AbsPath (cwd h)) = Inr w" "path_str p = path_str w \<or> startswith (path_str p) (path_str w @ ''/'')" for w
  proof -
    have "canonical (readlink h) w"
      using resolve_canonical [OF assms(1) _ that(1)] assms(1) by (simp add: host_ok_def)
    then show ?thesis
      using that(2) can under_by_text path_str_inject canonical_parsed tree.under_refl by metis
  qed
  have "s = ''/dev/null'' \<or> is_under_system_tmpdir h (AbsPath p) = Inr True \<or>
      (\<exists>w. resolve h (AbsPath (cwd h)) = Inr w \<and>
        (path_str p = path_str w \<or> startswith (path_str p) (path_str w @ ''/'')))"
    using assms(3,4) p s
    by (auto simp: validate_output_path_def Let_def split: if_splits option.splits)
  moreover have "\<exists>t. resolve h (AbsPath (tmpdir h)) = Inr t \<and> path_is_under p t"
    if "is_under_system_tmpdir h (AbsPath p) = Inr True"
    using that resolve_fix [OF can] by (auto simp: is_under_system_tmpdir_def)
  ultimately show ?thesis using p s under by blast
qed

section \<open>A concrete case\<close>

text \<open>A case at \<open>/cases/C1\<close> whose \<open>agent/ev\<close> is a symbolic link to the sealed evidence.\<close>

definition example_host :: host where
  "example_host =
    \<lparr>cwd = [''srv''], home = [''root''], tmpdir = [''tmp''], environ = (\<lambda>n. None),
     active_case = Some \<lparr>case_id = ''1'', case_key = ''C1'', artifact_path = Some ''/cases/C1'',
       db_active = True\<rparr>,
     readlink = (\<lambda>p. if p = [''cases'', ''C1'', ''agent'', ''ev''] then Some ''../evidence'' else None),
     fs_is_dir = (\<lambda>p. True), fs_exists = (\<lambda>p. True), case_yaml_id = (\<lambda>p. None),
     which = (\<lambda>n. None), is_executable = (\<lambda>p. True), opt_bin_dirs = [], nfc = (\<lambda>s. s)\<rparr>"

abbreviation example_case :: comps where
  "example_case \<equiv> [''cases'', ''C1'']"

lemma example_active: "active_case_dir_str example_host = ''/cases/C1''"
  by code_simp

lemma example_case_dir: "case_dir_path example_host = Inr (Some example_case)"
  by code_simp

lemma example_resolvable: "case_resolvable example_host example_case w"
  by (cases w) (simp_all add: case_resolvable_def, code_simp+)

lemma example_ok: "host_ok example_host" "base_ok (Some (AbsPath example_case))"
  by (simp_all add: host_ok_def base_ok_def example_host_def)



theorem input_path_confined_witness:
  "readable_place example_host example_case [''cases'', ''C1'', ''evidence'', ''disk.raw'']"
proof -
  have "validate_input_path example_host ''agent/ev/disk.raw'' (Some (AbsPath example_case)) =
      Inr ''/cases/C1/evidence/disk.raw''" by code_simp
  from input_path_confined [OF example_ok example_case_dir this]
  obtain p where p: "''/cases/C1/evidence/disk.raw'' = path_str p" "readable_place example_host example_case p"
    by (auto simp: is_flag_value_def)
  then have "p = [''cases'', ''C1'', ''evidence'', ''disk.raw'']"
    using path_str_inject [of p "[''cases'', ''C1'', ''evidence'', ''disk.raw'']"] canonical_parsed
    by (auto simp: readable_place_def path_str_def)
  with p show ?thesis by simp
qed

theorem rm_targets_are_scratch_witness:
  "\<exists>p. resolve_user_path example_host ''tmp/x'' (Some (AbsPath example_case)) = Inr p \<and>
     p \<noteq> example_case \<and> \<not> path_is_under p (example_case @ [''evidence''])"
proof -
  have "validate_rm_targets example_host [''-f'', ''tmp/x''] (Some (AbsPath example_case)) = Inr ()"
    by code_simp
  from rm_targets_are_scratch [OF example_case_dir this, of "''tmp/x''"] show ?thesis by auto
qed

theorem output_without_case_confined_witness:
  "\<exists>p. resolve_user_path (example_host\<lparr>active_case := None\<rparr>) ''/tmp/a/../b'' None = Inr p \<and>
     ''/tmp/b'' = path_str p"
proof -
  have "active_case_dir_str (example_host\<lparr>active_case := None\<rparr>) = []" by code_simp
  moreover have "validate_output_path (example_host\<lparr>active_case := None\<rparr>) ''/tmp/a/../b'' None = Inr ''/tmp/b''"
    by code_simp
  moreover have "host_ok (example_host\<lparr>active_case := None\<rparr>)" "base_ok None"
    by (simp_all add: host_ok_def base_ok_def example_host_def)
  ultimately show ?thesis using output_without_case_confined by blast
qed

text \<open>The resolver of the active case reads \<open>SIFT_CASE_DIR\<close> when there is no request
  context, also when the database is the authority.\<close>

lemma env_fallback_under_db_authority:
  "let h = example_host\<lparr>active_case := None, environ := [''SIFT_DB_ACTIVE'' \<mapsto> ''1'', ''SIFT_CASE_DIR'' \<mapsto> ''/cases/X'']\<rparr>
   in db_authority_active h \<and> active_case_dir_str h = ''/cases/X''"
  by code_simp

end
