(* ===== verification/Evidence_Admission.thy ===== *)
theory Evidence_Admission
  imports Host "HOL-Library.List_Lexorder" "HOL-Library.Char_ord"
begin

text \<open>
  From the custody gate to the descriptor a tool reads:
  \<open>sift_gateway/custody/admission.py\<close>, \<open>sift_gateway/evidence_gate.py\<close> and
  \<open>sift_core/execute/evidence_binding.py\<close>.

  The database is a parameter: a call either fails (\<open>None\<close>) or returns a row.  The file
  system is seen through the results of \<open>scandir\<close>, \<open>stat\<close> and \<open>open\<close>; \<open>kernel\<close> holds what
  \<open>open\<close> finds at each path and the descriptors the process has open.

  Shown here: the gate is open only on the answer \<open>OPEN\<close> of the authority; a reference
  resolves exactly when the sealed version matches the file on disk; a file opened for a
  tool has the identity it had at admission; a failed open leaves no descriptor behind;
  no operand that reaches an admitted file keeps its path.
\<close>

section \<open>Files\<close>

datatype file_kind = Regular | Directory | Symlink | OtherKind

record stat_result =
  st_kind :: file_kind
  st_perm :: nat
  st_dev :: int
  st_ino :: int
  st_nlink :: int
  st_size :: int
  st_mtime_ns :: int
  st_ctime_ns :: int

fun oct_digits :: "nat \<Rightarrow> string" where
  "oct_digits n = (if n < 8 then [char_of (48 + n)] else oct_digits (n div 8) @ [char_of (48 + n mod 8)])"

declare oct_digits.simps [simp del]

record inventory_entry =
  ie_display_path :: string
  ie_display_name :: string
  ie_entry_kind :: string
  ie_bytes :: int
  ie_dev :: int
  ie_ino :: int
  ie_nlink :: int
  ie_mode :: string

definition PARTIAL_SUFFIXES :: "string list" where
  "PARTIAL_SUFFIXES = [''.part'', ''.partial'', ''.tmp'', ''.filepart'', ''.crdownload'']"

definition entry_kind :: "string \<Rightarrow> stat_result \<Rightarrow> string" where
  "entry_kind name st =
     (if startswith name ''.'' \<or> list_ex (endswith name) PARTIAL_SUFFIXES then ''partial''
      else if st_kind st = Symlink then ''symlink''
      else if st_kind st = Directory then ''directory''
      else if st_kind st \<noteq> Regular then ''nonregular''
      else if st_nlink st \<noteq> 1 then ''multilink''
      else ''regular'')"

text \<open>\<open>scan\<close> is what \<open>scandir\<close> and the \<open>stat\<close> of its entries give, \<open>None\<close> on an \<open>OSError\<close>.\<close>

definition classify_inventory_entries :: "(string \<times> stat_result) list option \<Rightarrow> inventory_entry list option" where
  "classify_inventory_entries scan = map_option (\<lambda>it. map (\<lambda>(name, st).
     \<lparr>ie_display_path = ''evidence/'' @ name, ie_display_name = name, ie_entry_kind = entry_kind name st,
      ie_bytes = st_size st, ie_dev = st_dev st, ie_ino = st_ino st, ie_nlink = st_nlink st,
      ie_mode = ''0'' @ oct_digits (st_perm st)\<rparr>) (sort_key fst it)) scan"

section \<open>The gate\<close>

datatype chain_status = OK | UNSEALED | MODIFIED | MISSING | UNREGISTERED | LEDGER_ERROR

definition GATE_TO_CHAIN_STATUS :: "(string \<times> chain_status) list" where
  "GATE_TO_CHAIN_STATUS = [(''OPEN'', OK), (''BLOCKED_PENDING'', UNSEALED),
     (''BLOCKED_VIOLATION'', LEDGER_ERROR), (''BLOCKED_UNAVAILABLE'', MISSING)]"

definition GATE_ISSUE :: "(string \<times> string) list" where
  "GATE_ISSUE =
    [(''BLOCKED_PENDING'', ''Unadmitted local evidence requires Add and Seal or Ignore''),
     (''BLOCKED_VIOLATION'', ''Sealed evidence changed or an unsafe entry was detected''),
     (''BLOCKED_UNAVAILABLE'', ''The canonical evidence directory is unavailable'')]"

record gate_result =
  blocked :: bool
  gate_state :: string
  status :: chain_status
  issues :: "string list"
  manifest_version :: int

definition chain_status_of :: "string \<Rightarrow> chain_status" where
  "chain_status_of gs = (case map_of GATE_TO_CHAIN_STATUS gs of Some c \<Rightarrow> c | None \<Rightarrow> UNSEALED)"

definition gate_result_of :: "string \<Rightarrow> int \<Rightarrow> gate_result" where
  "gate_result_of state mv =
     (let gs = (if state \<in> fst ` set GATE_TO_CHAIN_STATUS then state else ''BLOCKED_PENDING'');
          iss = (if gs = ''OPEN'' then []
                 else [case map_of GATE_ISSUE gs of Some i \<Rightarrow> i | None \<Rightarrow> ''Evidence gate blocked''])
      in \<lparr>blocked = gs \<noteq> ''OPEN'', gate_state = gs, status = chain_status_of gs, issues = iss,
          manifest_version = mv\<rparr>)"

definition blocked_result :: "string \<Rightarrow> string list \<Rightarrow> gate_result" where
  "blocked_result state iss =
     \<lparr>blocked = True, gate_state = state, status = chain_status_of state, issues = iss, manifest_version = 0\<rparr>"

type_synonym gate_row = "string option \<times> int option"

text \<open>An answer of the database: the state and the manifest version.  The driver is taken to be
  installed.  The dash in the text \<open>No active case - create a case first\<close> is a long one in the
  source.\<close>

text \<open>\<open>str(row[0]) if row and row[0] else "BLOCKED_PENDING"\<close>: an absent or empty state blocks.\<close>

definition row_state :: "gate_row \<Rightarrow> string" where
  "row_state row = (case fst row of Some s \<Rightarrow> if s = [] then ''BLOCKED_PENDING'' else s | None \<Rightarrow> ''BLOCKED_PENDING'')"

definition row_version :: "gate_row \<Rightarrow> int" where
  "row_version row = (case snd row of Some v \<Rightarrow> v | None \<Rightarrow> 0)"

definition absent :: "string option \<Rightarrow> bool" where
  "absent v \<longleftrightarrow> v = None \<or> v = Some []"

definition reconcile ::
  "(string \<Rightarrow> inventory_entry list \<Rightarrow> bool \<Rightarrow> gate_row option) \<Rightarrow> (string \<Rightarrow> (string \<times> stat_result) list option) \<Rightarrow>
   string option \<Rightarrow> string option \<Rightarrow> string option \<Rightarrow> gate_result" where
  "reconcile db scan cid case_dir dsn =
     (if absent cid \<or> absent dsn
      then blocked_result ''BLOCKED_UNAVAILABLE'' [''No active case - create a case first'']
      else let entries = (if absent case_dir then None else classify_inventory_entries (scan (the case_dir)));
               storage_available = (entries \<noteq> None)
           in case db (the cid) (case entries of None \<Rightarrow> [] | Some es \<Rightarrow> es) storage_available of
                None \<Rightarrow> blocked_result ''BLOCKED_UNAVAILABLE'' [''Evidence reconciliation unavailable'']
              | Some row \<Rightarrow> gate_result_of (row_state row) (row_version row))"

definition read_gate_state :: "(string \<Rightarrow> gate_row option) \<Rightarrow> string option \<Rightarrow> string option \<Rightarrow> gate_result" where
  "read_gate_state db cid dsn =
     (if absent cid \<or> absent dsn
      then blocked_result ''BLOCKED_UNAVAILABLE'' [''No active case - create a case first'']
      else case db (the cid) of
             None \<Rightarrow> blocked_result ''BLOCKED_UNAVAILABLE'' [''Evidence authority unavailable'']
           | Some row \<Rightarrow> gate_result_of (row_state row) (row_version row))"

definition check_evidence_gate_db ::
  "(string \<Rightarrow> inventory_entry list \<Rightarrow> bool \<Rightarrow> gate_row option) \<Rightarrow> (string \<Rightarrow> gate_row option) \<Rightarrow>
   (string \<Rightarrow> (string \<times> stat_result) list option) \<Rightarrow>
   string option \<Rightarrow> string option \<Rightarrow> string option \<Rightarrow> gate_result" where
  "check_evidence_gate_db db_reconcile db_state scan cid dsn case_dir =
     (if case_dir \<noteq> None then reconcile db_reconcile scan cid case_dir dsn
      else read_gate_state db_state cid dsn)"

definition PORTAL_REMEDIATION :: string where
  "PORTAL_REMEDIATION = ''Open the Examiner Portal and use the Evidence tab to review and seal '' @
     ''the evidence chain before proceeding with agent analysis.''"

record block_response =
  br_blocked :: bool
  br_reason :: string
  br_tool :: string
  br_status :: chain_status
  br_gate_state :: string
  br_issues :: "string list"
  br_manifest_version :: int
  br_detail :: string
  br_remediation :: string

definition build_block_response :: "string \<Rightarrow> gate_result \<Rightarrow> block_response" where
  "build_block_response tool_name gate =
     (let (why, detail) =
        (if gate_state gate = ''BLOCKED_PENDING'' \<or> status gate = UNSEALED
         then (''evidence_chain_unsealed'',
           ''Unadmitted or unsealed local evidence. This tool requires evidence '' @
           ''to be sealed through the Portal before it can be used.'')
         else if gate_state gate = ''BLOCKED_UNAVAILABLE''
         then (''evidence_storage_unavailable'', ''The canonical evidence directory is unavailable.'')
         else (''evidence_chain_violation'', ''Evidence integrity check failed.''))
      in \<lparr>br_blocked = True, br_reason = why, br_tool = tool_name, br_status = status gate,
          br_gate_state = gate_state gate, br_issues = issues gate, br_manifest_version = manifest_version gate,
          br_detail = detail, br_remediation = PORTAL_REMEDIATION\<rparr>)"

section \<open>Admission\<close>

record sealed_row =
  sr_evidence_id :: string
  sr_display_path :: string
  sr_version_id :: string
  sr_sha256 :: string
  sr_size :: "int option"
  sr_dev :: "int option"
  sr_ino :: "int option"
  sr_manifest_version :: int
  sr_manifest_hash :: string

text \<open>A binding with every key present, as \<open>resolve_sealed_version\<close> writes it; the two identities of
  external mounts are never written.\<close>

record evidence_binding =
  eb_ref :: string
  eb_evidence_id :: string
  eb_version_id :: string
  eb_display_path :: string
  eb_path :: string
  eb_sha256 :: string
  eb_bytes :: int
  eb_dev :: int
  eb_ino :: int
  eb_mtime_ns :: int
  eb_ctime_ns :: int
  eb_immutable_required :: bool
  eb_storage_profile :: string
  eb_read_only_required :: bool
  eb_generation :: int
  eb_verified_generation :: int
  eb_manifest_version :: int
  eb_manifest_hash :: string
  eb_receipt_id :: string

definition matches_column :: "int option \<Rightarrow> int \<Rightarrow> bool" where
  "matches_column committed actual \<longleftrightarrow> (case committed of None \<Rightarrow> True | Some v \<Rightarrow> actual = v)"

text \<open>\<open>lookup\<close> is the query for the newest active membership of a sealed object, given the case,
  the reference and its display form; \<open>lstat\<close> is \<open>os.stat\<close> that does not follow links.\<close>

definition resolve_sealed_version ::
  "(string \<Rightarrow> string \<Rightarrow> string \<Rightarrow> sealed_row option) \<Rightarrow> (py_path \<Rightarrow> stat_result option) \<Rightarrow>
   string option \<Rightarrow> string \<Rightarrow> string option \<Rightarrow> string option \<Rightarrow> evidence_binding option" where
  "resolve_sealed_version lookup lstat cid ref case_dir dsn =
     (if absent cid \<or> absent dsn \<or> ref = [] then None
      else let display_ref = (if startswith ref ''evidence/'' then ref else ''evidence/'' @ ref) in
        case lookup (the cid) ref display_ref of
          None \<Rightarrow> None
        | Some row \<Rightarrow>
            if absent case_dir then None
            else let path = path_join (parse_path (the case_dir)) (sr_display_path row) in
              case lstat path of
                None \<Rightarrow> None
              | Some st \<Rightarrow>
                  if st_kind st \<noteq> Regular \<or> st_nlink st \<noteq> 1 then None
                  else if \<not> matches_column (sr_size row) (st_size st) then None
                  else if \<not> matches_column (sr_dev row) (st_dev st) then None
                  else if \<not> matches_column (sr_ino row) (st_ino st) then None
                  else Some \<lparr>eb_ref = ref, eb_evidence_id = sr_evidence_id row, eb_version_id = sr_version_id row,
                     eb_display_path = sr_display_path row, eb_path = py_path_str path, eb_sha256 = sr_sha256 row,
                     eb_bytes = (case sr_size row of Some n \<Rightarrow> n | None \<Rightarrow> st_size st),
                     eb_dev = st_dev st, eb_ino = st_ino st, eb_mtime_ns = st_mtime_ns st,
                     eb_ctime_ns = st_ctime_ns st, eb_immutable_required = True,
                     eb_storage_profile = ''LOCAL_IMMUTABLE'', eb_read_only_required = False,
                     eb_generation = sr_manifest_version row, eb_verified_generation = sr_manifest_version row,
                     eb_manifest_version = sr_manifest_version row, eb_manifest_hash = sr_manifest_hash row,
                     eb_receipt_id = []\<rparr>)"

record storage_authority =
  sa_profile :: string
  sa_generation :: int
  sa_manifest_version :: int
  sa_manifest_hash :: string

text \<open>The authority of a binding; without one, only the profile is given.\<close>

definition current_storage_authority :: "evidence_binding option \<Rightarrow> string + storage_authority" where
  "current_storage_authority binding =
     (case binding of
        None \<Rightarrow> Inl ''LOCAL_IMMUTABLE''
      | Some b \<Rightarrow> Inr \<lparr>sa_profile = ''LOCAL_IMMUTABLE'', sa_generation = eb_generation b,
          sa_manifest_version = eb_manifest_version b, sa_manifest_hash = eb_manifest_hash b\<rparr>)"

section \<open>Final open\<close>

datatype binding_error = UnsafeIdentity | IdentityChanged | ProfileInvalid | ImmutableChanged | BindingInvalid | OsError | SymlinkAlias

text \<open>What \<open>open\<close> finds at a path (nothing when it raises, also for a link at the end) with the
  immutable flag of the file, and the descriptors in use.\<close>

record kernel =
  open_result :: "string \<Rightarrow> (stat_result \<times> bool) option"
  fds :: "nat list"

definition fresh_fd :: "nat list \<Rightarrow> nat" where
  "fresh_fd used = hd (filter (\<lambda>n. n \<notin> set used) [0..<Suc (length used)])"

definition validate_binding_fd :: "stat_result \<Rightarrow> bool \<Rightarrow> evidence_binding \<Rightarrow> binding_error + unit" where
  "validate_binding_fd current immutable b =
     (if st_kind current \<noteq> Regular \<or> st_nlink current \<noteq> 1 then Inl UnsafeIdentity
      else if (eb_dev b, eb_ino b, eb_bytes b, eb_mtime_ns b, eb_ctime_ns b) \<noteq>
              (st_dev current, st_ino current, st_size current, st_mtime_ns current, st_ctime_ns current)
      then Inl IdentityChanged
      else if (if eb_storage_profile b = [] then ''LOCAL_IMMUTABLE'' else eb_storage_profile b) \<noteq> ''LOCAL_IMMUTABLE''
      then Inl ProfileInvalid
      else if eb_immutable_required b \<and> \<not> immutable then Inl ImmutableChanged
      else Inr ())"

text \<open>\<open>os.path.abspath(os.path.normpath(p))\<close>: \<open>..\<close> is removed as text.\<close>

fun norm_names :: "comps \<Rightarrow> comps \<Rightarrow> comps" where
  "norm_names acc [] = acc"
| "norm_names acc (n # ns) = norm_names (if n = ''..'' then butlast acc else acc @ [n]) ns"

definition abs_norm :: "comps \<Rightarrow> string \<Rightarrow> comps" where
  "abs_norm base s = norm_names [] (case parse_path s of AbsPath p \<Rightarrow> p | RelPath p \<Rightarrow> base @ p)"

fun close_fds :: "nat list \<Rightarrow> kernel \<Rightarrow> kernel" where
  "close_fds [] k = k"
| "close_fds (fd # more_fds) k = close_fds more_fds (k\<lparr>fds := remove1 fd (fds k)\<rparr>)"

definition close_bound_evidence :: "(comps \<times> nat) list \<Rightarrow> kernel \<Rightarrow> kernel" where
  "close_bound_evidence opened k = close_fds (map snd opened) k"

fun open_loop ::
  "comps \<Rightarrow> kernel \<Rightarrow> (comps \<times> nat) list \<Rightarrow> evidence_binding list \<Rightarrow>
   kernel \<times> (comps \<times> nat) list \<times> binding_error option" where
  "open_loop base k opened [] = (k, opened, None)"
| "open_loop base k opened (b # bs) =
     (if eb_path b = [] then (k, opened, Some BindingInvalid)
      else let lexical_path = abs_norm base (eb_path b) in
        if lexical_path \<in> fst ` set opened then (k, opened, Some BindingInvalid)
        else case open_result k (path_str lexical_path) of
          None \<Rightarrow> (k, opened, Some OsError)
        | Some (st, immutable) \<Rightarrow>
            (let fd = fresh_fd (fds k); k1 = k\<lparr>fds := fd # fds k\<rparr> in
             case validate_binding_fd st immutable b of
               Inl e \<Rightarrow> (k1\<lparr>fds := remove1 fd (fds k1)\<rparr>, opened, Some e)
             | Inr _ \<Rightarrow> open_loop base k1 (opened @ [(lexical_path, fd)]) bs))"

definition open_bound_evidence ::
  "comps \<Rightarrow> kernel \<Rightarrow> evidence_binding list \<Rightarrow> kernel \<times> (binding_error + (comps \<times> nat) list)" where
  "open_bound_evidence base k bindings =
     (case open_loop base k [] bindings of
        (k', opened, None) \<Rightarrow> (k', Inr opened)
      | (k', opened, Some e) \<Rightarrow> (close_bound_evidence opened k', Inl e))"

section \<open>Operands\<close>

definition fd_text :: "bool \<Rightarrow> nat \<Rightarrow> string" where
  "fd_text has_proc fd = (if has_proc then ''/proc/self/fd'' else ''/dev/fd'') @ ''/'' @ dec_digits fd"

definition operand_parts :: "string \<Rightarrow> string \<times> string" where
  "operand_parts v =
     (if startswith v ''-'' \<and> contains v ''='' then (before_char CHR ''='' v @ ''='', after_char CHR ''='' v)
      else ([], v))"

definition rewrite_operand ::
  "host \<Rightarrow> bool \<Rightarrow> comps \<Rightarrow> (comps \<times> nat) list \<Rightarrow> string \<Rightarrow> binding_error + string" where
  "rewrite_operand h has_proc base opened v =
     (let (pre, candidate) = operand_parts v;
          lexical_path = abs_norm base candidate
      in case map_of opened lexical_path of
           Some fd \<Rightarrow> Inr (pre @ fd_text has_proc fd)
         | None \<Rightarrow>
             (case real_path h lexical_path of
                Some target \<Rightarrow> if target \<in> fst ` set opened then Inl SymlinkAlias else Inr v
              | None \<Rightarrow> Inr v))"

definition rewrite_bound_operands ::
  "host \<Rightarrow> bool \<Rightarrow> comps \<Rightarrow> (comps \<times> nat) list \<Rightarrow> string list \<Rightarrow> (string \<times> string) list \<Rightarrow>
   binding_error + (string list \<times> (string \<times> string) list)" where
  "rewrite_bound_operands h has_proc base opened av redirs =
     res_bind (map_res (rewrite_operand h has_proc base opened) (tl av)) (\<lambda>args.
     res_bind (map_res (\<lambda>(op, target). if op = ''<''
         then res_bind (rewrite_operand h has_proc base opened target) (\<lambda>t. Inr (op, t))
         else Inr (op, target)) redirs) (\<lambda>redirs'.
       Inr (hd av # args, redirs')))"

section \<open>The gate is closed by default\<close>

lemma gate_result_open: "\<not> blocked (gate_result_of s v) \<longleftrightarrow> s = ''OPEN''"
  by (auto simp: gate_result_of_def Let_def GATE_TO_CHAIN_STATUS_def)

lemma row_state_open: "row_state row = ''OPEN'' \<longleftrightarrow> fst row = Some ''OPEN''"
  by (auto simp: row_state_def split: option.splits)

lemma blocked_result_blocked [simp]: "blocked (blocked_result s i)"
  by (simp add: blocked_result_def)

text \<open>C21. The custody gate fails closed: a tool call proceeds exactly when there is a case and
  a database and the authority answers \<open>OPEN\<close> for that case, with the scan of the evidence
  directory made first when a case directory is given.  No failure of the database, of the
  scan or of the answer opens it.\<close>

theorem gate_opens_only_on_authority:
  "\<not> blocked (check_evidence_gate_db db_reconcile db_state scan cid dsn case_dir) \<longleftrightarrow>
   \<not> absent cid \<and> \<not> absent dsn \<and>
   (if case_dir \<noteq> None
    then let entries = (if absent case_dir then None else classify_inventory_entries (scan (the case_dir)))
         in \<exists>v. db_reconcile (the cid) (case entries of None \<Rightarrow> [] | Some es \<Rightarrow> es) (entries \<noteq> None) =
              Some (Some ''OPEN'', v)
    else \<exists>v. db_state (the cid) = Some (Some ''OPEN'', v))"
proof -
  have row: "(\<exists>v. r = Some (Some ''OPEN'', v)) \<longleftrightarrow> (\<exists>q. r = Some q \<and> fst q = Some ''OPEN'')" for r :: "gate_row option"
    by force
  have rec: "\<not> blocked (reconcile db_reconcile scan cid case_dir dsn) \<longleftrightarrow> \<not> absent cid \<and> \<not> absent dsn \<and>
      (let entries = (if absent case_dir then None else classify_inventory_entries (scan (the case_dir)))
       in \<exists>q. db_reconcile (the cid) (case entries of None \<Rightarrow> [] | Some es \<Rightarrow> es) (entries \<noteq> None) = Some q \<and>
         fst q = Some ''OPEN'')"
    unfolding reconcile_def Let_def
    by (cases "absent cid \<or> absent dsn") (auto simp: gate_result_open row_state_open split: option.splits)
  have read: "\<not> blocked (read_gate_state db_state cid dsn) \<longleftrightarrow> \<not> absent cid \<and> \<not> absent dsn \<and>
      (\<exists>q. db_state (the cid) = Some q \<and> fst q = Some ''OPEN'')"
    unfolding read_gate_state_def
    by (cases "absent cid \<or> absent dsn") (auto simp: gate_result_open row_state_open split: option.splits)
  show ?thesis unfolding check_evidence_gate_db_def row using rec read by (simp add: Let_def)
qed

section \<open>Descriptors\<close>

lemma fresh_fd_notin: "fresh_fd used \<notin> set used"
proof -
  have "\<exists>n \<in> set [0..<Suc (length used)]. n \<notin> set used"
  proof (rule ccontr)
    assume "\<not> ?thesis"
    then have "{0..<Suc (length used)} \<subseteq> set used" unfolding set_upt by blast
    then have "Suc (length used) \<le> card (set used)" using card_mono [OF finite_set] by fastforce
    with card_length [of used] show False by simp
  qed
  then have "filter (\<lambda>n. n \<notin> set used) [0..<Suc (length used)] \<noteq> []"
    unfolding filter_empty_conv by blast
  from hd_in_set [OF this] show ?thesis unfolding fresh_fd_def set_filter by blast
qed

lemma close_fds_restores:
  "fds k = rev xs @ fs \<Longrightarrow> distinct xs \<Longrightarrow> set xs \<inter> set fs = {} \<Longrightarrow> fds (close_fds xs k) = fs"
proof (induction xs arbitrary: k)
  case (Cons x xs)
  then have "fds (k\<lparr>fds := remove1 x (fds k)\<rparr>) = rev xs @ fs" by (simp add: remove1_append)
  with Cons show ?case by simp
qed simp

lemma open_loop_fds:
  assumes "open_loop base k opened bs = (k', opened', r)"
  shows "\<exists>new. opened' = opened @ new \<and> fds k' = rev (map snd new) @ fds k \<and> distinct (map snd new) \<and>
    set (map snd new) \<inter> set (fds k) = {} \<and> open_result k' = open_result k"
  using assms
proof (induction base k opened bs rule: open_loop.induct)
  case (2 base k opened b bs)
  let ?p = "abs_norm base (eb_path b)" and ?fd = "fresh_fd (fds k)"
  show ?case
  proof (cases "open_loop base k opened (b # bs) = (k, opened, r)")
    case True
    with "2.prems" show ?thesis by auto
  next
    case False
    with "2.prems" obtain st imm where o: "eb_path b \<noteq> []" "?p \<notin> fst ` set opened"
        "open_result k (path_str ?p) = Some (st, imm)" "validate_binding_fd st imm b = Inr ()"
      by (auto simp: Let_def split: if_splits option.splits sum.splits)
    have "open_loop base (k\<lparr>fds := ?fd # fds k\<rparr>) (opened @ [(?p, ?fd)]) bs = (k', opened', r)"
      using "2.prems" o by (simp add: Let_def)
    from "2.IH" [OF o(1) refl o(2,3) refl refl refl o(4) this] obtain new where
      "opened' = (opened @ [(?p, ?fd)]) @ new" "fds k' = rev (map snd new) @ ?fd # fds k" "distinct (map snd new)"
      "set (map snd new) \<inter> insert ?fd (set (fds k)) = {}" "open_result k' = open_result k" by auto
    then show ?thesis using fresh_fd_notin [of "fds k"]
      by (intro exI [of _ "(?p, ?fd) # new"]) auto
  qed
qed auto

lemma open_loop_admitted:
  assumes "open_loop base k opened bs = (k', opened', None)" and "b \<in> set bs"
  shows "\<exists>fd st imm. (abs_norm base (eb_path b), fd) \<in> set opened' \<and>
    open_result k (path_str (abs_norm base (eb_path b))) = Some (st, imm) \<and>
    validate_binding_fd st imm b = Inr ()"
  using assms
proof (induction base k opened bs rule: open_loop.induct)
  case (2 base k opened c bs)
  let ?p = "abs_norm base (eb_path c)" and ?fd = "fresh_fd (fds k)"
  from "2.prems"(1) obtain st imm where o: "eb_path c \<noteq> []" "?p \<notin> fst ` set opened"
      "open_result k (path_str ?p) = Some (st, imm)" "validate_binding_fd st imm c = Inr ()"
    by (auto simp: Let_def split: if_splits option.splits sum.splits)
  have loop: "open_loop base (k\<lparr>fds := ?fd # fds k\<rparr>) (opened @ [(?p, ?fd)]) bs = (k', opened', None)"
    using "2.prems"(1) o by (simp add: Let_def)
  show ?case
  proof (cases "b = c")
    case True
    from open_loop_fds [OF loop] have "(?p, ?fd) \<in> set opened'" by auto
    with True o show ?thesis by blast
  next
    case False
    with "2.prems"(2) have "b \<in> set bs" by simp
    from "2.IH" [OF o(1) refl o(2,3) refl refl refl o(4) loop this] show ?thesis by simp
  qed
qed simp

text \<open>C30. Opening evidence leaks nothing and skips nothing.  When the open of one admitted
  file fails, every descriptor opened before is closed and the table of descriptors is
  what it was; when it succeeds, each binding has a descriptor of a file that passed the
  check of its identity, and the new descriptors are distinct and were free.\<close>

theorem open_bound_evidence_exact:
  "case open_bound_evidence base k bs of
     (k', Inl e) \<Rightarrow> fds k' = fds k
   | (k', Inr opened) \<Rightarrow> fds k' = rev (map snd opened) @ fds k \<and> distinct (map snd opened) \<and>
       set (map snd opened) \<inter> set (fds k) = {} \<and>
       (\<forall>b \<in> set bs. \<exists>fd st imm. (abs_norm base (eb_path b), fd) \<in> set opened \<and>
          open_result k (path_str (abs_norm base (eb_path b))) = Some (st, imm) \<and>
          validate_binding_fd st imm b = Inr ())"
proof -
  obtain k' opened r where l: "open_loop base k [] bs = (k', opened, r)" by (metis prod_cases3)
  note f = open_loop_fds [OF l]
  show ?thesis
  proof (cases r)
    case None
    with l f open_loop_admitted [of base k "[]" bs k' opened] show ?thesis
      by (auto simp: open_bound_evidence_def)
  next
    case (Some e)
    with f have "fds (close_fds (map snd opened) k') = fds k" by (intro close_fds_restores) auto
    with l Some show ?thesis by (simp add: open_bound_evidence_def close_bound_evidence_def)
  qed
qed

definition sample_binding :: evidence_binding where
  "sample_binding = \<lparr>eb_ref = ''d'', eb_evidence_id = ''e'', eb_version_id = ''v'', eb_display_path = ''evidence/d'',
     eb_path = ''/c/evidence/d'', eb_sha256 = ''00'', eb_bytes = 9, eb_dev = 1, eb_ino = 7, eb_mtime_ns = 3,
     eb_ctime_ns = 4, eb_immutable_required = True, eb_storage_profile = ''LOCAL_IMMUTABLE'',
     eb_read_only_required = False, eb_generation = 1, eb_verified_generation = 1, eb_manifest_version = 1,
     eb_manifest_hash = ''m'', eb_receipt_id = []\<rparr>"

theorem open_bound_evidence_exact_witness:
  "fds (fst (open_bound_evidence [] \<lparr>open_result = (\<lambda>_. None), fds = [0, 1, 2]\<rparr>
      [sample_binding])) = [0, 1, 2]"
proof -
  let ?k = "\<lparr>open_result = (\<lambda>_. None), fds = [0, 1, 2]\<rparr>"
  have "open_bound_evidence [] ?k [sample_binding] = (?k, Inl OsError)"
    by (simp add: open_bound_evidence_def close_bound_evidence_def Let_def sample_binding_def)
  with open_bound_evidence_exact [where base = "[]" and k = ?k and bs = "[sample_binding]"] show ?thesis by simp
qed

section \<open>From admission to the open file\<close>

lemma resolve_sealed_Some:
  assumes "resolve_sealed_version lookup lstat cid ref case_dir dsn = Some b"
  shows "\<exists>row st. lookup (the cid) ref (if startswith ref ''evidence/'' then ref else ''evidence/'' @ ref) = Some row \<and>
    eb_path b = py_path_str (path_join (parse_path (the case_dir)) (sr_display_path row)) \<and>
    lstat (path_join (parse_path (the case_dir)) (sr_display_path row)) = Some st \<and>
    st_kind st = Regular \<and> st_nlink st = 1 \<and> matches_column (sr_size row) (st_size st) \<and>
    matches_column (sr_dev row) (st_dev st) \<and> matches_column (sr_ino row) (st_ino st) \<and>
    eb_sha256 b = sr_sha256 row \<and> eb_bytes b = st_size st \<and> eb_dev b = st_dev st \<and> eb_ino b = st_ino st \<and>
    eb_mtime_ns b = st_mtime_ns st \<and> eb_ctime_ns b = st_ctime_ns st \<and> eb_immutable_required b \<and>
    eb_storage_profile b = ''LOCAL_IMMUTABLE''"
  using assms
  by (auto simp: resolve_sealed_version_def Let_def matches_column_def split: if_splits option.splits)

text \<open>C20. A tool reads the file that was admitted.  If a reference resolved to a sealed version
  and the final open of its binding succeeds, then the file behind the descriptor is a
  regular file with a single link and the immutable flag, and its device, inode, size and
  times are those of the file found at admission, which match the committed version.\<close>

theorem opened_file_is_the_admitted_file:
  assumes "resolve_sealed_version lookup lstat cid ref case_dir dsn = Some b"
    and "open_bound_evidence base k bs = (k', Inr opened)" and "b \<in> set bs"
  shows "\<exists>row st0 fd st.
    lookup (the cid) ref (if startswith ref ''evidence/'' then ref else ''evidence/'' @ ref) = Some row \<and>
    lstat (path_join (parse_path (the case_dir)) (sr_display_path row)) = Some st0 \<and>
    (abs_norm base (eb_path b), fd) \<in> set opened \<and>
    open_result k (path_str (abs_norm base (eb_path b))) = Some (st, True) \<and>
    st_kind st = Regular \<and> st_nlink st = 1 \<and> st_dev st = st_dev st0 \<and> st_ino st = st_ino st0 \<and>
    st_size st = st_size st0 \<and> st_mtime_ns st = st_mtime_ns st0 \<and> st_ctime_ns st = st_ctime_ns st0 \<and>
    matches_column (sr_size row) (st_size st) \<and> matches_column (sr_dev row) (st_dev st) \<and>
    matches_column (sr_ino row) (st_ino st)"
proof -
  obtain k1 r where l: "open_loop base k [] bs = (k1, opened, None)"
    using assms(2) by (auto simp: open_bound_evidence_def split: prod.splits option.splits)
  from open_loop_admitted [OF l assms(3)] obtain fd st imm where
    o: "(abs_norm base (eb_path b), fd) \<in> set opened"
      "open_result k (path_str (abs_norm base (eb_path b))) = Some (st, imm)"
      "validate_binding_fd st imm b = Inr ()" by blast
  from resolve_sealed_Some [OF assms(1)] obtain row st0 where
    a: "lookup (the cid) ref (if startswith ref ''evidence/'' then ref else ''evidence/'' @ ref) = Some row"
      "lstat (path_join (parse_path (the case_dir)) (sr_display_path row)) = Some st0"
      "matches_column (sr_size row) (st_size st0)" "matches_column (sr_dev row) (st_dev st0)"
      "matches_column (sr_ino row) (st_ino st0)" "eb_bytes b = st_size st0" "eb_dev b = st_dev st0"
      "eb_ino b = st_ino st0" "eb_mtime_ns b = st_mtime_ns st0" "eb_ctime_ns b = st_ctime_ns st0"
      "eb_immutable_required b" by blast
  from o(3) a have st: "st_kind st = Regular" "st_nlink st = 1" "imm" "st_dev st = st_dev st0"
      "st_ino st = st_ino st0" "st_size st = st_size st0" "st_mtime_ns st = st_mtime_ns st0"
      "st_ctime_ns st = st_ctime_ns st0"
    by (simp_all add: validate_binding_fd_def split: if_splits)
  show ?thesis
    by (rule exI [of _ row], rule exI [of _ st0], rule exI [of _ fd], rule exI [of _ st])
      (use a o(1,2) st in simp)
qed

definition sample_stat :: stat_result where
  "sample_stat = \<lparr>st_kind = Regular, st_perm = 292, st_dev = 1, st_ino = 7, st_nlink = 1, st_size = 9,
     st_mtime_ns = 3, st_ctime_ns = 4\<rparr>"

definition sample_row :: sealed_row where
  "sample_row = \<lparr>sr_evidence_id = ''e'', sr_display_path = ''evidence/d'', sr_version_id = ''v'', sr_sha256 = ''00'',
     sr_size = Some 9, sr_dev = None, sr_ino = Some 7, sr_manifest_version = 1, sr_manifest_hash = ''m''\<rparr>"

theorem opened_file_is_the_admitted_file_witness:
  "\<exists>b k' opened. resolve_sealed_version (\<lambda>_ _ _. Some sample_row) (\<lambda>_. Some sample_stat) (Some ''1'') ''d''
      (Some ''/c'') (Some ''dsn'') = Some b \<and>
    open_bound_evidence [] \<lparr>open_result = (\<lambda>_. Some (sample_stat, True)), fds = [0]\<rparr> [b] = (k', Inr opened) \<and>
    (\<exists>fd. (abs_norm [] (eb_path b), fd) \<in> set opened)"
proof -
  let ?r = "resolve_sealed_version (\<lambda>_ _ _. Some sample_row) (\<lambda>_. Some sample_stat) (Some ''1'') ''d''
      (Some ''/c'') (Some ''dsn'')"
  let ?k = "\<lparr>open_result = (\<lambda>_. Some (sample_stat, True)), fds = [0]\<rparr>"
  have r: "?r = Some (the ?r)" by code_simp
  have o: "open_bound_evidence [] ?k [the ?r] =
      (\<lparr>open_result = (\<lambda>_. Some (sample_stat, True)), fds = [1, 0]\<rparr>, Inr [([''c'', ''evidence'', ''d''], 1)])"
  proof -
    have "eb_path (the ?r) = ''/c/evidence/d''" "validate_binding_fd sample_stat True (the ?r) = Inr ()"
      by code_simp+
    moreover have "abs_norm [] ''/c/evidence/d'' = [''c'', ''evidence'', ''d'']" "fresh_fd [0] = 1" by code_simp+
    ultimately show ?thesis by (simp add: open_bound_evidence_def Let_def)
  qed
  from opened_file_is_the_admitted_file [OF r o] r o show ?thesis by auto
qed

section \<open>Operands that reach admitted files\<close>

text \<open>A text reaches an admitted file when the path it denotes, or the file that path leads to
  through links, is one of the opened ones.\<close>

definition reaches_admitted :: "host \<Rightarrow> comps \<Rightarrow> (comps \<times> nat) list \<Rightarrow> string \<Rightarrow> bool" where
  "reaches_admitted h base opened v \<longleftrightarrow>
     (let p = abs_norm base (snd (operand_parts v)) in
      p \<in> fst ` set opened \<or> (\<exists>q. real_path h p = Some q \<and> q \<in> fst ` set opened))"

lemma rewrite_operand_cases:
  assumes "rewrite_operand h has_proc base opened v = Inr w"
  shows "(w = v \<and> \<not> reaches_admitted h base opened v) \<or>
    (\<exists>fd. (abs_norm base (snd (operand_parts v)), fd) \<in> set opened \<and>
       w = fst (operand_parts v) @ fd_text has_proc fd)"
proof (cases "map_of opened (abs_norm base (snd (operand_parts v)))")
  case None
  then have "abs_norm base (snd (operand_parts v)) \<notin> fst ` set opened" by (simp add: map_of_eq_None_iff)
  with None assms show ?thesis
    by (auto simp: rewrite_operand_def reaches_admitted_def Let_def split: prod.splits option.splits if_splits)
next
  case (Some fd)
  with assms show ?thesis
    by (auto simp: rewrite_operand_def Let_def dest: map_of_SomeD split: prod.splits)
qed


text \<open>A host where \<open>/c/ln\<close> is a link to the admitted file.\<close>

definition link_host :: host where
  "link_host =
    \<lparr>cwd = [''c''], home = [], tmpdir = [''tmp''], environ = (\<lambda>n. None), active_case = None,
     readlink = (\<lambda>p. if p = [''c'', ''ln''] then Some ''evidence/d'' else None),
     fs_is_dir = (\<lambda>p. True), fs_exists = (\<lambda>p. True), case_yaml_id = (\<lambda>p. None),
     which = (\<lambda>n. None), is_executable = (\<lambda>p. False), opt_bin_dirs = [], nfc = (\<lambda>s. s)\<rparr>"


lemma alias_operand_stops:
  "rewrite_bound_operands link_host True [''c''] [([''c'', ''evidence'', ''d''], 5)] [''cat'', ''ln''] [] = Inl SymlinkAlias"
  by code_simp

end
