(* ===== verification/Py_Value.thy ===== *)
theory Py_Value
  imports Py_String
begin

text \<open>
  Untyped values: what a YAML or JSON document or the arguments of a tool call hold.  A dictionary
  is the list of its entries in insertion order.
\<close>

datatype pyval =
    PNone
  | PBool bool
  | PInt int
  | PStr string
  | PList "pyval list"
  | PDict "(pyval \<times> pyval) list"

fun truthy :: "pyval \<Rightarrow> bool" where
  "truthy PNone = False"
| "truthy (PBool b) = b"
| "truthy (PInt i) = (i \<noteq> 0)"
| "truthy (PStr s) = (s \<noteq> [])"
| "truthy (PList xs) = (xs \<noteq> [])"
| "truthy (PDict kvs) = (kvs \<noteq> [])"

definition dict_get :: "(pyval \<times> pyval) list \<Rightarrow> string \<Rightarrow> pyval" where
  "dict_get kvs k = (case map_of kvs (PStr k) of None \<Rightarrow> PNone | Some v \<Rightarrow> v)"

fun as_str :: "pyval \<Rightarrow> string option" where
  "as_str (PStr s) = Some s"
| "as_str _ = None"

end
