(* ===== verification/Security_Policy.thy ===== *)
theory Security_Policy
  imports Py_Value "HOL-Library.AList"
begin

text \<open>
  \<open>sift_core/execute/security_policy.py\<close> and the policy loader of
  \<open>sift_core/execute/catalog.py\<close>: the constants of the executor policy, the merge of an
  operator's policy document into the defaults, the document handed to worker
  processes through the environment, and the two binary matchers.

  The operator's document is untyped YAML or JSON, so it is a \<open>pyval\<close>.  A
  \<open>frozenset\<close> of the source is a list of its elements; nothing below depends on the
  order or on repetitions.  Theorems: the merge always keeps the deny floor and the
  curated allowlist, its result is canonical after one trip through the environment,
  and no binary of the curated allowlist is caught by the deny floor.
\<close>

section \<open>Constants\<close>

definition WINDOWS_ONLY_ZIMMERMAN_TOOLS :: "string list" where
  "WINDOWS_ONLY_ZIMMERMAN_TOOLS =
    [''pecmd'', ''srumecmd'']"

definition ARGV_REWRITING_LAUNCHERS :: "string list" where
  "ARGV_REWRITING_LAUNCHERS =
    [''nice'', ''ionice'', ''chrt'', ''taskset'', ''time'', ''command'', ''setsid'',
     ''prlimit'', ''flock'', ''setpriv'', ''runuser'', ''su'', ''sg'', ''newgrp'',
     ''start-stop-daemon'', ''daemon'', ''systemd-run'', ''systemd-nspawn'']"

definition is_windows_only_zimmerman_target :: "string \<Rightarrow> bool" where
  "is_windows_only_zimmerman_target value =
     (let basename = casefold (after_last (CHR ''/'')
            (replace_char (CHR 0x5C) (CHR ''/'') value))
      in basename \<in> set (concat (map (\<lambda>tool. [tool, tool @ ''.exe'', tool @ ''.dll''])
           WINDOWS_ONLY_ZIMMERMAN_TOOLS)))"

definition DENY_FLOOR :: "string list" where
  "DENY_FLOOR =
    [''mkfs'', ''mkfs.*'', ''shutdown'', ''reboot'', ''poweroff'', ''halt'', ''init'',
     ''kill'', ''killall'', ''pkill'', ''env'', ''printenv'', ''nc'', ''ncat'', ''socat'',
     ''chattr'', ''lsattr'', ''setfattr'', ''getfattr'', ''setcap'', ''getcap'', ''capsh'',
     ''mount'', ''umount'', ''umount2'', ''losetup'', ''qemu-nbd'', ''modprobe'', ''insmod'',
     ''rmmod'', ''unshare'', ''nsenter'', ''setns'', ''pivot_root'', ''chroot'', ''dd'',
     ''dc3dd'', ''dcfldd'', ''wipefs'', ''shred'', ''blkdiscard'', ''sgdisk'', ''parted'',
     ''mkswap'', ''cryptsetup'', ''dmsetup'', ''hdparm'', ''pecmd'', ''pecmd.exe'',
     ''pecmd.dll'', ''srumecmd'', ''srumecmd.exe'', ''srumecmd.dll'', ''*sh'', ''busybox'',
     ''busybox.*'', ''sh'', ''bash'', ''dash'', ''zsh'', ''fish'', ''ksh'', ''csh'', ''tcsh'',
     ''python'', ''python*'', ''python3'', ''pypy*'', ''perl'', ''perl*'', ''ruby'', ''ruby*'',
     ''xargs'', ''nohup'', ''timeout'', ''stdbuf'', ''node'', ''node*'', ''nodejs'', ''php'',
     ''php*'', ''lua'', ''lua*'', ''luajit'', ''luajit*'', ''tclsh'', ''tclsh*'', ''wish'',
     ''wish*'', ''expect'', ''expect*'', ''gdb'', ''gdb*'', ''lldb'', ''lldb*'', ''vi'',
     ''vim'', ''view'', ''nano'', ''ed'', ''ex'', ''emacs'', ''less'', ''more'', ''pg'',
     ''man'', ''watch'', ''script'', ''screen'', ''tmux'']
    @ ARGV_REWRITING_LAUNCHERS"

definition MVP_FORENSIC_ALLOWLIST :: "string list" where
  "MVP_FORENSIC_ALLOWLIST =
    [''mmls'', ''fls'', ''fsstat'', ''istat'', ''ifind'', ''icat'', ''img_stat'', ''blkcat'',
     ''fcat'', ''tsk_recover'', ''mactime'', ''sorter'', ''sigfind'', ''rip.pl'',
     ''regripper'', ''evtx_dump'', ''evtxexport'', ''hayabusa'', ''EvtxECmd'', ''evtxecmd'',
     ''MFTECmd'', ''mftecmd'', ''RECmd'', ''recmd'', ''AmcacheParser'', ''amcacheparser'',
     ''AppCompatCacheParser'', ''appcompatcacheparser'', ''JLECmd'', ''jlecmd'', ''LECmd'',
     ''lecmd'', ''SBECmd'', ''sbecmd'', ''RBCmd'', ''rbcmd'', ''SQLECmd'', ''sqlecmd'',
     ''bstrings'', ''WxTCmd'', ''wxtcmd'', ''strings'', ''bulk_extractor'', ''foremost'',
     ''scalpel'', ''binwalk'', ''yara'', ''hindsight.py'', ''pdfid.py'', ''pdf-parser.py'',
     ''analyzemft'', ''usnparser'', ''sqlite-carver'', ''page-brute'', ''packerid.py'',
     ''densityscout'', ''pescan'', ''mvt-ios'', ''mvt-android'', ''mac_apt.py'',
     ''INDXParse.py'', ''evtx_dump.py'', ''sha256sum'', ''sha1sum'', ''md5sum'', ''b2sum'',
     ''file'', ''stat'', ''xxd'', ''hexdump'', ''od'', ''exiftool'', ''cat'', ''head'',
     ''tail'', ''grep'', ''egrep'', ''fgrep'', ''zgrep'', ''rg'', ''sort'', ''uniq'', ''wc'',
     ''cut'', ''tr'', ''awk'', ''sed'', ''find'', ''ls'', ''tree'', ''date'', ''echo'',
     ''pwd'', ''whoami'', ''tar'', ''unzip'', ''zipinfo'', ''7z'', ''ewfinfo'', ''ewfverify'',
     ''ewfexport'', ''vol'', ''vol3'', ''volatility3'', ''tshark'', ''tcpdump'', ''curl'',
     ''wget'']"

definition default_dangerous_flags :: "string list" where
  "default_dangerous_flags =
    [''-e'', ''--exec'', ''--command'', ''-enc'', ''-encodedcommand'', ''--script'',
     ''--invoke'']"

definition default_tool_allowed_flags :: "(string \<times> string list) list" where
  "default_tool_allowed_flags =
    [
     (''run_bulk_extractor'',
      [''-e'', ''-x'']),
     (''grep'',
      [''-e'', ''-E'']),
     (''egrep'',
      [''-e'', ''-E'']),
     (''zgrep'',
      [''-e'', ''-E''])]"

definition default_tool_blocked_flags :: "(string \<times> string list) list" where
  "default_tool_blocked_flags =
    [
     (''find'',
      [''-exec'', ''-execdir'', ''-ok'', ''-okdir'', ''-delete'', ''-fls'', ''-fprint'',
       ''-fprint0'', ''-fprintf'']),
     (''awk'',
      [''-f'', ''--file'']),
     (''sed'',
      [''-i'', ''--in-place'', ''-e'', ''--expression'', ''-f'', ''--file'']),
     (''sqlite3'',
      [''-cmd'', ''-init'']),
     (''tshark'',
      [''-X'', ''--lua-script'', ''-z'', ''--extcap-interface'', ''-i'', ''-G'']),
     (''vol'',
      [''--plugin-dirs'', ''-p'', ''--config'']),
     (''vol3'',
      [''--plugin-dirs'', ''-p'', ''--config'']),
     (''volatility3'',
      [''--plugin-dirs'', ''-p'', ''--config'']),
     (''exiftool'',
      [''-config'', ''-execute'', ''-p'', ''-if'', ''-api'']),
     (''7z'',
      [''-so'', ''-sfx'']),
     (''tar'',
      [''-x'', ''--extract'', ''--get'', ''-c'', ''--create'', ''--delete'', ''--append'',
       ''--checkpoint-action'', ''--use-compress-program'', ''--to-command'']),
     (''unzip'',
      [''-o'', ''-n'']),
     (''curl'',
      [''-d'', ''--data'', ''--data-raw'', ''--data-binary'', ''--data-ascii'',
       ''--data-urlencode'', ''--data-urlencode'', ''-F'', ''--form'', ''--form-string'',
       ''-T'', ''--upload-file'', ''--json'']),
     (''wget'',
      [''--post-data'', ''--post-file'', ''--method''])]"

definition default_output_flags :: "string list" where
  "default_output_flags =
    [''--csv'', ''--csvf'', ''-o'', ''--output'', ''--json'', ''--jsonl'']"

definition strs :: "string list \<Rightarrow> pyval" where
  "strs xs = PList (map PStr xs)"

definition str_map :: "(string \<times> string list) list \<Rightarrow> pyval" where
  "str_map kvs = PDict (map (\<lambda>(k, vs). (PStr k, strs vs)) kvs)"

definition DEFAULT_SECURITY_POLICY :: "(pyval \<times> pyval) list" where
  "DEFAULT_SECURITY_POLICY =
    [(PStr ''mode'', PStr ''allowlist''),
     (PStr ''allowed_binaries'', strs [''@mvp_forensic'']),
     (PStr ''unlisted_policy'', PStr ''reject''),
     (PStr ''dangerous_flags'', strs default_dangerous_flags),
     (PStr ''tool_allowed_flags'', str_map default_tool_allowed_flags),
     (PStr ''tool_blocked_flags'', str_map default_tool_blocked_flags),
     (PStr ''output_flags'', strs default_output_flags),
     (PStr ''denied_binaries'', strs DENY_FLOOR)]"

section \<open>Merging\<close>

datatype policy_error =
    PolicyRequired
  | PolicyNotMapping
  | PolicyEmpty
  | ModeNotAllowlist
  | UnlistedNotReject
  | NotListOfStrings
  | NotMapping
  | KeysNotStrings
  | DeniedEmpty
  | AllowedRequired

definition as_list :: "pyval \<Rightarrow> policy_error + string list" where
  "as_list v =
     (case v of
        PNone \<Rightarrow> Inr []
      | PList xs \<Rightarrow>
          map_res (\<lambda>x. case x of PStr s \<Rightarrow> Inr s | _ \<Rightarrow> Inl NotListOfStrings) xs
      | _ \<Rightarrow> Inl NotListOfStrings)"

definition as_map :: "pyval \<Rightarrow> policy_error + (string \<times> string list) list" where
  "as_map v =
     (case v of
        PNone \<Rightarrow> Inr []
      | PDict kvs \<Rightarrow>
          map_res (\<lambda>(k, items). case k of
              PStr s \<Rightarrow> res_bind (as_list items) (\<lambda>xs. Inr (s, xs))
            | _ \<Rightarrow> Inl KeysNotStrings) kvs
      | _ \<Rightarrow> Inl NotMapping)"

definition expand_allowlist_tokens :: "string list \<Rightarrow> string list" where
  "expand_allowlist_tokens values =
     concat (map (\<lambda>value. if lower (strip value) = ''@mvp_forensic''
       then MVP_FORENSIC_ALLOWLIST else [value]) values)"

fun dedupe_lower_from :: "string list \<Rightarrow> string list \<Rightarrow> string list" where
  "dedupe_lower_from seen [] = []"
| "dedupe_lower_from seen (value # values) =
     (let normalized = lower value
      in if normalized \<in> set seen then dedupe_lower_from seen values
         else normalized # dedupe_lower_from (normalized # seen) values)"

definition dedupe_lower :: "string list \<Rightarrow> string list" where
  "dedupe_lower values = dedupe_lower_from [] values"

fun merge_maps ::
  "(string \<times> string list) list \<Rightarrow> (string \<times> string list) list \<Rightarrow> (string \<times> string list) list" where
  "merge_maps result [] = result"
| "merge_maps result ((key, values) # overlay) =
     merge_maps (AList.update key
       (dedupe_lower ((case map_of result key of None \<Rightarrow> [] | Some vs \<Rightarrow> vs) @ values)) result)
       overlay"

definition unlisted_policy_value :: "pyval \<Rightarrow> policy_error + string" where
  "unlisted_policy_value v =
     (if v = PNone then Inr ''reject''
      else if map_option (\<lambda>s. lower (strip s)) (as_str v) = Some ''reject''
      then Inr ''reject'' else Inl UnlistedNotReject)"

record policy =
  mode :: string
  unlisted_policy :: string
  allowed_binaries :: "string list"
  dangerous_flags :: "string list"
  tool_allowed_flags :: "(string \<times> string list) list"
  tool_blocked_flags :: "(string \<times> string list) list"
  output_flags :: "string list"
  denied_binaries :: "string list"

text \<open>
  \<open>str(value)\<close> of a document value that is not a string is a numeral, \<open>True\<close>, \<open>False\<close> or a
  bracketed text, never \<open>allowlist\<close> or \<open>reject\<close>, so \<open>as_str\<close> gives the outcome of the two
  comparisons.  The defaults are read through the same \<open>as_list\<close> and \<open>as_map\<close>.
\<close>

definition merge_policy :: "(pyval \<times> pyval) list \<Rightarrow> policy_error + policy" where
  "merge_policy operator =
     (let base = DEFAULT_SECURITY_POLICY;
          mode_value = (if truthy (dict_get operator ''mode'')
                        then dict_get operator ''mode'' else dict_get base ''mode'');
          unlisted = (case map_of operator (PStr ''unlisted_policy'') of
                        Some v \<Rightarrow> v | None \<Rightarrow> dict_get base ''unlisted_policy'')
      in res_bind (guard_res (map_option (\<lambda>s. lower (strip s)) (as_str mode_value)
             \<noteq> Some ''allowlist'') ModeNotAllowlist) (\<lambda>_.
         res_bind (unlisted_policy_value unlisted) (\<lambda>unl.
         res_bind (as_list (dict_get base ''allowed_binaries'')) (\<lambda>ab0.
         res_bind (as_list (dict_get operator ''allowed_binaries'')) (\<lambda>ab1.
         res_bind (as_list (dict_get base ''dangerous_flags'')) (\<lambda>df0.
         res_bind (as_list (dict_get operator ''dangerous_flags'')) (\<lambda>df1.
         res_bind (as_map (dict_get base ''tool_allowed_flags'')) (\<lambda>ta0.
         res_bind (as_map (dict_get operator ''tool_allowed_flags'')) (\<lambda>ta1.
         res_bind (as_map (dict_get base ''tool_blocked_flags'')) (\<lambda>tb0.
         res_bind (as_map (dict_get operator ''tool_blocked_flags'')) (\<lambda>tb1.
         res_bind (as_list (dict_get base ''output_flags'')) (\<lambda>of0.
         res_bind (as_list (dict_get operator ''output_flags'')) (\<lambda>of1.
         res_bind (as_list (dict_get base ''denied_binaries'')) (\<lambda>db0.
         res_bind (as_list (dict_get operator ''denied_binaries'')) (\<lambda>db1.
         (let pol = \<lparr>mode = ''allowlist'', unlisted_policy = unl,
                allowed_binaries = dedupe_lower (expand_allowlist_tokens (ab0 @ ab1)),
                dangerous_flags = dedupe_lower (df0 @ df1),
                tool_allowed_flags = merge_maps ta0 ta1,
                tool_blocked_flags = merge_maps tb0 tb1,
                output_flags = dedupe_lower (of0 @ of1),
                denied_binaries = dedupe_lower (DENY_FLOOR @ db0 @ db1)\<rparr>
          in if denied_binaries pol = [] then Inl DeniedEmpty
             else if allowed_binaries pol = [] then Inl AllowedRequired
             else Inr pol))))))))))))))))"

definition build_security_policy :: "pyval \<Rightarrow> bool \<Rightarrow> policy_error + policy" where
  "build_security_policy operator_policy require_operator_policy =
     (case operator_policy of
        PNone \<Rightarrow>
          if require_operator_policy then Inl PolicyRequired
          else merge_policy DEFAULT_SECURITY_POLICY
      | PDict operator \<Rightarrow>
          if require_operator_policy \<and> operator = [] then Inl PolicyEmpty
          else merge_policy operator
      | _ \<Rightarrow> Inl PolicyNotMapping)"

section \<open>The environment document and the loader\<close>

text \<open>
  \<open>policy_to_env_json\<close> writes the merged policy as one JSON object and
  \<open>load_policy_from_env\<close> reads it back and merges it again.  The text of the JSON is
  abstracted to the document it denotes: an unset or empty variable, a text that is
  not JSON, or a document.
\<close>

definition policy_doc :: "policy \<Rightarrow> pyval" where
  "policy_doc p = PDict
    [(PStr ''allowed_binaries'', strs (allowed_binaries p)),
     (PStr ''dangerous_flags'', strs (dangerous_flags p)),
     (PStr ''denied_binaries'', strs (denied_binaries p)),
     (PStr ''mode'', PStr (mode p)),
     (PStr ''output_flags'', strs (output_flags p)),
     (PStr ''tool_allowed_flags'', str_map (tool_allowed_flags p)),
     (PStr ''tool_blocked_flags'', str_map (tool_blocked_flags p)),
     (PStr ''unlisted_policy'', PStr (unlisted_policy p))]"

datatype env_text = EnvUnset | EnvNotJson | EnvDoc pyval

datatype load_error = InvalidJson | PolicyError policy_error

definition load_policy_from_env :: "env_text \<Rightarrow> load_error + policy option" where
  "load_policy_from_env env =
     (case env of
        EnvUnset \<Rightarrow> Inr None
      | EnvNotJson \<Rightarrow> Inl InvalidJson
      | EnvDoc doc \<Rightarrow>
          (case build_security_policy doc False of
             Inl e \<Rightarrow> Inl (PolicyError e) | Inr p \<Rightarrow> Inr (Some p)))"

text \<open>\<open>load_security_policy\<close> with its module-level cache.\<close>

definition load_security_policy ::
  "env_text \<Rightarrow> policy option \<Rightarrow> load_error + (policy \<times> policy option)" where
  "load_security_policy env cache =
     (case cache of
        Some p \<Rightarrow> Inr (p, cache)
      | None \<Rightarrow>
          res_bind (load_policy_from_env env) (\<lambda>doc.
            case doc of
              Some p \<Rightarrow> Inr (p, Some p)
            | None \<Rightarrow>
                (case build_security_policy PNone False of
                   Inl e \<Rightarrow> Inl (PolicyError e) | Inr p \<Rightarrow> Inr (p, Some p))))"

section \<open>Matching a binary name\<close>

definition matches_denied_binary :: "string \<Rightarrow> string list \<Rightarrow> bool" where
  "matches_denied_binary binary_name denied =
     list_ex (\<lambda>pattern. fnmatchcase (lower binary_name) (lower pattern)) denied"

definition matches_allowed_binary :: "string \<Rightarrow> string list \<Rightarrow> bool" where
  "matches_allowed_binary binary_name allowed =
     list_ex (\<lambda>pattern. fnmatchcase (lower binary_name) (lower pattern)) allowed"

section \<open>Lemmas of the merge\<close>

lemma set_dedupe_lower_from:
  "set (dedupe_lower_from seen xs) = lower ` set xs - set seen"
  by (induction seen xs rule: dedupe_lower_from.induct) (auto simp: Let_def)

lemma set_dedupe_lower [simp]: "set (dedupe_lower xs) = lower ` set xs"
  by (simp add: dedupe_lower_def set_dedupe_lower_from)

lemma distinct_dedupe_lower_from: "distinct (dedupe_lower_from seen xs)"
  by (induction seen xs rule: dedupe_lower_from.induct)
    (auto simp: Let_def set_dedupe_lower_from)

lemma as_list_strs [simp]: "as_list (strs xs) = Inr xs"
  unfolding as_list_def strs_def by (induction xs) auto

lemma as_map_str_map [simp]: "as_map (str_map kvs) = Inr kvs"
proof -
  have "map_res (\<lambda>(k, items). case k of
            PStr s \<Rightarrow> res_bind (as_list items) (\<lambda>xs. Inr (s, xs))
          | _ \<Rightarrow> Inl KeysNotStrings)
      (map (\<lambda>(k, vs). (PStr k, strs vs)) kvs) = Inr kvs"
    by (induction kvs) auto
  then show ?thesis by (simp add: as_map_def str_map_def)
qed

lemma dict_get_simps [simp]:
  "dict_get [] x = PNone"
  "dict_get ((PStr k, v) # kvs) x = (if k = x then v else dict_get kvs x)"
  by (simp_all add: dict_get_def)

lemma as_list_PNone [simp]: "as_list PNone = Inr []"
  by (simp add: as_list_def)

lemma as_map_PNone [simp]: "as_map PNone = Inr []"
  by (simp add: as_map_def)

lemma default_lookups [simp]:
  "dict_get DEFAULT_SECURITY_POLICY ''mode'' = PStr ''allowlist''"
  "dict_get DEFAULT_SECURITY_POLICY ''unlisted_policy'' = PStr ''reject''"
  "dict_get DEFAULT_SECURITY_POLICY ''allowed_binaries'' = strs [''@mvp_forensic'']"
  "dict_get DEFAULT_SECURITY_POLICY ''dangerous_flags'' = strs default_dangerous_flags"
  "dict_get DEFAULT_SECURITY_POLICY ''tool_allowed_flags'' = str_map default_tool_allowed_flags"
  "dict_get DEFAULT_SECURITY_POLICY ''tool_blocked_flags'' = str_map default_tool_blocked_flags"
  "dict_get DEFAULT_SECURITY_POLICY ''output_flags'' = strs default_output_flags"
  "dict_get DEFAULT_SECURITY_POLICY ''denied_binaries'' = strs DENY_FLOOR"
  by (simp_all add: DEFAULT_SECURITY_POLICY_def dict_get_def)

text \<open>What a successful merge returns, in terms of the lists the operator supplied.\<close>

lemma merge_policy_Inr:
  assumes "merge_policy operator = Inr pol"
  obtains ab df ta tb ofl db where
    "as_list (dict_get operator ''allowed_binaries'') = Inr ab"
    "as_list (dict_get operator ''dangerous_flags'') = Inr df"
    "as_map (dict_get operator ''tool_allowed_flags'') = Inr ta"
    "as_map (dict_get operator ''tool_blocked_flags'') = Inr tb"
    "as_list (dict_get operator ''output_flags'') = Inr ofl"
    "as_list (dict_get operator ''denied_binaries'') = Inr db"
    "pol = \<lparr>mode = ''allowlist'', unlisted_policy = ''reject'',
       allowed_binaries = dedupe_lower (expand_allowlist_tokens (''@mvp_forensic'' # ab)),
       dangerous_flags = dedupe_lower (default_dangerous_flags @ df),
       tool_allowed_flags = merge_maps default_tool_allowed_flags ta,
       tool_blocked_flags = merge_maps default_tool_blocked_flags tb,
       output_flags = dedupe_lower (default_output_flags @ ofl),
       denied_binaries = dedupe_lower (DENY_FLOOR @ DENY_FLOOR @ db)\<rparr>"
  using assms unfolding merge_policy_def
  by (auto simp: Let_def unlisted_policy_value_def split: if_splits option.splits)

lemma build_security_policy_Inr:
  assumes "build_security_policy doc req = Inr pol"
  obtains operator where "merge_policy operator = Inr pol"
  using assms by (auto simp: build_security_policy_def split: pyval.splits if_splits)

lemma expand_mvp: "set MVP_FORENSIC_ALLOWLIST \<subseteq> set (expand_allowlist_tokens (''@mvp_forensic'' # xs))"
proof -
  have "lower (strip ''@mvp_forensic'') = ''@mvp_forensic''" by code_simp
  then show ?thesis by (simp add: expand_allowlist_tokens_def)
qed

lemma built_denied: "build_security_policy doc req = Inr pol \<Longrightarrow> lower ` set DENY_FLOOR \<subseteq> set (denied_binaries pol)"
  by (elim build_security_policy_Inr merge_policy_Inr) auto

lemma built_allowed:
  "build_security_policy doc req = Inr pol \<Longrightarrow> lower ` set MVP_FORENSIC_ALLOWLIST \<subseteq> set (allowed_binaries pol)"
  using expand_mvp by (elim build_security_policy_Inr merge_policy_Inr) auto

lemma built_mode:
  "build_security_policy doc req = Inr pol \<Longrightarrow> mode pol = ''allowlist'' \<and> unlisted_policy pol = ''reject''"
  by (elim build_security_policy_Inr merge_policy_Inr) simp

lemma matches_denied_iff:
  "matches_denied_binary b D \<longleftrightarrow> (\<exists>p \<in> set D. fnmatchcase (lower b) (lower p))"
  by (auto simp: matches_denied_binary_def list_ex_iff)

lemma matches_allowed_iff:
  "matches_allowed_binary b D \<longleftrightarrow> (\<exists>p \<in> set D. fnmatchcase (lower b) (lower p))"
  by (auto simp: matches_allowed_binary_def list_ex_iff)

lemma matches_denied_mono:
  "lower ` set A \<subseteq> set B \<Longrightarrow> matches_denied_binary b A \<Longrightarrow> matches_denied_binary b B"
  unfolding matches_denied_iff by (metis image_eqI lower_idem subsetD)

lemma built_floor_denied:
  "build_security_policy doc req = Inr pol \<Longrightarrow> matches_denied_binary b DENY_FLOOR \<Longrightarrow>
   matches_denied_binary b (denied_binaries pol)"
  by (rule matches_denied_mono [OF built_denied])

subsection \<open>Merged maps\<close>

lemma map_of_merge_maps:
  "distinct (map fst overlay) \<Longrightarrow>
   map_of (merge_maps base overlay) k =
     (case map_of overlay k of
        None \<Rightarrow> map_of base k
      | Some vs \<Rightarrow> Some (dedupe_lower ((case map_of base k of None \<Rightarrow> [] | Some us \<Rightarrow> us) @ vs)))"
proof (induction base overlay rule: merge_maps.induct)
  case (1 result)
  then show ?case by simp
next
  case (2 result key "values" overlay)
  then have "map_of overlay key = None"
    by (simp add: map_of_eq_None_iff)
  with 2 show ?case
    by (auto simp: update_conv' split: option.splits)
qed

lemma merge_maps_keys: "set (map fst (merge_maps base overlay)) = set (map fst base) \<union> set (map fst overlay)"
  by (induction base overlay rule: merge_maps.induct) (auto simp: dom_update)

lemma merge_maps_distinct: "distinct (map fst base) \<Longrightarrow> distinct (map fst (merge_maps base overlay))"
  by (induction base overlay rule: merge_maps.induct) (auto simp: distinct_update)

text \<open>A flag map is canonical when every flag in it is lower case.\<close>

definition lower_flags :: "(string \<times> string list) list \<Rightarrow> bool" where
  "lower_flags m \<longleftrightarrow> (\<forall>k vs. map_of m k = Some vs \<longrightarrow> (\<forall>v \<in> set vs. lower v = v))"

lemma merge_maps_lower_flags:
  assumes "distinct (map fst overlay)" and "set (map fst base) \<subseteq> set (map fst overlay)"
  shows "lower_flags (merge_maps base overlay)"
proof -
  have "\<exists>us. map_of overlay k = Some us" if "map_of base k = Some vs" for k vs
  proof -
    from that have "k \<in> set (map fst base)" by (metis map_of_SomeD image_eqI fst_conv set_map)
    with assms(2) have "k \<in> fst ` set overlay" by auto
    then show ?thesis by (metis map_of_eq_None_iff not_None_eq)
  qed
  then show ?thesis
    by (auto simp: lower_flags_def map_of_merge_maps [OF assms(1)] split: option.splits) force+
qed

lemma default_blocked_keys_distinct: "distinct (map fst default_tool_blocked_flags)"
  by code_simp

lemma default_allowed_keys_distinct: "distinct (map fst default_tool_allowed_flags)"
  by code_simp

subsection \<open>The curated allowlist\<close>

definition mvp_lower :: "string list" where
  "mvp_lower =
    [''mmls'', ''fls'', ''fsstat'', ''istat'', ''ifind'', ''icat'', ''img_stat'', ''blkcat'',
     ''fcat'', ''tsk_recover'', ''mactime'', ''sorter'', ''sigfind'', ''rip.pl'',
     ''regripper'', ''evtx_dump'', ''evtxexport'', ''hayabusa'', ''evtxecmd'', ''evtxecmd'',
     ''mftecmd'', ''mftecmd'', ''recmd'', ''recmd'', ''amcacheparser'', ''amcacheparser'',
     ''appcompatcacheparser'', ''appcompatcacheparser'', ''jlecmd'', ''jlecmd'', ''lecmd'',
     ''lecmd'', ''sbecmd'', ''sbecmd'', ''rbcmd'', ''rbcmd'', ''sqlecmd'', ''sqlecmd'',
     ''bstrings'', ''wxtcmd'', ''wxtcmd'', ''strings'', ''bulk_extractor'', ''foremost'',
     ''scalpel'', ''binwalk'', ''yara'', ''hindsight.py'', ''pdfid.py'', ''pdf-parser.py'',
     ''analyzemft'', ''usnparser'', ''sqlite-carver'', ''page-brute'', ''packerid.py'',
     ''densityscout'', ''pescan'', ''mvt-ios'', ''mvt-android'', ''mac_apt.py'',
     ''indxparse.py'', ''evtx_dump.py'', ''sha256sum'', ''sha1sum'', ''md5sum'', ''b2sum'',
     ''file'', ''stat'', ''xxd'', ''hexdump'', ''od'', ''exiftool'', ''cat'', ''head'',
     ''tail'', ''grep'', ''egrep'', ''fgrep'', ''zgrep'', ''rg'', ''sort'', ''uniq'', ''wc'',
     ''cut'', ''tr'', ''awk'', ''sed'', ''find'', ''ls'', ''tree'', ''date'', ''echo'',
     ''pwd'', ''whoami'', ''tar'', ''unzip'', ''zipinfo'', ''7z'', ''ewfinfo'', ''ewfverify'',
     ''ewfexport'', ''vol'', ''vol3'', ''volatility3'', ''tshark'', ''tcpdump'', ''curl'',
     ''wget'']"

lemma map_lower_mvp: "map lower MVP_FORENSIC_ALLOWLIST = mvp_lower"
  unfolding MVP_FORENSIC_ALLOWLIST_def mvp_lower_def by (simp add: lower_def)

lemma map_lower_floor: "map lower DENY_FLOOR = DENY_FLOOR"
  by (simp add: lower_def DENY_FLOOR_def ARGV_REWRITING_LAUNCHERS_def)

lemma mvp_lower_literal: "list_all is_literal_pattern mvp_lower"
  unfolding mvp_lower_def by (simp add: is_literal_pattern_def)

lemma mvp_lower_not_denied: "list_all (\<lambda>b. \<not> list_ex (fnmatchcase b) DENY_FLOOR) mvp_lower"
  unfolding mvp_lower_def DENY_FLOOR_def ARGV_REWRITING_LAUNCHERS_def by simp

lemma mvp_literal: "b \<in> set MVP_FORENSIC_ALLOWLIST \<Longrightarrow> is_literal_pattern (lower b)"
  using mvp_lower_literal by (auto simp flip: map_lower_mvp simp: list_all_iff)

lemma mvp_not_denied:
  assumes "b \<in> set MVP_FORENSIC_ALLOWLIST"
  shows "\<not> matches_denied_binary b DENY_FLOOR"
proof -
  have "\<not> list_ex (fnmatchcase (lower b)) (map lower DENY_FLOOR)"
    using assms mvp_lower_not_denied unfolding map_lower_floor
    by (auto simp flip: map_lower_mvp simp: list_all_iff)
  then show ?thesis by (simp add: matches_denied_binary_def list.pred_map list_ex_iff)
qed

lemma mvp_matches_iff:
  "(\<exists>p \<in> set MVP_FORENSIC_ALLOWLIST. fnmatchcase (lower b) (lower p)) \<longleftrightarrow>
   lower b \<in> lower ` set MVP_FORENSIC_ALLOWLIST"
  by (auto simp: mvp_literal fnmatchcase_literal image_iff)

lemma denied_lower_cong: "lower b = lower b' \<Longrightarrow> matches_denied_binary b D = matches_denied_binary b' D"
  by (simp add: matches_denied_binary_def)


subsection \<open>The environment round trip\<close>

lemma isspace_lower_char [simp]: "isspace (lower_char c) = isspace c"
  unfolding isspace_def in_range_def lower_char_code by (auto simp: in_range_def)

lemma strip_lower: "strip (lower s) = lower (strip s)"
  by (simp add: strip_def strip_by_def lower_def dropWhile_map rev_map comp_def)

lemma set_expand:
  "set (expand_allowlist_tokens xs) =
     {x \<in> set xs. lower (strip x) \<noteq> ''@mvp_forensic''} \<union>
     (if \<exists>x \<in> set xs. lower (strip x) = ''@mvp_forensic'' then set MVP_FORENSIC_ALLOWLIST else {})"
  unfolding expand_allowlist_tokens_def by (auto split: if_splits)

lemma mvp_no_token: "x \<in> set MVP_FORENSIC_ALLOWLIST \<Longrightarrow> lower (strip x) \<noteq> ''@mvp_forensic''"
proof
  assume x: "x \<in> set MVP_FORENSIC_ALLOWLIST" and "lower (strip x) = ''@mvp_forensic''"
  then have "CHR ''@'' \<in> set (strip (lower x))" by (simp add: strip_lower)
  then have "CHR ''@'' \<in> set (lower x)" using set_strip by blast
  moreover from x have "lower x \<in> set mvp_lower" by (simp flip: map_lower_mvp)
  moreover have "list_all (\<lambda>w. CHR ''@'' \<notin> set w) mvp_lower"
    unfolding mvp_lower_def by simp
  ultimately show False by (auto simp: list_all_iff)
qed

lemma built_allowed_no_token:
  assumes "merge_policy operator = Inr pol" and "x \<in> set (allowed_binaries pol)"
  shows "lower (strip x) \<noteq> ''@mvp_forensic'' \<and> lower x = x"
  using assms by (elim merge_policy_Inr)
    (auto simp: set_expand strip_lower mvp_no_token split: if_splits)

lemma mvp_token_expands: "lower (strip ''@mvp_forensic'') = ''@mvp_forensic''"
  by (simp add: strip_def strip_by_def isspace_def in_range_def lower_def)

lemma expand_token_append:
  assumes "\<And>x. x \<in> set xs \<Longrightarrow> lower (strip x) \<noteq> ''@mvp_forensic''"
  shows "set (expand_allowlist_tokens (''@mvp_forensic'' # xs)) = set MVP_FORENSIC_ALLOWLIST \<union> set xs"
  using assms mvp_token_expands by (auto simp: set_expand)

lemma merge_maps_grows:
  "map_of base k = Some us \<Longrightarrow>
   \<exists>vs. map_of (merge_maps base overlay) k = Some vs \<and> lower ` set us \<subseteq> lower ` set vs"
proof (induction base overlay arbitrary: us rule: merge_maps.induct)
  case (1 result)
  then show ?case by auto
next
  case (2 result key "values" overlay)
  let ?new = "AList.update key
    (dedupe_lower ((case map_of result key of None \<Rightarrow> [] | Some vs \<Rightarrow> vs) @ values)) result"
  from 2(2) obtain ws where "map_of ?new k = Some ws" and "lower ` set us \<subseteq> lower ` set ws"
    by (cases "k = key") (auto simp: update_conv' image_image)
  with 2(1) [of ws] show ?case by auto
qed

lemma remerge_flags:
  assumes pol: "m = merge_maps base overlay" and base: "distinct (map fst base)"
  shows "lower_flags (merge_maps base m) \<and>
    (\<forall>k. rel_option (\<lambda>vs vs'. set vs' = lower ` set vs) (map_of m k) (map_of (merge_maps base m) k))"
proof
  have keys: "set (map fst base) \<subseteq> set (map fst m)"
    by (simp only: pol merge_maps_keys) simp
  have dist: "distinct (map fst m)"
    using base by (simp only: pol merge_maps_distinct)
  show "lower_flags (merge_maps base m)"
    using dist keys by (rule merge_maps_lower_flags)
  show "\<forall>k. rel_option (\<lambda>vs vs'. set vs' = lower ` set vs) (map_of m k) (map_of (merge_maps base m) k)"
  proof
    fix k
    show "rel_option (\<lambda>vs vs'. set vs' = lower ` set vs) (map_of m k) (map_of (merge_maps base m) k)"
    proof (cases "map_of m k")
      case None
      then have "map_of base k = None"
        using keys by (auto simp: map_of_eq_None_iff)
      with None show ?thesis by (simp add: map_of_merge_maps [OF dist])
    next
      case (Some vs)
      have "lower ` set us \<subseteq> lower ` set vs" if "map_of base k = Some us" for us
        using merge_maps_grows [OF that, of overlay] Some by (auto simp: pol)
      with Some show ?thesis
        by (cases "map_of base k") (auto simp: map_of_merge_maps [OF dist])
    qed
  qed
qed

lemma policy_doc_lookups [simp]:
  "policy_doc p = PDict kvs \<Longrightarrow> dict_get kvs ''mode'' = PStr (mode p)"
  "policy_doc p = PDict kvs \<Longrightarrow> map_of kvs (PStr ''unlisted_policy'') = Some (PStr (unlisted_policy p))"
  "policy_doc p = PDict kvs \<Longrightarrow> dict_get kvs ''allowed_binaries'' = strs (allowed_binaries p)"
  "policy_doc p = PDict kvs \<Longrightarrow> dict_get kvs ''dangerous_flags'' = strs (dangerous_flags p)"
  "policy_doc p = PDict kvs \<Longrightarrow> dict_get kvs ''tool_allowed_flags'' = str_map (tool_allowed_flags p)"
  "policy_doc p = PDict kvs \<Longrightarrow> dict_get kvs ''tool_blocked_flags'' = str_map (tool_blocked_flags p)"
  "policy_doc p = PDict kvs \<Longrightarrow> dict_get kvs ''output_flags'' = strs (output_flags p)"
  "policy_doc p = PDict kvs \<Longrightarrow> dict_get kvs ''denied_binaries'' = strs (denied_binaries p)"
  by (auto simp: policy_doc_def dict_get_def)

lemma normalised_words:
  "lower (strip ''allowlist'') = ''allowlist''" "lower (strip ''reject'') = ''reject''"
  by (simp_all add: strip_def strip_by_def isspace_def in_range_def lower_def)

lemma dedupe_lower_Nil_iff: "dedupe_lower xs = [] \<longleftrightarrow> xs = []"
  using set_dedupe_lower [of xs] by (metis image_is_empty set_empty)

lemma floor_mvp_nonempty: "DENY_FLOOR \<noteq> []" "MVP_FORENSIC_ALLOWLIST \<noteq> []"
  by (simp_all add: DENY_FLOOR_def MVP_FORENSIC_ALLOWLIST_def)

text \<open>Rebuilding a built policy from its own document, with every list written out.\<close>

lemma rebuild_policy:
  assumes "mode p = ''allowlist''" and "unlisted_policy p = ''reject''"
  shows "build_security_policy (policy_doc p) False = Inr
    \<lparr>mode = ''allowlist'', unlisted_policy = ''reject'',
     allowed_binaries = dedupe_lower (expand_allowlist_tokens (''@mvp_forensic'' # allowed_binaries p)),
     dangerous_flags = dedupe_lower (default_dangerous_flags @ dangerous_flags p),
     tool_allowed_flags = merge_maps default_tool_allowed_flags (tool_allowed_flags p),
     tool_blocked_flags = merge_maps default_tool_blocked_flags (tool_blocked_flags p),
     output_flags = dedupe_lower (default_output_flags @ output_flags p),
     denied_binaries = dedupe_lower (DENY_FLOOR @ DENY_FLOOR @ denied_binaries p)\<rparr>"
proof -
  obtain kvs where kvs: "policy_doc p = PDict kvs" by (simp add: policy_doc_def)
  have ne: "dedupe_lower (DENY_FLOOR @ xs) \<noteq> []"
    "dedupe_lower (expand_allowlist_tokens (''@mvp_forensic'' # xs)) \<noteq> []" for xs
    using expand_mvp [of xs] floor_mvp_nonempty by (simp_all add: dedupe_lower_Nil_iff) (metis list.set(1) set_empty subset_empty)
  from kvs assms show ?thesis
    by (simp add: build_security_policy_def merge_policy_def Let_def unlisted_policy_value_def
        normalised_words ne)
qed

text \<open>Handing a built policy to a worker through the environment changes nothing the
  worker decides by: reading the document back succeeds, keeps the denied, allowed,
  dangerous and output sets, and turns every per-tool flag list into the same list in
  lower case, which is the form the flag checks compare with.\<close>

theorem policy_env_round_trip:
  assumes "build_security_policy doc req = Inr pol"
  shows "\<exists>pol'. load_policy_from_env (EnvDoc (policy_doc pol)) = Inr (Some pol') \<and>
    set (denied_binaries pol') = set (denied_binaries pol) \<and>
    set (allowed_binaries pol') = set (allowed_binaries pol) \<and>
    set (dangerous_flags pol') = set (dangerous_flags pol) \<and>
    set (output_flags pol') = set (output_flags pol) \<and>
    lower_flags (tool_blocked_flags pol') \<and> lower_flags (tool_allowed_flags pol') \<and>
    (\<forall>tool. rel_option (\<lambda>vs vs'. set vs' = lower ` set vs)
       (map_of (tool_blocked_flags pol) tool) (map_of (tool_blocked_flags pol') tool))"
proof -
  from assms obtain operator where m: "merge_policy operator = Inr pol"
    by (rule build_security_policy_Inr)
  have fix1: "lower ` A = A" if "\<And>x. x \<in> A \<Longrightarrow> lower x = x" for A
    using that by force
  have allowed: "set (expand_allowlist_tokens (''@mvp_forensic'' # allowed_binaries pol)) =
      set MVP_FORENSIC_ALLOWLIST \<union> set (allowed_binaries pol)"
    using built_allowed_no_token [OF m] by (intro expand_token_append) blast
  have "lower ` set (allowed_binaries pol) = set (allowed_binaries pol)"
    using built_allowed_no_token [OF m] by (intro fix1) blast
  with allowed built_allowed [OF assms] have ab: "lower ` set (expand_allowlist_tokens
      (''@mvp_forensic'' # allowed_binaries pol)) = set (allowed_binaries pol)"
    by (auto simp: image_Un)
  from m show ?thesis
  proof (rule merge_policy_Inr)
    fix abl df ta tb ofl db
    assume pol: "pol = \<lparr>mode = ''allowlist'', unlisted_policy = ''reject'',
       allowed_binaries = dedupe_lower (expand_allowlist_tokens (''@mvp_forensic'' # abl)),
       dangerous_flags = dedupe_lower (default_dangerous_flags @ df),
       tool_allowed_flags = merge_maps default_tool_allowed_flags ta,
       tool_blocked_flags = merge_maps default_tool_blocked_flags tb,
       output_flags = dedupe_lower (default_output_flags @ ofl),
       denied_binaries = dedupe_lower (DENY_FLOOR @ DENY_FLOOR @ db)\<rparr>"
    note tb = remerge_flags [OF refl default_blocked_keys_distinct, of tb]
      and ta = remerge_flags [OF refl default_allowed_keys_distinct, of ta]
    show ?thesis
      unfolding load_policy_from_env_def
      by (simp add: rebuild_policy built_mode [OF assms] ab)
        (simp add: pol tb ta image_Un image_image Un_assoc)
  qed
qed

text \<open>The policy of an installation with no operator document.\<close>

definition default_policy :: policy where
  "default_policy =
    \<lparr>mode = ''allowlist'', unlisted_policy = ''reject'',
     allowed_binaries = dedupe_lower (expand_allowlist_tokens [''@mvp_forensic'', ''@mvp_forensic'']),
     dangerous_flags = dedupe_lower (default_dangerous_flags @ default_dangerous_flags),
     tool_allowed_flags = merge_maps default_tool_allowed_flags default_tool_allowed_flags,
     tool_blocked_flags = merge_maps default_tool_blocked_flags default_tool_blocked_flags,
     output_flags = dedupe_lower (default_output_flags @ default_output_flags),
     denied_binaries = dedupe_lower (DENY_FLOOR @ DENY_FLOOR @ DENY_FLOOR)\<rparr>"

lemma default_unlisted: "map_of DEFAULT_SECURITY_POLICY (PStr ''unlisted_policy'') = Some (PStr ''reject'')"
  by (simp add: DEFAULT_SECURITY_POLICY_def)

lemma expand_token_nonempty: "expand_allowlist_tokens (''@mvp_forensic'' # xs) \<noteq> []"
  using expand_mvp [of xs] floor_mvp_nonempty(2) by auto

lemma build_default: "build_security_policy PNone False = Inr default_policy"
  by (simp add: build_security_policy_def merge_policy_def Let_def unlisted_policy_value_def
      default_unlisted normalised_words default_policy_def dedupe_lower_Nil_iff
      floor_mvp_nonempty expand_token_nonempty)

lemma default_denied: "set (denied_binaries default_policy) = lower ` set DENY_FLOOR"
  by (auto simp: default_policy_def)

lemma default_allowed: "set (allowed_binaries default_policy) = lower ` set MVP_FORENSIC_ALLOWLIST"
  using mvp_token_expands by (auto simp: default_policy_def set_expand)

theorem policy_env_round_trip_witness:
  "\<exists>pol'. load_policy_from_env (EnvDoc (policy_doc default_policy)) = Inr (Some pol') \<and>
    lower_flags (tool_blocked_flags pol')"
  using policy_env_round_trip [OF build_default] by blast

text \<open>With no operator document the agent may run exactly the curated forensic tools:
  a name is allowed if and only if it is, ignoring letter case, on the curated
  allowlist, and then no pattern of the deny floor matches it.\<close>

theorem default_policy_admits_curated_tools:
  "build_security_policy PNone False = Inr default_policy \<and>
   (matches_allowed_binary b (allowed_binaries default_policy) \<longleftrightarrow>
      lower b \<in> lower ` set MVP_FORENSIC_ALLOWLIST) \<and>
   \<not> (matches_allowed_binary b (allowed_binaries default_policy) \<and>
      matches_denied_binary b (denied_binaries default_policy))"
proof -
  have iff: "matches_allowed_binary b (allowed_binaries default_policy) \<longleftrightarrow>
      lower b \<in> lower ` set MVP_FORENSIC_ALLOWLIST"
    using mvp_matches_iff [of b] by (simp add: matches_allowed_iff default_allowed)
  have "\<not> matches_denied_binary b (denied_binaries default_policy)"
    if "lower b \<in> lower ` set MVP_FORENSIC_ALLOWLIST"
  proof -
    from that obtain c where c: "c \<in> set MVP_FORENSIC_ALLOWLIST" "lower b = lower c" by auto
    from mvp_not_denied [OF c(1)] c(2) show ?thesis
      by (simp add: matches_denied_iff default_denied)
  qed
  with iff build_default show ?thesis by blast
qed

text \<open>An operator document can add an entry point: the allowlist of the document is
  united with the defaults, although the merge is described as only adding
  restrictions.\<close>

lemma operator_document_extends_allowlist:
  assumes "lower (strip s) \<noteq> ''@mvp_forensic''"
  shows "\<exists>pol. build_security_policy (PDict [(PStr ''allowed_binaries'', strs [s])]) False = Inr pol \<and>
    lower s \<in> set (allowed_binaries pol)"
proof -
  have "lower s \<in> set (dedupe_lower (expand_allowlist_tokens [''@mvp_forensic'', s]))"
    using assms by (auto simp: set_expand)
  then show ?thesis
    by (simp add: build_security_policy_def merge_policy_def Let_def unlisted_policy_value_def
        normalised_words dedupe_lower_Nil_iff
        floor_mvp_nonempty expand_token_nonempty)
qed

text \<open>C18. Whatever document the operator or the environment supplies, a policy the loader
  returns denies every binary name that a pattern of the deny floor matches, in any
  letter case; later loads return the cached policy whatever the environment says then.\<close>

theorem loaded_policy_keeps_deny_floor:
  assumes "load_security_policy env None = Inr (pol, cache)"
    and "matches_denied_binary b DENY_FLOOR"
  shows "matches_denied_binary b (denied_binaries pol) \<and>
    (\<forall>env'. load_security_policy env' cache = Inr (pol, cache))"
  using assms built_floor_denied [of _ _ pol b]
  by (auto simp: load_security_policy_def load_policy_from_env_def
      split: env_text.splits sum.splits option.splits)

theorem loaded_policy_keeps_deny_floor_witness:
  "\<exists>pol cache. load_security_policy
       (EnvDoc (PDict [(PStr ''denied_binaries'', strs [''rm''])])) None = Inr (pol, cache) \<and>
     matches_denied_binary ''BASH'' (denied_binaries pol)"
proof -
  let ?env = "EnvDoc (PDict [(PStr ''denied_binaries'', strs [''rm''])])"
  have "\<exists>pol cache. load_security_policy ?env None = Inr (pol, cache)"
    by (simp add: load_security_policy_def load_policy_from_env_def build_security_policy_def
        merge_policy_def Let_def unlisted_policy_value_def normalised_words dedupe_lower_Nil_iff
        floor_mvp_nonempty expand_token_nonempty)
  then obtain pol cache where l: "load_security_policy ?env None = Inr (pol, cache)" by blast
  have "matches_denied_binary ''BASH'' DENY_FLOOR"
    by (simp add: matches_denied_binary_def DENY_FLOOR_def lower_def)
  from loaded_policy_keeps_deny_floor [OF l this] l show ?thesis by blast
qed

end
