(* ===== verification/Py_Regex.thy ===== *)
theory Py_Regex
  imports Py_String
begin

text \<open>
  The part of the standard library's \<open>re\<close> module the modelled code uses: a
  backtracking matcher over patterns with classes, sequences, alternatives,
  greedy repetition, groups and back-references, word boundaries, line anchors
  and negative one-character look-behind and look-ahead.

  \<open>rx_match s r i g\<close> lists the matches of \<open>r\<close> in \<open>s\<close> from position \<open>i\<close> under the
  captured groups \<open>g\<close>, as pairs of an end position and the groups, in the order the
  backtracking engine tries them.  \<open>rx_search\<close> is \<open>re.search(...) is not None\<close> and
  \<open>rx_sub\<close> is \<open>re.sub\<close> with a function, for patterns that match no empty string.
\<close>

type_synonym groups = "nat \<Rightarrow> string option"

datatype rx =
    Eps
  | Cls "char \<Rightarrow> bool"
  | Cat rx rx
  | Alt rx rx
  | Star rx
  | Group nat rx
  | Backref nat
  | WordBoundary
  | LineStart
  | LineEnd
  | NotAfter "char \<Rightarrow> bool"
  | NotBefore "char \<Rightarrow> bool"

definition Opt :: "rx \<Rightarrow> rx" where
  "Opt r = Alt r Eps"

definition Plus :: "rx \<Rightarrow> rx" where
  "Plus r = Cat r (Star r)"

fun cats :: "rx list \<Rightarrow> rx" where
  "cats [] = Eps"
| "cats [r] = r"
| "cats (r # rs) = Cat r (cats rs)"

fun alts :: "rx list \<Rightarrow> rx" where
  "alts [] = Cls (\<lambda>_. False)"
| "alts [r] = r"
| "alts (r # rs) = Alt r (alts rs)"

definition lit :: "string \<Rightarrow> rx" where
  "lit s = cats (map (\<lambda>c. Cls (\<lambda>x. x = c)) s)"

text \<open>A literal under \<open>re.IGNORECASE\<close>.\<close>

definition lit_ci :: "string \<Rightarrow> rx" where
  "lit_ci s = cats (map (\<lambda>c. Cls (\<lambda>x. lower_char x = lower_char c)) s)"

definition ws :: rx where
  "ws = Cls isspace"

definition any_char :: rx where
  "any_char = Cls (\<lambda>c. code c \<noteq> 10)"

definition word_at :: "string \<Rightarrow> nat \<Rightarrow> bool" where
  "word_at s i \<longleftrightarrow> i < length s \<and> is_word_char (s ! i)"

definition boundary_at :: "string \<Rightarrow> nat \<Rightarrow> bool" where
  "boundary_at s i \<longleftrightarrow> (0 < i \<and> word_at s (i - 1)) \<noteq> word_at s i"

fun star_match ::
  "(nat \<Rightarrow> groups \<Rightarrow> (nat \<times> groups) list) \<Rightarrow> nat \<Rightarrow> nat \<Rightarrow> groups \<Rightarrow> (nat \<times> groups) list" where
  "star_match f 0 i g = [(i, g)]"
| "star_match f (Suc n) i g =
     concat (map (\<lambda>(j, h). if i < j then star_match f n j h else []) (f i g)) @ [(i, g)]"

primrec rx_match :: "string \<Rightarrow> rx \<Rightarrow> nat \<Rightarrow> groups \<Rightarrow> (nat \<times> groups) list" where
  "rx_match s Eps = (\<lambda>i g. [(i, g)])"
| "rx_match s (Cls P) = (\<lambda>i g. if i < length s \<and> P (s ! i) then [(Suc i, g)] else [])"
| "rx_match s (Cat a b) =
     (\<lambda>i g. concat (map (\<lambda>(j, h). rx_match s b j h) (rx_match s a i g)))"
| "rx_match s (Alt a b) = (\<lambda>i g. rx_match s a i g @ rx_match s b i g)"
| "rx_match s (Star a) = (\<lambda>i g. star_match (rx_match s a) (length s - i) i g)"
| "rx_match s (Group k a) =
     (\<lambda>i g. map (\<lambda>(j, h). (j, h(k := Some (take (j - i) (drop i s))))) (rx_match s a i g))"
| "rx_match s (Backref k) =
     (\<lambda>i g. case g k of
        None \<Rightarrow> []
      | Some w \<Rightarrow> if lower (take (length w) (drop i s)) = lower w then [(i + length w, g)] else [])"
| "rx_match s WordBoundary = (\<lambda>i g. if boundary_at s i then [(i, g)] else [])"
| "rx_match s LineStart = (\<lambda>i g. if i = 0 then [(i, g)] else [])"
| "rx_match s LineEnd =
     (\<lambda>i g. if i = length s \<or> (Suc i = length s \<and> code (s ! i) = 10) then [(i, g)] else [])"
| "rx_match s (NotAfter P) =
     (\<lambda>i g. if 0 < i \<and> i - 1 < length s \<and> P (s ! (i - 1)) then [] else [(i, g)])"
| "rx_match s (NotBefore P) = (\<lambda>i g. if i < length s \<and> P (s ! i) then [] else [(i, g)])"

abbreviation no_groups :: groups where
  "no_groups \<equiv> (\<lambda>_. None)"

definition rx_search :: "rx \<Rightarrow> string \<Rightarrow> bool" where
  "rx_search r s \<longleftrightarrow> list_ex (\<lambda>i. rx_match s r i no_groups \<noteq> []) [0..<Suc (length s)]"

text \<open>\<open>re.sub\<close> walks the text from left to right: at a match it hands the matched text to the
  replacement, else it keeps one character.  \<open>rx_pieces\<close> is that cut of the text, each piece
  with a mark whether it was matched.\<close>

function rx_pieces_from :: "rx \<Rightarrow> string \<Rightarrow> nat \<Rightarrow> (bool \<times> string) list" where
  "rx_pieces_from r s i =
     (if length s \<le> i then []
      else case rx_match s r i no_groups of
        [] \<Rightarrow> (False, [s ! i]) # rx_pieces_from r s (Suc i)
      | (j, h) # _ \<Rightarrow>
          if i < j then (True, take (j - i) (drop i s)) # rx_pieces_from r s j
          else (False, [s ! i]) # rx_pieces_from r s (Suc i))"
  by pat_completeness auto
termination
  by (relation "measure (\<lambda>(r, s, i). length s - i)") auto

declare rx_pieces_from.simps [simp del]

definition rx_pieces :: "rx \<Rightarrow> string \<Rightarrow> (bool \<times> string) list" where
  "rx_pieces r s = rx_pieces_from r s 0"

text \<open>Substitution with a replacement that may raise.\<close>

definition rx_sub :: "rx \<Rightarrow> (string \<Rightarrow> 'e + string) \<Rightarrow> string \<Rightarrow> 'e + string" where
  "rx_sub r f s = res_bind (map_res (\<lambda>(m, w). if m then f w else Inr w) (rx_pieces r s))
     (\<lambda>ws. Inr (concat ws))"

section \<open>Search\<close>

lemma rx_search_iff: "rx_search r s \<longleftrightarrow> (\<exists>i \<le> length s. rx_match s r i no_groups \<noteq> [])"
  unfolding rx_search_def list_ex_iff set_upt atLeastLessThan_iff Bex_def less_Suc_eq_le by blast

lemma rx_search_Cls: "rx_search (Cls P) s \<longleftrightarrow> (\<exists>c \<in> set s. P c)"
proof -
  have "rx_search (Cls P) s \<longleftrightarrow> (\<exists>i < length s. P (s ! i))"
    unfolding rx_search_iff by (auto intro: less_imp_le)
  then show ?thesis by (metis in_set_conv_nth)
qed

lemma rx_search_Alt: "rx_search (Alt a b) s \<longleftrightarrow> rx_search a s \<or> rx_search b s"
  by (auto simp: rx_search_iff)

lemma rx_match_lits:
  "i \<le> length s \<Longrightarrow> rx_match s (cats (map (\<lambda>c. Cls (P c)) w)) i g =
     (if length w \<le> length s - i \<and> list_all2 P w (take (length w) (drop i s))
      then [(i + length w, g)] else [])"
proof (induction w arbitrary: i)
  case Nil
  then show ?case by simp
next
  case (Cons c w)
  have split: "rx_match s (cats (map (\<lambda>c. Cls (P c)) (c # w))) i g =
      (if i < length s \<and> P c (s ! i)
       then rx_match s (cats (map (\<lambda>c. Cls (P c)) w)) (Suc i) g else [])"
    by (cases w) auto
  have len: "Suc (length w) \<le> length s - i \<longleftrightarrow> i < length s \<and> length w \<le> length s - Suc i"
    by arith
  show ?case
  proof (cases "i < length s")
    case True
    then have "drop i s = s ! i # drop (Suc i) s"
      by (simp add: Cons_nth_drop_Suc)
    then show ?thesis
      unfolding split using True Cons.IH [of "Suc i"] by (simp add: len)
  next
    case False
    with Cons.prems show ?thesis unfolding split by simp
  qed
qed

text \<open>A fixed number of characters between the anchors.\<close>

lemma rx_cats_Cons:
  "rx_match s (cats (r # rs)) i g = concat (map (\<lambda>(j, h). rx_match s (cats rs) j h) (rx_match s r i g))"
  by (cases rs) (auto simp: case_prod_unfold)

lemma rx_match_classes:
  "rx_match s (cats (map Cls Ps @ rs)) i g =
     (if i \<le> length s \<longrightarrow> length Ps \<le> length s - i \<and> list_all2 (\<lambda>P c. P c) Ps (take (length Ps) (drop i s))
      then rx_match s (cats rs) (i + length Ps) g else [])" if "i \<le> length s"
  using that
proof (induction Ps arbitrary: i)
  case (Cons P Ps)
  show ?case
  proof (cases "i < length s")
    case True
    then have "drop i s = s ! i # drop (Suc i) s" by (simp add: Cons_nth_drop_Suc)
    then show ?thesis
      using True Cons.IH [of "Suc i"] by (auto simp: rx_cats_Cons)
  qed (use Cons.prems in \<open>simp add: rx_cats_Cons\<close>)
qed simp

lemma rx_match_anchored:
  "rx_match s (cats (LineStart # map Cls Ps @ [LineEnd])) 0 g \<noteq> [] \<longleftrightarrow>
     length Ps \<le> length s \<and> list_all2 (\<lambda>P c. P c) Ps (take (length Ps) s) \<and>
     (length s = length Ps \<or> (length s = Suc (length Ps) \<and> code (last s) = 10))"
proof -
  have "s ! length Ps = last s" if "length s = Suc (length Ps)"
    using that by (subst last_conv_nth) auto
  then show ?thesis unfolding rx_cats_Cons by (auto simp: rx_match_classes)
qed

text \<open>A match leaves alone the groups its pattern does not name.\<close>

primrec rx_groups :: "rx \<Rightarrow> nat set" where
  "rx_groups Eps = {}"
| "rx_groups (Cls P) = {}"
| "rx_groups (Cat a b) = rx_groups a \<union> rx_groups b"
| "rx_groups (Alt a b) = rx_groups a \<union> rx_groups b"
| "rx_groups (Star a) = rx_groups a"
| "rx_groups (Group k a) = insert k (rx_groups a)"
| "rx_groups (Backref k) = {}"
| "rx_groups WordBoundary = {}"
| "rx_groups LineStart = {}"
| "rx_groups LineEnd = {}"
| "rx_groups (NotAfter P) = {}"
| "rx_groups (NotBefore P) = {}"

lemma star_match_keeps:
  "(j, h) \<in> set (star_match f n i g) \<Longrightarrow> (\<And>i g j h. (j, h) \<in> set (f i g) \<Longrightarrow> h k = g k) \<Longrightarrow> h k = g k"
proof (induction n arbitrary: i g)
  case (Suc n)
  then show ?case by (fastforce split: if_splits)
qed simp

lemma rx_match_keeps: "(j, h) \<in> set (rx_match s r i g) \<Longrightarrow> k \<notin> rx_groups r \<Longrightarrow> h k = g k"
proof (induction r arbitrary: i j g h)
  case (Star a)
  then show ?case using star_match_keeps [of j h "rx_match s a" "length s - i" i g k] by auto
next
  case (Cat a b)
  from Cat.prems(1) obtain j1 h1 where "(j1, h1) \<in> set (rx_match s a i g)" "(j, h) \<in> set (rx_match s b j1 h1)"
    by auto
  with Cat.IH Cat.prems(2) show ?case by (metis UnCI rx_groups.simps(3))
next
  case (Group n a)
  from Group.prems(1) obtain h1 where "(j, h1) \<in> set (rx_match s a i g)" "h = h1(n := Some (take (j - i) (drop i s)))"
    by auto
  with Group.IH Group.prems(2) show ?case by simp
next
  case (Alt a b)
  then show ?case by simp blast
next
  case (Backref n)
  then show ?case by (auto split: option.splits if_splits)
qed (simp_all split: if_splits)

lemma rx_match_lit1: "(j, h) \<in> set (rx_match s (lit [c]) i g) \<longleftrightarrow> i < length s \<and> s ! i = c \<and> j = Suc i \<and> h = g"
  by (auto simp: lit_def split: if_splits)

lemma rx_search_lit: "rx_search (lit w) s \<longleftrightarrow> contains s w"
proof -
  have eq: "list_all2 (\<lambda>c x. x = c) w v \<longleftrightarrow> v = w" for v
    by (auto simp: list_all2_conv_all_nth intro: nth_equalityI)
  have "rx_search (lit w) s \<longleftrightarrow>
      (\<exists>i \<le> length s. length w \<le> length s - i \<and> take (length w) (drop i s) = w)"
    unfolding rx_search_iff lit_def
    by (intro ex_cong1 conj_cong refl) (simp add: rx_match_lits eq)
  also have "\<dots> \<longleftrightarrow> contains s w"
    unfolding contains_iff
  proof
    assume "\<exists>i\<le>length s. length w \<le> length s - i \<and> take (length w) (drop i s) = w"
    then obtain i where "take (length w) (drop i s) = w" by blast
    then have "s = take i s @ w @ drop (length w) (drop i s)"
      by (metis append_take_drop_id)
    then show "\<exists>a b. s = a @ w @ b" by blast
  next
    assume "\<exists>a b. s = a @ w @ b"
    then obtain a b where "s = a @ w @ b" by blast
    then show "\<exists>i\<le>length s. length w \<le> length s - i \<and> take (length w) (drop i s) = w"
      by (intro exI [of _ "length a"]) simp
  qed
  finally show ?thesis .
qed

text \<open>A pattern cannot match a text that lacks the characters every match needs.\<close>

primrec starved :: "string \<Rightarrow> rx \<Rightarrow> bool" where
  "starved s Eps = False"
| "starved s (Cls P) = list_all (\<lambda>c. \<not> P c) s"
| "starved s (Cat a b) = (starved s a \<or> starved s b)"
| "starved s (Alt a b) = (starved s a \<and> starved s b)"
| "starved s (Star a) = False"
| "starved s (Group k a) = starved s a"
| "starved s (Backref k) = False"
| "starved s WordBoundary = False"
| "starved s LineStart = False"
| "starved s LineEnd = False"
| "starved s (NotAfter P) = False"
| "starved s (NotBefore P) = False"

lemma starved_no_match: "starved s r \<Longrightarrow> rx_match s r i g = []"
  by (induction r arbitrary: i g) (auto simp: list_all_length)

lemma starved_no_search: "starved s r \<Longrightarrow> \<not> rx_search r s"
  by (simp add: rx_search_iff starved_no_match)

section \<open>Substitution\<close>

lemma concat_rx_pieces_from: "concat (map snd (rx_pieces_from r s i)) = drop i s"
proof (induction r s i rule: rx_pieces_from.induct)
  case (1 r s i)
  show ?case
  proof (cases "length s \<le> i")
    case False
    then have here: "drop i s = s ! i # drop (Suc i) s" by (simp add: Cons_nth_drop_Suc)
    have take: "take (j - i) (drop i s) @ drop j s = drop i s" if "i < j" for j
      using that by (metis append_take_drop_id drop_drop le_add_diff_inverse2 less_imp_le)
    show ?thesis
      using False 1 here take
      by (subst rx_pieces_from.simps) (auto split: list.splits prod.splits)
  qed (simp add: rx_pieces_from.simps)
qed

text \<open>The pieces are the text.\<close>

lemma concat_rx_pieces: "concat (map snd (rx_pieces r s)) = s"
  by (simp add: rx_pieces_def concat_rx_pieces_from)

lemma rx_sub_identity:
  assumes "\<And>w. (True, w) \<in> set (rx_pieces r s) \<Longrightarrow> f w = Inr w"
  shows "rx_sub r f s = Inr s"
proof -
  have "map_res (\<lambda>(m, w). if m then f w else Inr w) ps = Inr (map snd ps)"
    if "\<And>w. (True, w) \<in> set ps \<Longrightarrow> f w = Inr w" for ps
    using that by (induction ps) auto
  with assms show ?thesis by (simp add: rx_sub_def concat_rx_pieces)
qed

end
