(* ===== verification/Path_Redaction.thy ===== *)
theory Path_Redaction
  imports Path_Policy Security_Policy Py_Regex
begin

text \<open>
  The references an agent gives and the paths it sees: \<open>resolve_output_ref\<close> and the path
  sanitizer at the end of \<open>sift_core/execute/security.py\<close>.

  Shown here: a display path never names a case, evidence, mount, device or state
  location; the display path of a file of the case, used as an argument, resolves to
  that file again; an output reference is one plain name under \<open>agent/run_commands\<close>.
  The limits are stated with them: a doubled slash hides a location from the
  sanitizer, and an output reference is not resolved.
\<close>

datatype ref_error = RefBlank | RefSeparators | RefNoCase | RefOutsideJail | RefUnbound | RefPath path_error

definition resolve_evidence_ref :: "string \<Rightarrow> string option \<Rightarrow> ref_error + string" where
  "resolve_evidence_ref ref case_dir = Inl RefUnbound"

definition ref_char :: "char \<Rightarrow> char" where
  "ref_char c = (if isalnum c \<or> c \<in> set ''-_.'' then c else CHR ''_'')"

definition safe_ref :: "string \<Rightarrow> string" where
  "safe_ref ref =
     (let safe = strip_by (\<lambda>c. c \<in> set ''._'') (take 80 (map ref_char (strip ref)))
      in if safe = [] then ''output'' else safe)"

text \<open>\<open>str(case_dir) if case_dir else _active_case_dir_str()\<close>.\<close>

definition case_text :: "host \<Rightarrow> string option \<Rightarrow> string" where
  "case_text h case_dir =
     (case case_dir of Some d \<Rightarrow> if d = [] then active_case_dir_str h else d
                     | None \<Rightarrow> active_case_dir_str h)"

definition resolve_output_ref :: "host \<Rightarrow> string \<Rightarrow> string option \<Rightarrow> ref_error + string" where
  "resolve_output_ref h ref case_dir =
     (if strip ref = [] then Inl RefBlank
      else let safe = safe_ref ref in
        if contains safe ''..'' \<or> contains safe ''/'' \<or> contains safe [CHR 0x00] then Inl RefSeparators
        else let case_str = case_text h case_dir in
          if case_str = [] then Inl RefNoCase
          else case resolve h (parse_path case_str) of
            Inl e \<Rightarrow> Inl (RefPath e)
          | Inr case_resolved \<Rightarrow>
              (let target = case_resolved @ [''agent'', ''run_commands'', safe] in
               if \<not> list_ex (\<lambda>subdir. target = subdir \<or> prefix subdir target) (case_writable_dirs case_resolved)
               then Inl RefOutsideJail else Inr (path_str target)))"

section \<open>The sanitizer\<close>

definition SENSITIVE_PATH_PREFIXES :: "string list" where
  "SENSITIVE_PATH_PREFIXES = [''/cases'', ''/evidence'', ''/mnt'', ''/media'', ''/var/lib/sift'', ''/dev'']"

definition token_char :: "char \<Rightarrow> bool" where
  "token_char c \<longleftrightarrow> in_range 65 90 c \<or> in_range 97 122 c \<or> in_range 48 57 c \<or> c \<in> set ''._-/''"

definition ABS_PATH_TOKEN_RE :: rx where
  "ABS_PATH_TOKEN_RE = cats [NotAfter (\<lambda>c. is_word_char c \<or> c = CHR ''.'' \<or> c = slash),
     Cls (\<lambda>c. c = slash), Plus (Cls token_char)]"

definition sensitive_prefixes :: "host \<Rightarrow> path_error + string list" where
  "sensitive_prefixes h =
     (let prefixes = SENSITIVE_PATH_PREFIXES @
            (case resolve h (cases_root h) of Inl _ \<Rightarrow> [] | Inr p \<Rightarrow> [path_str p]);
          state = getenv h ''SIFT_STATE_DIR''
      in if state = [] then Inr prefixes
         else res_bind (resolve h (parse_path state)) (\<lambda>p. Inr (prefixes @ [path_str p])))"

abbreviation redacted :: string where
  "redacted \<equiv> ''[REDACTED:absolute_path]''"

definition is_sensitive :: "string list \<Rightarrow> string \<Rightarrow> bool" where
  "is_sensitive sensitive token \<longleftrightarrow> list_ex (\<lambda>p. token = p \<or> startswith token (p @ ''/'')) sensitive"

definition redact_textual :: "string list \<Rightarrow> string \<Rightarrow> string" where
  "redact_textual sensitive token = (if is_sensitive sensitive token then redacted else token)"

definition redact_abs_token ::
  "host \<Rightarrow> string \<Rightarrow> comps option \<Rightarrow> string list \<Rightarrow> path_error + string" where
  "redact_abs_token h token case_resolved sensitive =
     (case case_resolved of
        None \<Rightarrow> Inr (redact_textual sensitive token)
      | Some c \<Rightarrow>
          res_bind (resolve h (parse_path token)) (\<lambda>candidate.
            if candidate = c \<or> prefix c candidate
            then Inr (py_path_str (RelPath (drop (length c) candidate)))
            else if token = path_str c then Inr ''.''
            else if startswith token (path_str c @ ''/'')
            then Inr (drop (length (path_str c @ ''/'')) token)
            else Inr (redact_textual sensitive token)))"

definition sanitize_path_value :: "host \<Rightarrow> string option \<Rightarrow> string \<Rightarrow> path_error + string" where
  "sanitize_path_value h case_dir value =
     (if \<not> contains value ''/'' then Inr value
      else let case_str = case_text h case_dir in
        res_bind (if case_str = [] then Inr None
                  else res_bind (resolve h (parse_path case_str)) (\<lambda>c. Inr (Some c))) (\<lambda>case_resolved.
        res_bind (sensitive_prefixes h) (\<lambda>sensitive.
          let stripped = strip value in
          if startswith stripped ''/'' \<and> stripped = value \<and> \<not> contains value '' '' \<and> \<not> contains value [CHR 0x0A]
          then redact_abs_token h value case_resolved sensitive
          else rx_sub ABS_PATH_TOKEN_RE (\<lambda>t. redact_abs_token h t case_resolved sensitive) value)))"

function sanitize_paths_deep :: "host \<Rightarrow> string option \<Rightarrow> pyval \<Rightarrow> path_error + pyval" where
  "sanitize_paths_deep h case_dir obj =
     (case obj of
        PStr s \<Rightarrow> res_bind (sanitize_path_value h case_dir s) (\<lambda>t. Inr (PStr t))
      | PDict items \<Rightarrow>
          res_bind (map_res (\<lambda>(k, v). res_bind (sanitize_paths_deep h case_dir v) (\<lambda>w. Inr (k, w))) items)
            (\<lambda>items'. Inr (PDict items'))
      | PList vs \<Rightarrow>
          res_bind (map_res (sanitize_paths_deep h case_dir) vs) (\<lambda>vs'. Inr (PList vs'))
      | _ \<Rightarrow> Inr obj)"
  by pat_completeness auto
termination
proof (relation "measure (\<lambda>(h, case_dir, obj). size obj)")
  fix h :: host and case_dir :: "string option" and obj items x k v
  assume "obj = PDict items" "x \<in> set items" "(k, v) = x"
  then show "((h, case_dir, v), (h, case_dir, obj)) \<in> measure (\<lambda>(h, case_dir, obj). size obj)"
    by (force dest: size_list_estimation' [where f = "size_prod size size"] )
next
  fix h :: host and case_dir :: "string option" and obj vs z
  assume "obj = PList vs" "z \<in> set vs"
  then show "((h, case_dir, z), (h, case_dir, obj)) \<in> measure (\<lambda>(h, case_dir, obj). size obj)"
    by (auto intro: le_imp_less_Suc size_list_estimation')
qed simp

section \<open>Display texts\<close>

lemma join_names_no_slash: "parsed_names p \<Longrightarrow> \<not> startswith (join_names p) ''/''"
proof (cases p rule: join_names.cases)
  case (2 n)
  then show "parsed_names p \<Longrightarrow> ?thesis" by (cases n) auto
next
  case (3 n m ns)
  then show "parsed_names p \<Longrightarrow> ?thesis" by (cases n) auto
qed auto

lemma rel_text_no_slash: "parsed_names p \<Longrightarrow> \<not> startswith (py_path_str (RelPath p)) ''/''"
  using join_names_no_slash by auto

lemma not_sensitive_relative:
  assumes "\<forall>p \<in> set sensitive. startswith p ''/''" and "\<not> startswith t ''/''"
  shows "\<not> is_sensitive sensitive t"
proof
  assume "is_sensitive sensitive t"
  then obtain p where p: "p \<in> set sensitive" "t = p \<or> startswith t (p @ ''/'')"
    by (auto simp: is_sensitive_def list_ex_iff)
  with assms(1) have "startswith p ''/''" by blast
  with p(2) have "startswith t ''/''"
    by (cases p; cases t) auto
  with assms(2) show False by contradiction
qed

lemma no_double_slash_rest:
  assumes "\<not> contains token ''//''" and "startswith token (w @ ''/'')"
  shows "\<not> startswith (drop (length (w @ ''/'')) token) ''/''"
proof
  assume "startswith (drop (length (w @ ''/'')) token) ''/''"
  moreover from assms(2) obtain t where t: "token = (w @ ''/'') @ t"
    by (auto simp: startswith_prefix prefix_def)
  ultimately obtain u where "t = slash # u" by (cases t) auto
  with t have "token = w @ ''//'' @ u" by simp
  with assms(1) show False unfolding contains_iff by blast
qed

lemma parsed_drop: "parsed_names p \<Longrightarrow> parsed_names (drop n p)"
  by (auto simp: parsed_names_def dest: in_set_dropD)

lemma redact_hides:
  assumes "host_ok h" "\<forall>p \<in> set sensitive. startswith p ''/''" "\<not> contains token ''//''"
    and "redact_abs_token h token c sensitive = Inr out"
  shows "\<not> is_sensitive sensitive out"
proof -
  have hidden: "\<not> is_sensitive sensitive ''.''" "\<not> is_sensitive sensitive redacted"
    by (rule not_sensitive_relative [OF assms(2)], simp)+
  show ?thesis
proof (cases c)
  case None
  then show ?thesis
    using assms(4) hidden by (auto simp: redact_abs_token_def redact_textual_def split: if_splits)
next
  case (Some c)
  with assms(4) obtain q where q: "resolve h (parse_path token) = Inr q"
    by (auto simp: redact_abs_token_def)
  have "parsed_names q"
    using resolve_canonical [OF assms(1) parse_path_parsed q] by (rule canonical_parsed)
  from rel_text_no_slash [OF parsed_drop [OF this]]
  have "\<not> is_sensitive sensitive (py_path_str (RelPath (drop (length c) q)))"
    by (rule not_sensitive_relative [OF assms(2)])
  moreover have "\<not> is_sensitive sensitive (drop (length (path_str c @ ''/'')) token)"
    if "startswith token (path_str c @ ''/'')"
    using no_double_slash_rest [OF assms(3) that] by (rule not_sensitive_relative [OF assms(2)])
  ultimately show ?thesis
    using assms(4) Some q hidden by (auto simp: redact_abs_token_def redact_textual_def split: if_splits)
qed
qed

lemma sensitive_absolute: "sensitive_prefixes h = Inr sensitive \<Longrightarrow> \<forall>p \<in> set sensitive. startswith p ''/''"
  by (auto simp: sensitive_prefixes_def Let_def SENSITIVE_PATH_PREFIXES_def path_str_def
      split: if_splits sum.splits)

text \<open>The value is one absolute path, with no white space around it and no space or line break in it.\<close>

definition one_path :: "string \<Rightarrow> bool" where
  "one_path value \<longleftrightarrow> startswith value ''/'' \<and> strip value = value \<and>
     \<not> contains value '' '' \<and> \<not> contains value [CHR 0x0A]"

text \<open>The agent sees no location of case, evidence, mount, device or state storage: in a
  sanitized value, a text that was one absolute path, and every absolute-path token of
  a free text, is replaced by a text that is no sensitive location, and the rest of a
  free text is unchanged.  The tokens with a doubled slash are outside the statement.\<close>

theorem sanitized_value_hides_locations:
  assumes "host_ok h" and "sensitive_prefixes h = Inr sensitive"
    and "sanitize_path_value h case_dir value = Inr out" and "contains value ''/''"
  shows "if one_path value then \<not> contains value ''//'' \<longrightarrow> \<not> is_sensitive sensitive out
    else \<exists>ws. out = concat ws \<and>
      list_all2 (\<lambda>(m, w) w'. (\<not> m \<longrightarrow> w' = w) \<and> (m \<and> \<not> contains w ''//'' \<longrightarrow> \<not> is_sensitive sensitive w'))
        (rx_pieces ABS_PATH_TOKEN_RE value) ws"
proof -
  note sens = sensitive_absolute [OF assms(2)]
  have one: "(startswith (strip value) ''/'' \<and> strip value = value \<and> \<not> contains value '' '' \<and>
      \<not> contains value [CHR 0x0A]) = one_path value"
    unfolding one_path_def by metis
  from assms have "\<exists>c. (if one_path value then redact_abs_token h value c sensitive
      else rx_sub ABS_PATH_TOKEN_RE (\<lambda>t. redact_abs_token h t c sensitive) value) = Inr out"
    unfolding sanitize_path_value_def Let_def one by (auto split: if_split_asm)
  then obtain c where c: "(if one_path value then redact_abs_token h value c sensitive
      else rx_sub ABS_PATH_TOKEN_RE (\<lambda>t. redact_abs_token h t c sensitive) value) = Inr out" ..
  show ?thesis
  proof (cases "one_path value")
    case True
    then show ?thesis using c redact_hides [OF assms(1) sens] by auto
  next
    case False
    with c obtain ws where "out = concat ws" and
      l: "list_all2 (\<lambda>(m, w) w'. (if m then redact_abs_token h w c sensitive else Inr w) = Inr w')
        (rx_pieces ABS_PATH_TOKEN_RE value) ws"
      by (auto simp: rx_sub_def map_res_Inr_iff case_prod_unfold)
    moreover have "list_all2 (\<lambda>(m, w) w'. (\<not> m \<longrightarrow> w' = w) \<and>
        (m \<and> \<not> contains w ''//'' \<longrightarrow> \<not> is_sensitive sensitive w')) (rx_pieces ABS_PATH_TOKEN_RE value) ws"
      using l by (rule list_all2_mono) (auto dest: redact_hides [OF assms(1) sens] split: if_splits)
    ultimately show ?thesis using False by auto
  qed
qed

section \<open>Display paths as arguments\<close>

lemma strip_no_space: "list_all (\<lambda>c. \<not> isspace c) s \<Longrightarrow> strip s = s"
proof -
  have "dropWhile isspace t = t" if "\<forall>c \<in> set t. \<not> isspace c" for t
    using that by (cases t) auto
  from this [of s] this [of "rev s"] show "list_all (\<lambda>c. \<not> isspace c) s \<Longrightarrow> strip s = s"
    by (simp add: strip_def strip_by_def lstrip_by_def list_all_iff)
qed

lemma resolve_display_text:
  assumes "canonical (readlink h) (c @ rel)"
  shows "resolve_user_path h (py_path_str (RelPath rel)) (Some (AbsPath c)) = Inr (c @ rel)"
proof -
  have "parsed_names rel" using canonical_parsed [OF assms] by simp
  then have "parse_path (py_path_str (RelPath rel)) = RelPath rel"
    using rel_text_no_slash [of rel] path_names_join [of rel]
    by (simp add: parse_path_def) (simp add: path_names_def)
  with assms canonical_append [OF assms] show ?thesis
    by (simp add: resolve_user_path_def resolve_fix)
qed

text \<open>What the agent is shown it can use: the display path of a file of the case, given
  back as an argument with the case as working directory, resolves to that file.\<close>

theorem display_path_round_trip:
  assumes "resolve h (parse_path (case_text h case_dir)) = Inr c" and "case_text h case_dir \<noteq> []"
    and "sensitive_prefixes h = Inr sensitive" and "canonical (readlink h) p" and "path_is_under p c"
    and "list_all (\<lambda>ch. \<not> isspace ch) (path_str p)"
  shows "\<exists>out. sanitize_path_value h case_dir (path_str p) = Inr out \<and>
    resolve_user_path h out (Some (AbsPath c)) = Inr p"
proof -
  from assms(5) obtain rel where p: "p = c @ rel" by (auto simp: prefix_def)
  have "resolve h (parse_path (path_str p)) = Inr p"
    using assms(4) by (simp add: path_round_trip canonical_parsed resolve_fix)
  then have "redact_abs_token h (path_str p) (Some c) sensitive = Inr (py_path_str (RelPath rel))"
    by (simp add: redact_abs_token_def p)
  moreover have "contains (path_str p) ''/''" "startswith (path_str p) ''/''"
    by (simp_all add: path_str_def)
  moreover have "\<not> contains (path_str p) '' ''" "\<not> contains (path_str p) [CHR 0x0A]"
    using assms(6) unfolding contains_single list_all_iff by (auto simp: isspace_def in_range_def)
  ultimately have "sanitize_path_value h case_dir (path_str p) = Inr (py_path_str (RelPath rel))"
    using assms(1-3) strip_no_space [OF assms(6)] by (simp add: sanitize_path_value_def Let_def)
  then show ?thesis using resolve_display_text assms(4) p by blast
qed

section \<open>Output references\<close>

lemma length_strip_by: "length (strip_by P s) \<le> length s"
proof -
  have "length (strip_by P s) \<le> length (dropWhile P s)"
    using length_dropWhile_le [of P "rev (dropWhile P s)"] by (simp add: strip_by_def lstrip_by_def)
  also have "\<dots> \<le> length s" by (rule length_dropWhile_le)
  finally show ?thesis .
qed

lemma ref_char_no_slash: "ref_char c \<noteq> slash"
  by (auto simp: ref_char_def isalnum_def isalpha_def isdigit_def in_range_def)

lemma safe_ref_name: "safe_ref ref \<noteq> []" "slash \<notin> set (safe_ref ref)" "length (safe_ref ref) \<le> 80"
proof -
  define P where "P = (\<lambda>c. c \<in> set ''._'')"
  define t where "t = take 80 (map ref_char (strip ref))"
  have safe: "safe_ref ref = (if strip_by P t = [] then ''output'' else strip_by P t)"
    by (simp add: safe_ref_def Let_def P_def t_def)
  show "safe_ref ref \<noteq> []" by (simp add: safe)
  have "set t \<subseteq> ref_char ` set (strip ref)"
    unfolding t_def using set_take_subset [of 80 "map ref_char (strip ref)"] by simp
  then have "slash \<notin> set t" using ref_char_no_slash by force
  then have "slash \<notin> set (strip_by P t)" using set_strip_by [of P t] by blast
  then show "slash \<notin> set (safe_ref ref)" by (simp add: safe)
  have "length (strip_by P t) \<le> 80"
    using length_strip_by [of P t] by (simp add: t_def)
  then show "length (safe_ref ref) \<le> 80" by (simp add: safe)
qed

text \<open>An output reference is one file name: whatever the agent supplies, the path chosen
  is \<open>agent/run_commands\<close> of the case and one plain name of at most eighty characters,
  and a reference is refused only when it is blank, keeps two adjacent dots, or there is
  no case.\<close>

theorem output_ref_is_one_name:
  assumes "resolve h (parse_path (case_text h case_dir)) = Inr c"
  shows "resolve_output_ref h ref case_dir =
      (if strip ref = [] then Inl RefBlank
       else if contains (safe_ref ref) ''..'' \<or> contains (safe_ref ref) [CHR 0x00] then Inl RefSeparators
       else if case_text h case_dir = [] then Inl RefNoCase
       else Inr (path_str (c @ [''agent'', ''run_commands'', safe_ref ref]))) \<and>
    safe_ref ref \<noteq> [] \<and> slash \<notin> set (safe_ref ref) \<and> length (safe_ref ref) \<le> 80"
  using assms safe_ref_name [of ref]
  by (simp add: resolve_output_ref_def Let_def case_writable_dirs_def contains_single)

section \<open>Concrete values and limits\<close>

lemma example_sensitive:
  "sensitive_prefixes example_host = Inr (SENSITIVE_PATH_PREFIXES @ [''/root/cases''])"
  by code_simp

theorem sanitized_value_hides_locations_witness:
  "sanitize_path_value example_host None ''/mnt/e01'' = Inr redacted \<and>
   \<not> is_sensitive (SENSITIVE_PATH_PREFIXES @ [''/root/cases'']) redacted"
proof -
  have v: "sanitize_path_value example_host None ''/mnt/e01'' = Inr redacted" by code_simp
  have "contains ''/mnt/e01'' ''/''" and p: "one_path ''/mnt/e01''" "\<not> contains ''/mnt/e01'' ''//''" by code_simp+
  from sanitized_value_hides_locations [OF example_ok(1) example_sensitive v this(1)] v p show ?thesis by simp
qed

theorem display_path_round_trip_witness:
  "\<exists>out. sanitize_path_value example_host None ''/cases/C1/tmp/o'' = Inr out \<and>
     resolve_user_path example_host out (Some (AbsPath example_case)) = Inr [''cases'', ''C1'', ''tmp'', ''o'']"
proof -
  let ?p = "[''cases'', ''C1'', ''tmp'', ''o'']"
  have c: "resolve example_host (parse_path (case_text example_host None)) = Inr example_case"
    and n: "case_text example_host None \<noteq> []" by code_simp+
  have "resolve example_host (parse_path ''/cases/C1/tmp/o'') = Inr ?p" by code_simp
  then have p: "canonical (readlink example_host) ?p"
    by (rule resolve_canonical [OF example_ok(1) parse_path_parsed])
  have "path_is_under ?p example_case" "list_all (\<lambda>ch. \<not> isspace ch) (path_str ?p)"
    by simp code_simp
  from display_path_round_trip [OF c n example_sensitive p this] show ?thesis
    by (simp add: path_str_def)
qed

theorem output_ref_is_one_name_witness:
  "resolve_output_ref example_host '' ../x y/ '' None = Inr ''/cases/C1/agent/run_commands/x_y''"
proof -
  have c: "resolve example_host (parse_path (case_text example_host None)) = Inr example_case" by code_simp
  have s: "safe_ref '' ../x y/ '' = ''x_y''" "strip '' ../x y/ '' = ''../x y/''"
    "case_text example_host None = ''/cases/C1''" by code_simp+
  from output_ref_is_one_name [OF c, of "'' ../x y/ ''"] s show ?thesis by (simp add: path_str_def)
qed

text \<open>A doubled slash hides a location from the sanitizer: the comparison with the sensitive
  prefixes is textual.\<close>

lemma doubled_slash_not_redacted:
  "sanitize_path_value example_host None ''//mnt/e01'' = Inr ''//mnt/e01''"
  by code_simp

text \<open>An output reference is checked as text only: when \<open>agent/run_commands\<close> is a symbolic link
  to sealed evidence, the reference is accepted although the output validator rejects
  the path it returns.\<close>

lemma output_ref_follows_links:
  "let h = example_host\<lparr>readlink := [[''cases'', ''C1'', ''agent'', ''run_commands''] \<mapsto> ''/cases/C1/evidence'']\<rparr>
   in resolve_output_ref h ''x'' None = Inr ''/cases/C1/agent/run_commands/x'' \<and>
      \<not> is_ok (validate_output_path h ''/cases/C1/agent/run_commands/x'' None)"
  by code_simp

end
