(* ===== verification/Py_Regex_Lang.thy ===== *)
theory Py_Regex_Lang
  imports Py_Regex
begin

text \<open>
  What the matcher decides.  \<open>rx_word r w\<close> is the language of a pattern, by the usual rules; for a
  pattern that looks at nothing outside its match (\<open>rx_local\<close>) the matcher reaches an end position
  exactly when the text up to there is a word of the language.  From this follows what
  \<open>re.sub\<close> leaves: replacing all matches of a pattern by a bracketed mark leaves no word of
  it, and creates no word of another one, as long as no word has a bracket in it
  (\<open>redaction_complete\<close>).
\<close>

section \<open>The language of a pattern\<close>

inductive rx_word :: "rx \<Rightarrow> string \<Rightarrow> bool" where
  eps [intro]: "rx_word Eps []"
| cls [intro]: "P c \<Longrightarrow> rx_word (Cls P) [c]"
| cat [intro]: "rx_word a u \<Longrightarrow> rx_word b v \<Longrightarrow> rx_word (Cat a b) (u @ v)"
| alt1 [intro]: "rx_word a u \<Longrightarrow> rx_word (Alt a b) u"
| alt2 [intro]: "rx_word b u \<Longrightarrow> rx_word (Alt a b) u"
| star0 [intro]: "rx_word (Star a) []"
| star1 [intro]: "rx_word a u \<Longrightarrow> u \<noteq> [] \<Longrightarrow> rx_word (Star a) v \<Longrightarrow> rx_word (Star a) (u @ v)"
| group [intro]: "rx_word a u \<Longrightarrow> rx_word (Group k a) u"

inductive_simps rx_word_simps [simp]:
  "rx_word Eps w" "rx_word (Cls P) w" "rx_word (Alt a b) w" "rx_word (Group k a) w"
inductive_simps rx_word_Cat: "rx_word (Cat a b) w"
inductive_cases rx_word_StarE: "rx_word (Star a) w"

primrec rx_local :: "rx \<Rightarrow> bool" where
  "rx_local Eps = True"
| "rx_local (Cls P) = True"
| "rx_local (Cat a b) = (rx_local a \<and> rx_local b)"
| "rx_local (Alt a b) = (rx_local a \<and> rx_local b)"
| "rx_local (Star a) = rx_local a"
| "rx_local (Group k a) = rx_local a"
| "rx_local (Backref k) = False"
| "rx_local WordBoundary = False"
| "rx_local LineStart = False"
| "rx_local LineEnd = False"
| "rx_local (NotAfter P) = False"
| "rx_local (NotBefore P) = False"

definition seg :: "string \<Rightarrow> nat \<Rightarrow> nat \<Rightarrow> string" where
  "seg s i j = take (j - i) (drop i s)"

lemma seg_same [simp]: "seg s i i = []"
  by (simp add: seg_def)

lemma length_seg: "i \<le> j \<Longrightarrow> j \<le> length s \<Longrightarrow> length (seg s i j) = j - i"
  by (simp add: seg_def)

lemma seg_append: "i \<le> k \<Longrightarrow> k \<le> j \<Longrightarrow> seg s i j = seg s i k @ seg s k j"
  unfolding seg_def using take_add [of "k - i" "j - k" "drop i s"] by (simp add: add.commute)

lemma seg_split:
  assumes "seg s i j = u @ v" "i \<le> j" "j \<le> length s"
  shows "i + length u \<le> j \<and> seg s i (i + length u) = u \<and> seg s (i + length u) j = v"
proof -
  have l: "length u + length v = j - i" using length_seg [OF assms(2,3)] assms(1) by simp
  then have k: "i + length u \<le> j" using assms(2) by arith
  have "seg s i (i + length u) @ seg s (i + length u) j = u @ v"
    using seg_append [of i "i + length u" j s] k assms(1) by simp
  moreover have "length (seg s i (i + length u)) = length u"
    using length_seg [of i "i + length u" s] k assms(3) by simp
  ultimately show ?thesis using k by simp
qed

lemma seg_single: "i < length s \<Longrightarrow> seg s i (Suc i) = [s ! i]"
  by (simp add: seg_def take_Suc hd_drop_conv_nth)

lemma seg_single_iff: "i \<le> j \<Longrightarrow> j \<le> length s \<Longrightarrow> seg s i j = [c] \<longleftrightarrow> j = Suc i \<and> s ! i = c"
proof -
  assume le: "i \<le> j" "j \<le> length s"
  have "j = Suc i" if "seg s i j = [c]" using that length_seg [OF le] by simp
  then show ?thesis using seg_single [of i s] le by fastforce
qed

text \<open>Where a matcher ends.\<close>

abbreviation reaches :: "string \<Rightarrow> rx \<Rightarrow> nat \<Rightarrow> groups \<Rightarrow> nat \<Rightarrow> bool" where
  "reaches s r i g j \<equiv> \<exists>h. (j, h) \<in> set (rx_match s r i g)"

lemma star_match_word:
  assumes f: "\<And>i g j. i \<le> length s \<Longrightarrow>
      (\<exists>h. (j, h) \<in> set (f i g)) \<longleftrightarrow> i \<le> j \<and> j \<le> length s \<and> rx_word a (seg s i j)"
  shows "i \<le> length s \<Longrightarrow> length s - i \<le> n \<Longrightarrow>
      (\<exists>h. (j, h) \<in> set (star_match f n i g)) \<longleftrightarrow> i \<le> j \<and> j \<le> length s \<and> rx_word (Star a) (seg s i j)"
proof (induction n arbitrary: i g)
  case 0
  then show ?case by (auto simp: seg_def)
next
  case (Suc n)
  have IH: "(\<exists>h. (j, h) \<in> set (star_match f n k g')) \<longleftrightarrow> k \<le> j \<and> j \<le> length s \<and> rx_word (Star a) (seg s k j)"
    if "i < k" "k \<le> length s" for k g'
    by (rule Suc.IH) (use that Suc.prems in auto)
  show ?case
  proof
    assume "\<exists>h. (j, h) \<in> set (star_match f (Suc n) i g)"
    then consider "j = i" | k g' where "(k, g') \<in> set (f i g)" "i < k" "\<exists>h. (j, h) \<in> set (star_match f n k g')"
      by (auto split: if_splits)
    then show "i \<le> j \<and> j \<le> length s \<and> rx_word (Star a) (seg s i j)"
    proof cases
      case 2
      then have k: "k \<le> length s" "rx_word a (seg s i k)" using f [OF Suc.prems(1), of k g] by blast+
      with 2 IH have j: "k \<le> j" "j \<le> length s" "rx_word (Star a) (seg s k j)" by blast+
      have "seg s i k \<noteq> []" using length_seg [of i k s] 2(2) k(1) by auto
      with k j show ?thesis using seg_append [of i k j s] 2(2) by auto
    qed (use Suc.prems in auto)
  next
    assume j: "i \<le> j \<and> j \<le> length s \<and> rx_word (Star a) (seg s i j)"
    show "\<exists>h. (j, h) \<in> set (star_match f (Suc n) i g)"
    proof (cases "seg s i j = []")
      case True
      then have "j = i" using j length_seg [of i j s] by auto
      then show ?thesis by auto
    next
      case False
      with j obtain u v where uv: "seg s i j = u @ v" "rx_word a u" "u \<noteq> []" "rx_word (Star a) v"
        by (metis rx_word_StarE)
      let ?k = "i + length u"
      have k: "?k \<le> j" "seg s i ?k = u" "seg s ?k j = v" using seg_split [OF uv(1)] j by auto
      then obtain g' where "(?k, g') \<in> set (f i g)" using f [OF Suc.prems(1), of ?k g] uv(2) j by auto
      moreover have "\<exists>h. (j, h) \<in> set (star_match f n ?k g')" using IH [of ?k g'] k j uv(3,4) by auto
      ultimately show ?thesis using uv(3) by force
    qed
  qed
qed

theorem rx_match_word:
  "rx_local r \<Longrightarrow> i \<le> length s \<Longrightarrow>
     (\<exists>h. (j, h) \<in> set (rx_match s r i g)) \<longleftrightarrow> i \<le> j \<and> j \<le> length s \<and> rx_word r (seg s i j)"
proof (induction r arbitrary: i j g)
  case Eps
  then show ?case using length_seg [of i j s] by auto
next
  case (Cls P)
  have "reaches s (Cls P) i g j \<longleftrightarrow> j = Suc i \<and> i < length s \<and> P (s ! i)" by auto
  also have "\<dots> \<longleftrightarrow> i \<le> j \<and> j \<le> length s \<and> (\<exists>c. seg s i j = [c] \<and> P c)"
    using seg_single_iff [of i j s] by (metis Suc_leI Suc_le_lessD le_add2 plus_1_eq_Suc)
  finally show ?case by (simp del: rx_match.simps)
next
  case (Cat a b)
  have "reaches s (Cat a b) i g j \<longleftrightarrow> (\<exists>k g'. (k, g') \<in> set (rx_match s a i g) \<and> reaches s b k g' j)"
    by fastforce
  also have "\<dots> \<longleftrightarrow> (\<exists>k. i \<le> k \<and> k \<le> length s \<and> rx_word a (seg s i k) \<and> k \<le> j \<and> j \<le> length s \<and> rx_word b (seg s k j))"
    using Cat by (metis rx_local.simps(3))
  also have "\<dots> \<longleftrightarrow> i \<le> j \<and> j \<le> length s \<and> rx_word (Cat a b) (seg s i j)"
  proof
    assume "\<exists>k. i \<le> k \<and> k \<le> length s \<and> rx_word a (seg s i k) \<and> k \<le> j \<and> j \<le> length s \<and> rx_word b (seg s k j)"
    then show "i \<le> j \<and> j \<le> length s \<and> rx_word (Cat a b) (seg s i j)"
      using seg_append [of i _ j s] by (metis le_trans rx_word.cat)
  next
    assume j: "i \<le> j \<and> j \<le> length s \<and> rx_word (Cat a b) (seg s i j)"
    then obtain u v where "seg s i j = u @ v" "rx_word a u" "rx_word b v" unfolding rx_word_Cat by blast
    with seg_split [of s i j u v] j
    show "\<exists>k. i \<le> k \<and> k \<le> length s \<and> rx_word a (seg s i k) \<and> k \<le> j \<and> j \<le> length s \<and> rx_word b (seg s k j)"
      by (intro exI [of _ "i + length u"]) auto
  qed
  finally show ?case .
next
  case (Alt a b)
  then show ?case by (auto simp: ex_disj_distrib)
next
  case (Star a)
  have "reaches s a i g j \<longleftrightarrow> i \<le> j \<and> j \<le> length s \<and> rx_word a (seg s i j)" if "i \<le> length s" for i g j
    using Star.IH [OF _ that] Star.prems(1) by simp
  then show ?case using star_match_word [of s "rx_match s a" a i "length s - i" j g] Star.prems(2) by simp
next
  case (Group k a)
  have "reaches s (Group k a) i g j \<longleftrightarrow> reaches s a i g j" by force
  with Group show ?case by simp
qed simp_all

text \<open>Two properties of a language read off the pattern: a character none of its words has, and whether the
  empty text may be one of them.\<close>

primrec rx_avoids :: "char \<Rightarrow> rx \<Rightarrow> bool" where
  "rx_avoids c Eps = True"
| "rx_avoids c (Cls P) = (\<not> P c)"
| "rx_avoids c (Cat a b) = (rx_avoids c a \<and> rx_avoids c b)"
| "rx_avoids c (Alt a b) = (rx_avoids c a \<and> rx_avoids c b)"
| "rx_avoids c (Star a) = rx_avoids c a"
| "rx_avoids c (Group k a) = rx_avoids c a"
| "rx_avoids c (Backref k) = True"
| "rx_avoids c WordBoundary = True"
| "rx_avoids c LineStart = True"
| "rx_avoids c LineEnd = True"
| "rx_avoids c (NotAfter P) = True"
| "rx_avoids c (NotBefore P) = True"

lemma rx_word_avoids: "rx_word r w \<Longrightarrow> rx_avoids c r \<Longrightarrow> c \<notin> set w"
  by (induction rule: rx_word.induct) auto

primrec rx_nullable :: "rx \<Rightarrow> bool" where
  "rx_nullable Eps = True"
| "rx_nullable (Cls P) = False"
| "rx_nullable (Cat a b) = (rx_nullable a \<and> rx_nullable b)"
| "rx_nullable (Alt a b) = (rx_nullable a \<or> rx_nullable b)"
| "rx_nullable (Star a) = True"
| "rx_nullable (Group k a) = rx_nullable a"
| "rx_nullable (Backref k) = True"
| "rx_nullable WordBoundary = True"
| "rx_nullable LineStart = True"
| "rx_nullable LineEnd = True"
| "rx_nullable (NotAfter P) = True"
| "rx_nullable (NotBefore P) = True"

lemma rx_word_nullable: "rx_word r w \<Longrightarrow> w = [] \<Longrightarrow> rx_nullable r"
  by (induction rule: rx_word.induct) auto

text \<open>A lower bound of the length of its words.\<close>

primrec rx_least :: "rx \<Rightarrow> nat" where
  "rx_least Eps = 0"
| "rx_least (Cls P) = 1"
| "rx_least (Cat a b) = rx_least a + rx_least b"
| "rx_least (Alt a b) = min (rx_least a) (rx_least b)"
| "rx_least (Star a) = 0"
| "rx_least (Group k a) = rx_least a"
| "rx_least (Backref k) = 0"
| "rx_least WordBoundary = 0"
| "rx_least LineStart = 0"
| "rx_least LineEnd = 0"
| "rx_least (NotAfter P) = 0"
| "rx_least (NotBefore P) = 0"

lemma rx_word_least: "rx_word r w \<Longrightarrow> rx_least r \<le> length w"
  by (induction rule: rx_word.induct) auto

text \<open>The tests on a sequence are tests on its parts.\<close>

lemma cats_parts [simp]:
  "rx_local (cats rs) \<longleftrightarrow> list_all rx_local rs"
  "rx_avoids c (cats rs) \<longleftrightarrow> list_all (rx_avoids c) rs"
  "rx_nullable (cats rs) \<longleftrightarrow> list_all rx_nullable rs"
  "rx_least (cats rs) = sum_list (map rx_least rs)"
  "starved s (cats rs) \<longleftrightarrow> list_ex (starved s) rs"
  by (induction rs rule: cats.induct) auto

lemma starved_mono: "starved s r \<Longrightarrow> set u \<subseteq> set s \<Longrightarrow> starved u r"
  by (induction r) (auto simp: list_all_iff)

text \<open>Searching is asking for a word inside the text.\<close>

lemma rx_search_word: "rx_local r \<Longrightarrow> rx_search r s \<longleftrightarrow> (\<exists>a w b. s = a @ w @ b \<and> rx_word r w)"
proof
  assume l: "rx_local r" and "rx_search r s"
  then obtain i j h where i: "i \<le> length s" and "(j, h) \<in> set (rx_match s r i no_groups)"
    unfolding rx_search_iff by (metis ex_in_conv prod.collapse set_empty)
  then have j: "i \<le> j" "j \<le> length s" "rx_word r (seg s i j)" using rx_match_word [OF l i] by blast+
  have "s = take i s @ seg s i j @ drop j s"
    using append_take_drop_id [of i s] append_take_drop_id [of "j - i" "drop i s"] j(1) unfolding seg_def
    by (simp del: append_take_drop_id)
  with j(3) show "\<exists>a w b. s = a @ w @ b \<and> rx_word r w" by blast
next
  assume l: "rx_local r" and "\<exists>a w b. s = a @ w @ b \<and> rx_word r w"
  then obtain a w b where s: "s = a @ w @ b" and w: "rx_word r w" by blast
  have "seg s (length a) (length a + length w) = w" by (simp add: s seg_def)
  then have "\<exists>h. (length a + length w, h) \<in> set (rx_match s r (length a) no_groups)"
    using rx_match_word [OF l, of "length a" s] w by (simp add: s)
  then show "rx_search r s" unfolding rx_search_iff
    by (intro exI [of _ "length a"]) (auto simp: s)
qed

lemma too_short_no_search: "rx_local r \<Longrightarrow> length s < rx_least r \<Longrightarrow> \<not> rx_search r s"
  using rx_word_least by (fastforce simp: rx_search_word)

lemma part_no_search: "rx_local (Cat a b) \<Longrightarrow> \<not> rx_search a s \<Longrightarrow> \<not> rx_search (Cat a b) s"
  by (auto simp: rx_search_word rx_word_Cat) (metis append_assoc)

section \<open>Replacing every match by one text\<close>

definition rx_subst :: "rx \<Rightarrow> string \<Rightarrow> string \<Rightarrow> string" where
  "rx_subst r mark s = concat (map (\<lambda>(m, w). if m then mark else w) (rx_pieces r s))"

text \<open>The starts of the matches of \<open>finditer\<close>.\<close>

fun piece_offsets :: "nat \<Rightarrow> (bool \<times> string) list \<Rightarrow> nat list" where
  "piece_offsets i [] = []"
| "piece_offsets i ((m, w) # ps) = (if m then [i] else []) @ piece_offsets (i + length w) ps"

definition rx_starts :: "rx \<Rightarrow> string \<Rightarrow> nat list" where
  "rx_starts r s = piece_offsets 0 (rx_pieces r s)"

definition hit :: "rx \<Rightarrow> string \<Rightarrow> nat \<Rightarrow> nat option" where
  "hit r s i = (case rx_match s r i no_groups of [] \<Rightarrow> None | (j, h) # _ \<Rightarrow> if i < j then Some j else None)"

lemma pieces_step:
  "rx_pieces_from r s i =
     (if length s \<le> i then []
      else case hit r s i of
        None \<Rightarrow> (False, [s ! i]) # rx_pieces_from r s (Suc i)
      | Some j \<Rightarrow> (True, take (j - i) (drop i s)) # rx_pieces_from r s j)"
  by (subst rx_pieces_from.simps) (auto simp: hit_def split: list.splits prod.splits)

lemma hit_later: "hit r s i = Some j \<Longrightarrow> i < j"
  by (auto simp: hit_def split: list.splits if_splits)

lemma pieces_from_induct [case_names past step]:
  assumes "\<And>i. length s \<le> i \<Longrightarrow> Q i"
    and "\<And>i. i < length s \<Longrightarrow> (hit r s i = None \<Longrightarrow> Q (Suc i)) \<Longrightarrow> (\<And>j. hit r s i = Some j \<Longrightarrow> Q j) \<Longrightarrow> Q i"
  shows "Q i"
proof (induction "length s - i" arbitrary: i rule: less_induct)
  case less
  show ?case
  proof (cases "length s \<le> i")
    case False
    then show ?thesis using assms(2) [of i] less hit_later by (metis diff_less_mono2 lessI not_le)
  qed (rule assms(1))
qed

definition subst_from :: "rx \<Rightarrow> string \<Rightarrow> string \<Rightarrow> nat \<Rightarrow> string" where
  "subst_from r mark s i = concat (map (\<lambda>(m, w). if m then mark else w) (rx_pieces_from r s i))"

lemma subst_from_step:
  "subst_from r mark s i =
     (if length s \<le> i then []
      else case hit r s i of
        None \<Rightarrow> s ! i # subst_from r mark s (Suc i)
      | Some j \<Rightarrow> mark @ subst_from r mark s j)"
  unfolding subst_from_def by (subst pieces_step) (simp split: option.split)

lemma subst_unmatched: "(\<And>k. i \<le> k \<Longrightarrow> k < length s \<Longrightarrow> hit r s k = None) \<Longrightarrow> subst_from r mark s i = drop i s"
proof (induction i rule: pieces_from_induct [where r = r and s = s])
  case (step i)
  then have "hit r s i = None" by simp
  with step show ?case by (subst subst_from_step) (simp add: Cons_nth_drop_Suc)
qed (simp add: subst_from_step)

lemma no_search_no_hit: "\<not> rx_search r s \<Longrightarrow> k \<le> length s \<Longrightarrow> hit r s k = None"
  by (simp add: rx_search_iff hit_def)

lemma rx_subst_none: "\<not> rx_search r s \<Longrightarrow> rx_subst r mark s = s"
  using subst_unmatched [of 0 s r mark] no_search_no_hit [of r s]
  by (simp add: rx_subst_def rx_pieces_def subst_from_def)

lemma rx_subst_Cls: "rx_subst (Cls P) [] s = filter (\<lambda>c. \<not> P c) s"
proof -
  have "subst_from (Cls P) [] s i = filter (\<lambda>c. \<not> P c) (drop i s)" for i
  proof (induction i rule: pieces_from_induct [where r = "Cls P" and s = s])
    case (step i)
    have d: "drop i s = s ! i # drop (Suc i) s" using step(1) by (simp add: Cons_nth_drop_Suc)
    have "hit (Cls P) s i = (if P (s ! i) then Some (Suc i) else None)" using step(1) by (simp add: hit_def)
    with step show ?case by (subst subst_from_step) (simp add: d)
  qed (simp add: subst_from_step)
  from this [of 0] show ?thesis by (simp add: rx_subst_def rx_pieces_def subst_from_def)
qed

text \<open>A match of a pattern that is not nullable is not empty, so a text has a match exactly when \<open>finditer\<close> finds one.\<close>

lemma star_match_progress:
  "(j, h) \<in> set (star_match f n i g) \<Longrightarrow> (\<And>i g j h. (j, h) \<in> set (f i g) \<Longrightarrow> i \<le> j) \<Longrightarrow> i \<le> j"
proof (induction n arbitrary: i g)
  case (Suc n)
  then show ?case by (fastforce split: if_splits)
qed simp

lemma rx_match_progress:
  "(j, h) \<in> set (rx_match s r i g) \<Longrightarrow> i \<le> j \<and> (\<not> rx_nullable r \<longrightarrow> i < j)"
proof (induction r arbitrary: i j g h)
  case (Cat a b)
  from Cat.prems obtain k g' where "(k, g') \<in> set (rx_match s a i g)" "(j, h) \<in> set (rx_match s b k g')" by auto
  with Cat.IH(1) [of k g' i g] Cat.IH(2) [of j h k g'] show ?case by auto
next
  case (Alt a b)
  then show ?case by (simp, blast)
next
  case (Star a)
  then show ?case using star_match_progress [of j h "rx_match s a" "length s - i" i g] by auto
next
  case (Group k a)
  from Group.prems obtain g' where "(j, g') \<in> set (rx_match s a i g)" by auto
  with Group.IH show ?case by simp
qed (auto split: if_splits option.splits)

lemma star_match_bound:
  "(j, h) \<in> set (star_match f n i g) \<Longrightarrow> (\<And>i g j h. (j, h) \<in> set (f i g) \<Longrightarrow> j \<le> max i m) \<Longrightarrow> j \<le> max i m"
proof (induction n arbitrary: i g)
  case (Suc n)
  then show ?case by (fastforce split: if_splits)
qed simp

lemma rx_match_bound: "(j, h) \<in> set (rx_match s r i g) \<Longrightarrow> j \<le> max i (length s)"
proof (induction r arbitrary: i j g h)
  case (Cat a b)
  from Cat.prems obtain k g' where "(k, g') \<in> set (rx_match s a i g)" "(j, h) \<in> set (rx_match s b k g')" by auto
  with Cat.IH(1) [of k g' i g] Cat.IH(2) [of j h k g'] show ?case by auto
next
  case (Star a)
  then show ?case using star_match_bound [of j h "rx_match s a" "length s - i" i g "length s"] by auto
next
  case (Backref n)
  from Backref.prems obtain w where w: "lower (take (length w) (drop i s)) = lower w" "j = i + length w"
    by (auto split: option.splits if_splits)
  from arg_cong [OF w(1), of length] have "length w \<le> length s - i" by (simp add: lower_def)
  then show ?case using w(2) by auto
qed (auto split: if_splits)

lemma hit_some: "\<not> rx_nullable r \<Longrightarrow> rx_match s r k no_groups \<noteq> [] \<Longrightarrow> hit r s k \<noteq> None"
proof -
  assume r: "\<not> rx_nullable r" and "rx_match s r k no_groups \<noteq> []"
  then obtain j h m where m: "rx_match s r k no_groups = (j, h) # m" by (metis list.exhaust prod.collapse)
  then have "k < j" using rx_match_progress [of j h s r k no_groups] r by simp
  with m show "hit r s k \<noteq> None" by (simp add: hit_def)
qed

lemma offsets_none: "piece_offsets i ps = [] \<longleftrightarrow> list_all (\<lambda>(m, w). \<not> m) ps"
  by (induction i ps rule: piece_offsets.induct) auto

lemma no_starts_from: "piece_offsets n (rx_pieces_from r s i) = [] \<Longrightarrow> i \<le> k \<Longrightarrow> k < length s \<Longrightarrow> hit r s k = None"
proof (induction i rule: pieces_from_induct [where r = r and s = s])
  case (step i)
  from step.prems(1) step(1) have none: "hit r s i = None"
    unfolding offsets_none by (subst (asm) pieces_step) (auto split: option.splits)
  from step.prems(1) step(1) none have "piece_offsets n (rx_pieces_from r s (Suc i)) = []"
    unfolding offsets_none by (subst (asm) pieces_step) simp
  then show ?case using step.IH(1) [OF none] step.prems none by (cases "k = i") auto
qed simp

lemma rx_starts_none: "\<not> rx_nullable r \<Longrightarrow> rx_starts r s = [] \<longleftrightarrow> \<not> rx_search r s"
proof
  assume r: "\<not> rx_nullable r" and s: "rx_starts r s = []"
  have "rx_match s r k no_groups = []" if "k \<le> length s" for k
  proof (cases "k < length s")
    case True
    then show ?thesis using no_starts_from [of 0 r s 0 k] s hit_some [OF r, of s k] by (auto simp: rx_starts_def rx_pieces_def)
  next
    case False
    show ?thesis
    proof (rule ccontr)
      assume "rx_match s r k no_groups \<noteq> []"
      then obtain j h where m: "(j, h) \<in> set (rx_match s r k no_groups)" by (metis list.set_intros(1) list.exhaust prod.collapse)
      from rx_match_progress [OF m] r have "k < j" by simp
      moreover have "j \<le> max k (length s)" using rx_match_bound [OF m] .
      ultimately show False using False that by simp
    qed
  qed
  then show "\<not> rx_search r s" by (auto simp: rx_search_iff)
next
  assume "\<not> rx_search r s"
  then have "list_all (\<lambda>(m, w). \<not> m) (rx_pieces_from r s i)" for i
  proof (induction i rule: pieces_from_induct [where r = r and s = s])
    case (past i)
    then show ?case by (subst pieces_step) simp
  next
    case (step i)
    then have "hit r s i = None" using no_search_no_hit [of r s i] by simp
    with step show ?case by (subst pieces_step) simp
  qed
  then show "rx_starts r s = []" by (simp add: rx_starts_def rx_pieces_def offsets_none)
qed

section \<open>Redaction by bracketed marks\<close>

definition bracketed :: "string \<Rightarrow> string" where
  "bracketed name = ''['' @ name @ '']''"

lemma unmarked_prefix:
  assumes "i \<le> length s" "subst_from r (bracketed name) s i = w @ b" "CHR ''['' \<notin> set w"
  shows "i + length w \<le> length s \<and> w = take (length w) (drop i s)"
  using assms
proof (induction i arbitrary: w rule: pieces_from_induct [where r = r and s = s])
  case (past i)
  then show ?case by (simp add: subst_from_step)
next
  case (step i)
  show ?case
  proof (cases w)
    case Nil
    with step show ?thesis by simp
  next
    case (Cons c w')
    have none: "hit r s i = None"
    proof (rule ccontr)
      assume "hit r s i \<noteq> None"
      with step.prems(2) Cons step(1) have "c = CHR ''[''"
        by (subst (asm) subst_from_step) (auto simp: bracketed_def)
      with step.prems(3) Cons show False by simp
    qed
    with step.prems(2) Cons step(1) have c: "c = s ! i" "subst_from r (bracketed name) s (Suc i) = w' @ b"
      by (subst (asm) subst_from_step, simp)+
    with step.IH(1) [OF none _ c(2)] step(1) step.prems(3) Cons show ?thesis
      by (simp add: Cons_nth_drop_Suc [symmetric])
  qed
qed

lemma factor_of_mark:
  assumes "bracketed name = a @ w @ v" "w \<noteq> []" "CHR ''['' \<notin> set w" "CHR '']'' \<notin> set w"
  shows "\<exists>x y. name = x @ w @ y"
proof -
  obtain a' where a: "a = CHR ''['' # a'" using assms by (cases a; cases w) (auto simp: bracketed_def)
  have "v \<noteq> []"
  proof
    assume "v = []"
    with assms(1) a have "name @ '']'' = a' @ w" by (simp add: bracketed_def)
    then have "last w = CHR '']''" using assms(2) by (metis last_appendR last_snoc)
    with assms(2,4) show False using last_in_set by metis
  qed
  then obtain v' c where "v = v' @ [c]" by (metis rev_exhaust)
  with assms(1) a have "name = a' @ w @ v'" by (simp add: bracketed_def)
  then show ?thesis by blast
qed

text \<open>A bracket-free word of the result stands in a mark or was in the text, from an unmatched position on.\<close>

lemma unmarked_factor:
  assumes "i \<le> length s" "subst_from r (bracketed name) s i = a @ w @ b"
    and w: "w \<noteq> []" "CHR ''['' \<notin> set w" "CHR '']'' \<notin> set w"
  shows "(\<exists>x y. name = x @ w @ y) \<or>
     (\<exists>k. k + length w \<le> length s \<and> w = take (length w) (drop k s) \<and> hit r s k = None)"
  using assms(1,2)
proof (induction i arbitrary: a rule: pieces_from_induct [where r = r and s = s])
  case (past i)
  then show ?case using w(1) by (simp add: subst_from_step)
next
  case (step i)
  show ?case
  proof (cases "hit r s i")
    case None
    show ?thesis
    proof (cases a)
      case Nil
      then show ?thesis using unmarked_prefix [OF step.prems(1), of r name w b] step.prems(2) w(2) None by auto
    next
      case (Cons c a')
      with step.prems(2) step(1) None have "subst_from r (bracketed name) s (Suc i) = a' @ w @ b"
        by (subst (asm) subst_from_step) simp
      then show ?thesis using step.IH(1) [OF None] step(1) by simp
    qed
  next
    case (Some j)
    let ?t = "subst_from r (bracketed name) s j"
    from step.prems(2) step(1) Some have e: "bracketed name @ ?t = a @ w @ b"
      by (subst (asm) subst_from_step) simp
    show ?thesis
    proof (cases "length s \<le> j")
      case True
      then have "bracketed name = a @ w @ b" using e by (simp add: subst_from_step)
      from factor_of_mark [OF this w] show ?thesis ..
    next
      case False
      then have IH: "?t = a' @ w @ b \<Longrightarrow> ?thesis" for a' using step.IH(2) [OF Some, of a'] by simp
      from e consider us where "bracketed name @ us = a" "?t = us @ w @ b"
        | us where "bracketed name = a @ us" "us @ ?t = w @ b"
        unfolding append_eq_append_conv2 by blast
      then show ?thesis
      proof cases
        case 1
        then show ?thesis using IH by blast
      next
        case 2
        from 2(2) consider vs where "us = w @ vs" | vs where "us @ vs = w" "?t = vs @ b"
          unfolding append_eq_append_conv2 by blast
        then show ?thesis
        proof cases
          case 1
          with 2(1) factor_of_mark [OF _ w] show ?thesis by blast
        next
          case v: 2
          show ?thesis
          proof (cases "us = []")
            case True
            then show ?thesis using v IH [of "[]"] by simp
          next
            case False
            with 2(1) have "last us = CHR '']''" by (metis bracketed_def last_appendR last_snoc append.assoc)
            with False have "CHR '']'' \<in> set us" by (metis last_in_set)
            then show ?thesis using v(1) w(3) by auto
          qed
        qed
      qed
    qed
  qed
qed

definition token_rx :: "rx \<Rightarrow> bool" where
  "token_rx r \<longleftrightarrow> rx_local r \<and> rx_avoids (CHR ''['') r \<and> rx_avoids (CHR '']'') r \<and> \<not> rx_nullable r"

lemma token_word: "token_rx r \<Longrightarrow> rx_word r w \<Longrightarrow> w \<noteq> [] \<and> CHR ''['' \<notin> set w \<and> CHR '']'' \<notin> set w"
  using rx_word_avoids rx_word_nullable unfolding token_rx_def by blast

lemma token_hit: "token_rx r \<Longrightarrow> rx_word r w \<Longrightarrow> k + length w \<le> length s \<Longrightarrow> w = take (length w) (drop k s) \<Longrightarrow> hit r s k \<noteq> None"
proof -
  assume r: "token_rx r" and w: "rx_word r w" "k + length w \<le> length s" "w = take (length w) (drop k s)"
  then have l: "rx_local r" "k \<le> length s" by (auto simp: token_rx_def)
  have "\<exists>h. (k + length w, h) \<in> set (rx_match s r k no_groups)"
    using w unfolding rx_match_word [OF l] seg_def by simp
  then obtain j h m where m: "rx_match s r k no_groups = (j, h) # m"
    by (metis list.set_cases prod.collapse)
  then have "k \<le> j" "j \<le> length s" "rx_word r (seg s k j)" using rx_match_word [OF l, of j no_groups] by auto
  then have "k < j" using token_word [OF r] by (metis le_neq_implies_less seg_same)
  then show "hit r s k \<noteq> None" by (simp add: hit_def m)
qed

text \<open>What the two facts give for \<open>re.sub\<close>: the pattern's own words are gone, and no other pattern gains one.\<close>

theorem redaction_complete:
  assumes r: "token_rx r" and name: "\<not> rx_search r name"
  shows "\<not> rx_search r (rx_subst r (bracketed name) s)"
proof
  have l: "rx_local r" using r by (simp add: token_rx_def)
  assume "rx_search r (rx_subst r (bracketed name) s)"
  then obtain a w b where w: "rx_word r w" and e: "subst_from r (bracketed name) s 0 = a @ w @ b"
    unfolding rx_search_word [OF l] by (auto simp: rx_subst_def rx_pieces_def subst_from_def)
  from unmarked_factor [OF _ e] token_word [OF r w]
  have "(\<exists>x y. name = x @ w @ y) \<or> (\<exists>k. k + length w \<le> length s \<and> w = take (length w) (drop k s) \<and> hit r s k = None)" by blast
  then show False using name w token_hit [OF r w] unfolding rx_search_word [OF l] by metis
qed

theorem redaction_stable:
  assumes q: "token_rx q" and name: "\<not> rx_search q name" and s: "\<not> rx_search q s"
  shows "\<not> rx_search q (rx_subst r (bracketed name) s)"
proof
  have l: "rx_local q" using q by (simp add: token_rx_def)
  assume "rx_search q (rx_subst r (bracketed name) s)"
  then obtain a w b where w: "rx_word q w" and e: "subst_from r (bracketed name) s 0 = a @ w @ b"
    unfolding rx_search_word [OF l] by (auto simp: rx_subst_def rx_pieces_def subst_from_def)
  from unmarked_factor [OF _ e] token_word [OF q w]
  have "(\<exists>x y. name = x @ w @ y) \<or> (\<exists>k. k + length w \<le> length s \<and> w = take (length w) (drop k s) \<and> hit r s k = None)" by blast
  then show False using name s w token_hit [OF q w] no_search_no_hit [OF s]
    unfolding rx_search_word [OF l] by (metis add_leD1)
qed

end
