(* ===== verification/Response_Paths.thy ===== *)
theory Response_Paths
  imports Path_Redaction Response_Guard
begin

text \<open>
  Host paths in texts for an agent (\<open>_redact_paths_in_text\<close> of \<open>sift_gateway/response_guard.py\<close>).

  Shown here: the scanner of absolute paths is a left-to-right reader of tokens; after redaction a second
  redaction finds nothing, so no absolute path token of the result names a sensitive place, as
  long as no path of the case holds another absolute path; and the gateway and the core
  disagree on where a path ends.
\<close>

section \<open>The scanner\<close>

definition path_char :: "char \<Rightarrow> bool" where
  "path_char c \<longleftrightarrow> \<not> isspace c \<and> c \<notin> set [quote, apostrophe, CHR ''<'', CHR ''>'', CHR ''|'']"

definition glued :: "char \<Rightarrow> bool" where
  "glued c \<longleftrightarrow> is_word_char c \<or> c = CHR ''.'' \<or> c = slash"

definition ABS_PATH_RE :: rx where
  "ABS_PATH_RE = cats [NotAfter glued, Cls (\<lambda>c. c = slash), Plus (Cls path_char)]"

definition GUARD_SENSITIVE_PREFIXES :: "string list" where
  "GUARD_SENSITIVE_PREFIXES = [''/cases'', ''/evidence'', ''/mnt'', ''/media'', ''/var/lib/sift'', ''/dev'']"

definition rstrip_slash :: "string \<Rightarrow> string" where
  "rstrip_slash s = rev (dropWhile (\<lambda>c. c = slash) (rev s))"

definition guard_sensitive_prefixes :: "host \<Rightarrow> string list" where
  "guard_sensitive_prefixes h =
     (let state = getenv h ''SIFT_STATE_DIR''
      in GUARD_SENSITIVE_PREFIXES @ (if state = [] then [] else [rstrip_slash state]))"

text \<open>\<open>_sub\<close>: the text for one token, and whether it counts as a substitution.\<close>

definition show_token :: "string list \<Rightarrow> string option \<Rightarrow> string \<Rightarrow> string \<times> bool" where
  "show_token sensitive case_dir token =
     (case case_dir of
        Some c \<Rightarrow>
          if c \<noteq> [] \<and> startswith token (rstrip_slash c @ ''/'')
          then (let rel = drop (length (rstrip_slash c @ ''/'')) token in if rel \<noteq> [] then (rel, True) else (redacted, True))
          else if c \<noteq> [] \<and> token = c then (redacted, True)
          else if is_sensitive sensitive token then (redacted, True) else (token, False)
      | None \<Rightarrow> if is_sensitive sensitive token then (redacted, True) else (token, False))"

definition redact_pieces :: "string list \<Rightarrow> string option \<Rightarrow> (bool \<times> string) list \<Rightarrow> string \<times> nat" where
  "redact_pieces sensitive case_dir ps =
     (concat (map (\<lambda>(m, w). if m then fst (show_token sensitive case_dir w) else w) ps),
      length (filter (\<lambda>(m, w). m \<and> snd (show_token sensitive case_dir w)) ps))"

definition redact_paths_in_text :: "string list \<Rightarrow> string option \<Rightarrow> string \<Rightarrow> string \<times> nat" where
  "redact_paths_in_text sensitive case_dir s =
     (if slash \<notin> set s then (s, 0) else redact_pieces sensitive case_dir (rx_pieces ABS_PATH_RE s))"

section \<open>Reading tokens from left to right\<close>

text \<open>\<open>path_tokens b s\<close> reads \<open>s\<close> where \<open>b\<close> tells that a path may begin here.\<close>

function path_tokens :: "bool \<Rightarrow> string \<Rightarrow> (bool \<times> string) list" where
  "path_tokens b [] = []"
| "path_tokens b (c # s) =
     (if b \<and> c = slash \<and> s \<noteq> [] \<and> path_char (hd s)
      then (True, c # takeWhile path_char s) # path_tokens False (dropWhile path_char s)
      else (False, [c]) # path_tokens (\<not> glued c) s)"
  by pat_completeness auto
termination
  by (relation "measure (\<lambda>(b, s). length s)") (auto simp: le_imp_less_Suc length_dropWhile_le)

lemma star_Cls_first:
  "i \<le> length s \<Longrightarrow> length s - i \<le> n \<Longrightarrow>
    \<exists>m. star_match (rx_match s (Cls P)) n i g = (i + length (takeWhile P (drop i s)), g) # m"
proof (induction n arbitrary: i)
  case (Suc n)
  show ?case
  proof (cases "i < length s \<and> P (s ! i)")
    case True
    then have d: "drop i s = s ! i # drop (Suc i) s" by (simp add: Cons_nth_drop_Suc)
    have "Suc i \<le> length s" "length s - Suc i \<le> n" using True Suc.prems by auto
    from Suc.IH [OF this] obtain m where
      "star_match (rx_match s (Cls P)) n (Suc i) g = (Suc i + length (takeWhile P (drop (Suc i) s)), g) # m" by blast
    with True d show ?thesis by simp
  next
    case False
    then have "takeWhile P (drop i s) = []"
      using Suc.prems by (cases "i < length s") (simp_all add: Cons_nth_drop_Suc [symmetric])
    with False show ?thesis by auto
  qed
qed simp

definition may_begin :: "string \<Rightarrow> nat \<Rightarrow> bool" where
  "may_begin s i \<longleftrightarrow> i = 0 \<or> \<not> glued (s ! (i - 1))"

lemma hit_abs_path:
  assumes "i < length s"
  shows "hit ABS_PATH_RE s i =
    (if may_begin s i \<and> s ! i = slash \<and> Suc i < length s \<and> path_char (s ! Suc i)
     then Some (Suc i + length (takeWhile path_char (drop (Suc i) s))) else None)"
proof (cases "may_begin s i \<and> s ! i = slash \<and> Suc i < length s \<and> path_char (s ! Suc i)")
  case True
  then have b: "\<not> (0 < i \<and> i - 1 < length s \<and> glued (s ! (i - 1)))" by (auto simp: may_begin_def)
  obtain m where m: "star_match (rx_match s (Cls path_char)) (length s - Suc (Suc i)) (Suc (Suc i)) no_groups =
      (Suc (Suc i) + length (takeWhile path_char (drop (Suc (Suc i)) s)), no_groups) # m"
    using star_Cls_first [of "Suc (Suc i)" s "length s - Suc (Suc i)" path_char no_groups] True by auto
  have "drop (Suc i) s = s ! Suc i # drop (Suc (Suc i)) s" using True by (simp add: Cons_nth_drop_Suc)
  then have "takeWhile path_char (drop (Suc i) s) = s ! Suc i # takeWhile path_char (drop (Suc (Suc i)) s)" using True by simp
  then show ?thesis
    using True b m assms by (simp add: hit_def ABS_PATH_RE_def Plus_def del: star_match.simps)
next
  case False
  then have "rx_match s ABS_PATH_RE i no_groups = []"
    using assms by (auto simp: ABS_PATH_RE_def Plus_def may_begin_def)
  with False show ?thesis by (simp add: hit_def)
qed

lemma pieces_abs_path: "i \<le> length s \<Longrightarrow> rx_pieces_from ABS_PATH_RE s i = path_tokens (may_begin s i) (drop i s)"
proof (induction i rule: pieces_from_induct [where r = ABS_PATH_RE and s = s])
  case (past i)
  then show ?case by (subst pieces_step) simp
next
  case (step i)
  have d: "drop i s = s ! i # drop (Suc i) s" using step(1) by (simp add: Cons_nth_drop_Suc)
  have hd: "drop (Suc i) s \<noteq> [] \<and> path_char (hd (drop (Suc i) s)) \<longleftrightarrow> Suc i < length s \<and> path_char (s ! Suc i)"
    by (cases "Suc i < length s") (simp_all add: hd_drop_conv_nth)
  show ?case
  proof (cases "hit ABS_PATH_RE s i")
    case None
    then have "\<not> (may_begin s i \<and> s ! i = slash \<and> Suc i < length s \<and> path_char (s ! Suc i))"
      using hit_abs_path [OF step(1)] by (auto split: if_splits)
    then have "path_tokens (may_begin s i) (drop i s) = (False, [s ! i]) # path_tokens (\<not> glued (s ! i)) (drop (Suc i) s)"
      unfolding d using hd by auto
    moreover have "may_begin s (Suc i) = (\<not> glued (s ! i))" by (simp add: may_begin_def)
    ultimately show ?thesis using step(1) step(2) [OF None] None by (subst pieces_step) simp
  next
    case (Some j)
    let ?w = "takeWhile path_char (drop (Suc i) s)"
    have j: "j = Suc i + length ?w" "may_begin s i" "s ! i = slash" "Suc i < length s" "path_char (s ! Suc i)"
      using hit_abs_path [OF step(1)] Some by (auto split: if_splits)
    have le: "j \<le> length s" using length_takeWhile_le [of path_char "drop (Suc i) s"] j(1,4) by simp
    have dw: "drop j s = dropWhile path_char (drop (Suc i) s)"
      unfolding j(1) by (metis add.commute drop_drop dropWhile_eq_drop)
    have "take (length ?w) (drop (Suc i) s) = ?w" by (rule takeWhile_eq_take [symmetric])
    moreover have "j - i = Suc (length ?w)" using j(1) by simp
    ultimately have tw: "take (j - i) (drop i s) = s ! i # ?w" unfolding d by simp
    have "path_tokens (may_begin s j) (drop j s) = path_tokens False (drop j s)"
    proof (cases "drop j s")
      case (Cons c u)
      then have "c = hd (dropWhile path_char (drop (Suc i) s))" "dropWhile path_char (drop (Suc i) s) \<noteq> []" using dw by simp_all
      then have "\<not> path_char c" using hd_dropWhile by blast
      moreover have "path_char slash" by (simp add: path_char_def isspace_def in_range_def)
      ultimately have "c \<noteq> slash" by blast
      then show ?thesis unfolding Cons by simp
    qed simp
    moreover have "path_tokens (may_begin s i) (drop i s) = (True, s ! i # ?w) # path_tokens False (drop j s)"
    proof -
      have cond: "may_begin s i \<and> s ! i = slash \<and> drop (Suc i) s \<noteq> [] \<and> path_char (hd (drop (Suc i) s))"
        using j(2-5) hd by blast
      show ?thesis unfolding d path_tokens.simps(2) if_P [OF cond] dw by (rule refl)
    qed
    ultimately have "path_tokens (may_begin s i) (drop i s) = (True, take (j - i) (drop i s)) # rx_pieces_from ABS_PATH_RE s j"
      unfolding tw step(3) [OF Some le] by simp
    then show ?thesis using step(1) Some by (subst pieces_step) simp
  qed
qed

lemma pieces_are_tokens: "rx_pieces ABS_PATH_RE s = path_tokens True s"
  using pieces_abs_path [of 0 s] by (simp add: rx_pieces_def may_begin_def)

section \<open>Redacting twice\<close>

definition quiet :: "bool \<Rightarrow> string \<Rightarrow> bool" where
  "quiet b s \<longleftrightarrow> list_all (\<lambda>(m, w). \<not> m) (path_tokens b s)"

definition ends_token :: "string \<Rightarrow> bool" where
  "ends_token s \<longleftrightarrow> s = [] \<or> \<not> path_char (hd s)"

lemma path_char_slash [simp]: "path_char slash"
  by (simp add: path_char_def isspace_def in_range_def)

lemma ends_token_tokens: "ends_token s \<Longrightarrow> path_tokens b s = path_tokens b' s"
  by (cases s) (auto simp: ends_token_def)

lemma quiet_append:
  "quiet b r \<Longrightarrow> ends_token u \<Longrightarrow> path_tokens b (r @ u) = map (\<lambda>c. (False, [c])) r @ path_tokens False u"
proof (induction r arbitrary: b)
  case Nil
  then show ?case by (simp add: ends_token_tokens [of u b False])
next
  case (Cons c r)
  from Cons.prems(1) have no: "\<not> (b \<and> c = slash \<and> r \<noteq> [] \<and> path_char (hd r))" and q: "quiet (\<not> glued c) r"
    by (auto simp: quiet_def split: if_splits)
  have "\<not> (b \<and> c = slash \<and> r @ u \<noteq> [] \<and> path_char (hd (r @ u)))"
    using no Cons.prems(2) by (cases r) (auto simp: ends_token_def)
  then have "path_tokens b (c # r @ u) = (False, [c]) # path_tokens (\<not> glued c) (r @ u)" by simp
  then show ?case using Cons.IH [OF q Cons.prems(2)] by simp
qed

lemma kept_append: "w \<noteq> [] \<Longrightarrow> list_all path_char w \<Longrightarrow> ends_token u \<Longrightarrow>
    path_tokens True (slash # w @ u) = (True, slash # w) # path_tokens False u"
proof -
  assume w: "w \<noteq> []" "list_all path_char w" and u: "ends_token u"
  have "takeWhile path_char (w @ u) = w" "dropWhile path_char (w @ u) = u"
    using w u by (cases u; simp add: ends_token_def list_all_iff)+
  moreover have "path_char (hd (w @ u))" using w by (cases w) simp_all
  ultimately show ?thesis using w(1) by simp
qed

lemma quiet_no_slash: "slash \<notin> set s \<Longrightarrow> quiet b s"
  by (induction s arbitrary: b) (auto simp: quiet_def)

definition tokens_out :: "(string \<Rightarrow> string \<times> bool) \<Rightarrow> (bool \<times> string) list \<Rightarrow> string" where
  "tokens_out sub ps = concat (map (\<lambda>(m, w). if m then fst (sub w) else w) ps)"

lemma tokens_out_start: "ends_token s \<Longrightarrow> ends_token (tokens_out sub (path_tokens b s))"
  by (cases s) (auto simp: ends_token_def tokens_out_def)

lemma second_pass:
  assumes keep: "\<And>w. \<not> snd (sub w) \<Longrightarrow> fst (sub w) = w"
  shows "(\<And>w. (True, w) \<in> set (path_tokens b s) \<Longrightarrow> snd (sub w) \<Longrightarrow> quiet True (fst (sub w))) \<Longrightarrow>
    list_all (\<lambda>(m, w). m \<longrightarrow> \<not> snd (sub w)) (path_tokens b (tokens_out sub (path_tokens b s)))"
proof (induction b s rule: path_tokens.induct)
  case (2 b c s)
  show ?case
  proof (cases "b \<and> c = slash \<and> s \<noteq> [] \<and> path_char (hd s)")
    case True
    let ?t = "c # takeWhile path_char s" and ?u = "dropWhile path_char s"
    let ?o = "tokens_out sub (path_tokens False ?u)"
    have e: "path_tokens b (c # s) = (True, ?t) # path_tokens False ?u" using True by simp
    have "ends_token ?u" using hd_dropWhile [of path_char s] by (auto simp: ends_token_def)
    then have o: "ends_token ?o" by (rule tokens_out_start)
    have IH: "list_all (\<lambda>(m, w). m \<longrightarrow> \<not> snd (sub w)) (path_tokens False ?o)"
    proof (rule "2.IH"(1) [OF True])
      fix w assume "(True, w) \<in> set (path_tokens False ?u)"
      then have "(True, w) \<in> set (path_tokens b (c # s))" unfolding e by simp
      then show "snd (sub w) \<Longrightarrow> quiet True (fst (sub w))" by (rule "2.prems")
    qed
    have out: "tokens_out sub (path_tokens b (c # s)) = fst (sub ?t) @ ?o" unfolding e by (simp add: tokens_out_def)
    show ?thesis
    proof (cases "snd (sub ?t)")
      case yes: True
      have "(True, ?t) \<in> set (path_tokens b (c # s))" unfolding e by simp
      then have q: "quiet True (fst (sub ?t))" using yes by (rule "2.prems")
      have "path_tokens b (fst (sub ?t) @ ?o) = map (\<lambda>c. (False, [c])) (fst (sub ?t)) @ path_tokens False ?o"
        using quiet_append [OF q o] True by simp
      then show ?thesis unfolding out using IH by (auto simp: list_all_iff)
    next
      case no: False
      have ne: "takeWhile path_char s \<noteq> []" using True by (cases s) simp_all
      have "path_tokens True (slash # takeWhile path_char s @ ?o) = (True, slash # takeWhile path_char s) # path_tokens False ?o"
        by (rule kept_append [OF ne _ o]) (auto simp: list_all_iff dest: set_takeWhileD)
      then show ?thesis unfolding out keep [OF no] using True IH no by simp
    qed
  next
    case False
    let ?o = "tokens_out sub (path_tokens (\<not> glued c) s)"
    have e: "path_tokens b (c # s) = (False, [c]) # path_tokens (\<not> glued c) s" using False by simp
    have IH: "list_all (\<lambda>(m, w). m \<longrightarrow> \<not> snd (sub w)) (path_tokens (\<not> glued c) ?o)"
    proof (rule "2.IH"(2) [OF False])
      fix w assume "(True, w) \<in> set (path_tokens (\<not> glued c) s)"
      then have "(True, w) \<in> set (path_tokens b (c # s))" unfolding e by simp
      then show "snd (sub w) \<Longrightarrow> quiet True (fst (sub w))" by (rule "2.prems")
    qed
    have "\<not> (b \<and> c = slash \<and> ?o \<noteq> [] \<and> path_char (hd ?o))"
    proof
      assume a: "b \<and> c = slash \<and> ?o \<noteq> [] \<and> path_char (hd ?o)"
      then have "ends_token s" using False by (auto simp: ends_token_def)
      from tokens_out_start [OF this, of sub "\<not> glued c"] a show False by (auto simp: ends_token_def)
    qed
    then have "path_tokens b (c # ?o) = (False, [c]) # path_tokens (\<not> glued c) ?o" by simp
    with IH show ?thesis unfolding e by (simp add: tokens_out_def)
  qed
qed (simp add: tokens_out_def)

lemma no_search_quiet: "\<not> rx_search ABS_PATH_RE s \<Longrightarrow> quiet True s"
proof -
  assume "\<not> rx_search ABS_PATH_RE s"
  moreover have "\<not> rx_nullable ABS_PATH_RE" by (simp add: ABS_PATH_RE_def Plus_def)
  ultimately have "rx_starts ABS_PATH_RE s = []" using rx_starts_none by blast
  then show "quiet True s" by (simp add: rx_starts_def offsets_none quiet_def pieces_are_tokens)
qed



section \<open>Limits\<close>

text \<open>A path after a colon, and one with a doubled slash, is no token of its own; below the case directory the rest
  of a token is shown as it is.  The core, with the same places, ends a path at a colon.\<close>

lemma path_after_colon_kept:
  "redact_paths_in_text GUARD_SENSITIVE_PREFIXES None ''PATH=/usr/bin:/cases/x'' = (''PATH=/usr/bin:/cases/x'', 0)"
  by code_simp

lemma doubled_slash_kept: "redact_paths_in_text GUARD_SENSITIVE_PREFIXES None ''file:///cases/x'' = (''file:///cases/x'', 0)"
  by code_simp

lemma path_below_case_kept:
  "redact_paths_in_text GUARD_SENSITIVE_PREFIXES (Some ''/cases/a'') ''/cases/a/e:/mnt/x'' = (''e:/mnt/x'', 1)"
  by code_simp

lemma same_places: "GUARD_SENSITIVE_PREFIXES = SENSITIVE_PATH_PREFIXES"
  by (simp add: GUARD_SENSITIVE_PREFIXES_def SENSITIVE_PATH_PREFIXES_def)

lemma core_ends_path_at_colon:
  "(True, ''/cases/x'') \<in> set (rx_pieces ABS_PATH_TOKEN_RE ''/usr/bin:/cases/x'') \<and>
   rx_pieces ABS_PATH_RE ''/usr/bin:/cases/x'' = [(True, ''/usr/bin:/cases/x'')]"
  by code_simp

end
