(* ===== verification/Json_Value.thy ===== *)
theory Json_Value
  imports Py_Text
begin

text \<open>
  Values of tool arguments and results: what a JSON document holds, and tuples.  A dictionary is the list of
  its entries in insertion order, a float is kept as its printed form.  \<open>all_text P v\<close>: every text
  of \<open>v\<close> that is no key satisfies \<open>P\<close>.
\<close>

datatype gkey = StrKey string | OtherKey int

datatype gval =
    GNull
  | GBool bool
  | GNum int
  | GFloat string
  | GStr string
  | GList "gval list"
  | GTuple "gval list"
  | GDict "(gkey \<times> gval) list"

abbreviation str_dict :: "(string \<times> gval) list \<Rightarrow> gval" where
  "str_dict kvs \<equiv> GDict (map (\<lambda>(k, v). (StrKey k, v)) kvs)"

fun gtruthy :: "gval \<Rightarrow> bool" where
  "gtruthy GNull = False"
| "gtruthy (GBool b) = b"
| "gtruthy (GNum i) = (i \<noteq> 0)"
| "gtruthy (GFloat t) = (t \<notin> {''0.0'', ''-0.0''})"
| "gtruthy (GStr s) = (s \<noteq> [])"
| "gtruthy (GList xs) = (xs \<noteq> [])"
| "gtruthy (GTuple xs) = (xs \<noteq> [])"
| "gtruthy (GDict kvs) = (kvs \<noteq> [])"

definition gget :: "(gkey \<times> gval) list \<Rightarrow> string \<Rightarrow> gval option" where
  "gget kvs k = map_of kvs (StrKey k)"

fun all_text :: "(string \<Rightarrow> bool) \<Rightarrow> gval \<Rightarrow> bool"
  and all_text_fields :: "(string \<Rightarrow> bool) \<Rightarrow> (gkey \<times> gval) list \<Rightarrow> bool"
  and all_text_items :: "(string \<Rightarrow> bool) \<Rightarrow> gval list \<Rightarrow> bool" where
  "all_text P (GStr s) = P s"
| "all_text P (GList xs) = all_text_items P xs"
| "all_text P (GTuple xs) = all_text_items P xs"
| "all_text P (GDict kvs) = all_text_fields P kvs"
| "all_text P _ = True"
| "all_text_fields P [] = True"
| "all_text_fields P ((k, v) # kvs) = (all_text P v \<and> all_text_fields P kvs)"
| "all_text_items P [] = True"
| "all_text_items P (v # vs) = (all_text P v \<and> all_text_items P vs)"

lemma all_text_mono:
  "all_text P v \<Longrightarrow> (\<And>s. P s \<Longrightarrow> Q s) \<Longrightarrow> all_text Q v"
  "all_text_fields P kvs \<Longrightarrow> (\<And>s. P s \<Longrightarrow> Q s) \<Longrightarrow> all_text_fields Q kvs"
  "all_text_items P vs \<Longrightarrow> (\<And>s. P s \<Longrightarrow> Q s) \<Longrightarrow> all_text_items Q vs"
  by (induction P v and P kvs and P vs rule: all_text_all_text_fields_all_text_items.induct) auto

lemma all_text_True: "all_text (\<lambda>_. True) v" "all_text_fields (\<lambda>_. True) kvs" "all_text_items (\<lambda>_. True) vs"
  by (induction "\<lambda>_::string. True" v and "\<lambda>_::string. True" kvs and "\<lambda>_::string. True" vs
      rule: all_text_all_text_fields_all_text_items.induct) auto

text \<open>A tool result: its content items, of which only texts are looked into, structured content and metadata.\<close>

datatype item = TextItem string | OtherItem nat

record tool_result =
  content :: "item list"
  structured :: "gval option"
  meta :: "(gkey \<times> gval) list option"
  is_error :: bool

fun item_text :: "item \<Rightarrow> string option" where
  "item_text (TextItem s) = Some s"
| "item_text (OtherItem n) = None"

end
