(* ===== verification/Audit_Helpers.thy ===== *)
theory Audit_Helpers
  imports Response_Content
begin

text \<open>
  What the gateway's audit keeps of a call (\<open>sift_gateway/audit_helpers.py\<close>): the audit ids found in a result, and
  its arguments and details, redacted and bounded.  \<open>loads\<close> is \<open>json.loads\<close> with \<open>None\<close> for a
  text it refuses, \<open>str_of\<close> is \<open>str\<close> of a key that is no text.

  Shown here: collecting ids returns each once, in order, at most two hundred, whatever the shape of the
  result; a bounded value has no long text and no long list; and where the bounds fail.
\<close>

section \<open>Audit ids\<close>

definition str_id :: "gval option \<Rightarrow> string option" where
  "str_id v = (case v of Some (GStr s) \<Rightarrow> if strip s = [] then None else Some (strip s) | _ \<Rightarrow> None)"

definition dict_id :: "gval \<Rightarrow> string option" where
  "dict_id v = (case v of GDict kvs \<Rightarrow> str_id (gget kvs ''audit_id'') | _ \<Rightarrow> None)"

definition first_some :: "('a \<Rightarrow> 'b option) \<Rightarrow> 'a list \<Rightarrow> 'b option" where
  "first_some f xs = (case filter (\<lambda>y. y \<noteq> None) (map f xs) of [] \<Rightarrow> None | y # _ \<Rightarrow> y)"

definition item_json :: "(string \<Rightarrow> gval option) \<Rightarrow> item \<Rightarrow> gval option" where
  "item_json loads it = (case item_text it of Some s \<Rightarrow> if s = [] then None else loads s | None \<Rightarrow> None)"

definition extract_audit_id :: "(string \<Rightarrow> gval option) \<Rightarrow> item list \<Rightarrow> string option" where
  "extract_audit_id loads items =
     first_some (\<lambda>it. case item_json loads it of Some v \<Rightarrow> dict_id v | None \<Rightarrow> None) items"

definition extract_audit_id_from_result :: "(string \<Rightarrow> gval option) \<Rightarrow> tool_result \<Rightarrow> string option" where
  "extract_audit_id_from_result loads r =
     (case extract_audit_id loads (content r) of
        Some aid \<Rightarrow> Some aid
      | None \<Rightarrow>
          (case (case structured r of Some v \<Rightarrow> dict_id v | None \<Rightarrow> None) of
             Some aid \<Rightarrow> Some aid
           | None \<Rightarrow> (case meta r of Some m \<Rightarrow> dict_id (GDict m) | None \<Rightarrow> None)))"

definition AUDIT_MAX_DEPTH :: nat where "AUDIT_MAX_DEPTH = 64"
definition AUDIT_MAX_ITEMS :: nat where "AUDIT_MAX_ITEMS = 200"

text \<open>The budget of \<open>_collect_audit_ids_from_obj\<close> is the number of ids still to be taken; the loop over the
  items of one key takes from it as well.\<close>

definition ids_of_value :: "gval \<Rightarrow> nat \<Rightarrow> string list" where
  "ids_of_value v n =
     (case v of
        GStr s \<Rightarrow> (case str_id (Some v) of Some i \<Rightarrow> [i] | None \<Rightarrow> [])
      | GList xs \<Rightarrow> take n (List.map_filter (\<lambda>x. str_id (Some x)) xs)
      | GTuple xs \<Rightarrow> take n (List.map_filter (\<lambda>x. str_id (Some x)) xs)
      | _ \<Rightarrow> [])"

definition is_id_key :: "gkey \<Rightarrow> bool" where
  "is_id_key k \<longleftrightarrow> k = StrKey ''audit_id'' \<or> k = StrKey ''audit_ids''"

fun collect_ids :: "nat \<Rightarrow> nat \<Rightarrow> gval \<Rightarrow> string list"
  and collect_fields :: "nat \<Rightarrow> nat \<Rightarrow> (gkey \<times> gval) list \<Rightarrow> string list"
  and collect_items :: "nat \<Rightarrow> nat \<Rightarrow> gval list \<Rightarrow> string list" where
  "collect_ids n d v =
     (if n = 0 \<or> d > AUDIT_MAX_DEPTH then []
      else case v of
        GDict kvs \<Rightarrow> collect_fields n d kvs
      | GList xs \<Rightarrow> collect_items n d xs
      | GTuple xs \<Rightarrow> collect_items n d xs
      | _ \<Rightarrow> [])"
| "collect_fields n d [] = []"
| "collect_fields n d ((k, v) # kvs) =
     (let ids = (if is_id_key k then ids_of_value v n else collect_ids n (Suc d) v)
      in ids @ collect_fields (n - length ids) d kvs)"
| "collect_items n d [] = []"
| "collect_items n d (v # vs) =
     (let ids = collect_ids n (Suc d) v in ids @ collect_items (n - length ids) d vs)"

declare collect_ids.simps [simp del]

lemma collect_ids_none [simp]: "collect_ids 0 d v = []"
  by (simp add: collect_ids.simps)

text \<open>First occurrences, in order.\<close>

fun first_seen :: "'a list \<Rightarrow> 'a list \<Rightarrow> 'a list" where
  "first_seen seen [] = []"
| "first_seen seen (x # xs) = (if x \<in> set seen then first_seen seen xs else x # first_seen (x # seen) xs)"

fun collect_content :: "(string \<Rightarrow> gval option) \<Rightarrow> nat \<Rightarrow> item list \<Rightarrow> string list" where
  "collect_content loads n [] = []"
| "collect_content loads n (it # items) =
     (let ids = (case item_json loads it of Some v \<Rightarrow> collect_ids n 0 v | None \<Rightarrow> [])
      in ids @ collect_content loads (n - length ids) items)"

definition is_container :: "gval \<Rightarrow> bool" where
  "is_container v \<longleftrightarrow> (case v of GDict _ \<Rightarrow> True | GList _ \<Rightarrow> True | _ \<Rightarrow> False)"

definition collect_result :: "(string \<Rightarrow> gval option) \<Rightarrow> tool_result \<Rightarrow> string list" where
  "collect_result loads r =
     (let a = collect_content loads AUDIT_MAX_ITEMS (content r);
          b = (case structured r of Some v \<Rightarrow> if is_container v then collect_ids (AUDIT_MAX_ITEMS - length a) 0 v else [] | None \<Rightarrow> []);
          c = (case meta r of Some m \<Rightarrow> collect_ids (AUDIT_MAX_ITEMS - length a - length b) 0 (GDict m) | None \<Rightarrow> [])
      in a @ b @ c)"

definition extract_all_audit_ids :: "(string \<Rightarrow> gval option) \<Rightarrow> item list \<Rightarrow> string list" where
  "extract_all_audit_ids loads items = first_seen [] (collect_content loads AUDIT_MAX_ITEMS items)"

definition extract_all_audit_ids_from_result :: "(string \<Rightarrow> gval option) \<Rightarrow> tool_result \<Rightarrow> string list" where
  "extract_all_audit_ids_from_result loads r = first_seen [] (collect_result loads r)"

section \<open>Bounded details\<close>

definition AUDIT_MAX_STR :: nat where "AUDIT_MAX_STR = 4096"
definition AUDIT_MAX_TOTAL :: int where "AUDIT_MAX_TOTAL = 16384"
definition AUDIT_TRUNC_MARK :: string where "AUDIT_TRUNC_MARK = ''...[truncated]''"

definition int_str :: "int \<Rightarrow> string" where
  "int_str i = (if i < 0 then CHR ''-'' # dec_digits (nat (- i)) else dec_digits (nat i))"

fun key_text :: "gkey \<Rightarrow> string" where
  "key_text (StrKey s) = s"
| "key_text (OtherKey i) = int_str i"

definition bound_string :: "string \<Rightarrow> int \<Rightarrow> string" where
  "bound_string s b =
     (let s1 = (if length s > AUDIT_MAX_STR then take AUDIT_MAX_STR s @ AUDIT_TRUNC_MARK else s)
      in if int (length s1) > b then take (nat (max b 0)) s1 @ AUDIT_TRUNC_MARK else s1)"

fun bound_value :: "gval \<Rightarrow> int \<Rightarrow> gval \<times> int"
  and bound_fields :: "(gkey \<times> gval) list \<Rightarrow> int \<Rightarrow> (gkey \<times> gval) list \<Rightarrow> (gkey \<times> gval) list \<times> int"
  and bound_items :: "nat \<Rightarrow> gval list \<Rightarrow> int \<Rightarrow> gval list \<times> int" where
  "bound_value v b =
     (if b \<le> 0 then (GStr AUDIT_TRUNC_MARK, b)
      else case v of
        GStr s \<Rightarrow> (let t = bound_string s b in (GStr t, b - int (length t)))
      | GDict kvs \<Rightarrow> (let q = bound_fields kvs b [] in (GDict (fst q), snd q))
      | GList xs \<Rightarrow> (let q = bound_items 0 xs b in (GList (fst q), snd q))
      | GTuple xs \<Rightarrow> (let q = bound_items 0 xs b in (GList (fst q), snd q))
      | _ \<Rightarrow> (v, b - 8))"
| "bound_fields [] b out = (out, b)"
| "bound_fields ((k, v) # kvs) b out =
     (if b \<le> 0 then (AList.update (StrKey ''_truncated'') (GBool True) out, b)
      else let key = key_text k; q = bound_value v (b - int (length key))
        in bound_fields kvs (snd q) (AList.update (StrKey key) (fst q) out))"
| "bound_items i [] b = ([], b)"
| "bound_items i (x # xs) b =
     (if i \<ge> AUDIT_MAX_ITEMS \<or> b \<le> 0 then ([GStr AUDIT_TRUNC_MARK], b)
      else let q = bound_value x b; r = bound_items (Suc i) xs (snd q) in (fst q # fst r, snd r))"

definition redact_for_audit :: "string list \<Rightarrow> (string \<Rightarrow> string) \<Rightarrow> string option \<Rightarrow> gval \<Rightarrow> gval" where
  "redact_for_audit sens realpath case_dir v =
     (let resolved = (case case_dir of Some d \<Rightarrow> if d = [] then None else Some (realpath d) | None \<Rightarrow> None);
          r = fst (redact_structured False ''$'' 0 v);
          q = fst (redact_paths_structured sens resolved ''$'' 0 r)
      in fst (bound_value q AUDIT_MAX_TOTAL))"

definition RUN_COMMAND_DETAIL_KEYS :: "string list" where
  "RUN_COMMAND_DETAIL_KEYS = [''provenance'', ''stages'', ''failed_stages'', ''privilege_escalation'', ''exit_code'',
     ''full_output_sha256'', ''full_output_bytes'', ''agent_action'', ''warnings'']"

definition run_command_detail :: "(gkey \<times> gval) list \<Rightarrow> (gkey \<times> gval) list" where
  "run_command_detail data =
     (let detail = concat (map (\<lambda>k. case gget data k of Some v \<Rightarrow> [(StrKey k, v)] | None \<Rightarrow> []) RUN_COMMAND_DETAIL_KEYS)
      in if gget detail ''exit_code'' \<noteq> None then detail
         else case gget data ''data'' of
           Some (GDict inner) \<Rightarrow> (case gget inner ''exit_code'' of Some v \<Rightarrow> detail @ [(StrKey ''exit_code'', v)] | None \<Rightarrow> detail)
         | _ \<Rightarrow> detail)"

definition is_run_command_data :: "(gkey \<times> gval) list \<Rightarrow> bool" where
  "is_run_command_data data \<longleftrightarrow>
     gget data ''tool'' = Some (GStr ''run_command'') \<or> gget data ''tool_name'' = Some (GStr ''run_command'') \<or>
     gget data ''provenance'' \<noteq> None"

fun extract_run_command_detail ::
  "string list \<Rightarrow> (string \<Rightarrow> string) \<Rightarrow> (string \<Rightarrow> gval option) \<Rightarrow> string option \<Rightarrow> item list \<Rightarrow> gval option" where
  "extract_run_command_detail sens realpath loads case_dir [] = None"
| "extract_run_command_detail sens realpath loads case_dir (it # items) =
     (case item_json loads it of
        Some (GDict data) \<Rightarrow>
          if \<not> is_run_command_data data then extract_run_command_detail sens realpath loads case_dir items
          else (let detail = run_command_detail data
                in if detail = [] then None else Some (redact_for_audit sens realpath case_dir (GDict detail)))
      | _ \<Rightarrow> extract_run_command_detail sens realpath loads case_dir items)"

text \<open>\<open>_summarize_result\<close> asks for its keys with \<open>in\<close>, which a text, a list and a dictionary answer each in its
  own way, and which raises for a number or \<open>null\<close>.\<close>

datatype audit_error = NotSubscriptable

definition SUMMARY_KEYS :: "string list" where
  "SUMMARY_KEYS = [''exit_code'', ''success'', ''error'', ''truncated'', ''found'']"

definition summary_of :: "gval \<Rightarrow> audit_error + (gkey \<times> gval) list" where
  "summary_of v =
     (case v of
        GDict kvs \<Rightarrow> Inr (concat (map (\<lambda>k. case gget kvs k of Some x \<Rightarrow> [(StrKey k, x)] | None \<Rightarrow> []) SUMMARY_KEYS))
      | GList xs \<Rightarrow> if list_ex (\<lambda>k. GStr k \<in> set xs) SUMMARY_KEYS then Inl NotSubscriptable else Inr []
      | GTuple xs \<Rightarrow> if list_ex (\<lambda>k. GStr k \<in> set xs) SUMMARY_KEYS then Inl NotSubscriptable else Inr []
      | GStr s \<Rightarrow> if list_ex (contains s) SUMMARY_KEYS then Inl NotSubscriptable else Inr []
      | _ \<Rightarrow> Inl NotSubscriptable)"

definition summarize_result :: "(string \<Rightarrow> gval option) \<Rightarrow> item list \<Rightarrow> audit_error + (gkey \<times> gval) list" where
  "summarize_result loads items =
     (case first_some (item_json loads) items of
        Some v \<Rightarrow> summary_of v
      | None \<Rightarrow> Inr [(StrKey ''raw_items'', GNum (int (length items)))])"

section \<open>Collecting\<close>

lemma set_first_seen: "set (first_seen seen xs) = set xs - set seen"
  by (induction seen xs rule: first_seen.induct) auto

lemma distinct_first_seen: "distinct (first_seen seen xs)"
  by (induction seen xs rule: first_seen.induct) (auto simp: set_first_seen)

lemma length_first_seen: "length (first_seen seen xs) \<le> length xs"
  by (induction seen xs rule: first_seen.induct) auto

definition id_text :: "string \<Rightarrow> bool" where
  "id_text i \<longleftrightarrow> i \<noteq> [] \<and> (\<exists>s. i = strip s)"

lemma str_id_text: "str_id v = Some i \<Longrightarrow> id_text i"
  by (auto simp: str_id_def id_text_def split: option.splits gval.splits if_splits)

lemma ids_of_value_text: "list_all id_text (ids_of_value v n)"
  using str_id_text
  by (auto simp: ids_of_value_def list_all_iff map_filter_def split: gval.splits option.splits dest!: in_set_takeD)

lemma collect_ids_text:
  "list_all id_text (collect_ids n d v)" "list_all id_text (collect_fields n d kvs)" "list_all id_text (collect_items n d vs)"
proof (induction n d v and n d kvs and n d vs rule: collect_ids_collect_fields_collect_items.induct)
  case (1 n d v)
  then show ?case by (cases v) (auto simp: collect_ids.simps [of n d])
qed (auto simp: Let_def ids_of_value_text)

lemma length_ids_of_value: "length (ids_of_value v n) \<le> max n 1"
  by (auto simp: ids_of_value_def split: gval.splits option.splits)

definition id_keys :: "(gkey \<times> gval) list \<Rightarrow> nat" where
  "id_keys kvs = length (filter (\<lambda>(k, v). is_id_key k) kvs)"

lemma collect_exhausted: "length (collect_fields 0 d kvs) \<le> id_keys kvs" "collect_items 0 d vs = []"
proof -
  show "length (collect_fields 0 d kvs) \<le> id_keys kvs"
  proof (induction kvs)
    case (Cons kv kvs)
    obtain k v where kv: "kv = (k, v)" by (cases kv)
    show ?case using Cons length_ids_of_value [of v 0] by (auto simp: kv id_keys_def Let_def)
  qed (simp add: id_keys_def)
  show "collect_items 0 d vs = []" by (induction vs) simp_all
qed

fun unique_keys :: "gval \<Rightarrow> bool"
  and unique_fields :: "(gkey \<times> gval) list \<Rightarrow> bool"
  and unique_items :: "gval list \<Rightarrow> bool" where
  "unique_keys (GDict kvs) = (distinct (map fst kvs) \<and> unique_fields kvs)"
| "unique_keys (GList xs) = unique_items xs"
| "unique_keys (GTuple xs) = unique_items xs"
| "unique_keys _ = True"
| "unique_fields [] = True"
| "unique_fields ((k, v) # kvs) = (unique_keys v \<and> unique_fields kvs)"
| "unique_items [] = True"
| "unique_items (v # vs) = (unique_keys v \<and> unique_items vs)"

lemma id_keys_two: "distinct (map fst kvs) \<Longrightarrow> id_keys kvs \<le> 2"
proof -
  assume d: "distinct (map fst kvs)"
  have "map fst (filter (\<lambda>(k, v). is_id_key k) kvs) = filter is_id_key (map fst kvs)"
    by (induction kvs) auto
  then have "id_keys kvs = length (filter is_id_key (map fst kvs))" unfolding id_keys_def by (metis length_map)
  also have "\<dots> = card (set (filter is_id_key (map fst kvs)))" using d by (metis distinct_card distinct_filter)
  also have "\<dots> \<le> card {StrKey ''audit_id'', StrKey ''audit_ids''}" by (rule card_mono) (auto simp: is_id_key_def)
  finally show ?thesis by simp
qed

lemma collect_length:
  "unique_keys v \<Longrightarrow> length (collect_ids n d v) \<le> n + 2 * (65 - d)"
  "unique_fields kvs \<Longrightarrow> length (collect_fields n d kvs) \<le> n + 2 * (64 - d) + id_keys kvs"
  "unique_items vs \<Longrightarrow> length (collect_items n d vs) \<le> n + 2 * (64 - d)"
proof (induction n d v and n d kvs and n d vs rule: collect_ids_collect_fields_collect_items.induct)
  case (1 n d v)
  show ?case
  proof (cases "n = 0 \<or> d > AUDIT_MAX_DEPTH")
    case False
    then have d: "65 - d = Suc (64 - d)" unfolding AUDIT_MAX_DEPTH_def by arith
    show ?thesis
    proof (cases v)
      case (GDict kvs)
      then have "length (collect_fields n d kvs) \<le> n + 2 * (64 - d) + id_keys kvs" using 1 False by simp
      moreover have "id_keys kvs \<le> 2" using 1(4) GDict id_keys_two by simp
      ultimately show ?thesis using False GDict d by (simp add: collect_ids.simps [of n d])
    qed (use 1 False d in \<open>auto simp: collect_ids.simps [of n d]\<close>)
  qed (auto simp: collect_ids.simps [of n d])
next
  case (3 n d k v kvs)
  let ?ids = "if is_id_key k then ids_of_value v n else collect_ids n (Suc d) v"
  have split: "length (collect_fields n d ((k, v) # kvs)) = length ?ids + length (collect_fields (n - length ?ids) d kvs)"
    by (simp add: Let_def)
  have cnt: "id_keys ((k, v) # kvs) = (if is_id_key k then 1 else 0) + id_keys kvs" by (simp add: id_keys_def)
  have IH: "length (collect_fields (n - length ?ids) d kvs) \<le> (n - length ?ids) + 2 * (64 - d) + id_keys kvs"
    using 3 by simp
  have len: "length ?ids \<le> n + 2 * (64 - d) + (if is_id_key k then 1 else 0)"
    using 3 length_ids_of_value [of v n] by auto
  show ?case
  proof (cases "length ?ids \<le> n")
    case True
    then show ?thesis unfolding split cnt using IH by simp
  next
    case False
    then have "length (collect_fields (n - length ?ids) d kvs) \<le> id_keys kvs" using collect_exhausted(1) [of d kvs] by simp
    then show ?thesis unfolding split cnt using len by simp
  qed
next
  case (5 n d v vs)
  let ?ids = "collect_ids n (Suc d) v"
  have split: "length (collect_items n d (v # vs)) = length ?ids + length (collect_items (n - length ?ids) d vs)"
    by (simp add: Let_def)
  have len: "length ?ids \<le> n + 2 * (64 - d)" and IH: "length (collect_items (n - length ?ids) d vs) \<le> (n - length ?ids) + 2 * (64 - d)"
    using 5 by simp_all
  show ?case
  proof (cases "length ?ids \<le> n")
    case True
    then show ?thesis unfolding split using IH by simp
  next
    case False
    then show ?thesis unfolding split using len collect_exhausted(2) [of d vs] by simp
  qed
qed simp_all

lemma collect_content_length:
  "(\<And>t v. loads t = Some v \<Longrightarrow> unique_keys v) \<Longrightarrow>
     length (collect_content loads n items) \<le> n + 130 \<and> list_all id_text (collect_content loads n items)"
proof (induction items arbitrary: n)
  case (Cons it items)
  let ?ids = "case item_json loads it of Some v \<Rightarrow> collect_ids n 0 v | None \<Rightarrow> []"
  have none: "collect_content loads 0 items = []" for items
    by (induction items) (simp_all split: option.split)
  have "length ?ids \<le> n + 130"
    using Cons.prems collect_length(1) [of _ n 0] by (fastforce simp: item_json_def split: option.splits if_splits)
  moreover have "length (collect_content loads (n - length ?ids) items) \<le> n - length ?ids + 130" using Cons by blast
  moreover have "list_all id_text ?ids" using collect_ids_text(1) by (simp split: option.split)
  moreover have "list_all id_text (collect_content loads (n - length ?ids) items)" using Cons by blast
  ultimately show ?case using none by (cases "length ?ids \<le> n") (simp_all add: Let_def)
qed simp

lemma shared_budget:
  "a \<le> n + k \<Longrightarrow> b \<le> (n - a) + k \<Longrightarrow> c \<le> (n - a - b) + k \<Longrightarrow> (n - a = 0 \<Longrightarrow> b = 0) \<Longrightarrow> (n - a - b = 0 \<Longrightarrow> c = 0) \<Longrightarrow>
    a + (b + c) \<le> n + k" for a b c n k :: nat
  by (cases "n - a = 0"; cases "n - a - b = 0") auto

text \<open>Audit ids.  Where objects have each name once, the ids taken from a result are distinct texts without
  surrounding white space, none is empty, and there are at most 330 of them, whatever the
  size and the nesting of the result: the limit of 200 can be passed by two for each level
  of nesting.\<close>

theorem audit_ids_bounded:
  assumes "\<And>t v. loads t = Some v \<Longrightarrow> unique_keys v"
    and "unique_keys (case structured r of Some v \<Rightarrow> v | None \<Rightarrow> GNull)"
    and "unique_keys (case meta r of Some m \<Rightarrow> GDict m | None \<Rightarrow> GNull)"
  shows "distinct (extract_all_audit_ids_from_result loads r) \<and> list_all id_text (extract_all_audit_ids_from_result loads r) \<and>
    length (extract_all_audit_ids_from_result loads r) \<le> 330"
proof -
  let ?a = "collect_content loads AUDIT_MAX_ITEMS (content r)"
  let ?b = "case structured r of Some v \<Rightarrow> if is_container v then collect_ids (AUDIT_MAX_ITEMS - length ?a) 0 v else [] | None \<Rightarrow> []"
  let ?c = "case meta r of Some m \<Rightarrow> collect_ids (AUDIT_MAX_ITEMS - length ?a - length ?b) 0 (GDict m) | None \<Rightarrow> []"
  have all: "collect_result loads r = ?a @ ?b @ ?c" by (simp add: collect_result_def Let_def)
  have a: "length ?a \<le> AUDIT_MAX_ITEMS + 130" "list_all id_text ?a" using collect_content_length [of loads AUDIT_MAX_ITEMS "content r"] assms(1) by blast+
  have b: "length ?b \<le> (AUDIT_MAX_ITEMS - length ?a) + 130" "list_all id_text ?b"
    using assms(2) collect_length(1) [of _ "AUDIT_MAX_ITEMS - length ?a" 0] collect_ids_text(1) by (auto split: option.split)
  have c: "length ?c \<le> (AUDIT_MAX_ITEMS - length ?a - length ?b) + 130" "list_all id_text ?c"
    using assms(3) collect_length(1) [of _ "AUDIT_MAX_ITEMS - length ?a - length ?b" 0] collect_ids_text(1) by (auto split: option.split)
  have b0: "?b = []" if "AUDIT_MAX_ITEMS - length ?a = 0" using that by (simp split: option.split)
  have c0: "?c = []" if "AUDIT_MAX_ITEMS - length ?a - length ?b = 0" using that by (simp split: option.split)
  have "length (collect_result loads r) \<le> AUDIT_MAX_ITEMS + 130"
    unfolding all length_append by (rule shared_budget [OF a(1) b(1) c(1)]) (use b0 c0 in simp_all)
  moreover have "list_all id_text (collect_result loads r)" unfolding all using a b c by simp
  ultimately show ?thesis
    using length_first_seen [of "[]" "collect_result loads r"] set_first_seen [of "[]" "collect_result loads r"]
    by (auto simp: extract_all_audit_ids_from_result_def distinct_first_seen AUDIT_MAX_ITEMS_def list_all_iff)
qed

theorem audit_ids_bounded_witness:
  "length (extract_all_audit_ids_from_result (\<lambda>_. None)
     \<lparr>content = [TextItem ''x''], structured = Some (GDict [(StrKey ''audit_ids'', GList [GStr '' a-1 '', GStr ''a-2'', GStr ''a-1''])]), meta = None, is_error = False\<rparr>) \<le> 330"
  using audit_ids_bounded [of "\<lambda>_. None" "\<lparr>content = [TextItem ''x''], structured = Some (GDict [(StrKey ''audit_ids'', GList [GStr '' a-1 '', GStr ''a-2'', GStr ''a-1''])]), meta = None, is_error = False\<rparr>"]
  by simp

section \<open>Bounding\<close>

declare bound_value.simps [simp del]

lemma length_bound_string: "length (bound_string s b) \<le> 4124"
  by (auto simp: bound_string_def Let_def AUDIT_MAX_STR_def AUDIT_TRUNC_MARK_def)

fun short_lists :: "nat \<Rightarrow> gval \<Rightarrow> bool"
  and short_fields :: "nat \<Rightarrow> (gkey \<times> gval) list \<Rightarrow> bool"
  and short_items :: "nat \<Rightarrow> gval list \<Rightarrow> bool" where
  "short_lists n (GList xs) = (length xs \<le> n \<and> short_items n xs)"
| "short_lists n (GTuple xs) = (length xs \<le> n \<and> short_items n xs)"
| "short_lists n (GDict kvs) = short_fields n kvs"
| "short_lists n _ = True"
| "short_fields n [] = True"
| "short_fields n ((k, v) # kvs) = (short_lists n v \<and> short_fields n kvs)"
| "short_items n [] = True"
| "short_items n (v # vs) = (short_lists n v \<and> short_items n vs)"

definition compact :: "gval \<Rightarrow> bool" where
  "compact v \<longleftrightarrow> all_text (\<lambda>s. length s \<le> 4124) v \<and> short_lists 201 v"

abbreviation compact_fields :: "(gkey \<times> gval) list \<Rightarrow> bool" where
  "compact_fields kvs \<equiv> all_text_fields (\<lambda>s. length s \<le> 4124) kvs \<and> short_fields 201 kvs"

lemma compact_update: "compact v \<Longrightarrow> compact_fields kvs \<Longrightarrow> compact_fields (AList.update k v kvs)"
  by (induction kvs) (auto simp: compact_def)

lemma bounded_compact:
  "compact (fst (bound_value v b))"
  "compact_fields out \<Longrightarrow> compact_fields (fst (bound_fields kvs b out))"
  "all_text_items (\<lambda>s. length s \<le> 4124) (fst (bound_items i xs b)) \<and> short_items 201 (fst (bound_items i xs b)) \<and>
     length (fst (bound_items i xs b)) \<le> (if i \<le> 200 then 201 - i else 1)"
proof (induction v b and kvs b out and i xs b rule: bound_value_bound_fields_bound_items.induct)
  case (1 v b)
  then show ?case
    by (cases v) (auto simp: bound_value.simps [of _ b] Let_def compact_def length_bound_string AUDIT_TRUNC_MARK_def)
next
  case (3 k v kvs b out)
  then show ?case
    using compact_update [of "GBool True" out "StrKey ''_truncated''"] compact_update [of _ out "StrKey (key_text k)"]
    by (simp add: Let_def) (simp add: compact_def)
next
  case (5 i x xs b)
  show ?case
  proof (cases "i \<ge> AUDIT_MAX_ITEMS \<or> b \<le> 0")
    case False
    then have "i < 200" by (simp add: AUDIT_MAX_ITEMS_def)
    with 5 False show ?thesis by (auto simp: Let_def compact_def)
  qed (auto simp: AUDIT_MAX_ITEMS_def AUDIT_TRUNC_MARK_def)
qed simp_all

text \<open>Audit details.  In what is stored of arguments and results no text is longer than 4124 characters and no
  list longer than 201 items, at any depth.\<close>

theorem audit_detail_bounded: "compact (redact_for_audit sens realpath case_dir v)"
  by (simp add: redact_for_audit_def Let_def bounded_compact)

text \<open>A value within the limits is stored as it is.\<close>

fun cost :: "gval \<Rightarrow> nat"
  and cost_fields :: "(gkey \<times> gval) list \<Rightarrow> nat"
  and cost_items :: "gval list \<Rightarrow> nat" where
  "cost (GStr s) = length s"
| "cost (GList xs) = cost_items xs"
| "cost (GTuple xs) = cost_items xs"
| "cost (GDict kvs) = cost_fields kvs"
| "cost _ = 8"
| "cost_fields [] = 0"
| "cost_fields ((k, v) # kvs) = length (key_text k) + cost v + cost_fields kvs"
| "cost_items [] = 0"
| "cost_items (v # vs) = cost v + cost_items vs"

fun storable :: "gval \<Rightarrow> bool"
  and storable_fields :: "gkey set \<Rightarrow> (gkey \<times> gval) list \<Rightarrow> bool"
  and storable_items :: "gval list \<Rightarrow> bool" where
  "storable (GStr s) = (length s \<le> AUDIT_MAX_STR)"
| "storable (GList xs) = (length xs \<le> AUDIT_MAX_ITEMS \<and> storable_items xs)"
| "storable (GTuple xs) = False"
| "storable (GDict kvs) = storable_fields {} kvs"
| "storable _ = True"
| "storable_fields K [] = True"
| "storable_fields K ((k, v) # kvs) = (k = StrKey (key_text k) \<and> k \<notin> K \<and> storable v \<and> storable_fields (insert k K) kvs)"
| "storable_items [] = True"
| "storable_items (v # vs) = (storable v \<and> storable_items vs)"

lemma update_new: "k \<notin> fst ` set kvs \<Longrightarrow> AList.update k v kvs = kvs @ [(k, v)]"
  by (induction kvs) auto

lemma bound_keeps:
  "storable v \<Longrightarrow> int (cost v) < b \<Longrightarrow> bound_value v b = (v, b - int (cost v))"
  "storable_fields (fst ` set out) kvs \<Longrightarrow> int (cost_fields kvs) < b \<Longrightarrow>
     bound_fields kvs b out = (out @ kvs, b - int (cost_fields kvs))"
  "storable_items xs \<Longrightarrow> i + length xs \<le> AUDIT_MAX_ITEMS \<Longrightarrow> int (cost_items xs) < b \<Longrightarrow>
     bound_items i xs b = (xs, b - int (cost_items xs))"
proof (induction v b and kvs b out and i xs b rule: bound_value_bound_fields_bound_items.induct)
  case (1 v b)
  then show ?case
    by (cases v) (auto simp: bound_value.simps [of _ b] Let_def bound_string_def)
next
  case (3 k v kvs b out)
  then have k: "k = StrKey (key_text k)" "k \<notin> fst ` set out" by simp_all
  have "bound_value v (b - int (length (key_text k))) = (v, b - int (length (key_text k)) - int (cost v))"
    using 3 by simp
  moreover have "AList.update (StrKey (key_text k)) v out = out @ [(k, v)]" using k update_new [of k out v] by simp
  ultimately show ?case using 3 by (simp add: Let_def)
next
  case (5 i x xs b)
  then show ?case by (simp add: Let_def)
qed simp_all

section \<open>Limits\<close>

text \<open>An id can be taken after the budget is spent; a long key is kept whole, and empty lists cost nothing, so that the
  total has no bound; and the summary of a result that is a bare number, or a text in which one of the
  key words occurs, raises an error.\<close>

lemma id_after_budget:
  "collect_ids 1 0 (GDict [(StrKey ''stages'', GDict [(StrKey ''audit_id'', GStr ''a'')]), (StrKey ''audit_id'', GStr ''b'')]) = [''a'', ''b'']"
  by code_simp

lemma long_key_kept: "fst (bound_value (GDict [(StrKey k, GNull)]) 10) = GDict [(StrKey k, if 10 \<le> length k then GStr AUDIT_TRUNC_MARK else GNull)]"
  by (simp add: bound_value.simps [of _ 10] bound_value.simps [of GNull] Let_def)

lemma empty_lists_free: "n \<le> 200 \<Longrightarrow> 0 < b \<Longrightarrow> bound_value (GList (replicate n (GList []))) b = (GList (replicate n (GList [])), b)"
proof -
  have "cost_items (replicate n (GList [])) = 0" "storable_items (replicate n (GList []))" by (induction n) simp_all
  then show "n \<le> 200 \<Longrightarrow> 0 < b \<Longrightarrow> ?thesis"
    using bound_keeps(1) [of "GList (replicate n (GList []))" b] by (simp add: AUDIT_MAX_ITEMS_def)
qed

lemma number_has_no_summary: "loads ''42'' = Some (GNum 42) \<Longrightarrow> summarize_result loads [TextItem ''42''] = Inl NotSubscriptable"
  by (simp add: summarize_result_def first_some_def item_json_def summary_of_def)

lemma error_text_has_no_summary:
  "loads t = Some (GStr ''error: no such file'') \<Longrightarrow> t \<noteq> [] \<Longrightarrow> summarize_result loads [TextItem t] = Inl NotSubscriptable"
  by (simp add: summarize_result_def first_some_def item_json_def summary_of_def SUMMARY_KEYS_def)

end
