(* ===== verification/Gateway_Identity.thy ===== *)
theory Gateway_Identity
  imports Audit_Helpers
begin

text \<open>
  Who calls: the identity of a request (\<open>sift_gateway/identity.py\<close>, \<open>_identity_from_claims\<close> of
  \<open>sift_gateway/mcp_endpoint.py\<close>) and the scopes that decide which tools it may list and call
  (\<open>is_tool_allowed\<close> and \<open>is_scope_satisfied\<close> of \<open>sift_gateway/supabase_auth.py\<close>).

  An optional attribute is a value, \<open>GNull\<close> when absent; a frozen set of scopes is the list of its members.
  Parameters are the registry of tokens, the check of a key against its hash, the fingerprint of a token
  and \<open>str\<close> on values that are neither texts nor numbers.
\<close>

section \<open>Identities\<close>

record case_membership =
  cm_case_id :: string
  cm_role :: string

record identity =
  principal :: string
  principal_type :: string
  token_id :: gval
  agent_id :: gval
  created_by :: gval
  id_role :: string
  source_ip :: gval
  auth_surface :: string
  id_case_id :: gval
  tool_scopes :: "string list"
  token_fingerprint :: gval
  auth_user_id :: gval
  principal_id :: gval
  system_role :: gval
  case_memberships :: "case_membership list"
  email :: gval

fun py_str :: "(gval \<Rightarrow> string) \<Rightarrow> gval \<Rightarrow> string" where
  "py_str shown (GStr s) = s"
| "py_str shown (GNum i) = int_str i"
| "py_str shown (GBool b) = (if b then ''True'' else ''False'')"
| "py_str shown (GFloat t) = t"
| "py_str shown GNull = ''None''"
| "py_str shown v = shown v"

text \<open>\<open>a or b\<close>.\<close>

definition or_else :: "gval option \<Rightarrow> gval \<Rightarrow> gval" where
  "or_else v d = (case v of Some x \<Rightarrow> if gtruthy x then x else d | None \<Rightarrow> d)"

definition or_null :: "gval option \<Rightarrow> gval" where
  "or_null v = (case v of Some x \<Rightarrow> x | None \<Rightarrow> GNull)"

text \<open>A record of the token registry holds the attributes of the identity it stands for.\<close>

record token_record =
  tr_principal :: string
  tr_principal_type :: string
  tr_id :: string
  tr_agent_id :: gval
  tr_created_by :: gval
  tr_role :: string
  tr_case_id :: gval
  tr_scopes :: "string list"
  tr_fingerprint :: gval

definition api_key_identity :: "(gval \<Rightarrow> string) \<Rightarrow> (string \<Rightarrow> string) \<Rightarrow> gval \<Rightarrow> string \<Rightarrow> string \<Rightarrow> (gkey \<times> gval) list \<Rightarrow> identity" where
  "api_key_identity shown fingerprint ip surface token key_info =
     (let role' = (case gget key_info ''role'' of Some v \<Rightarrow> py_str shown v | None \<Rightarrow> ''examiner'');
          examiner = (case gget key_info ''examiner'' of Some v \<Rightarrow> v | None \<Rightarrow> GStr ''unknown'')
      in \<lparr>principal = py_str shown (if role' = ''agent'' then or_else (gget key_info ''agent_id'') examiner else examiner),
          principal_type = (if role' = ''agent'' then ''agent'' else if role' = ''service'' then ''service'' else ''user''),
          token_id = or_else (gget key_info ''token_id'') (GStr (fingerprint token)),
          agent_id = or_null (gget key_info ''agent_id''), created_by = or_null (gget key_info ''created_by''),
          id_role = role', source_ip = ip, auth_surface = surface, id_case_id = GNull, tool_scopes = [], token_fingerprint = GNull,
          auth_user_id = GNull, principal_id = GNull, system_role = GNull, case_memberships = [], email = GNull\<rparr>)"

definition registry_identity :: "gval \<Rightarrow> string \<Rightarrow> token_record \<Rightarrow> identity" where
  "registry_identity ip surface r =
     \<lparr>principal = tr_principal r, principal_type = tr_principal_type r, token_id = GStr (tr_id r), agent_id = tr_agent_id r,
      created_by = tr_created_by r, id_role = tr_role r, source_ip = ip, auth_surface = surface, id_case_id = tr_case_id r,
      tool_scopes = tr_scopes r, token_fingerprint = tr_fingerprint r, auth_user_id = GNull, principal_id = GNull,
      system_role = GNull, case_memberships = [], email = GNull\<rparr>"

definition anonymous_identity :: "gval \<Rightarrow> string \<Rightarrow> identity" where
  "anonymous_identity ip surface =
     \<lparr>principal = ''anonymous'', principal_type = ''user'', token_id = GNull, agent_id = GNull, created_by = GNull,
      id_role = ''examiner'', source_ip = ip, auth_surface = surface, id_case_id = GNull, tool_scopes = [], token_fingerprint = GNull,
      auth_user_id = GNull, principal_id = GNull, system_role = GNull, case_memberships = [], email = GNull\<rparr>"

text \<open>\<open>api_keys\<close> tells whether there are keys; \<open>verify\<close> finds the entry of a key.\<close>

definition resolve_identity ::
  "(gval \<Rightarrow> string) \<Rightarrow> (string \<Rightarrow> string) \<Rightarrow> bool \<Rightarrow> (string \<Rightarrow> (gkey \<times> gval) list option) \<Rightarrow> (string \<Rightarrow> token_record option) option \<Rightarrow>
   string option \<Rightarrow> gval \<Rightarrow> string \<Rightarrow> identity option" where
  "resolve_identity shown fingerprint has_keys verify registry token ip surface =
     (if \<not> has_keys \<and> registry = None then Some (anonymous_identity ip surface)
      else case token of
        None \<Rightarrow> None
      | Some t \<Rightarrow>
          (case (case registry of Some look \<Rightarrow> look t | None \<Rightarrow> None) of
             Some r \<Rightarrow> Some (registry_identity ip surface r)
           | None \<Rightarrow> map_option (api_key_identity shown fingerprint ip surface t) (verify t)))"

section \<open>Claims\<close>

text \<open>What \<open>frozenset\<close> makes of the value: the items of a list, the keys of a dictionary, the characters of a text.
  A member that is no text raises, here or where the scopes are first read.\<close>

definition text_items :: "gval list \<Rightarrow> string list option" where
  "text_items xs = (if list_all (\<lambda>x. case x of GStr s \<Rightarrow> True | _ \<Rightarrow> False) xs
     then Some (map (\<lambda>x. case x of GStr s \<Rightarrow> s | _ \<Rightarrow> []) xs) else None)"

definition scopes_of :: "gval option \<Rightarrow> string list option" where
  "scopes_of v =
     (case v of
        None \<Rightarrow> Some []
      | Some x \<Rightarrow>
          if \<not> gtruthy x then Some []
          else case x of
            GList xs \<Rightarrow> text_items xs
          | GTuple xs \<Rightarrow> text_items xs
          | GDict kvs \<Rightarrow> text_items (map (\<lambda>(k, v). case k of StrKey s \<Rightarrow> GStr s | OtherKey i \<Rightarrow> GNum i) kvs)
          | GStr s \<Rightarrow> Some (map (\<lambda>c. [c]) s)
          | _ \<Rightarrow> None)"

text \<open>The loop over the memberships; a value that is no sequence raises.\<close>

definition membership_of :: "(gval \<Rightarrow> string) \<Rightarrow> gval \<Rightarrow> case_membership option" where
  "membership_of shown m =
     (case m of
        GDict kvs \<Rightarrow> (case gget kvs ''case_id'' of
            None \<Rightarrow> None
          | Some GNull \<Rightarrow> None
          | Some cid \<Rightarrow> Some \<lparr>cm_case_id = py_str shown cid, cm_role = py_str shown (or_null (gget kvs ''role''))\<rparr>)
      | _ \<Rightarrow> None)"

definition memberships_of :: "(gval \<Rightarrow> string) \<Rightarrow> gval option \<Rightarrow> case_membership list option" where
  "memberships_of shown v =
     (case or_else v (GList []) of
        GList xs \<Rightarrow> Some (List.map_filter (membership_of shown) xs)
      | GTuple xs \<Rightarrow> Some (List.map_filter (membership_of shown) xs)
      | GDict kvs \<Rightarrow> Some []
      | GStr s \<Rightarrow> Some []
      | _ \<Rightarrow> None)"

datatype claims_error = BadScopes | BadMemberships

definition identity_of_data :: "(gval \<Rightarrow> string) \<Rightarrow> gval \<Rightarrow> (gkey \<times> gval) list \<Rightarrow> claims_error + identity" where
  "identity_of_data shown ip d =
     (case scopes_of (gget d ''tool_scopes'') of
        None \<Rightarrow> Inl BadScopes
      | Some scopes \<Rightarrow>
          (case memberships_of shown (gget d ''case_memberships'') of
             None \<Rightarrow> Inl BadMemberships
           | Some memberships \<Rightarrow> Inr
         \<lparr>principal = py_str shown (or_else (gget d ''principal'') (GStr ''unknown'')),
          principal_type = py_str shown (or_else (gget d ''principal_type'') (GStr ''agent'')),
          token_id = or_null (gget d ''token_id''), agent_id = or_null (gget d ''agent_id''),
          created_by = or_null (gget d ''created_by''), id_role = py_str shown (or_else (gget d ''role'') (GStr ''agent'')),
          source_ip = (if gtruthy ip then ip else or_null (gget d ''source_ip'')),
          auth_surface = py_str shown (or_else (gget d ''auth_surface'') (GStr ''mcp'')),
          id_case_id = or_null (gget d ''case_id''), tool_scopes = scopes,
          token_fingerprint = or_null (gget d ''token_fingerprint''), auth_user_id = or_null (gget d ''auth_user_id''),
          principal_id = or_null (gget d ''principal_id''), system_role = or_null (gget d ''system_role''),
          case_memberships = memberships, email = GNull\<rparr>))"

definition identity_from_claims :: "(gval \<Rightarrow> string) \<Rightarrow> gval \<Rightarrow> (gkey \<times> gval) list option \<Rightarrow> claims_error + identity option" where
  "identity_from_claims shown ip claims =
     (case claims of
        None \<Rightarrow> Inr None
      | Some c \<Rightarrow>
          if c = [] then Inr None
          else case (case gget c ''sift_identity'' of Some v \<Rightarrow> v | None \<Rightarrow> GDict c) of
            GDict d \<Rightarrow> res_bind (identity_of_data shown ip d) (\<lambda>i. Inr (Some i))
          | _ \<Rightarrow> Inr None)"

section \<open>Scopes\<close>

definition scope_grants :: "string \<Rightarrow> string \<Rightarrow> bool" where
  "scope_grants scope tool_name =
     (if scope = ''mcp:*'' then True
      else if startswith scope ''tool:'' then tool_name = drop 5 scope
      else if startswith scope ''namespace:''
      then (let p = drop 10 scope in p \<noteq> [] \<and> startswith tool_name (p @ ''_''))
      else False)"

definition is_tool_allowed :: "identity option \<Rightarrow> string \<Rightarrow> bool" where
  "is_tool_allowed who tool_name =
     (case who of None \<Rightarrow> False | Some i \<Rightarrow> list_ex (\<lambda>scope. scope_grants scope tool_name) (tool_scopes i))"

definition is_scope_satisfied :: "identity option \<Rightarrow> string \<Rightarrow> bool" where
  "is_scope_satisfied who required =
     (case who of
        None \<Rightarrow> False
      | Some i \<Rightarrow>
          if tool_scopes i = [] then False
          else if ''mcp:*'' \<in> set (tool_scopes i) then True
          else if required \<in> set (tool_scopes i) then True
          else if startswith required ''tool:'' then is_tool_allowed (Some i) (drop 5 required)
          else False)"

lemma startswith_iff: "startswith s p \<longleftrightarrow> (\<exists>r. s = p @ r)"
  by (auto simp: startswith_prefix prefix_def)

lemma scope_grants_iff:
  "scope_grants scope tool \<longleftrightarrow> scope = ''mcp:*'' \<or> scope = ''tool:'' @ tool \<or>
     (\<exists>p rest. p \<noteq> [] \<and> scope = ''namespace:'' @ p \<and> tool = p @ ''_'' @ rest)"
proof -
  have split: "s = a @ b \<longleftrightarrow> startswith s a \<and> b = drop (length a) s" for s a b :: string
    by (auto simp: startswith_iff)
  have "scope = ''tool:'' @ tool \<longleftrightarrow> startswith scope ''tool:'' \<and> tool = drop 5 scope"
    unfolding split [of scope "''tool:''" tool] by (simp add: numeral_eq_Suc)
  moreover have "(\<exists>p rest. p \<noteq> [] \<and> scope = ''namespace:'' @ p \<and> tool = p @ ''_'' @ rest) \<longleftrightarrow>
      startswith scope ''namespace:'' \<and> drop 10 scope \<noteq> [] \<and> startswith tool (drop 10 scope @ ''_'')"
    by (auto simp: startswith_iff)
  moreover have "\<not> (startswith scope ''tool:'' \<and> startswith scope ''namespace:'')" by (auto simp: startswith_iff)
  moreover have "startswith ''mcp:*'' ''tool:'' = False" "startswith ''mcp:*'' ''namespace:'' = False"
    by (simp_all add: startswith_iff)
  ultimately show ?thesis unfolding scope_grants_def Let_def by auto
qed

text \<open>Scopes.  A tool is open to a caller exactly when the caller is known and has the scope of all tools, the scope of that
  tool, or the scope of a namespace whose name and an underscore begin the name of the tool;
  whoever may call the tool satisfies the requirement of its scope.\<close>

theorem tool_allowed_iff:
  "(is_tool_allowed who tool \<longleftrightarrow>
     (\<exists>i. who = Some i \<and> (''mcp:*'' \<in> set (tool_scopes i) \<or> ''tool:'' @ tool \<in> set (tool_scopes i) \<or>
        (\<exists>p rest. p \<noteq> [] \<and> ''namespace:'' @ p \<in> set (tool_scopes i) \<and> tool = p @ ''_'' @ rest)))) \<and>
   (is_scope_satisfied who (''tool:'' @ tool) \<longleftrightarrow> is_tool_allowed who tool)"
proof (cases who)
  case (Some i)
  have "is_tool_allowed who tool \<longleftrightarrow> ''mcp:*'' \<in> set (tool_scopes i) \<or> ''tool:'' @ tool \<in> set (tool_scopes i) \<or>
      (\<exists>p rest. p \<noteq> [] \<and> ''namespace:'' @ p \<in> set (tool_scopes i) \<and> tool = p @ ''_'' @ rest)"
    unfolding is_tool_allowed_def Some list_ex_iff scope_grants_iff by auto
  moreover from this have "is_scope_satisfied who (''tool:'' @ tool) \<longleftrightarrow> is_tool_allowed who tool"
    by (auto simp: is_scope_satisfied_def Some startswith_iff is_tool_allowed_def)
  ultimately show ?thesis using Some by simp
qed (simp add: is_tool_allowed_def is_scope_satisfied_def)

text \<open>A namespace is not required through the namespace that contains it, and claims without an identity are read as
  one.\<close>

lemma inner_namespace_not_satisfied:
  "tool_scopes i = [''namespace:a''] \<Longrightarrow> \<not> is_scope_satisfied (Some i) ''namespace:a_b''"
  by (simp add: is_scope_satisfied_def startswith_iff)

lemma claims_without_identity:
  "identity_from_claims shown GNull (Some [(StrKey ''tool_scopes'', GList [GStr ''mcp:*''])]) = Inr (Some i) \<Longrightarrow>
     is_tool_allowed (Some i) tool \<and> principal i = ''unknown''"
  by (auto simp: identity_from_claims_def identity_of_data_def gget_def scopes_of_def text_items_def is_tool_allowed_def
      scope_grants_def or_else_def memberships_of_def split: option.splits)

end
