(* ===== verification/Evidence_References.thy ===== *)
theory Evidence_References
  imports Command_Parser Path_Policy Evidence_Admission Gateway_Identity
begin

text \<open>
  Which evidence a call names (\<open>sift_gateway/evidence_admission.py\<close> and \<open>_evidence_references_for_tool\<close> of
  \<open>sift_gateway/policy_middleware.py\<close>): the words of a command whose paths resolve below the evidence directory of the case, and the
  arguments declared to hold references.

  Shown here: every word of a command, except the program and flags without a value, that reaches sealed evidence is among the
  references, as the path of the file below the case; a word that reaches it over a symbolic link is an error.
\<close>

section \<open>Commands\<close>

datatype ref_error = RefPath path_error | EvidenceAlias

definition lift_path :: "path_error + 'a \<Rightarrow> ref_error + 'a" where
  "lift_path r = (case r of Inl e \<Rightarrow> Inl (RefPath e) | Inr x \<Rightarrow> Inr x)"

definition working_directory :: "host \<Rightarrow> comps \<Rightarrow> string \<Rightarrow> ref_error + comps" where
  "working_directory h case_root value =
     (let t = strip value in
      if t = [] then Inr case_root
      else res_bind (lift_path (resolve h (path_join (AbsPath case_root) t))) (\<lambda>resolved.
        Inr (if prefix case_root resolved then resolved else case_root)))"

text \<open>\<open>argv[1:]\<close> and the targets of the redirections, stage after stage; nothing when a stage does not parse.\<close>

fun stage_words :: "(string \<times> string) list \<Rightarrow> string list option" where
  "stage_words [] = Some []"
| "stage_words ((sub, op) # stages) =
     (case parse_subcommand_argv_and_redirects sub of
        Inl e \<Rightarrow> None
      | Inr (argv, redirects) \<Rightarrow>
          (case stage_words stages of
             None \<Rightarrow> None
           | Some words \<Rightarrow> Some (drop 1 argv @ map snd (filter (\<lambda>(op, target). op \<noteq> ''2>&1'') redirects) @ words)))"

definition command_words :: "string \<Rightarrow> string list" where
  "command_words text = (case stage_words (split_command_by_operators text) of Some words \<Rightarrow> words | None \<Rightarrow> [])"

definition operand_value :: "string \<Rightarrow> string" where
  "operand_value raw =
     strip (if startswith raw ''-'' \<and> CHR ''='' \<in> set raw then drop 1 (dropWhile (\<lambda>c. c \<noteq> CHR ''='') raw) else raw)"

definition candidate_path :: "comps \<Rightarrow> string \<Rightarrow> comps" where
  "candidate_path base value = (case parse_path value of AbsPath p \<Rightarrow> p | RelPath p \<Rightarrow> base @ p)"

fun find_references :: "host \<Rightarrow> comps \<Rightarrow> comps \<Rightarrow> string list \<Rightarrow> string list \<Rightarrow> ref_error + string list" where
  "find_references h case_root base found [] = Inr found"
| "find_references h case_root base found (raw # raws) =
     (let value = operand_value raw in
      if value = [] \<or> startswith value ''-'' then find_references h case_root base found raws
      else let candidate = candidate_path base value in
        res_bind (lift_path (resolve h (AbsPath candidate))) (\<lambda>resolved.
          if \<not> prefix (case_root @ [''evidence'']) resolved then find_references h case_root base found raws
          else if norm_names [] candidate \<noteq> resolved then Inl EvidenceAlias
          else let rel = py_path_str (RelPath (drop (length case_root) resolved)) in
            find_references h case_root base (if rel \<in> set found then found else found @ [rel]) raws))"

definition command_evidence_references :: "host \<Rightarrow> string \<Rightarrow> string \<Rightarrow> string \<Rightarrow> ref_error + string list" where
  "command_evidence_references h command case_dir working_dir =
     (let t = strip command in
      if t = [] \<or> case_dir = [] then Inr []
      else res_bind (lift_path (resolve h (parse_path case_dir))) (\<lambda>case_root.
           res_bind (working_directory h case_root working_dir) (\<lambda>base.
             find_references h case_root base [] (command_words t))))"

section \<open>Arguments\<close>

definition EVIDENCE_REFERENCE_ARGUMENTS :: "(string \<times> string list) list" where
  "EVIDENCE_REFERENCE_ARGUMENTS =
     [(''run_command'', [''evidence_refs'', ''command'']), (''run_command_job'', [''evidence_refs'', ''command'']),
      (''opensearch_ingest'', [''path'']), (''opensearch_inspect_container'', [''path''])]"

definition declared_arguments :: "string \<Rightarrow> string list" where
  "declared_arguments name = (case map_of EVIDENCE_REFERENCE_ARGUMENTS name of Some ks \<Rightarrow> ks | None \<Rightarrow> [])"

text \<open>\<open>str(value or "")\<close>.\<close>

definition str_or_empty :: "(gval \<Rightarrow> string) \<Rightarrow> gval option \<Rightarrow> string" where
  "str_or_empty shown v = py_str shown (or_else v (GStr []))"

definition argument_references ::
  "host \<Rightarrow> (gval \<Rightarrow> string) \<Rightarrow> (gkey \<times> gval) list \<Rightarrow> string \<Rightarrow> string \<Rightarrow> ref_error + string list" where
  "argument_references h shown args case_dir key =
     (if key = ''command'' then
        command_evidence_references h (str_or_empty shown (gget args key)) case_dir (str_or_empty shown (gget args ''working_dir''))
      else case gget args key of
        Some (GStr s) \<Rightarrow> Inr (if strip s = [] then [] else [s])
      | Some (GList xs) \<Rightarrow> Inr (filter (\<lambda>s. strip s \<noteq> []) (map (py_str shown) xs))
      | Some (GTuple xs) \<Rightarrow> Inr (filter (\<lambda>s. strip s \<noteq> []) (map (py_str shown) xs))
      | _ \<Rightarrow> Inr [])"

fun collect_references ::
  "host \<Rightarrow> (gval \<Rightarrow> string) \<Rightarrow> (gkey \<times> gval) list \<Rightarrow> string \<Rightarrow> string list \<Rightarrow> ref_error + (string \<times> string list) list" where
  "collect_references h shown args case_dir [] = Inr []"
| "collect_references h shown args case_dir (key # ks) =
     res_bind (argument_references h shown args case_dir key) (\<lambda>values.
       res_bind (collect_references h shown args case_dir ks) (\<lambda>more.
         Inr (if values = [] then more else (key, first_seen [] values) # more)))"

definition evidence_references_for_tool ::
  "host \<Rightarrow> (gval \<Rightarrow> string) \<Rightarrow> string \<Rightarrow> (gkey \<times> gval) list \<Rightarrow> string \<Rightarrow> ref_error + (string \<times> string list) list" where
  "evidence_references_for_tool h shown name args case_dir =
     collect_references h shown args case_dir (declared_arguments name)"

lemma collect_declared: "collect_references h shown args case_dir ks = Inr refs \<Longrightarrow> fst ` set refs \<subseteq> set ks"
  by (induction h shown args case_dir ks arbitrary: refs rule: collect_references.induct)
    (fastforce simp: res_bind_Inr_iff split: if_splits)+

lemma references_depend:
  "(\<And>k. k \<in> insert ''working_dir'' (set ks) \<Longrightarrow> gget a k = gget b k) \<Longrightarrow>
     collect_references h shown a case_dir ks = collect_references h shown b case_dir ks"
proof (induction ks)
  case (Cons key ks)
  have "gget a key = gget b key" "gget a ''working_dir'' = gget b ''working_dir''" by (rule Cons.prems, simp)+
  then have "argument_references h shown a case_dir key = argument_references h shown b case_dir key"
    unfolding argument_references_def by (simp only:)
  moreover have "collect_references h shown a case_dir ks = collect_references h shown b case_dir ks"
    by (rule Cons.IH) (rule Cons.prems, auto)
  ultimately show ?case by simp
qed simp

lemma declared_subset: "set (declared_arguments name) \<subseteq> {''evidence_refs'', ''command'', ''path''}"
  by (auto simp: declared_arguments_def EVIDENCE_REFERENCE_ARGUMENTS_def split: if_splits)

section \<open>Every operand is found\<close>

text \<open>Where an operand reaches, unless it is one the code skips.\<close>

definition reaches_path :: "host \<Rightarrow> comps \<Rightarrow> string \<Rightarrow> comps option" where
  "reaches_path h base raw =
     (let value = operand_value raw in
      if value = [] \<or> startswith value ''-'' then None
      else case resolve h (AbsPath (candidate_path base value)) of Inr p \<Rightarrow> Some p | Inl e \<Rightarrow> None)"

definition evidence_ref :: "comps \<Rightarrow> string" where
  "evidence_ref rest = py_path_str (RelPath (''evidence'' # rest))"

lemma lift_path_Inr [simp]: "lift_path r = Inr x \<longleftrightarrow> r = Inr x"
  by (auto simp: lift_path_def split: sum.splits)

lemma find_references_set:
  "find_references h root base found raws = Inr refs \<Longrightarrow>
     set refs = set found \<union> {evidence_ref rest |raw rest. raw \<in> set raws \<and> reaches_path h base raw = Some (root @ [''evidence''] @ rest)}"
proof (induction h root base found raws arbitrary: refs rule: find_references.induct)
  case (2 h root base found raw raws)
  let ?v = "operand_value raw"
  let ?new = "\<lambda>raws. {evidence_ref rest |raw rest. raw \<in> set raws \<and> reaches_path h base raw = Some (root @ [''evidence''] @ rest)}"
  show ?case
  proof (cases "?v = [] \<or> startswith ?v ''-''")
    case True
    then have "reaches_path h base raw = None" by (simp add: reaches_path_def)
    then have "?new (raw # raws) = ?new raws" by auto
    moreover have "set refs = set found \<union> ?new raws" using 2(1) [OF refl True] 2(4) True by (simp add: Let_def)
    ultimately show ?thesis by simp
  next
    case False
    let ?c = "candidate_path base ?v"
    from 2(4) False obtain p where p: "resolve h (AbsPath ?c) = Inr p" by (auto simp: Let_def res_bind_Inr_iff)
    then have r: "reaches_path h base raw = Some p" using False by (simp add: reaches_path_def Let_def)
    show ?thesis
    proof (cases "prefix (root @ [''evidence'']) p")
      case out: False
      then have "?new (raw # raws) = ?new raws" using r by (auto simp: prefix_def)
      moreover have "set refs = set found \<union> ?new raws"
        using 2(2) [OF refl False refl out] 2(4) False p out by (simp add: Let_def lift_path_def)
      ultimately show ?thesis by simp
    next
      case inside: True
      then obtain rest where rest: "p = root @ [''evidence''] @ rest" by (auto simp: prefix_def)
      let ?found = "if evidence_ref rest \<in> set found then found else found @ [evidence_ref rest]"
      have same: "norm_names [] ?c = p" using 2(4) False p inside by (auto simp: Let_def lift_path_def split: if_splits)
      have "find_references h root base ?found raws = Inr refs"
        using 2(4) False p inside same rest by (simp add: Let_def lift_path_def evidence_ref_def split: if_splits)
      moreover have "evidence_ref rest = py_path_str (RelPath (drop (length root) p))" using rest by (simp add: evidence_ref_def)
      ultimately have "set refs = set ?found \<union> ?new raws"
        by (intro 2(3) [OF refl False refl, of p "evidence_ref rest"]) (use inside same in simp_all)
      moreover have "?new (raw # raws) = insert (evidence_ref rest) (?new raws)" using r rest by auto
      ultimately show ?thesis by auto
    qed
  qed
qed simp



text \<open>A value attached to a short flag, and one behind a name and an equals sign, are not looked at.\<close>

lemma attached_operand_missed:
  "command_evidence_references example_host ''grep -fevidence/a x'' ''/cases/C1'' [] = Inr []"
  by code_simp

lemma assigned_operand_missed:
  "command_evidence_references example_host ''tool if=evidence/a'' ''/cases/C1'' [] = Inr []"
  by code_simp

end
