(* ===== verification/Gateway_Tools.thy ===== *)
theory Gateway_Tools
  imports Host "HOL-Library.Char_ord"
begin

text \<open>
  What the gateway knows of a tool (\<open>sift_gateway/server.py\<close>, the helpers of \<open>sift_gateway/policy_middleware.py\<close>, the
  table of \<open>sift_core/agent_tools.py\<close>): whether it belongs to the core, reads only, works on a case, which arguments name
  the case, which must stay within it, and the contract of its add-on.

  The manifests and the properties of the live schemas are data: \<open>tool_surface\<close> maps a tool to its manifest entry and to the
  names of the properties of its schema.
\<close>

section \<open>Core tools\<close>

record core_tool =
  ct_name :: string
  ct_read_only :: bool

definition CORE_TOOL_SPECS :: "core_tool list" where
  "CORE_TOOL_SPECS = map (\<lambda>(n, r). \<lparr>ct_name = n, ct_read_only = r\<rparr>)
     [(''case_info'', True), (''evidence_info'', True), (''record_finding'', False), (''record_timeline_event'', False),
      (''list_existing_findings'', True), (''manage_todo'', False), (''get_tool_help'', True), (''run_command'', False)]"

definition core_tool_names :: "string list" where
  "core_tool_names = map ct_name CORE_TOOL_SPECS"

section \<open>The surface\<close>

record tool_manifest =
  mf_backend :: "string option"
  mf_case_scoped :: "bool option"
  mf_category :: string
  mf_phase :: string
  mf_safe_args :: "string list option"
  mf_bound_args :: "string list"
  mf_read_only :: "bool option"
  mf_required_scopes :: "string list"
  mf_non_authoritative :: bool
  mf_prohibited :: "string list"

record tool_surface =
  manifest :: "string \<Rightarrow> tool_manifest option"
  schema_props :: "string \<Rightarrow> string list"
  local_tools :: "string list"
  tool_map :: "string \<Rightarrow> string option"

definition surface_case_scoped :: "tool_surface \<Rightarrow> string \<Rightarrow> bool" where
  "surface_case_scoped t name =
     (if name \<in> set core_tool_names then name \<notin> {''get_tool_help'', ''capability_guide''}
      else if name \<in> set (local_tools t) then True
      else case (case manifest t name of Some m \<Rightarrow> mf_case_scoped m | None \<Rightarrow> None) of
        Some b \<Rightarrow> b
      | None \<Rightarrow>
          if list_ex (\<lambda>k. k \<in> set (schema_props t name)) [''case_id'', ''case_key'', ''case_dir''] then True
          else if list_ex (\<lambda>k. k \<in> set (schema_props t name)) [''path'', ''evidence_path'', ''artifact_path'', ''file_path''] then True
          else (let category = lower (case manifest t name of Some m \<Rightarrow> mf_category m | None \<Rightarrow> []);
                    phase = lower (case manifest t name of Some m \<Rightarrow> mf_phase m | None \<Rightarrow> [])
                in (category \<noteq> [] \<or> phase \<noteq> []) \<and> \<not> contains category ''reference''))"

definition is_case_scoped_tool :: "tool_surface \<Rightarrow> string \<Rightarrow> bool" where
  "is_case_scoped_tool t name =
     (if name \<in> set core_tool_names then name \<notin> {''get_tool_help'', ''capability_guide''} else surface_case_scoped t name)"

definition safe_case_argument_names :: "tool_surface \<Rightarrow> string \<Rightarrow> string list option" where
  "safe_case_argument_names t name =
     (case (case manifest t name of Some m \<Rightarrow> mf_safe_args m | None \<Rightarrow> None) of
        Some names \<Rightarrow> Some names
      | None \<Rightarrow>
          (let found = filter (\<lambda>n. n \<in> set (schema_props t name)) [''case_id'', ''case_key'', ''case_dir'']
           in if found \<noteq> [] then Some found else None))"

definition case_bound_argument_names :: "tool_surface \<Rightarrow> string \<Rightarrow> string list" where
  "case_bound_argument_names t name = (case manifest t name of Some m \<Rightarrow> mf_bound_args m | None \<Rightarrow> [])"

text \<open>The prefix of the indices of a case, from the last component of its directory.\<close>

definition index_char :: "char \<Rightarrow> bool" where
  "index_char c \<longleftrightarrow> CHR ''a'' \<le> c \<and> c \<le> CHR ''z'' \<or> CHR ''0'' \<le> c \<and> c \<le> CHR ''9'' \<or> c \<in> set ''._-''"

definition active_case_index_prefix :: "string \<Rightarrow> string" where
  "active_case_index_prefix dir =
     (let base = lower (path_name (path_names dir));
          key = map (\<lambda>c. if index_char c then c else CHR ''-'') base
      in ''case-'' @ (if startswith key ''case-'' then drop 5 key else key) @ ''-'')"

record addon_profile =
  ap_backend :: "string option"
  ap_required_scopes :: "string list"
  ap_non_authoritative :: bool
  ap_prohibited :: "string list"

definition addon_authority_for_tool :: "tool_surface \<Rightarrow> string \<Rightarrow> addon_profile option" where
  "addon_authority_for_tool t name =
     map_option (\<lambda>m. \<lparr>ap_backend = mf_backend m, ap_required_scopes = mf_required_scopes m,
        ap_non_authoritative = mf_non_authoritative m, ap_prohibited = mf_prohibited m\<rparr>) (manifest t name)"

section \<open>Reading and writing\<close>

definition READ_ONLY_NONCORE_TOOLS :: "string list" where
  "READ_ONLY_NONCORE_TOOLS = [''capability_guide'', ''get_tool_help'', ''running_commands_status'']"

definition tool_read_only :: "tool_surface \<Rightarrow> string \<Rightarrow> bool" where
  "tool_read_only t name =
     (case find (\<lambda>s. ct_name s = name) CORE_TOOL_SPECS of
        Some s \<Rightarrow> ct_read_only s
      | None \<Rightarrow>
          if name \<in> set READ_ONLY_NONCORE_TOOLS then True
          else case (case manifest t name of Some m \<Rightarrow> mf_read_only m | None \<Rightarrow> None) of Some b \<Rightarrow> b | None \<Rightarrow> False)"

definition CORE_DURABLE_LANE_TOOLS :: "string list" where
  "CORE_DURABLE_LANE_TOOLS = [''run_command_job'', ''running_commands_status'']"

definition backend_name :: "tool_surface \<Rightarrow> string \<Rightarrow> string" where
  "backend_name t name =
     (if name \<in> set core_tool_names \<or> name = ''capability_guide'' \<or> name \<in> set CORE_DURABLE_LANE_TOOLS then ''sift-core''
      else case tool_map t name of Some b \<Rightarrow> b | None \<Rightarrow> ''unknown'')"

section \<open>Prefixes\<close>

text \<open>The prefix of one case can begin the indices of another: \<open>foo\<close> and \<open>foo-bar\<close>.\<close>

lemma prefix_of_other_case:
  "active_case_index_prefix ''/cases/foo'' = ''case-foo-'' \<and> active_case_index_prefix ''/cases/foo-bar'' = ''case-foo-bar-'' \<and>
   startswith (active_case_index_prefix ''/cases/foo-bar'' @ ''evtx'') (active_case_index_prefix ''/cases/foo'')"
  by code_simp

text \<open>Nothing is taken for a reader that is not known as one.\<close>

lemma unknown_tool_writes:
  "name \<notin> set core_tool_names \<Longrightarrow> name \<notin> set READ_ONLY_NONCORE_TOOLS \<Longrightarrow> manifest t name = None \<Longrightarrow> \<not> tool_read_only t name"
proof -
  assume "name \<notin> set core_tool_names"
  then have "find (\<lambda>s. ct_name s = name) CORE_TOOL_SPECS = None" by (auto simp: find_None_iff core_tool_names_def)
  then show "name \<notin> set READ_ONLY_NONCORE_TOOLS \<Longrightarrow> manifest t name = None \<Longrightarrow> ?thesis" by (simp add: tool_read_only_def)
qed

end
