(* ===== verification/Rate_Limit.thy ===== *)
theory Rate_Limit
  imports Sift_Prelude "HOL-Library.AList"
begin

text \<open>
  The sliding-window rate limiter of \<open>sift_gateway/rate_limit.py\<close> with its two module-level
  instances.  The store is the dictionary in insertion order, a deque is the list of its
  time stamps, oldest first, and the monotonic clock is an argument in integer ticks.

  The abstract specification is a counter over the whole history: a request is allowed
  if fewer than \<open>limit\<close> requests of the same key were allowed in the window before it.
  Shown here: the limiter returns what the counter returns, for every sequence of
  requests with a clock that does not go back, so the clean-up and the trimming of
  deques lose nothing; no window holds more allowed requests than the limit; memory per
  key is bounded.
\<close>

section \<open>The limiter\<close>

record limiter =
  limit :: nat
  window :: int
  store :: "(string \<times> int list) list"
  last_cleanup :: int

definition DEFAULT_LIMIT :: nat where "DEFAULT_LIMIT = 60"
definition DEFAULT_WINDOW_SECONDS :: int where "DEFAULT_WINDOW_SECONDS = 60"
definition DEFAULT_EXAMINER_LIMIT :: nat where "DEFAULT_EXAMINER_LIMIT = 120"
definition CLEANUP_INTERVAL :: int where "CLEANUP_INTERVAL = 120"
definition MAX_STORE_SIZE :: nat where "MAX_STORE_SIZE = 100000"

definition new_limiter :: "nat \<Rightarrow> int \<Rightarrow> int \<Rightarrow> limiter" where
  "new_limiter lim win now = \<lparr>limit = lim, window = win, store = [], last_cleanup = now\<rparr>"

text \<open>\<open>deque.append\<close> with a maximal length drops from the other end.\<close>

definition deque_append :: "nat \<Rightarrow> int list \<Rightarrow> int \<Rightarrow> int list" where
  "deque_append maxlen ts now = (let ts' = ts @ [now] in drop (length ts' - maxlen) ts')"

definition cleanup :: "int \<Rightarrow> limiter \<Rightarrow> limiter" where
  "cleanup now l =
     (let cutoff = now - window l in
      l\<lparr>store := filter (\<lambda>(ip, ts). \<not> (ts = [] \<or> last ts < cutoff)) (store l)\<rparr>)"

definition is_allowed :: "int \<times> string \<Rightarrow> limiter \<Rightarrow> limiter \<times> bool" where
  "is_allowed = (\<lambda>(now, ip) l0.
     let l = (if now - last_cleanup l0 > CLEANUP_INTERVAL \<or> length (store l0) > MAX_STORE_SIZE
              then (cleanup now l0)\<lparr>last_cleanup := now\<rparr> else l0)
     in case map_of (store l) ip of
          None \<Rightarrow> (l\<lparr>store := AList.update ip (deque_append (limit l + 1) [] now) (store l)\<rparr>, True)
        | Some timestamps \<Rightarrow>
            (let cutoff = now - window l;
                 trimmed = dropWhile (\<lambda>t. t < cutoff) timestamps
             in if length trimmed \<ge> limit l
                then (l\<lparr>store := AList.update ip trimmed (store l)\<rparr>, False)
                else (l\<lparr>store := AList.update ip (deque_append (limit l + 1) trimmed now) (store l)\<rparr>, True)))"

section \<open>The module's instances\<close>

record rate_module =
  ip_limiter :: "limiter option"
  examiner_limiter :: "limiter option"

definition get_rate_limiter :: "int \<Rightarrow> rate_module \<Rightarrow> rate_module \<times> limiter" where
  "get_rate_limiter now m =
     (case ip_limiter m of
        Some l \<Rightarrow> (m, l)
      | None \<Rightarrow> (let l = new_limiter DEFAULT_LIMIT DEFAULT_WINDOW_SECONDS now
                 in (m\<lparr>ip_limiter := Some l\<rparr>, l)))"

definition reset_rate_limiter :: "rate_module \<Rightarrow> rate_module" where
  "reset_rate_limiter m = m\<lparr>ip_limiter := None\<rparr>"

definition check_rate_limit :: "int \<Rightarrow> string \<Rightarrow> rate_module \<Rightarrow> rate_module \<times> bool" where
  "check_rate_limit now ip m =
     (if ip \<in> set [''127.0.0.1'', ''::1'', ''localhost''] then (m, True)
      else let (m', l) = get_rate_limiter now m; (l', ok) = is_allowed (now, ip) l
           in (m'\<lparr>ip_limiter := Some l'\<rparr>, ok))"

definition get_examiner_rate_limiter :: "int \<Rightarrow> rate_module \<Rightarrow> rate_module \<times> limiter" where
  "get_examiner_rate_limiter now m =
     (case examiner_limiter m of
        Some l \<Rightarrow> (m, l)
      | None \<Rightarrow> (let l = new_limiter DEFAULT_EXAMINER_LIMIT DEFAULT_WINDOW_SECONDS now
                 in (m\<lparr>examiner_limiter := Some l\<rparr>, l)))"

definition reset_examiner_rate_limiter :: "rate_module \<Rightarrow> rate_module" where
  "reset_examiner_rate_limiter m = m\<lparr>examiner_limiter := None\<rparr>"

definition check_examiner_rate_limit :: "int \<Rightarrow> string \<Rightarrow> rate_module \<Rightarrow> rate_module \<times> bool" where
  "check_examiner_rate_limit now examiner m =
     (let (m', l) = get_examiner_rate_limiter now m; (l', ok) = is_allowed (now, examiner) l
      in (m'\<lparr>examiner_limiter := Some l'\<rparr>, ok))"

section \<open>Memory\<close>

definition limiter_inv :: "limiter \<Rightarrow> bool" where
  "limiter_inv l \<longleftrightarrow> distinct (map fst (store l)) \<and>
     (\<forall>(ip, ts) \<in> set (store l). length ts \<le> max 1 (limit l))"

lemma set_alist_update:
  "set (AList.update k v xs) \<subseteq> insert (k, v) (set xs)"
  by (induction xs) auto

lemma length_deque_append: "length (deque_append n ts t) \<le> n"
  by (simp add: deque_append_def Let_def)

lemma deque_append_fits: "length ts < n \<Longrightarrow> deque_append n ts t = ts @ [t]"
  by (simp add: deque_append_def Let_def)

lemma cleanup_inv: "limiter_inv l \<Longrightarrow> limiter_inv ((cleanup now l)\<lparr>last_cleanup := t\<rparr>)"
  by (auto simp: limiter_inv_def cleanup_def Let_def distinct_map intro: inj_on_subset)

lemma update_inv:
  assumes "limiter_inv l" "length ts \<le> max 1 (limit l)"
  shows "limiter_inv (l\<lparr>store := AList.update ip ts (store l)\<rparr>)"
proof -
  have "set (AList.update ip ts (store l)) \<subseteq> insert (ip, ts) (set (store l))" by (rule set_alist_update)
  with assms show ?thesis
    unfolding limiter_inv_def by (auto intro: distinct_update)
qed

lemma is_allowed_inv: "limiter_inv l \<Longrightarrow> limiter_inv (fst (is_allowed op l))"
proof -
  assume inv: "limiter_inv l"
  obtain now ip where op: "op = (now, ip)" by (cases op)
  define l1 where "l1 = (if now - last_cleanup l > CLEANUP_INTERVAL \<or> length (store l) > MAX_STORE_SIZE
      then (cleanup now l)\<lparr>last_cleanup := now\<rparr> else l)"
  have l1: "limiter_inv l1" using inv cleanup_inv by (simp add: l1_def)
  show ?thesis
  proof (cases "map_of (store l1) ip")
    case None
    then show ?thesis
      using update_inv [OF l1] by (simp add: op is_allowed_def Let_def l1_def [symmetric] deque_append_def)
  next
    case (Some ts)
    then have "length ts \<le> max 1 (limit l1)"
      using l1 map_of_SomeD unfolding limiter_inv_def by fastforce
    then have "length (dropWhile (\<lambda>t. t < now - window l1) ts) \<le> max 1 (limit l1)"
      using length_dropWhile_le order_trans by blast
    then show ?thesis
      using Some update_inv [OF l1]
      by (simp add: op is_allowed_def Let_def l1_def [symmetric] deque_append_fits)
  qed
qed

interpretation memory: guarded_object is_allowed "\<lambda>_ _. True" limiter_inv
  by unfold_locales (rule is_allowed_inv)

text \<open>The memory of the limiter is bounded per key: after any sequence of requests no key
  is stored twice and every deque holds at most the limit, or one entry when the limit
  is zero.\<close>

theorem limiter_memory_bounded:
  "limiter_inv (run_state is_allowed ops (new_limiter lim win now))"
proof (rule memory.run_inv)
  show "limiter_inv (new_limiter lim win now)" by (simp add: limiter_inv_def new_limiter_def)
qed (rule always_enabled)

section \<open>The specification\<close>

text \<open>The state of the counter: the time of the last request, and per key the times of all
  allowed requests.\<close>

record counter =
  clock :: int
  history :: "string \<Rightarrow> int list"

definition in_window :: "int \<Rightarrow> int \<Rightarrow> int list \<Rightarrow> int list" where
  "in_window win now ts = filter (\<lambda>t. now - win \<le> t) ts"

definition count_step :: "nat \<Rightarrow> int \<Rightarrow> int \<times> string \<Rightarrow> counter \<Rightarrow> counter \<times> bool" where
  "count_step lim win = (\<lambda>(now, ip) a.
     if length (in_window win now (history a ip)) < lim
     then (a\<lparr>clock := now, history := (history a)(ip := history a ip @ [now])\<rparr>, True)
     else (a\<lparr>clock := now\<rparr>, False))"

definition new_counter :: "int \<Rightarrow> counter" where
  "new_counter now = \<lparr>clock = now, history = (\<lambda>_. [])\<rparr>"

definition forward :: "counter \<Rightarrow> int \<times> string \<Rightarrow> bool" where
  "forward a = (\<lambda>(now, ip). clock a \<le> now)"

definition stamps :: "limiter \<Rightarrow> string \<Rightarrow> int list" where
  "stamps l ip = (case map_of (store l) ip of None \<Rightarrow> [] | Some ts \<Rightarrow> ts)"

text \<open>The deques hold the part of the history that a later window can still see.\<close>

definition limiter_rel :: "nat \<Rightarrow> int \<Rightarrow> limiter \<Rightarrow> counter \<Rightarrow> bool" where
  "limiter_rel lim win l a \<longleftrightarrow> limit l = lim \<and> window l = win \<and> distinct (map fst (store l)) \<and>
     (\<forall>ip. sorted (stamps l ip) \<and> (\<forall>t \<in> set (stamps l ip). t \<le> clock a) \<and>
       (\<forall>now \<ge> clock a. in_window win now (stamps l ip) = in_window win now (history a ip)))"

lemma in_window_mono:
  "now \<le> now' \<Longrightarrow> in_window win now' (in_window win now ts) = in_window win now' ts"
  unfolding in_window_def filter_filter by (rule filter_cong) auto

lemma dropWhile_sorted: "sorted ts \<Longrightarrow> dropWhile (\<lambda>t. t < c) ts = filter (\<lambda>t. c \<le> t) ts" for c :: int
proof (induction ts)
  case (Cons t ts)
  have "filter (\<lambda>t. c \<le> t) ts = ts" if "c \<le> t" using that Cons.prems by (auto simp: filter_id_conv)
  with Cons show ?case by auto
qed simp

lemma stamps_update [simp]:
  "stamps (l\<lparr>store := AList.update ip ts (store l)\<rparr>) = (stamps l)(ip := ts)"
  by (auto simp: stamps_def update_conv')

lemma stamps_last_cleanup [simp]: "stamps (l\<lparr>last_cleanup := t\<rparr>) = stamps l"
  by (simp add: stamps_def fun_eq_iff)

lemma map_of_filter_distinct:
  "distinct (map fst xs) \<Longrightarrow>
   map_of (filter (\<lambda>(k, v). P v) xs) k = (case map_of xs k of None \<Rightarrow> None | Some v \<Rightarrow> if P v then Some v else None)"
  by (induction xs) (auto simp: map_of_eq_None_iff image_iff split: option.splits)

lemma stamps_cleanup:
  assumes "distinct (map fst (store l))"
  shows "stamps (cleanup now l) ip =
    (if stamps l ip \<noteq> [] \<and> last (stamps l ip) < now - window l then [] else stamps l ip)"
  using assms map_of_filter_distinct [of "store l" "\<lambda>ts. \<not> (ts = [] \<or> last ts < now - window l)" ip]
  by (auto simp: stamps_def cleanup_def Let_def split: option.splits)

lemma stale_in_window:
  "sorted ts \<Longrightarrow> ts \<noteq> [] \<Longrightarrow> last ts < now - win \<Longrightarrow> now \<le> now' \<Longrightarrow> in_window win now' ts = []"
proof -
  assume "sorted ts" "ts \<noteq> []" and l: "last ts < now - win" "now \<le> now'"
  then have "t \<le> last ts" if "t \<in> set ts" for t
    using that by (metis in_set_conv_nth last_conv_nth length_greater_0_conv less_Suc_eq_le
        Suc_pred' diff_less less_one sorted_iff_nth_mono)
  with l show ?thesis by (force simp: in_window_def filter_empty_conv)
qed

lemma cleanup_rel:
  assumes "limiter_rel lim win l a" "clock a \<le> now"
  shows "limiter_rel lim win ((cleanup now l)\<lparr>last_cleanup := t\<rparr>) (a\<lparr>clock := now\<rparr>)"
proof -
  from assms(1) have l: "limit l = lim" "window l = win" "distinct (map fst (store l))"
    and s: "\<And>ip. sorted (stamps l ip)" "\<And>ip t. t \<in> set (stamps l ip) \<Longrightarrow> t \<le> clock a"
    and w: "\<And>ip now. clock a \<le> now \<Longrightarrow> in_window win now (stamps l ip) = in_window win now (history a ip)"
    by (auto simp: limiter_rel_def)
  have "in_window win now' (stamps (cleanup now l) ip) = in_window win now' (history a ip)"
    if "now \<le> now'" for now' ip
    using that w [of now' ip] assms(2) stale_in_window [OF s(1), of ip now win now']
    by (auto simp: stamps_cleanup [OF l(3)] l(2) in_window_def)
  moreover have "t \<le> now" if "t \<in> set (stamps (cleanup now l) ip)" for t ip
    using that s(2) assms(2) by (force simp: stamps_cleanup [OF l(3)] split: if_splits)
  moreover have "distinct (map fst (store (cleanup now l)))"
    using l(3) by (auto simp: cleanup_def Let_def distinct_map intro: inj_on_subset)
  moreover have "limit (cleanup now l) = lim" "window (cleanup now l) = win"
    using l by (simp_all add: cleanup_def Let_def)
  ultimately show ?thesis
    using s(1) by (auto simp: limiter_rel_def stamps_cleanup [OF l(3)])
qed

lemma later_rel:
  "limiter_rel lim win l a \<Longrightarrow> clock a \<le> now \<Longrightarrow> limiter_rel lim win l (a\<lparr>clock := now\<rparr>)"
  unfolding limiter_rel_def by (simp, meson order_trans)

lemma trimmed_is_window:
  assumes "limiter_rel lim win l a" "clock a \<le> now"
  shows "dropWhile (\<lambda>t. t < now - win) (stamps l ip) = in_window win now (history a ip)"
  using assms by (simp add: limiter_rel_def dropWhile_sorted) (simp add: in_window_def)

definition after_cleanup :: "int \<Rightarrow> limiter \<Rightarrow> limiter" where
  "after_cleanup now l =
     (if now - last_cleanup l > CLEANUP_INTERVAL \<or> length (store l) > MAX_STORE_SIZE
      then (cleanup now l)\<lparr>last_cleanup := now\<rparr> else l)"

lemma is_allowed_window:
  assumes "limiter_rel lim win l a" "clock a \<le> now" "0 < lim"
  shows "is_allowed (now, ip) l =
    (let l1 = after_cleanup now l; recent = in_window win now (history a ip)
     in if length recent < lim then (l1\<lparr>store := AList.update ip (recent @ [now]) (store l1)\<rparr>, True)
        else (l1\<lparr>store := AList.update ip recent (store l1)\<rparr>, False))"
    and "limiter_rel lim win (after_cleanup now l) (a\<lparr>clock := now\<rparr>)"
proof -
  show rel: "limiter_rel lim win (after_cleanup now l) (a\<lparr>clock := now\<rparr>)"
    using cleanup_rel [OF assms(1,2)] later_rel [OF assms(1,2)] by (simp add: after_cleanup_def)
  let ?l = "after_cleanup now l"
  have lw: "limit ?l = lim" "window ?l = win" using rel by (simp_all add: limiter_rel_def)
  have trim: "dropWhile (\<lambda>t. t < now - win) (stamps ?l ip) = in_window win now (history a ip)"
    using trimmed_is_window [OF rel, of now ip] by simp
  have eq: "is_allowed (now, ip) l = (case map_of (store ?l) ip of
       None \<Rightarrow> (?l\<lparr>store := AList.update ip (deque_append (lim + 1) [] now) (store ?l)\<rparr>, True)
     | Some ts \<Rightarrow> (let trimmed = dropWhile (\<lambda>t. t < now - win) ts in
          if length trimmed \<ge> lim then (?l\<lparr>store := AList.update ip trimmed (store ?l)\<rparr>, False)
          else (?l\<lparr>store := AList.update ip (deque_append (lim + 1) trimmed now) (store ?l)\<rparr>, True)))"
    by (simp add: is_allowed_def Let_def after_cleanup_def [symmetric] lw split: option.split)
  show "is_allowed (now, ip) l =
    (let l1 = ?l; recent = in_window win now (history a ip)
     in if length recent < lim then (l1\<lparr>store := AList.update ip (recent @ [now]) (store l1)\<rparr>, True)
        else (l1\<lparr>store := AList.update ip recent (store l1)\<rparr>, False))"
  proof (cases "map_of (store ?l) ip")
    case None
    with trim have "in_window win now (history a ip) = []" by (simp add: stamps_def)
    with None assms(3) show ?thesis unfolding eq by (simp add: Let_def deque_append_fits)
  next
    case (Some ts)
    with trim have "dropWhile (\<lambda>t. t < now - win) ts = in_window win now (history a ip)"
      by (simp add: stamps_def)
    with Some show ?thesis unfolding eq by (auto simp: Let_def deque_append_fits)
  qed
qed

lemma record_rel:
  assumes "limiter_rel lim win l a" "clock a = now"
  shows "limiter_rel lim win
      (l\<lparr>store := AList.update ip (in_window win now (history a ip)) (store l)\<rparr>) a"
    and "limiter_rel lim win
      (l\<lparr>store := AList.update ip (in_window win now (history a ip) @ [now]) (store l)\<rparr>)
      (a\<lparr>history := (history a)(ip := history a ip @ [now])\<rparr>)"
proof -
  have w: "in_window win now (stamps l ip) = in_window win now (history a ip)"
    using assms by (simp add: limiter_rel_def)
  have "sorted (stamps l ip)" "\<forall>t \<in> set (stamps l ip). t \<le> now"
    using assms by (auto simp: limiter_rel_def)
  then have s: "sorted (in_window win now (history a ip))"
    "\<forall>t \<in> set (in_window win now (history a ip)). t \<le> now"
    unfolding w [symmetric] by (auto simp: in_window_def sorted_wrt_filter)
  have app: "in_window win t (xs @ ys) = in_window win t xs @ in_window win t ys" for t xs ys
    by (simp add: in_window_def)
  show "limiter_rel lim win (l\<lparr>store := AList.update ip (in_window win now (history a ip)) (store l)\<rparr>) a"
    using assms s by (auto simp: limiter_rel_def in_window_mono distinct_update)
  show "limiter_rel lim win
      (l\<lparr>store := AList.update ip (in_window win now (history a ip) @ [now]) (store l)\<rparr>)
      (a\<lparr>history := (history a)(ip := history a ip @ [now])\<rparr>)"
    using assms s by (auto simp: limiter_rel_def in_window_mono app sorted_append distinct_update)
qed

lemma step_rel:
  assumes "limiter_rel lim win l a" "forward a op" "0 < lim"
  shows "snd (is_allowed op l) = snd (count_step lim win op a)"
    and "limiter_rel lim win (fst (is_allowed op l)) (fst (count_step lim win op a))"
proof -
  obtain now ip where op: "op = (now, ip)" by (cases op)
  with assms(2) have t: "clock a \<le> now" by (simp add: forward_def)
  note r = is_allowed_window [OF assms(1) t assms(3)]
  show "snd (is_allowed op l) = snd (count_step lim win op a)"
    by (simp add: op r(1) count_step_def Let_def)
  show "limiter_rel lim win (fst (is_allowed op l)) (fst (count_step lim win op a))"
    using record_rel [OF r(2)] by (simp add: op r(1) count_step_def Let_def)
qed

text \<open>The limiter with a positive limit implements the counter.\<close>

interpretation quota: simulation is_allowed "count_step (Suc lim) win" forward "limiter_rel (Suc lim) win"
  for lim :: nat and win :: int
  by unfold_locales (use step_rel in auto)

lemma new_rel: "limiter_rel lim win (new_limiter lim win now) (new_counter now)"
  by (simp add: limiter_rel_def new_limiter_def new_counter_def stamps_def in_window_def)

lemma all_forward:
  "sorted (clock a # map fst ops) \<Longrightarrow> all_enabled (count_step lim win) forward ops a"
proof (induction ops arbitrary: a)
  case (Cons op ops)
  have "clock (fst (count_step lim win op a)) = fst op"
    by (cases op) (simp add: count_step_def)
  with Cons show ?case by (cases op) (auto simp: forward_def)
qed simp

lemma answers_agree:
  assumes "sorted (now # map fst ops)" and "0 < lim"
  shows "run_outputs is_allowed ops (new_limiter lim win now) =
    run_outputs (count_step lim win) ops (new_counter now)"
proof -
  obtain n where n: "lim = Suc n" using assms(2) by (cases lim) auto
  have "all_enabled (count_step (Suc n) win) forward ops (new_counter now)"
    using assms(1) by (intro all_forward) (simp add: new_counter_def)
  with n show ?thesis using quota.outputs_agree [OF new_rel] by simp
qed

text \<open>C23. The limiter is a sliding-window counter: for every sequence of requests whose times
  do not decrease and a positive limit, its answers are those of the counter that keeps
  the whole history, so neither the periodic clean-up nor the trimming of deques ever
  grants or refuses a request wrongly.\<close>

theorem limiter_refines_counter:
  assumes "sorted (now # map fst ops)" and "0 < lim"
  shows "run_outputs is_allowed ops (new_limiter lim win now) =
    run_outputs (count_step lim win) ops (new_counter now)"
  using assms by (rule answers_agree)

theorem limiter_refines_counter_witness:
  "run_outputs is_allowed [(1, ''a''), (2, ''a''), (3, ''a''), (12, ''a'')] (new_limiter 2 10 0) =
     [True, True, False, True]"
proof -
  have "run_outputs (count_step 2 10) [(1, ''a''), (2, ''a''), (3, ''a''), (12, ''a'')] (new_counter 0) =
     [True, True, False, True]" by code_simp
  with limiter_refines_counter [of 0 "[(1, ''a''), (2, ''a''), (3, ''a''), (12, ''a'')]" 2 10]
  show ?thesis by simp
qed

section \<open>The quota\<close>

text \<open>The times of the requests of a key that were allowed.\<close>

definition allowed_times :: "(int \<times> string) list \<Rightarrow> bool list \<Rightarrow> string \<Rightarrow> int list" where
  "allowed_times ops answers ip =
     map (fst \<circ> fst) (filter (\<lambda>((t, k), ok). ok \<and> k = ip) (zip ops answers))"

lemma history_step:
  "history (fst (count_step lim win (t, k) a)) ip =
     history a ip @ (if snd (count_step lim win (t, k) a) \<and> k = ip then [t] else [])"
  by (auto simp: count_step_def)

lemma history_is_allowed_times:
  "history (run_state (count_step lim win) ops a) ip =
     history a ip @ allowed_times ops (run_outputs (count_step lim win) ops a) ip"
proof (induction ops arbitrary: a)
  case (Cons op ops)
  then show ?case by (cases op) (auto simp: allowed_times_def history_step)
qed (simp add: allowed_times_def)

text \<open>Every window that ends at an allowed request is within the limit, so every window is.\<close>

definition quota_kept :: "nat \<Rightarrow> int \<Rightarrow> counter \<Rightarrow> bool" where
  "quota_kept lim win a \<longleftrightarrow>
     (\<forall>ip. sorted (history a ip) \<and> (\<forall>t \<in> set (history a ip). t \<le> clock a) \<and>
       (\<forall>u. length (filter (\<lambda>t. u - win \<le> t \<and> t \<le> u) (history a ip)) \<le> lim))"

lemma length_filter_mono: "(\<And>x. P x \<Longrightarrow> Q x) \<Longrightarrow> length (filter P xs) \<le> length (filter Q xs)"
  by (induction xs) auto

lemma window_after_allow:
  assumes "\<forall>t \<in> set ts. t \<le> now" and "length (in_window win now ts) < lim"
    and "length (filter (\<lambda>t. u - win \<le> t \<and> t \<le> u) ts) \<le> lim"
  shows "length (filter (\<lambda>t. u - win \<le> t \<and> t \<le> u) (ts @ [now])) \<le> lim"
proof (cases "now \<le> u")
  case True
  have "length (filter (\<lambda>t. u - win \<le> t \<and> t \<le> u) ts) \<le> length (in_window win now ts)"
    unfolding in_window_def using True by (intro length_filter_mono) auto
  with assms(2) show ?thesis by simp
next
  case False
  with assms(3) show ?thesis by simp
qed

lemma quota_step_kept:
  assumes "quota_kept lim win a" "forward a op"
  shows "quota_kept lim win (fst (count_step lim win op a))"
proof -
  obtain now ip where op: "op = (now, ip)" by (cases op)
  have t: "\<forall>t \<in> set (history a ip). t \<le> now" "clock a \<le> now"
    using assms op by (force simp: quota_kept_def forward_def)+
  show ?thesis
    using assms t window_after_allow [OF t(1)]
    by (auto simp: op count_step_def quota_kept_def sorted_append dest: order_trans)
qed

interpretation counting: guarded_object "count_step lim win" forward "quota_kept lim win"
  for lim :: nat and win :: int
  by unfold_locales (rule quota_step_kept)

text \<open>The quota holds in every window: for every sequence of requests whose times do not
  decrease and a positive limit, no interval as long as the window holds more allowed
  requests of one key than the limit.\<close>

theorem limiter_quota:
  assumes "sorted (now # map fst ops)" and "0 < lim"
  shows "length (filter (\<lambda>t. u - win \<le> t \<and> t \<le> u)
    (allowed_times ops (run_outputs is_allowed ops (new_limiter lim win now)) ip)) \<le> lim"
proof -
  have en: "all_enabled (count_step lim win) forward ops (new_counter now)"
    using assms(1) by (intro all_forward) (simp add: new_counter_def)
  have "quota_kept lim win (run_state (count_step lim win) ops (new_counter now))"
    by (rule counting.run_inv [OF _ en]) (simp add: quota_kept_def new_counter_def)
  moreover have "run_outputs is_allowed ops (new_limiter lim win now) =
      run_outputs (count_step lim win) ops (new_counter now)"
    using answers_agree [OF assms] .
  ultimately show ?thesis
    by (simp add: quota_kept_def history_is_allowed_times) (simp add: new_counter_def)
qed

theorem limiter_quota_witness:
  "length (filter (\<lambda>t. 12 - 10 \<le> t \<and> t \<le> 12)
    (allowed_times [(1, ''a''), (2, ''a''), (3, ''a''), (12, ''a'')]
      (run_outputs is_allowed [(1, ''a''), (2, ''a''), (3, ''a''), (12, ''a'')] (new_limiter 2 10 0)) ''a'')) \<le> 2"
  using limiter_quota [of 0 "[(1, ''a''), (2, ''a''), (3, ''a''), (12, ''a'')]" 2 12 10 "''a''"] by simp

text \<open>With a limit of zero the first request of a key is allowed all the same.\<close>

lemma zero_limit_allows_first: "run_outputs is_allowed [(t, ip)] (new_limiter 0 win now) = [True]"
  by (simp add: is_allowed_def new_limiter_def Let_def cleanup_def)

section \<open>The two instances\<close>

lemma check_rate_limit_frame:
  "examiner_limiter (fst (check_rate_limit now ip m)) = examiner_limiter m"
  "ip_limiter (fst (check_examiner_rate_limit now ex m)) = ip_limiter m"
  by (auto simp: check_rate_limit_def get_rate_limiter_def check_examiner_rate_limit_def
      get_examiner_rate_limiter_def Let_def split: prod.splits option.splits)

text \<open>The limiter before authentication and the one after it do not interfere: a check of
  one leaves the other unchanged, local addresses are never counted, and any other
  address and every examiner is answered by its own sliding window.\<close>

theorem rate_checks_are_independent:
  "examiner_limiter (fst (check_rate_limit now ip m)) = examiner_limiter m \<and>
   ip_limiter (fst (check_examiner_rate_limit now ex m)) = ip_limiter m \<and>
   (if ip \<in> set [''127.0.0.1'', ''::1'', ''localhost''] then check_rate_limit now ip m = (m, True)
    else snd (check_rate_limit now ip m) = snd (is_allowed (now, ip) (snd (get_rate_limiter now m)))) \<and>
   snd (check_examiner_rate_limit now ex m) = snd (is_allowed (now, ex) (snd (get_examiner_rate_limiter now m)))"
  by (intro conjI check_rate_limit_frame)
    (auto simp: check_rate_limit_def check_examiner_rate_limit_def Let_def split: prod.splits)

end
