(* ===== verification/Response_Override.thy ===== *)
theory Response_Override
  imports Complex_Main Sift_Prelude "HOL-Library.AList"
begin

text \<open>
  The switch by which an examiner suspends redaction for a case (\<open>_override_state\<close> of
  \<open>sift_gateway/response_guard.py\<close>): a table of deadlines from which expired entries are taken when they are
  looked at.  Every call carries the reading of the monotonic clock it makes.

  Shown here: the table implements the map from cases to their last override that has not been cancelled,
  an override being active before its deadline only, as long as the clock does not go
  back.
\<close>

section \<open>The override of a case\<close>

record override =
  expires_at :: real
  enabled_by :: string
  ov_ttl :: real

type_synonym override_table = "(string \<times> override) list"

record override_status =
  active :: bool
  seconds_remaining :: int
  by_whom :: "string option"

definition no_override :: override_status where
  "no_override = \<lparr>active = False, seconds_remaining = 0, by_whom = None\<rparr>"

definition get_override_status :: "string \<Rightarrow> real \<Rightarrow> override_table \<Rightarrow> override_table \<times> override_status" where
  "get_override_status key now st =
     (case map_of st key of
        None \<Rightarrow> (st, no_override)
      | Some o' \<Rightarrow>
          (let remaining = expires_at o' - now in
           if remaining \<le> 0 then (AList.delete key st, no_override)
           else (st, \<lparr>active = True, seconds_remaining = \<lfloor>remaining\<rfloor>, by_whom = Some (enabled_by o')\<rparr>)))"

definition enable_override :: "string \<Rightarrow> string \<Rightarrow> real \<Rightarrow> real \<Rightarrow> override_table \<Rightarrow> override_table \<times> override_status" where
  "enable_override key examiner ttl now st =
     get_override_status key now (AList.update key \<lparr>expires_at = now + ttl, enabled_by = examiner, ov_ttl = ttl\<rparr> st)"

definition cancel_override :: "string \<Rightarrow> override_table \<Rightarrow> override_table" where
  "cancel_override key st = AList.delete key st"

definition is_override_active :: "string \<Rightarrow> real \<Rightarrow> override_table \<Rightarrow> override_table \<times> bool" where
  "is_override_active key now st =
     (case map_of st key of
        None \<Rightarrow> (st, False)
      | Some o' \<Rightarrow> if expires_at o' \<le> now then (AList.delete key st, False) else (st, True))"

section \<open>Calls\<close>

datatype override_call =
    Enable string string real real
  | Cancel string real
  | Active string real
  | Status string real

datatype override_answer = Told override_status | YesNo bool | Done

fun override_step :: "override_call \<Rightarrow> override_table \<Rightarrow> override_table \<times> override_answer" where
  "override_step (Enable key examiner ttl now) st = (let (st', s) = enable_override key examiner ttl now st in (st', Told s))"
| "override_step (Cancel key now) st = (cancel_override key st, Done)"
| "override_step (Active key now) st = (let (st', b) = is_override_active key now st in (st', YesNo b))"
| "override_step (Status key now) st = (let (st', s) = get_override_status key now st in (st', Told s))"

fun call_time :: "override_call \<Rightarrow> real" where
  "call_time (Enable key examiner ttl now) = now"
| "call_time (Cancel key now) = now"
| "call_time (Active key now) = now"
| "call_time (Status key now) = now"

text \<open>The specification: the last override of each case and the time of the last call.\<close>

type_synonym override_spec = "(string \<Rightarrow> override option) \<times> real"

definition status_at :: "override option \<Rightarrow> real \<Rightarrow> override_status" where
  "status_at e now =
     (case e of
        None \<Rightarrow> no_override
      | Some o' \<Rightarrow>
          if now < expires_at o'
          then \<lparr>active = True, seconds_remaining = \<lfloor>expires_at o' - now\<rfloor>, by_whom = Some (enabled_by o')\<rparr>
          else no_override)"

fun override_spec_step :: "override_call \<Rightarrow> override_spec \<Rightarrow> override_spec \<times> override_answer" where
  "override_spec_step (Enable key examiner ttl now) (m, clock) =
     (let m' = m(key \<mapsto> \<lparr>expires_at = now + ttl, enabled_by = examiner, ov_ttl = ttl\<rparr>)
      in ((m', now), Told (status_at (m' key) now)))"
| "override_spec_step (Cancel key now) (m, clock) = ((m(key := None), now), Done)"
| "override_spec_step (Active key now) (m, clock) = ((m, now), YesNo (active (status_at (m key) now)))"
| "override_spec_step (Status key now) (m, clock) = ((m, now), Told (status_at (m key) now))"

definition not_back :: "override_spec \<Rightarrow> override_call \<Rightarrow> bool" where
  "not_back a c \<longleftrightarrow> snd a \<le> call_time c"

text \<open>The table may have lost entries, expired ones only.\<close>

definition table_for :: "override_table \<Rightarrow> override_spec \<Rightarrow> bool" where
  "table_for st a \<longleftrightarrow>
     (\<forall>key. map_of st key = fst a key \<or> (map_of st key = None \<and> (\<exists>e. fst a key = Some e \<and> expires_at e \<le> snd a)))"

lemma table_for_key:
  "table_for st (m, clock) \<Longrightarrow> clock \<le> now \<Longrightarrow>
     map_of st key = m key \<or> (map_of st key = None \<and> (\<exists>e. m key = Some e \<and> expires_at e \<le> now))"
  unfolding table_for_def fst_conv snd_conv by (meson order_trans)

lemma table_for_later: "table_for st (m, clock) \<Longrightarrow> clock \<le> now \<Longrightarrow> table_for st (m, now)"
  using table_for_key [of st m clock now] unfolding table_for_def by simp

lemma table_for_update: "table_for st (m, now) \<Longrightarrow> table_for (AList.update key e st) (m(key \<mapsto> e), now)"
  by (auto simp: table_for_def update_conv')

lemma table_for_delete: "table_for st (m, now) \<Longrightarrow> table_for (AList.delete key st) (m(key := None), now)"
  by (auto simp: table_for_def delete_conv')

lemma table_for_expired:
  "table_for st (m, now) \<Longrightarrow> map_of st key = Some e \<Longrightarrow> expires_at e \<le> now \<Longrightarrow> table_for (AList.delete key st) (m, now)"
  unfolding table_for_def delete_conv' by (auto, metis option.distinct(1))

lemma status_agrees:
  assumes "table_for st (m, now)"
  shows "snd (get_override_status key now st) = status_at (m key) now \<and> table_for (fst (get_override_status key now st)) (m, now)"
  using table_for_key [OF assms order_refl, of key] table_for_expired [OF assms, of key] assms
  by (auto simp: get_override_status_def status_at_def Let_def split: option.splits)

lemma active_agrees:
  assumes "table_for st (m, now)"
  shows "snd (is_override_active key now st) = active (status_at (m key) now) \<and> table_for (fst (is_override_active key now st)) (m, now)"
  using table_for_key [OF assms order_refl, of key] table_for_expired [OF assms, of key] assms
  by (auto simp: is_override_active_def status_at_def no_override_def split: option.splits)

lemma enable_agrees:
  assumes "table_for st (m, now)"
  shows "snd (enable_override key examiner ttl now st) =
      status_at (Some \<lparr>expires_at = now + ttl, enabled_by = examiner, ov_ttl = ttl\<rparr>) now \<and>
    table_for (fst (enable_override key examiner ttl now st)) (m(key \<mapsto> \<lparr>expires_at = now + ttl, enabled_by = examiner, ov_ttl = ttl\<rparr>), now)"
  using status_agrees [OF table_for_update [OF assms], of key key "\<lparr>expires_at = now + ttl, enabled_by = examiner, ov_ttl = ttl\<rparr>"]
  by (simp add: enable_override_def)

interpretation override_sim: simulation override_step override_spec_step not_back table_for
proof
  fix st a c assume t: "table_for st a" and c: "not_back a c"
  obtain m clock where a: "a = (m, clock)" by (cases a)
  from t c have now: "table_for st (m, call_time c)" unfolding a not_back_def using table_for_later by simp
  show "snd (override_step c st) = snd (override_spec_step c a)"
    using now enable_agrees status_agrees active_agrees unfolding a
    by (cases c) (auto simp: Let_def case_prod_beta)
  show "table_for (fst (override_step c st)) (fst (override_spec_step c a))"
    using now enable_agrees table_for_delete status_agrees active_agrees unfolding a
    by (cases c) (auto simp: Let_def case_prod_beta cancel_override_def)
qed

lemma spec_clock: "snd (fst (override_spec_step c a)) = call_time c"
  by (cases c; cases a) (simp_all add: Let_def)

lemma never_back: "sorted (snd a # map call_time ops) \<Longrightarrow> all_enabled override_spec_step not_back ops a"
  by (induction ops arbitrary: a) (simp_all add: not_back_def spec_clock)

lemma run_state_snoc: "run_state call (ops @ [c]) s = fst (call c (run_state call ops s))"
  by (simp add: run_state_append)

lemma run_outputs_snoc: "run_outputs call (ops @ [c]) s = run_outputs call ops s @ [snd (call c (run_state call ops s))]"
  by (induction ops arbitrary: s) auto

fun touches :: "string \<Rightarrow> override_call \<Rightarrow> bool" where
  "touches key (Enable k examiner ttl now) = (k = key)"
| "touches key (Cancel k now) = (k = key)"
| "touches key _ = False"

lemma spec_untouched: "\<not> touches key c \<Longrightarrow> fst (fst (override_spec_step c a)) key = fst a key"
  by (cases c; cases a) (auto simp: Let_def)

lemma spec_entry:
  "fst (run_state override_spec_step ops (\<lambda>_. None, t0)) key = Some e \<longleftrightarrow>
     (\<exists>pre examiner ttl t post. ops = pre @ Enable key examiner ttl t # post \<and> (\<forall>c \<in> set post. \<not> touches key c) \<and>
        e = \<lparr>expires_at = t + ttl, enabled_by = examiner, ov_ttl = ttl\<rparr>)"
proof (induction ops rule: rev_induct)
  case (snoc c ops)
  let ?a = "run_state override_spec_step ops (\<lambda>_. None, t0)"
  let ?lhs = "fst (run_state override_spec_step (ops @ [c]) (\<lambda>_. None, t0)) key = Some e"
  let ?at = "\<lambda>ops pre examiner ttl t post. ops = pre @ Enable key examiner ttl t # post \<and> (\<forall>c \<in> set post. \<not> touches key c) \<and>
    e = \<lparr>expires_at = t + ttl, enabled_by = examiner, ov_ttl = ttl\<rparr>"
  have split: "ops @ [c] = pre @ Enable key examiner ttl t # post \<longleftrightarrow>
      (post = [] \<and> ops = pre \<and> c = Enable key examiner ttl t) \<or>
      (\<exists>post'. post = post' @ [c] \<and> ops = pre @ Enable key examiner ttl t # post')" for pre examiner ttl t post
    by (cases post rule: rev_cases) auto
  show ?case
  proof (cases "touches key c")
    case False
    then have "fst (run_state override_spec_step (ops @ [c]) (\<lambda>_. None, t0)) key = fst ?a key"
      unfolding run_state_snoc by (rule spec_untouched)
    then have "?lhs \<longleftrightarrow> (\<exists>pre examiner ttl t post. ?at ops pre examiner ttl t post)" using snoc.IH by simp
    also have "\<dots> \<longleftrightarrow> (\<exists>pre examiner ttl t post. ?at (ops @ [c]) pre examiner ttl t post)"
    proof
      assume "\<exists>pre examiner ttl t post. ?at ops pre examiner ttl t post"
      then obtain pre examiner ttl t post where "?at ops pre examiner ttl t post" by blast
      then have "?at (ops @ [c]) pre examiner ttl t (post @ [c])" using False by simp
      then show "\<exists>pre examiner ttl t post. ?at (ops @ [c]) pre examiner ttl t post" by blast
    next
      assume "\<exists>pre examiner ttl t post. ?at (ops @ [c]) pre examiner ttl t post"
      then obtain pre examiner ttl t post where at: "?at (ops @ [c]) pre examiner ttl t post" by blast
      then obtain post' where "post = post' @ [c]" "ops = pre @ Enable key examiner ttl t # post'" using split False by auto
      with at have "?at ops pre examiner ttl t post'" by simp
      then show "\<exists>pre examiner ttl t post. ?at ops pre examiner ttl t post" by blast
    qed
    finally show ?thesis .
  next
    case True
    have no_post: "post = []" if "?at (ops @ [c]) pre examiner ttl t post" for pre examiner ttl t post
      using that True by (cases post rule: rev_cases) auto
    have "?lhs \<longleftrightarrow> (\<exists>examiner ttl t. c = Enable key examiner ttl t \<and> e = \<lparr>expires_at = t + ttl, enabled_by = examiner, ov_ttl = ttl\<rparr>)"
      unfolding run_state_snoc using True by (cases c; cases ?a) (auto simp: Let_def)
    also have "\<dots> \<longleftrightarrow> (\<exists>pre examiner ttl t post. ?at (ops @ [c]) pre examiner ttl t post)"
    proof
      assume "\<exists>examiner ttl t. c = Enable key examiner ttl t \<and> e = \<lparr>expires_at = t + ttl, enabled_by = examiner, ov_ttl = ttl\<rparr>"
      then obtain examiner ttl t where "?at (ops @ [c]) ops examiner ttl t []" by auto
      then show "\<exists>pre examiner ttl t post. ?at (ops @ [c]) pre examiner ttl t post" by blast
    next
      assume "\<exists>pre examiner ttl t post. ?at (ops @ [c]) pre examiner ttl t post"
      then obtain pre examiner ttl t post where at: "?at (ops @ [c]) pre examiner ttl t post" by blast
      from no_post [OF at] at show "\<exists>examiner ttl t. c = Enable key examiner ttl t \<and> e = \<lparr>expires_at = t + ttl, enabled_by = examiner, ov_ttl = ttl\<rparr>"
        by simp
    qed
    finally show ?thesis .
  qed
qed simp

text \<open>The redaction override.  For any sequence of calls made while the clock does not go back, asking whether an
  override is active is answered with yes exactly when the last call that set or cancelled the override of this case
  set it, with a time to live that has not run out; overrides of other cases, and looking at the table,
  change nothing.\<close>

theorem override_active_iff:
  assumes "sorted (map call_time (ops @ [Active key now]))"
  shows "last (run_outputs override_step (ops @ [Active key now]) []) = YesNo True \<longleftrightarrow>
    (\<exists>pre examiner ttl t post. ops = pre @ Enable key examiner ttl t # post \<and> (\<forall>c \<in> set post. \<not> touches key c) \<and> now < t + ttl)"
proof -
  let ?ops = "ops @ [Active key now]"
  let ?t0 = "hd (map call_time ?ops)"
  let ?init = "(\<lambda>_. None, ?t0) :: override_spec"
  have "sorted (?t0 # map call_time ?ops)" using assms by (cases ops) auto
  then have "all_enabled override_spec_step not_back ?ops ?init" using never_back [of ?init ?ops] by simp
  moreover have "table_for [] ?init" by (simp add: table_for_def)
  ultimately have "run_outputs override_step ?ops [] = run_outputs override_spec_step ?ops ?init"
    using override_sim.outputs_agree by blast
  then have "last (run_outputs override_step ?ops []) = snd (override_spec_step (Active key now) (run_state override_spec_step ops ?init))"
    by (simp only: run_outputs_snoc last_snoc)
  also have "\<dots> = YesNo (active (status_at (fst (run_state override_spec_step ops ?init) key) now))"
    by (cases "run_state override_spec_step ops ?init") simp
  finally have "last (run_outputs override_step ?ops []) = YesNo True \<longleftrightarrow>
      (\<exists>e. fst (run_state override_spec_step ops ?init) key = Some e \<and> now < expires_at e)"
    by (auto simp: status_at_def no_override_def split: option.splits)
  then show ?thesis unfolding spec_entry by fastforce
qed

theorem override_active_iff_witness:
  "last (run_outputs override_step [Enable ''c1'' ''ann'' 600 100, Active ''c2'' 200, Active ''c1'' 699] []) = YesNo True"
proof -
  have "sorted (map call_time ([Enable ''c1'' ''ann'' 600 100, Active ''c2'' 200] @ [Active ''c1'' 699]))" by simp
  from override_active_iff [OF this]
  have "last (run_outputs override_step ([Enable ''c1'' ''ann'' 600 100, Active ''c2'' 200] @ [Active ''c1'' 699]) []) = YesNo True \<longleftrightarrow>
    (\<exists>pre examiner ttl t post. [Enable ''c1'' ''ann'' 600 100, Active ''c2'' 200] = pre @ Enable ''c1'' examiner ttl t # post \<and>
      (\<forall>c \<in> set post. \<not> touches ''c1'' c) \<and> 699 < t + ttl)" .
  moreover have "[Enable ''c1'' ''ann'' 600 100, Active ''c2'' 200] = [] @ Enable ''c1'' ''ann'' 600 100 # [Active ''c2'' 200] \<and>
      (\<forall>c \<in> set [Active ''c2'' 200]. \<not> touches ''c1'' c) \<and> (699 :: real) < 100 + 600" by simp
  ultimately show ?thesis by (metis append_Cons append_Nil)
qed

text \<open>An override in its last second is active with zero seconds left.\<close>

lemma last_second:
  "snd (get_override_status ''c'' 600.5 (fst (enable_override ''c'' ''ann'' 600 1 []))) =
     \<lparr>active = True, seconds_remaining = 0, by_whom = Some ''ann''\<rparr>"
  by (simp add: get_override_status_def enable_override_def Let_def)

end
