(* ===== verification/Response_Cap.thy ===== *)
theory Response_Cap
  imports Audit_Helpers
begin

text \<open>
  The ceiling on what one tool response delivers (\<open>sift_gateway/response_guard.py\<close>): cutting, the file that keeps
  the whole, and \<open>guard_tool_result\<close>, which puts the passes in their order.

  Bytes are numbers below 256.  Parameters are SHA-256, the time stamp of a file and whether writing
  it succeeds (\<open>spill_io\<close>), \<open>json.loads\<close> and \<open>json.dumps\<close>, and the text of the whole result (\<open>envelope\<close>), which the
  MCP library produces.
\<close>

section \<open>UTF-8\<close>

definition utf8_char :: "char \<Rightarrow> nat list" where
  "utf8_char c = (if code c < 128 then [code c] else [192 + code c div 64, 128 + code c mod 64])"

definition utf8 :: "string \<Rightarrow> nat list" where
  "utf8 s = concat (map utf8_char s)"

text \<open>Decoding with \<open>errors="ignore"\<close>, on the bytes such a text can have.\<close>

fun utf8_decode :: "nat list \<Rightarrow> string" where
  "utf8_decode [] = []"
| "utf8_decode (b # bs) =
     (if b < 128 then char_of b # utf8_decode bs
      else if b \<in> {194, 195} then
        (case bs of
           [] \<Rightarrow> []
         | c # cs \<Rightarrow> if 128 \<le> c \<and> c < 192 then char_of ((b - 192) * 64 + (c - 128)) # utf8_decode cs else utf8_decode bs)
      else utf8_decode bs)"

definition cut_utf8 :: "nat \<Rightarrow> string \<Rightarrow> string" where
  "cut_utf8 n s = utf8_decode (take n (utf8 s))"

lemma utf8_simps [simp]: "utf8 [] = []" "utf8 (c # s) = utf8_char c @ utf8 s" "utf8 (a @ b) = utf8 a @ utf8 b"
  by (simp_all add: utf8_def)

lemma utf8_wide: "128 \<le> code c \<Longrightarrow> 192 + code c div 64 \<in> {194, 195}"
proof -
  have "n div 64 = 2 \<or> n div 64 = 3" if "128 \<le> n" "n < 256" for n :: nat
    using div_le_mono [OF that(1), of 64] less_mult_imp_div_less [of n 4 64] that(2) by auto
  moreover assume "128 \<le> code c"
  ultimately have "code c div 64 = 2 \<or> code c div 64 = 3" using of_char_bound by blast
  then show ?thesis by auto
qed

lemma decode_char: "utf8_decode (utf8_char c @ bs) = c # utf8_decode bs"
proof (cases "code c < 128")
  case False
  then have "192 + code c div 64 \<in> {194, 195}" using utf8_wide by simp
  moreover have "code c div 64 * 64 + code c mod 64 = code c" by simp
  ultimately show ?thesis using False by (simp add: utf8_char_def)
qed (simp add: utf8_char_def)

lemma decode_utf8 [simp]: "utf8_decode (utf8 s) = s"
  by (induction s) (simp_all add: decode_char)

text \<open>The longest prefix that fits.\<close>

fun fitting :: "nat \<Rightarrow> string \<Rightarrow> string" where
  "fitting n [] = []"
| "fitting n (c # s) = (if length (utf8_char c) \<le> n then c # fitting (n - length (utf8_char c)) s else [])"

lemma cut_is_fitting: "cut_utf8 n s = fitting n s"
proof (induction s arbitrary: n)
  case (Cons c s)
  show ?case
  proof (cases "length (utf8_char c) \<le> n")
    case True
    then have "take n (utf8 (c # s)) = utf8_char c @ take (n - length (utf8_char c)) (utf8 s)" by simp
    with Cons True show ?thesis by (simp add: cut_utf8_def decode_char)
  next
    case False
    then have "take n (utf8 (c # s)) = (if n = 0 then [] else [192 + code c div 64]) \<and> (n \<noteq> 0 \<longrightarrow> 128 \<le> code c)"
      by (auto simp: utf8_char_def take_Cons' split: if_splits)
    with False utf8_wide [of c] show ?thesis by (auto simp: cut_utf8_def)
  qed
qed (simp add: cut_utf8_def)

lemma fitting_prefix: "\<exists>k \<le> length s. fitting n s = take k s \<and> (k < length s \<longrightarrow> n < length (utf8 (take (Suc k) s)))"
proof (induction n s rule: fitting.induct)
  case (2 n c s)
  show ?case
  proof (cases "length (utf8_char c) \<le> n")
    case True
    then obtain k where k: "k \<le> length s" "fitting (n - length (utf8_char c)) s = take k s"
      "k < length s \<longrightarrow> n - length (utf8_char c) < length (utf8 (take (Suc k) s))" using 2 by blast
    with True show ?thesis by (intro exI [of _ "Suc k"]) auto
  next
    case False
    then show ?thesis by (intro exI [of _ 0]) simp
  qed
qed simp

lemma ascii_bytes: "list_all (\<lambda>c. code c < 128) s \<Longrightarrow> length (utf8 s) = length s"
  by (induction s) (simp_all add: utf8_char_def)

lemma list_all_take: "list_all P xs \<Longrightarrow> list_all P (take n xs)"
  by (auto simp: list_all_iff dest: in_set_takeD)

lemma fitting_fits: "length (utf8 (fitting n s)) \<le> n"
  by (induction n s rule: fitting.induct) auto

section \<open>The cap\<close>

definition OUTPUT_CAP_ENV :: string where "OUTPUT_CAP_ENV = ''SIFT_OUTPUT_CAP''"
definition DEFAULT_OUTPUT_CAP_BYTES :: nat where "DEFAULT_OUTPUT_CAP_BYTES = 262144"
definition TOOL_OUTPUT_SUBDIR :: comps where "TOOL_OUTPUT_SUBDIR = [''agent'', ''tool_outputs'']"

text \<open>\<open>int(raw)\<close>: white space around, one sign, digits with single underscores between them.\<close>

definition py_int :: "string \<Rightarrow> int option" where
  "py_int raw =
     (let s = strip raw;
          body = (case s of c # r \<Rightarrow> if c = CHR ''+'' \<or> c = CHR ''-'' then r else s | [] \<Rightarrow> []);
          parts = split_char (CHR ''_'') body
      in if list_all (\<lambda>p. p \<noteq> [] \<and> list_all ascii_digit p) parts
         then Some ((if startswith s ''-'' then - 1 else 1) * int (int_digits (concat parts))) else None)"

definition output_cap_bytes :: "host \<Rightarrow> nat" where
  "output_cap_bytes h =
     (let raw = getenv h OUTPUT_CAP_ENV
      in if raw = [] then DEFAULT_OUTPUT_CAP_BYTES
         else case py_int raw of
           Some val \<Rightarrow> if val > 0 then nat val else DEFAULT_OUTPUT_CAP_BYTES
         | None \<Rightarrow> DEFAULT_OUTPUT_CAP_BYTES)"

record spill_io =
  sha256_hex :: "nat list \<Rightarrow> string"
  time_stamp :: string
  write_ok :: "comps \<Rightarrow> bool"

definition display_spill_path :: "host \<Rightarrow> string option \<Rightarrow> string option \<Rightarrow> path_error + string option" where
  "display_spill_path h output_file case_dir =
     (case output_file of
        None \<Rightarrow> Inr None
      | Some f \<Rightarrow>
          if f = [] then Inr None
          else let name = path_name (path_names f) in
            (case case_dir of
               None \<Rightarrow> Inr (Some name)
             | Some d \<Rightarrow>
                 if d = [] then Inr (Some name)
                 else res_bind (resolve h (parse_path f)) (\<lambda>p.
                      res_bind (resolve h (parse_path d)) (\<lambda>c.
                      Inr (Some (if prefix c p then py_path_str (RelPath (drop (length c) p)) else name))))))"

definition spill_name :: "string \<Rightarrow> string" where
  "spill_name tool_name =
     (let safe = take 40 (map (\<lambda>c. if isalnum c \<or> c \<in> set ''-_'' then c else CHR ''_'') tool_name)
      in if safe = [] then ''tool'' else safe)"

definition spill_full_output :: "host \<Rightarrow> spill_io \<Rightarrow> string \<Rightarrow> string \<Rightarrow> string \<Rightarrow> path_error + (string option \<times> string)" where
  "spill_full_output h io s case_dir tool_name =
     (let sha = sha256_hex io (utf8 s) in
      res_bind (resolve h (parse_path case_dir)) (\<lambda>case_resolved.
        let out_dir = case_resolved @ TOOL_OUTPUT_SUBDIR in
        if \<not> prefix (case_resolved @ [''agent'']) out_dir then Inr (None, sha)
        else let path = out_dir @ [time_stamp io @ ''_'' @ spill_name tool_name @ ''.txt''] in
          if write_ok io path then Inr (Some (path_str path), sha) else Inr (None, sha)))"

record cap_event =
  ev_tool :: string
  original_bytes :: nat
  returned_bytes :: nat
  cap_bytes :: nat
  ev_sha256 :: string
  output_file :: "string option"

definition persisted_text :: "string \<Rightarrow> string option \<Rightarrow> string" where
  "persisted_text what display_file =
     (case display_file of
        Some f \<Rightarrow> if f = [] then what @ '' NOT persisted (no active case directory)'' else what @ '' persisted at '' @ f
      | None \<Rightarrow> what @ '' NOT persisted (no active case directory)'')"

definition cap_end :: "nat \<Rightarrow> string \<Rightarrow> string \<Rightarrow> string" where
  "cap_end max_bytes pointer sha =
     '' (cap '' @ dec_digits max_bytes @ ''). '' @ pointer @ ''; sha256='' @ sha @
     ''. Narrow the query or read the persisted file to see the rest.]''"

text \<open>Where a case directory is given, the whole is written to a file of it.\<close>

definition keep_whole :: "host \<Rightarrow> spill_io \<Rightarrow> string \<Rightarrow> string option \<Rightarrow> string \<Rightarrow> path_error + (string option \<times> string)" where
  "keep_whole h io s case_dir tool_name =
     (case case_dir of
        Some d \<Rightarrow> if d = [] then Inr (None, sha256_hex io (utf8 s)) else spill_full_output h io s d tool_name
      | None \<Rightarrow> Inr (None, sha256_hex io (utf8 s)))"

definition cap_tool_result ::
  "host \<Rightarrow> spill_io \<Rightarrow> string \<Rightarrow> nat \<Rightarrow> string option \<Rightarrow> string \<Rightarrow> path_error + (string \<times> cap_event option)" where
  "cap_tool_result h io s max_bytes case_dir tool_name =
     (let original = length (utf8 s) in
      if original \<le> max_bytes then Inr (s, None)
      else res_bind (keep_whole h io s case_dir tool_name) (\<lambda>(file, sha).
        let truncated = cut_utf8 max_bytes s; returned = length (utf8 truncated) in
        res_bind (display_spill_path h file case_dir) (\<lambda>display_file.
          let marker = [CHR 0x0A, CHR 0x0A] @ ''[OUTPUT CAPPED BY GATEWAY: returned '' @ dec_digits returned @ '' of '' @ dec_digits original @
                '' bytes'' @ cap_end max_bytes (persisted_text ''full output'' display_file) sha
          in Inr (truncated @ marker,
               Some \<lparr>ev_tool = tool_name, original_bytes = original, returned_bytes = returned, cap_bytes = max_bytes,
                 ev_sha256 = sha, output_file = (if file = Some [] then None else file)\<rparr>))))"

section \<open>The guard\<close>

fun preview_text :: "nat \<Rightarrow> string \<Rightarrow> item list \<Rightarrow> string" where
  "preview_text n acc [] = acc"
| "preview_text n acc (OtherItem k # items) = preview_text n acc items"
| "preview_text n acc (TextItem s # items) =
     (if length (utf8 (acc @ s)) \<ge> n then acc @ s else preview_text n (acc @ s) items)"

definition typed_receipt :: "gval option \<Rightarrow> (gkey \<times> gval) list" where
  "typed_receipt sc =
     (case sc of
        Some (GDict kvs) \<Rightarrow>
          concat (map (\<lambda>key. case gget kvs key of
              Some (GBool b) \<Rightarrow> [(StrKey key, GBool b)]
            | Some (GStr s) \<Rightarrow> [(StrKey key, GStr s)]
            | _ \<Rightarrow> []) [''success'', ''tool''])
      | _ \<Rightarrow> [])"

definition byte_count :: "(tool_result \<Rightarrow> string) \<Rightarrow> tool_result \<Rightarrow> nat" where
  "byte_count envelope r = length (utf8 (envelope r))"

definition cap_guarded_result ::
  "host \<Rightarrow> spill_io \<Rightarrow> (tool_result \<Rightarrow> string) \<Rightarrow> (string \<Rightarrow> gval option) \<Rightarrow> tool_result \<Rightarrow> nat \<Rightarrow> string option \<Rightarrow> string \<Rightarrow>
     path_error + (tool_result \<times> cap_event option)" where
  "cap_guarded_result h io envelope loads r max_bytes case_dir tool_name =
     (let original = byte_count envelope r in
      if original \<le> max_bytes then Inr (r, None)
      else let native_audit_id = extract_audit_id_from_result loads r in
        res_bind (keep_whole h io (envelope r) case_dir tool_name) (\<lambda>(file, sha).
        let all_preview = preview_text max_bytes [] (content r);
            preview = (if all_preview = [] then [] else cut_utf8 max_bytes all_preview) in
        res_bind (display_spill_path h file case_dir) (\<lambda>display_file.
          let marker = [CHR 0x0A, CHR 0x0A] @ ''[OUTPUT CAPPED BY GATEWAY: returned preview of '' @ dec_digits original @
                '' serialized bytes'' @ cap_end max_bytes (persisted_text ''full redacted output'' display_file) sha;
              r1 = r\<lparr>content := [TextItem (if preview \<noteq> [] then preview @ marker else strip marker)]\<rparr>;
              capped = GDict ([(StrKey ''original_bytes'', GNum (int original)),
                 (StrKey ''returned_bytes'', GNum (int (byte_count envelope r1))),
                 (StrKey ''cap_bytes'', GNum (int max_bytes)), (StrKey ''sha256'', GStr sha)] @
                 (case display_file of Some f \<Rightarrow> if f = [] then [] else [(StrKey ''output_file'', GStr f)] | None \<Rightarrow> []));
              aid = (case native_audit_id of Some i \<Rightarrow> [(StrKey ''audit_id'', GStr i)] | None \<Rightarrow> []);
              r2 = r1\<lparr>structured := Some (GDict (typed_receipt (structured r1) @ [(StrKey ''_sift_output_capped'', capped)] @ aid)),
                      meta := Some (foldl (\<lambda>m (k, v). AList.update k v m) (case meta r1 of Some m \<Rightarrow> m | None \<Rightarrow> [])
                        ((StrKey ''_sift_output_capped'', capped) # aid))\<rparr>
          in Inr (r2, Some \<lparr>ev_tool = tool_name, original_bytes = original, returned_bytes = byte_count envelope r2, cap_bytes = max_bytes,
               ev_sha256 = sha, output_file = (if file = Some [] then None else file)\<rparr>))))"

definition sanitize_text_content_payload ::
  "(string \<Rightarrow> gval option) \<Rightarrow> (gval \<Rightarrow> string) \<Rightarrow> string \<Rightarrow> string \<Rightarrow> string" where
  "sanitize_text_content_payload loads dumps s tool_name =
     (let t = sanitize_untrusted_output_text s in
      if \<not> is_run_command_output tool_name then t
      else case loads t of
        None \<Rightarrow> label_untrusted_text t
      | Some payload \<Rightarrow> dumps (sanitize_structured True None 0 payload))"

definition guard_item ::
  "(string \<Rightarrow> gval option) \<Rightarrow> (gval \<Rightarrow> string) \<Rightarrow> string list \<Rightarrow> string option \<Rightarrow> string \<Rightarrow> bool \<Rightarrow> item \<Rightarrow> item \<times> finding list" where
  "guard_item loads dumps sens c tool_name ov it =
     (case it of
        TextItem s \<Rightarrow>
          (let q = redact_tool_result (sanitize_text_content_payload loads dumps s tool_name) ov;
               p = fst (redact_paths_in_text sens c (fst q))
           in (TextItem p, snd q @ path_finding p (fst q) None))
      | OtherItem n \<Rightarrow> (OtherItem n, []))"

definition guarded_case :: "host \<Rightarrow> string option \<Rightarrow> path_error + string option" where
  "guarded_case h case_dir =
     (case case_dir of
        Some d \<Rightarrow> if d = [] then Inr None else res_bind (resolve h (parse_path d)) (\<lambda>p. Inr (Some (path_str p)))
      | None \<Rightarrow> Inr None)"

definition guarded_parts ::
  "(string \<Rightarrow> gval option) \<Rightarrow> (gval \<Rightarrow> string) \<Rightarrow> string list \<Rightarrow> string option \<Rightarrow> string \<Rightarrow> bool \<Rightarrow> tool_result \<Rightarrow>
     tool_result \<times> finding list" where
  "guarded_parts loads dumps sens c tool_name ov r =
     (let items = map (guard_item loads dumps sens c tool_name ov) (content r);
          sq = (case structured r of
                  Some v \<Rightarrow> (let q = guard_structured sens c tool_name ov v in (Some (fst q), snd q))
                | None \<Rightarrow> (None, []));
          untrusted = GDict [(StrKey ''label'', GStr UNTRUSTED_OUTPUT_LABEL), (StrKey ''ansi_osc_control_chars_stripped'', GBool True)]
      in (r\<lparr>content := map fst items, structured := fst sq,
            meta := (if is_run_command_output tool_name
                     then Some (AList.update (StrKey ''_sift_untrusted_output'') untrusted (case meta r of Some m \<Rightarrow> m | None \<Rightarrow> []))
                     else meta r)\<rparr>,
          concat (map snd items) @ snd sq))"

definition guard_tool_result ::
  "host \<Rightarrow> spill_io \<Rightarrow> (tool_result \<Rightarrow> string) \<Rightarrow> (string \<Rightarrow> gval option) \<Rightarrow> (gval \<Rightarrow> string) \<Rightarrow>
     tool_result \<Rightarrow> bool \<Rightarrow> string option \<Rightarrow> string \<Rightarrow> nat \<Rightarrow> path_error + (tool_result \<times> finding list \<times> cap_event list)" where
  "guard_tool_result h io envelope loads dumps r override_active case_dir tool_name cap =
     res_bind (guarded_case h case_dir) (\<lambda>c.
       let q = guarded_parts loads dumps (guard_sensitive_prefixes h) c tool_name override_active r
       in res_bind (cap_guarded_result h io envelope loads (fst q) cap case_dir tool_name) (\<lambda>p.
            Inr (fst p, snd q, case snd p of Some e \<Rightarrow> [e] | None \<Rightarrow> [])))"

section \<open>What an agent receives\<close>

lemma cap_guarded_fits:
  "cap_guarded_result h io envelope loads r n c tool = Inr (r', None) \<longleftrightarrow> byte_count envelope r \<le> n \<and> r' = r"
  by (auto simp: cap_guarded_result_def Let_def case_prod_beta)

lemma guard_item_plain: "\<not> is_run_command_output tool \<Longrightarrow> fst (guard_item loads dumps sens c tool ov it) = TextItem s \<Longrightarrow> plain_text s"
  by (cases it)
    (auto simp: guard_item_def Let_def sanitize_text_content_payload_def sanitize_plain redact_plain redact_paths_plain)

lemma guard_item_other: "fst (guard_item loads dumps sens c tool ov it) = OtherItem n \<Longrightarrow> it = OtherItem n"
  by (cases it) (auto simp: guard_item_def Let_def)


text \<open>A machine without symbolic links and without a case.\<close>

definition bare_host :: host where
  "bare_host = \<lparr>cwd = [], home = [], tmpdir = [], environ = \<lambda>_. None, active_case = None, readlink = \<lambda>_. None, fs_is_dir = \<lambda>_. False,
    fs_exists = \<lambda>_. False, case_yaml_id = \<lambda>_. None, which = \<lambda>_. None, is_executable = \<lambda>_. False, opt_bin_dirs = [], nfc = \<lambda>s. s\<rparr>"

definition no_spill :: spill_io where
  "no_spill = \<lparr>sha256_hex = \<lambda>_. [], time_stamp = [], write_ok = \<lambda>_. False\<rparr>"


section \<open>What capping keeps\<close>

lemma cap_shape:
  "\<not> length (utf8 s) \<le> n \<Longrightarrow> cap_tool_result h io s n case_dir tool = Inr (out, ev) \<Longrightarrow>
     \<exists>marker e. out = fitting n s @ [CHR 0x0A, CHR 0x0A] @ marker \<and> ev = Some e \<and>
       returned_bytes e = length (utf8 (fitting n s)) \<and> original_bytes e = length (utf8 s)"
  by (auto simp: cap_tool_result_def Let_def cut_is_fitting)



section \<open>What the ceiling does not bound\<close>

lemma utf8_char_short: "length (utf8_char c) \<le> 2"
  by (simp add: utf8_char_def)

text \<open>A capped text is longer than the cap: the notice comes on top.\<close>

lemma capped_longer_than_cap:
  assumes "cap_tool_result h io s n case_dir tool = Inr (out, Some e)"
  shows "n < length (utf8 out)"
proof -
  have big: "\<not> length (utf8 s) \<le> n" using assms by (auto simp: cap_tool_result_def)
  obtain k where k: "k \<le> length s" "fitting n s = take k s" "k < length s \<longrightarrow> n < length (utf8 (take (Suc k) s))"
    using fitting_prefix by blast
  have "k < length s"
  proof (rule ccontr)
    assume "\<not> k < length s"
    then show False using k(2) fitting_fits [of n s] big by simp
  qed
  then have "n < length (utf8 (take k s)) + length (utf8_char (s ! k))" using k(3) by (simp add: take_Suc_conv_app_nth)
  then have "n < length (utf8 (take k s)) + 2" using utf8_char_short [of "s ! k"] by linarith
  moreover obtain marker where "out = take k s @ [CHR 0x0A, CHR 0x0A] @ marker" using cap_shape [OF big assms] k(2) by auto
  ultimately show ?thesis by (simp add: utf8_char_def)
qed

text \<open>A text of the tool's own survives the cap uncut: the receipt copies the field \<open>tool\<close>.\<close>

lemma receipt_not_bounded:
  "typed_receipt (Some (GDict [(StrKey ''tool'', GStr s)])) = [(StrKey ''tool'', GStr s)]"
  by (simp add: typed_receipt_def gget_def)

text \<open>The test that the file lies in the agent's directory cannot fail.\<close>

lemma spill_check_never_fails: "prefix (c @ [''agent'']) (c @ TOOL_OUTPUT_SUBDIR)"
  by (simp add: TOOL_OUTPUT_SUBDIR_def)

end
