(* ===== verification/Gateway_State.thy ===== *)
theory Gateway_State
  imports Evidence_References Gateway_Tools Gateway_Identity Rate_Limit Response_Override Response_Cap
begin

text \<open>
  The world of a tool call at the gateway (\<open>sift_gateway/policy_middleware.py\<close>): what the gateway is configured with, what the
  context variables hold while a call is under way, and the state calls leave behind.

  A handler takes the context, the request and the state, and returns a result or the exception that leaves it, with the new
  state; a middleware makes a handler from the next one.  Services (the case service, the evidence authority, the audit
  table, the jobs, the backends) and the parsers and printers of JSON are fields of \<open>gateway\<close>.  An attempt to
  write the log file is recorded whether the write succeeds or not, as the code goes on in both
  cases.
\<close>

section \<open>Records\<close>

text \<open>A row of \<open>ActiveCase\<close>.\<close>

record case_row =
  cr_id :: string
  cr_key :: string
  cr_artifact_path :: "string option"
  cr_role :: gval

text \<open>\<open>ActiveCaseContext\<close> of the core.\<close>

record core_context =
  cx_case_id :: string
  cx_case_key :: string
  cx_artifact_path :: "string option"
  cx_role :: gval
  cx_principal :: "string option"
  cx_principal_type :: "string option"
  cx_scopes :: "string list"
  cx_request_id :: string
  cx_db_active :: bool

record tool_request =
  rq_name :: string
  rq_args :: "(gkey \<times> gval) list option"

text \<open>What surrounds a call: the caller, the readings of the clock before and after it, the identifiers the gateway draws for it, and
  the context variables.\<close>

record call_scope =
  sc_identity :: "identity option"
  sc_now :: int
  sc_after :: real
  sc_elapsed :: gval
  sc_request_id :: string
  sc_fresh_request_id :: string
  sc_event_id :: string
  sc_case :: "case_row option"
  sc_core :: "core_context option"
  sc_admitted :: "evidence_binding list"
  sc_inventory :: string
  sc_authority :: "(string + storage_authority) option"
  sc_revalidates :: bool

record log_entry =
  lg_tool :: string
  lg_summary :: string
  lg_source :: string
  lg_extra :: "(gkey \<times> gval) list"
  lg_examiner :: "string option"
  lg_elapsed :: gval

record db_entry =
  de_type :: string
  de_actor :: "identity option"
  de_case :: "string option"
  de_status :: string
  de_summary :: string
  de_request :: string
  de_details :: "(gkey \<times> gval) list"

record job_request =
  jr_type :: string
  jr_case :: string
  jr_public :: "(gkey \<times> gval) list"
  jr_internal :: "(gkey \<times> gval) list"
  jr_priority :: int
  jr_attempts :: int
  jr_actor :: "identity option"

record gw_state =
  st_rates :: rate_module
  st_overrides :: override_table
  st_last429 :: "(string \<times> int) list"
  st_log :: "log_entry list"
  st_rows :: "(string \<times> db_entry) list"
  st_attached :: "string list"
  st_jobs :: "(string \<times> job_request) list"
  st_calls :: "(call_scope \<times> tool_request) list"

datatype failure =
    ToolFailure string
  | PathFailure path_error
  | ReferenceFailure ref_error
  | ServiceFailure

datatype case_error = CaseDenied string | CaseFailed

record job_service =
  js_enqueue :: "nat \<Rightarrow> job_request \<Rightarrow> string option"
  js_list :: "string \<Rightarrow> (gkey \<times> gval) list list option"

record gateway =
  gw_dsn :: "string option"
  gw_auth_enabled :: bool
  gw_surface :: tool_surface
  gw_host :: host
  gw_spill :: spill_io
  gw_loads :: "string \<Rightarrow> gval option"
  gw_dumps :: "gval \<Rightarrow> string"
  gw_dumps_indent :: "gval \<Rightarrow> string"
  gw_dumps_raw :: "gval \<Rightarrow> string"
  gw_envelope :: "tool_result \<Rightarrow> string"
  gw_shown :: "gval \<Rightarrow> string"
  gw_case_service :: "(identity option \<Rightarrow> case_error + case_row) option"
  gw_reconcile_db :: "string \<Rightarrow> inventory_entry list \<Rightarrow> bool \<Rightarrow> gate_row option"
  gw_state_db :: "string \<Rightarrow> gate_row option"
  gw_scan :: "string \<Rightarrow> (string \<times> stat_result) list option"
  gw_sealed :: "string \<Rightarrow> string \<Rightarrow> string \<Rightarrow> sealed_row option"
  gw_lstat :: "py_path \<Rightarrow> stat_result option"
  gw_inventory_token :: "string \<Rightarrow> string option"
  gw_db_audit :: "(nat \<Rightarrow> db_entry \<Rightarrow> string option) option"
  gw_job_service :: "job_service option"
  gw_float_int :: "string \<Rightarrow> int option"
  gw_realpath :: "string \<Rightarrow> string"
  gw_forward_dsn :: string
  gw_backend :: "call_scope \<Rightarrow> tool_request \<Rightarrow> nat \<Rightarrow> failure + tool_result"

type_synonym answer = "(failure + tool_result) \<times> gw_state"
type_synonym handler = "call_scope \<Rightarrow> tool_request \<Rightarrow> gw_state \<Rightarrow> answer"

section \<open>Arguments, results and the log\<close>

definition tool_args :: "tool_request \<Rightarrow> (gkey \<times> gval) list" where
  "tool_args rq = (case rq_args rq of Some a \<Rightarrow> a | None \<Rightarrow> [])"

text \<open>Writing an argument changes the dictionary of the message; without one, a fresh dictionary that is lost.\<close>

definition set_arg :: "string \<Rightarrow> gval \<Rightarrow> tool_request \<Rightarrow> tool_request" where
  "set_arg key v rq = rq\<lparr>rq_args := map_option (AList.update (StrKey key) v) (rq_args rq)\<rparr>"

abbreviation fields :: "(string \<times> gval) list \<Rightarrow> (gkey \<times> gval) list" where
  "fields kvs \<equiv> map (\<lambda>(k, v). (StrKey k, v)) kvs"

definition put_fields :: "(gkey \<times> gval) list \<Rightarrow> (gkey \<times> gval) list \<Rightarrow> (gkey \<times> gval) list" where
  "put_fields new old = foldl (\<lambda>d (k, v). AList.update k v d) old new"

definition opt_str :: "string option \<Rightarrow> gval" where
  "opt_str s = (case s of Some t \<Rightarrow> GStr t | None \<Rightarrow> GNull)"

definition text_result :: "(gval \<Rightarrow> string) \<Rightarrow> gval \<Rightarrow> bool \<Rightarrow> tool_result" where
  "text_result dumps payload err = \<lparr>content = [TextItem (dumps payload)], structured = Some payload, meta = None, is_error = err\<rparr>"

definition error_result :: "gateway \<Rightarrow> string \<Rightarrow> string \<Rightarrow> string \<Rightarrow> tool_result" where
  "error_result g err detail name =
     text_result (gw_dumps g) (str_dict ([(''error'', GStr err), (''detail'', GStr detail)] @
       (if name = [] then [] else [(''tool'', GStr name)]))) True"

definition write_log :: "log_entry \<Rightarrow> gw_state \<Rightarrow> gw_state" where
  "write_log e st = st\<lparr>st_log := st_log st @ [e]\<rparr>"

definition request_fields :: "call_scope \<Rightarrow> (gkey \<times> gval) list" where
  "request_fields sc =
     (case sc_identity sc of
        Some i \<Rightarrow> fields [(''role'', GStr (id_role i)), (''token_id'', token_id i), (''source_ip'', source_ip i)]
      | None \<Rightarrow> fields [(''role'', GStr ''unknown''), (''token_id'', GNull), (''source_ip'', GNull)])"

definition stamp_identity_extra :: "call_scope \<Rightarrow> (gkey \<times> gval) list \<Rightarrow> (gkey \<times> gval) list" where
  "stamp_identity_extra sc extra =
     put_fields (case sc_identity sc of
        Some i \<Rightarrow> fields [(''principal'', GStr (principal i)), (''principal_type'', GStr (principal_type i)), (''agent_id'', agent_id i),
          (''created_by'', created_by i), (''auth_surface'', GStr (auth_surface i))]
      | None \<Rightarrow> fields [(''principal'', GStr ''anonymous''), (''principal_type'', GStr ''user''), (''auth_surface'', GStr ''mcp'')]) extra"

definition case_extra :: "case_row option \<Rightarrow> (gkey \<times> gval) list" where
  "case_extra c =
     (case c of
        None \<Rightarrow> []
      | Some c \<Rightarrow> fields [(''case_id'', GStr (cr_id c)), (''case_key'', GStr (cr_key c)), (''case_membership_role'', cr_role c)])"

definition examiner_of :: "call_scope \<Rightarrow> string option" where
  "examiner_of sc = map_option principal (sc_identity sc)"

text \<open>The records of a refusal.\<close>

definition denial :: "call_scope \<Rightarrow> string \<Rightarrow> string \<Rightarrow> string \<Rightarrow> (gkey \<times> gval) list \<Rightarrow> log_entry" where
  "denial sc name source why others =
     \<lparr>lg_tool = name, lg_summary = ''denied: '' @ why, lg_source = source,
      lg_extra = stamp_identity_extra sc (request_fields sc @ fields [(''status'', GStr ''denied''), (''denial_reason'', GStr why)] @ others),
      lg_examiner = examiner_of sc, lg_elapsed = GNull\<rparr>"

definition case_text :: "gateway \<Rightarrow> case_row \<Rightarrow> string \<Rightarrow> item" where
  "case_text g c name =
     (let has_dir = (case cr_artifact_path c of Some p \<Rightarrow> p \<noteq> [] | None \<Rightarrow> False);
          dir = (\<lambda>d. if has_dir then GStr d else GNull)
      in TextItem (gw_dumps_indent g (str_dict [(''case_context'', str_dict
           ([(''id'', GStr (cr_id c)), (''case_id'', GStr (cr_key c)), (''case_key'', GStr (cr_key c)), (''evidence_dir'', dir ''evidence''),
             (''agent_dir'', dir ''agent''), (''source'', GStr ''postgres_active_case_state'')] @
            (if name = [] then [] else [(''tool'', GStr name)])))])))"

section \<open>Reaching a backend\<close>

text \<open>The innermost handler: the call is sent on.\<close>

definition dispatch :: "gateway \<Rightarrow> handler" where
  "dispatch g sc rq st = (gw_backend g sc rq (length (st_calls st)), st\<lparr>st_calls := st_calls st @ [(sc, rq)]\<rparr>)"

lemma write_log_calls [simp]: "st_calls (write_log e st) = st_calls st" "st_rows (write_log e st) = st_rows st"
  by (simp_all add: write_log_def)

end
