(* ===== verification/Gateway_Access.thy ===== *)
theory Gateway_Access
  imports Gateway_State
begin

text \<open>
  The outer middlewares of the gateway (\<open>sift_gateway/policy_middleware.py\<close>): the control plane must be configured, the caller must be
  known, within its rate and hold a scope for the tool, the contract of the add-on must be met, and the active case is taken from its
  service.

  For each middleware one lemma tells what holds when the call comes through to the next handler.
\<close>

section \<open>The control plane\<close>

definition present :: "string option \<Rightarrow> bool" where
  "present s \<longleftrightarrow> s \<noteq> None \<and> s \<noteq> Some []"

definition control_plane_payload :: "string \<Rightarrow> gval" where
  "control_plane_payload name = str_dict
     [(''blocked'', GBool True), (''reason'', GStr ''control_plane_unavailable''), (''tool'', GStr name),
      (''detail'', GStr (''This gateway has no control-plane (Postgres) authority configured, '' @
         ''so DFIR tools are disabled. The control plane is required and there '' @ ''is no file-mode fallback.'')),
      (''remediation'', GStr (''Configure the control-plane DSN (SIFT_CONTROL_PLANE_DSN / '' @
         ''control-plane.env) and restart the gateway.''))]"

definition control_plane_required :: "gateway \<Rightarrow> handler \<Rightarrow> handler" where
  "control_plane_required g nxt sc rq st =
     (if present (gw_dsn g) then nxt sc rq st
      else (Inr (text_result (gw_dumps_indent g) (control_plane_payload (rq_name rq)) True),
            write_log \<lparr>lg_tool = rq_name rq, lg_summary = ''blocked: control_plane_unavailable'',
              lg_source = ''gateway_control_plane_required'', lg_extra = [], lg_examiner = None, lg_elapsed = GNull\<rparr> st))"

section \<open>The caller\<close>

definition RATE_AUDIT_INTERVAL :: int where "RATE_AUDIT_INTERVAL = 5"

definition log_rate_limit_violation :: "call_scope \<Rightarrow> string \<Rightarrow> gval \<Rightarrow> identity \<Rightarrow> gw_state \<Rightarrow> gw_state" where
  "log_rate_limit_violation sc key ip i st =
     (let last_log = (case map_of (st_last429 st) key of Some t \<Rightarrow> t | None \<Rightarrow> 0) in
      if sc_now sc - last_log \<ge> RATE_AUDIT_INTERVAL
      then write_log \<lparr>lg_tool = ''rate_limit'', lg_summary = ''rate_limited'', lg_source = ''gateway_rate_limiter'',
             lg_extra = fields [(''source_ip'', ip), (''status'', GStr ''rate_limited''), (''principal'', GStr (principal i)),
               (''principal_type'', GStr (principal_type i)), (''agent_id'', agent_id i), (''created_by'', created_by i),
               (''auth_surface'', GStr (auth_surface i)), (''role'', GStr (id_role i)), (''token_id'', token_id i)],
             lg_examiner = None, lg_elapsed = GNull\<rparr>
             (st\<lparr>st_last429 := AList.update key (sc_now sc) (st_last429 st)\<rparr>)
      else st)"

definition tool_payload :: "string \<Rightarrow> string \<Rightarrow> string \<Rightarrow> gval" where
  "tool_payload err name detail = str_dict [(''error'', GStr err), (''tool'', GStr name), (''detail'', GStr detail)]"

definition deny_tool :: "gateway \<Rightarrow> call_scope \<Rightarrow> string \<Rightarrow> string \<Rightarrow> gw_state \<Rightarrow> answer" where
  "deny_tool g sc name why st =
     (Inr (text_result (gw_dumps g) (tool_payload ''tool_not_authorized'' name ''principal lacks an active tool scope for this tool'') True),
      write_log (denial sc name ''gateway_tool_authz'' why []) st)"

definition tool_authorization :: "gateway \<Rightarrow> handler \<Rightarrow> handler" where
  "tool_authorization g nxt sc rq st =
     (case sc_identity sc of
        None \<Rightarrow> if gw_auth_enabled g then deny_tool g sc (rq_name rq) ''no_identity'' st else nxt sc rq st
      | Some i \<Rightarrow>
          (let q = check_examiner_rate_limit (sc_now sc) (principal i) (st_rates st);
               st1 = st\<lparr>st_rates := fst q\<rparr>
           in if \<not> snd q
              then (Inr (text_result (gw_dumps g)
                      (tool_payload ''rate_limit_exceeded'' (rq_name rq) ''per-principal MCP rate limit exceeded'') True),
                    log_rate_limit_violation sc (''examiner:'' @ principal i) (or_else (Some (source_ip i)) (GStr ''unknown'')) i st1)
              else if is_tool_allowed (Some i) (rq_name rq) then nxt sc rq st1
              else deny_tool g sc (rq_name rq) ''tool_scope'' st1))"

text \<open>What a caller is shown of the catalogue.\<close>

definition list_tools :: "gateway \<Rightarrow> identity option \<Rightarrow> string list \<Rightarrow> string list" where
  "list_tools g who names =
     (case who of None \<Rightarrow> if gw_auth_enabled g then [] else names | Some i \<Rightarrow> filter (is_tool_allowed (Some i)) names)"

section \<open>Add-ons\<close>

definition PROHIBITED_OP_ARG_KEYS :: "string list" where
  "PROHIBITED_OP_ARG_KEYS = [''operation'', ''action'', ''op'', ''command'', ''mode'']"

definition attempted_prohibited_operations :: "string \<Rightarrow> (gkey \<times> gval) list \<Rightarrow> string list \<Rightarrow> string list" where
  "attempted_prohibited_operations name args prohibited =
     (if name \<in> set prohibited then [name] else []) @
     concat (map (\<lambda>k. case gget args k of Some (GStr v) \<Rightarrow> if v \<in> set prohibited then [v] else [] | _ \<Rightarrow> []) PROHIBITED_OP_ARG_KEYS)"

definition sorted_set :: "string list \<Rightarrow> gval" where
  "sorted_set xs = GList (map GStr (sort (remdups xs)))"

definition deny_addon :: "gateway \<Rightarrow> call_scope \<Rightarrow> string \<Rightarrow> string \<Rightarrow> string \<Rightarrow> (gkey \<times> gval) list \<Rightarrow> gw_state \<Rightarrow> answer" where
  "deny_addon g sc name why detail extra st =
     (Inr (text_result (gw_dumps g)
        (GDict (put_fields extra (fields [(''error'', GStr why), (''tool'', GStr name), (''detail'', GStr detail)]))) True),
      write_log (denial sc name ''gateway_addon_authority'' why extra) st)"

definition addon_authority :: "gateway \<Rightarrow> handler \<Rightarrow> handler" where
  "addon_authority g nxt sc rq st =
     (case addon_authority_for_tool (gw_surface g) (rq_name rq) of
        None \<Rightarrow> nxt sc rq st
      | Some p \<Rightarrow>
          (let missing = filter (\<lambda>s. \<not> is_scope_satisfied (sc_identity sc) s) (ap_required_scopes p);
               prohibited = filter (\<lambda>op. op \<noteq> []) (ap_prohibited p);
               attempted = attempted_prohibited_operations (rq_name rq) (tool_args rq) prohibited
           in if missing \<noteq> [] then
                deny_addon g sc (rq_name rq) ''addon_scope_missing''
                  (''principal is missing add-on tool scope(s) required by '' @ ''this backend tool'')
                  (fields [(''missing_scopes'', GList (map GStr (sort missing)))]) st
              else if attempted \<noteq> [] then
                deny_addon g sc (rq_name rq) ''addon_prohibited_operation''
                  (''add-on backend is non-authoritative and may not perform '' @ ''this authority operation'')
                  (fields [(''prohibited_operations'', sorted_set attempted), (''non_authoritative'', GBool (ap_non_authoritative p))]) st
              else nxt sc rq st))"

section \<open>The case\<close>

definition CASE_CONTEXT_RESPONSE_TOOLS :: "string list" where
  "CASE_CONTEXT_RESPONSE_TOOLS = [''case_info'', ''evidence_info'', ''capability_guide'']"

text \<open>\<open>_build_case_context\<close> and \<open>_append_case_context\<close>, used when there is no case service.\<close>

definition build_case_context :: "gateway \<Rightarrow> string \<Rightarrow> path_error + gval option" where
  "build_case_context g dir =
     (if dir = [] then Inr None
      else res_bind (resolve (gw_host g) (parse_path dir)) (\<lambda>p.
        Inr (Some (str_dict [(''id'', GStr (case_id_from_dir (gw_host g) p)), (''evidence_dir'', GStr ''evidence''), (''agent_dir'', GStr ''agent'')]))))"

definition append_case_context :: "gateway \<Rightarrow> item list \<Rightarrow> string \<Rightarrow> string \<Rightarrow> path_error + item list" where
  "append_case_context g items dir name =
     res_bind (build_case_context g dir) (\<lambda>ctx. Inr (case ctx of
         None \<Rightarrow> items
       | Some c \<Rightarrow> if name = ''case_info'' then items @ [TextItem (gw_dumps_indent g (str_dict [(''_case'', c)]))] else items))"

definition core_context_of :: "call_scope \<Rightarrow> case_row \<Rightarrow> bool \<Rightarrow> core_context" where
  "core_context_of sc c db =
     \<lparr>cx_case_id = cr_id c, cx_case_key = cr_key c, cx_artifact_path = cr_artifact_path c, cx_role = cr_role c,
      cx_principal = examiner_of sc, cx_principal_type = map_option principal_type (sc_identity sc),
      cx_scopes = (case sc_identity sc of Some i \<Rightarrow> tool_scopes i | None \<Rightarrow> []), cx_request_id = sc_request_id sc, cx_db_active = db\<rparr>"

definition with_case :: "case_row option \<Rightarrow> bool \<Rightarrow> call_scope \<Rightarrow> call_scope" where
  "with_case c db sc = sc\<lparr>sc_case := c, sc_core := map_option (\<lambda>c. core_context_of sc c db) c\<rparr>"

definition case_lookup :: "gateway \<Rightarrow> identity option \<Rightarrow> case_error + case_row option" where
  "case_lookup g who = (case gw_case_service g of None \<Rightarrow> Inr None | Some service \<Rightarrow> res_bind (service who) (\<lambda>c. Inr (Some c)))"

definition add_case_text :: "gateway \<Rightarrow> case_row option \<Rightarrow> string \<Rightarrow> tool_result \<Rightarrow> failure + tool_result" where
  "add_case_text g c name r =
     (if name \<notin> set CASE_CONTEXT_RESPONSE_TOOLS then Inr r
      else case c of
        Some c \<Rightarrow> Inr (r\<lparr>content := content r @ [case_text g c name]\<rparr>)
      | None \<Rightarrow>
          if gw_case_service g = None
          then (case append_case_context g (content r) (getenv (gw_host g) ''SIFT_CASE_DIR'') name of
                  Inl e \<Rightarrow> Inl (PathFailure e) | Inr items \<Rightarrow> Inr (r\<lparr>content := items\<rparr>))
          else Inr r)"

definition run_in_case :: "gateway \<Rightarrow> case_row option \<Rightarrow> handler \<Rightarrow> handler" where
  "run_in_case g c nxt sc rq st =
     (case nxt (with_case c (gw_case_service g \<noteq> None) sc) rq st of
        (Inl e, st') \<Rightarrow> (Inl e, st')
      | (Inr r, st') \<Rightarrow> (add_case_text g c (rq_name rq) r, st'))"

definition case_context :: "gateway \<Rightarrow> handler \<Rightarrow> handler" where
  "case_context g nxt sc rq st =
     (case case_lookup g (sc_identity sc) of
        Inr c \<Rightarrow> run_in_case g c nxt sc rq st
      | Inl CaseFailed \<Rightarrow> (Inl ServiceFailure, st)
      | Inl (CaseDenied why) \<Rightarrow>
          if is_case_scoped_tool (gw_surface g) (rq_name rq)
          then (Inr (error_result g ''active_case_denied'' why (rq_name rq)), write_log (denial sc (rq_name rq) ''gateway_active_case'' why []) st)
          else run_in_case g None nxt sc rq st)"

section \<open>What comes through\<close>

text \<open>\<open>passes nxt st st' P\<close>: the state \<open>st'\<close> was left by the next handler, called with a context, a request and a state for which
  \<open>P\<close> holds, as far as the calls to backends go; rows of the audit table are only added.\<close>

definition passes ::
  "handler \<Rightarrow> gw_state \<Rightarrow> gw_state \<Rightarrow> (call_scope \<Rightarrow> tool_request \<Rightarrow> gw_state \<Rightarrow> bool) \<Rightarrow> bool" where
  "passes nxt st st' P \<longleftrightarrow> (\<exists>sc1 rq1 st1. P sc1 rq1 st1 \<and> st_calls st1 = st_calls st \<and>
     st_calls st' = st_calls (snd (nxt sc1 rq1 st1)) \<and> prefix (st_rows (snd (nxt sc1 rq1 st1))) (st_rows st'))"

lemma passesI:
  "P sc1 rq1 st1 \<Longrightarrow> st_calls st1 = st_calls st \<Longrightarrow> st_calls st' = st_calls (snd (nxt sc1 rq1 st1)) \<Longrightarrow>
     prefix (st_rows (snd (nxt sc1 rq1 st1))) (st_rows st') \<Longrightarrow> passes nxt st st' P"
  by (auto simp: passes_def)

lemma passesE:
  assumes "passes nxt st st' P"
  obtains sc1 rq1 st1 where "P sc1 rq1 st1" "st_calls st1 = st_calls st" "st_calls st' = st_calls (snd (nxt sc1 rq1 st1))"
    "prefix (st_rows (snd (nxt sc1 rq1 st1))) (st_rows st')"
  using assms by (auto simp: passes_def)

lemma log_rate_calls [simp]: "st_calls (log_rate_limit_violation sc key ip i st) = st_calls st"
  by (simp add: log_rate_limit_violation_def Let_def)

lemma deny_calls [simp]: "st_calls (snd (deny_tool g sc name why st)) = st_calls st" "st_calls (snd (deny_addon g sc name why d x st)) = st_calls st"
  by (simp_all add: deny_tool_def deny_addon_def)

lemma control_plane_passes:
  "st_calls (snd (control_plane_required g nxt sc rq st)) \<noteq> st_calls st \<Longrightarrow>
     passes nxt st (snd (control_plane_required g nxt sc rq st)) (\<lambda>sc1 rq1 st1. present (gw_dsn g) \<and> sc1 = sc \<and> rq1 = rq \<and> st1 = st)"
  by (auto simp: control_plane_required_def passes_def split: if_splits)

lemma authorization_passes:
  assumes "st_calls (snd (tool_authorization g nxt sc rq st)) \<noteq> st_calls st"
  shows "passes nxt st (snd (tool_authorization g nxt sc rq st)) (\<lambda>sc1 rq1 st1. sc1 = sc \<and> rq1 = rq \<and> st_rows st1 = st_rows st \<and>
       (case sc_identity sc of
          None \<Rightarrow> \<not> gw_auth_enabled g
        | Some i \<Rightarrow> is_tool_allowed (Some i) (rq_name rq) \<and> snd (check_examiner_rate_limit (sc_now sc) (principal i) (st_rates st))))"
proof (cases "sc_identity sc")
  case None
  with assms show ?thesis by (auto simp: tool_authorization_def passes_def split: if_splits)
next
  case (Some i)
  show ?thesis
    by (rule passesI [of _ sc rq "st\<lparr>st_rates := fst (check_examiner_rate_limit (sc_now sc) (principal i) (st_rates st))\<rparr>"])
      (use assms Some in \<open>auto simp: tool_authorization_def Let_def split: if_splits\<close>)
qed

lemma filter_none: "filter P xs = [] \<longleftrightarrow> (\<forall>x \<in> set xs. \<not> P x)"
  by (auto simp: filter_empty_conv)

lemma addon_passes:
  "st_calls (snd (addon_authority g nxt sc rq st)) \<noteq> st_calls st \<Longrightarrow>
     passes nxt st (snd (addon_authority g nxt sc rq st)) (\<lambda>sc1 rq1 st1. sc1 = sc \<and> rq1 = rq \<and> st1 = st \<and>
       (\<forall>p. addon_authority_for_tool (gw_surface g) (rq_name rq) = Some p \<longrightarrow>
          (\<forall>s \<in> set (ap_required_scopes p). is_scope_satisfied (sc_identity sc) s) \<and>
          attempted_prohibited_operations (rq_name rq) (tool_args rq) (filter (\<lambda>op. op \<noteq> []) (ap_prohibited p)) = []))"
  by (auto simp: addon_authority_def passes_def Let_def filter_none split: option.splits if_splits)

lemma run_in_case_snd: "snd (run_in_case g c nxt sc rq st) = snd (nxt (with_case c (gw_case_service g \<noteq> None) sc) rq st)"
  by (auto simp: run_in_case_def split: prod.split sum.split)

lemma case_passes:
  assumes "st_calls (snd (case_context g nxt sc rq st)) \<noteq> st_calls st"
  shows "passes nxt st (snd (case_context g nxt sc rq st)) (\<lambda>sc1 rq1 st1. \<exists>c. rq1 = rq \<and> st1 = st \<and>
     sc1 = with_case c (gw_case_service g \<noteq> None) sc \<and>
     (case c of Some c \<Rightarrow> case_lookup g (sc_identity sc) = Inr (Some c)
      | None \<Rightarrow> gw_case_service g = None \<or> \<not> is_case_scoped_tool (gw_surface g) (rq_name rq)))"
  using assms
  by (auto simp: case_context_def passes_def run_in_case_snd case_lookup_def split: sum.splits case_error.splits option.splits if_splits)

end
