(* ===== verification/Gateway_Binding.thy ===== *)
theory Gateway_Binding
  imports Gateway_Access
begin

text \<open>
  The middlewares that tie a call to the active case and to sealed evidence (\<open>ProxyActiveCaseMiddleware\<close> and \<open>EvidenceGateMiddleware\<close> of
  \<open>sift_gateway/policy_middleware.py\<close>): arguments that name the case are set, arguments that must stay within it are checked, the custody
  gate is asked, every reference is resolved to a sealed version and bound to the call.
\<close>

section \<open>Case arguments\<close>

definition index_prefix :: "case_row \<Rightarrow> string option" where
  "index_prefix c =
     (case cr_artifact_path c of None \<Rightarrow> None | Some p \<Rightarrow> if p = [] then None else Some (active_case_index_prefix p))"

definition deny_proxy :: "gateway \<Rightarrow> call_scope \<Rightarrow> case_row \<Rightarrow> string \<Rightarrow> string \<Rightarrow> string \<Rightarrow> string \<Rightarrow> gw_state \<Rightarrow> answer" where
  "deny_proxy g sc c name why err detail st =
     (Inr (error_result g err detail name), write_log (denial sc name ''gateway_proxy_active_case'' why (case_extra (Some c))) st)"

text \<open>The first segment that is empty or outside the case, with its reason.\<close>

fun bad_segment :: "string \<Rightarrow> string list \<Rightarrow> (string \<times> string) option" where
  "bad_segment p [] = None"
| "bad_segment p (raw # raws) =
     (let seg = strip raw in
      if seg = [] then Some (''case_bound_empty_segment'', '' contains an empty segment (cross-case access denied)'')
      else if \<not> startswith seg p
      then Some (''case_bound_cross_case'', '' segment '' @ [apostrophe] @ seg @ [apostrophe] @ '' is outside the DB active case (cross-case access denied)'')
      else bad_segment p raws)"

text \<open>The first argument that may leave the case: its name, the reason and the message.\<close>

fun unbound_argument :: "(gval \<Rightarrow> string) \<Rightarrow> string option \<Rightarrow> (gkey \<times> gval) list \<Rightarrow> string list \<Rightarrow> (string \<times> string \<times> string) option" where
  "unbound_argument shown p args [] = None"
| "unbound_argument shown p args (key # ks) =
     (case gget args key of
        None \<Rightarrow> unbound_argument shown p args ks
      | Some v \<Rightarrow>
          if \<not> gtruthy v then unbound_argument shown p args ks
          else case p of
            None \<Rightarrow> Some (key, ''case_bound_prefix_unresolved'', '' cannot be bound to the active case (cross-case access denied)'')
          | Some p' \<Rightarrow>
              (case bad_segment p' (split_char (CHR '','') (py_str shown v)) of
                 Some (why, detail) \<Rightarrow> Some (key, why, detail)
               | None \<Rightarrow> unbound_argument shown p args ks))"

definition case_values :: "case_row \<Rightarrow> (string \<times> string) list" where
  "case_values c = [(''case_id'', cr_id c), (''case_key'', cr_key c),
     (''case_dir'', case cr_artifact_path c of Some p \<Rightarrow> p | None \<Rightarrow> [])]"

text \<open>The loop that sets the safe arguments; the left value is the argument with which the client names another case.\<close>

fun inject_case :: "(gval \<Rightarrow> string) \<Rightarrow> string list \<Rightarrow> (string \<times> string) list \<Rightarrow> tool_request \<Rightarrow> string + tool_request" where
  "inject_case shown safe [] rq = Inr rq"
| "inject_case shown safe ((key, expected) # kvs) rq =
     (if key \<notin> set safe then inject_case shown safe kvs rq
      else case gget (tool_args rq) key of
        Some v \<Rightarrow> if gtruthy v \<and> py_str shown v \<noteq> expected then Inl key else inject_case shown safe kvs (set_arg key (GStr expected) rq)
      | None \<Rightarrow> inject_case shown safe kvs (set_arg key (GStr expected) rq))"

definition bind_case_arguments :: "gateway \<Rightarrow> handler \<Rightarrow> case_row \<Rightarrow> handler" where
  "bind_case_arguments g nxt c sc rq st =
     (case safe_case_argument_names (gw_surface g) (rq_name rq) of
        None \<Rightarrow> deny_proxy g sc c (rq_name rq) ''proxy_requires_implicit_case'' ''active_case_proxy_denied''
                  ''proxied case-scoped tool does not expose a safe case_id/case_key argument'' st
      | Some safe \<Rightarrow>
          if safe = [] then nxt sc rq st
          else case inject_case (gw_shown g) safe (case_values c) rq of
            Inl key \<Rightarrow> deny_proxy g sc c (rq_name rq) ''client_case_mismatch'' ''active_case_mismatch''
                (''client-supplied '' @ key @ '' does not match the DB active case'') st
          | Inr rq' \<Rightarrow> nxt sc rq' st)"

definition proxied_case_tool :: "gateway \<Rightarrow> string \<Rightarrow> bool" where
  "proxied_case_tool g name \<longleftrightarrow>
     \<not> (name \<in> set core_tool_names \<or> name \<in> set (local_tools (gw_surface g)) \<or> \<not> is_case_scoped_tool (gw_surface g) name)"

definition proxy_active_case :: "gateway \<Rightarrow> handler \<Rightarrow> handler" where
  "proxy_active_case g nxt sc rq st =
     (if \<not> proxied_case_tool g (rq_name rq) then nxt sc rq st
      else case sc_case sc of
        None \<Rightarrow> nxt sc rq st
      | Some c \<Rightarrow>
          (case unbound_argument (gw_shown g) (index_prefix c) (tool_args rq) (case_bound_argument_names (gw_surface g) (rq_name rq)) of
             Some (key, why, detail) \<Rightarrow>
               deny_proxy g sc c (rq_name rq) why ''invalid_input'' (''client-supplied '' @ key @ detail) st
           | None \<Rightarrow> bind_case_arguments g nxt c sc rq st))"

section \<open>Sealed evidence\<close>

definition case_dir_of :: "case_row \<Rightarrow> string option" where
  "case_dir_of c = (case cr_artifact_path c of Some p \<Rightarrow> if p = [] then None else Some p | None \<Rightarrow> None)"

definition gate_of :: "gateway \<Rightarrow> case_row \<Rightarrow> gate_result" where
  "gate_of g c =
     check_evidence_gate_db (gw_reconcile_db g) (gw_state_db g) (gw_scan g) (Some (cr_id c)) (gw_dsn g) (case_dir_of c)"

definition admit :: "gateway \<Rightarrow> case_row \<Rightarrow> string \<Rightarrow> evidence_binding option" where
  "admit g c ref = resolve_sealed_version (gw_sealed g) (gw_lstat g) (Some (cr_id c)) ref (case_dir_of c) (gw_dsn g)"

fun admit_all :: "gateway \<Rightarrow> case_row \<Rightarrow> string list \<Rightarrow> (string \<times> evidence_binding) list option" where
  "admit_all g c [] = Some []"
| "admit_all g c (ref # refs) =
     (case admit g c ref of
        None \<Rightarrow> None
      | Some b \<Rightarrow> map_option (\<lambda>bs. (ref, b) # bs) (admit_all g c refs))"

text \<open>Direct references are replaced by the path of the sealed version; the text of a command stays.\<close>

fun normalize_arguments :: "(string \<times> evidence_binding) list \<Rightarrow> (string \<times> string list) list \<Rightarrow> tool_request \<Rightarrow> tool_request" where
  "normalize_arguments resolved [] rq = rq"
| "normalize_arguments resolved ((key, refs) # more') rq =
     (if key = ''command'' then normalize_arguments resolved more' rq
      else let paths = map (\<lambda>ref. case map_of resolved ref of Some b \<Rightarrow> eb_display_path b | None \<Rightarrow> []) refs;
               v = (case gget (tool_args rq) key of Some (GStr s) \<Rightarrow> GStr (hd paths) | _ \<Rightarrow> GList (map GStr paths))
           in normalize_arguments resolved more' (set_arg key v rq))"

definition denied_gate :: "string \<Rightarrow> chain_status \<Rightarrow> string \<Rightarrow> gate_result \<Rightarrow> gate_result" where
  "denied_gate state stat issue gate =
     \<lparr>blocked = True, gate_state = state, status = stat, issues = [issue], manifest_version = manifest_version gate\<rparr>"

fun chain_status_value :: "chain_status \<Rightarrow> string" where
  "chain_status_value OK = ''ok''"
| "chain_status_value UNSEALED = ''unsealed''"
| "chain_status_value MODIFIED = ''modified''"
| "chain_status_value MISSING = ''missing''"
| "chain_status_value UNREGISTERED = ''unregistered''"
| "chain_status_value LEDGER_ERROR = ''ledger_error''"

text \<open>In a formatted string the member of the enumeration prints its name.\<close>

fun chain_status_shown :: "chain_status \<Rightarrow> string" where
  "chain_status_shown OK = ''ChainStatus.OK''"
| "chain_status_shown UNSEALED = ''ChainStatus.UNSEALED''"
| "chain_status_shown MODIFIED = ''ChainStatus.MODIFIED''"
| "chain_status_shown MISSING = ''ChainStatus.MISSING''"
| "chain_status_shown UNREGISTERED = ''ChainStatus.UNREGISTERED''"
| "chain_status_shown LEDGER_ERROR = ''ChainStatus.LEDGER_ERROR''"

definition block_value :: "string \<Rightarrow> gate_result \<Rightarrow> gval" where
  "block_value name gate =
     (let b = build_block_response name gate in str_dict
        [(''blocked'', GBool (br_blocked b)), (''reason'', GStr (br_reason b)), (''tool'', GStr (br_tool b)),
         (''status'', GStr (chain_status_value (br_status b))), (''gate_state'', GStr (br_gate_state b)),
         (''issues'', GList (map GStr (br_issues b))), (''manifest_version'', GNum (br_manifest_version b)),
         (''detail'', GStr (br_detail b)), (''remediation'', GStr (br_remediation b))])"

definition block_call :: "gateway \<Rightarrow> call_scope \<Rightarrow> case_row \<Rightarrow> string \<Rightarrow> gate_result \<Rightarrow> gw_state \<Rightarrow> answer" where
  "block_call g sc c name gate st =
     (Inr \<lparr>content = [TextItem (gw_dumps_indent g (block_value name gate)), case_text g c name],
           structured = Some (block_value name gate), meta = None, is_error = True\<rparr>,
      write_log \<lparr>lg_tool = name, lg_summary = ''blocked: evidence_chain_'' @ chain_status_shown (status gate), lg_source = ''gateway_evidence_gate'',
        lg_extra = stamp_identity_extra sc (request_fields sc @ fields [(''evidence_chain_status'', GStr (chain_status_value (status gate))),
          (''issues'', GList (map GStr (issues gate))), (''manifest_version'', GNum (manifest_version gate))] @ case_extra (Some c)),
        lg_examiner = examiner_of sc, lg_elapsed = GNull\<rparr> st)"

definition all_references :: "(string \<times> string list) list \<Rightarrow> string list" where
  "all_references by_argument = first_seen [] (concat (map snd by_argument))"

text \<open>The context of the call while it runs: the versions admitted, the token of the inventory, the authority of
  the first version, and, for commands, the check that is made again at the last open.\<close>

definition bound_scope :: "string \<Rightarrow> (string \<times> evidence_binding) list \<Rightarrow> string \<Rightarrow> call_scope \<Rightarrow> call_scope" where
  "bound_scope name resolved token sc =
     sc\<lparr>sc_admitted := map snd resolved, sc_inventory := token,
        sc_authority := Some (current_storage_authority (case resolved of [] \<Rightarrow> None | r # rs \<Rightarrow> Some (snd r))),
        sc_revalidates := ''command'' \<in> set (declared_arguments name) \<or> sc_revalidates sc\<rparr>"

definition run_admitted :: "gateway \<Rightarrow> handler \<Rightarrow> case_row \<Rightarrow> gate_result \<Rightarrow> (string \<times> string list) list \<Rightarrow> handler" where
  "run_admitted g nxt c gate by_argument sc rq st =
     (case admit_all g c (all_references by_argument) of
        None \<Rightarrow> block_call g sc c (rq_name rq)
                  (denied_gate ''BLOCKED_PENDING'' UNSEALED ''Evidence input is not an active sealed version'' gate) st
      | Some resolved \<Rightarrow>
          (case gw_inventory_token g (case case_dir_of c of Some d \<Rightarrow> d | None \<Rightarrow> []) of
             None \<Rightarrow> block_call g sc c (rq_name rq)
                       (denied_gate ''BLOCKED_UNAVAILABLE'' MISSING ''Evidence inventory reconciliation unavailable'' gate) st
           | Some token \<Rightarrow> nxt (bound_scope (rq_name rq) resolved token sc) (normalize_arguments resolved by_argument rq) st))"

definition evidence_gate :: "gateway \<Rightarrow> handler \<Rightarrow> handler" where
  "evidence_gate g nxt sc rq st =
     (case sc_case sc of
        None \<Rightarrow> nxt sc rq st
      | Some c \<Rightarrow>
          if blocked (gate_of g c) then block_call g sc c (rq_name rq) (gate_of g c) st
          else case evidence_references_for_tool (gw_host g) (gw_shown g) (rq_name rq) (tool_args rq)
                   (case case_dir_of c of Some d \<Rightarrow> d | None \<Rightarrow> []) of
            Inl e \<Rightarrow> (Inl (ReferenceFailure e), st)
          | Inr by_argument \<Rightarrow> run_admitted g nxt c (gate_of g c) by_argument sc rq st)"

section \<open>What comes through\<close>

lemma block_calls [simp]: "st_calls (snd (block_call g sc c name gate st)) = st_calls st"
  "st_calls (snd (deny_proxy g sc c name why err detail st)) = st_calls st"
  by (simp_all add: block_call_def deny_proxy_def)

lemma rq_name_set_arg [simp]: "rq_name (set_arg k v rq) = rq_name rq"
  by (simp add: set_arg_def)

lemma args_kept [simp]: "rq_args (set_arg k v rq) = None \<longleftrightarrow> rq_args rq = None"
  by (simp add: set_arg_def)

lemma rq_name_inject: "inject_case shown safe kvs rq = Inr rq' \<Longrightarrow> rq_name rq' = rq_name rq"
  by (induction shown safe kvs rq rule: inject_case.induct) (auto split: if_splits option.splits)

lemma injected_args: "inject_case shown safe kvs rq = Inr rq' \<Longrightarrow> rq_args rq' = None \<longleftrightarrow> rq_args rq = None"
  by (induction shown safe kvs rq rule: inject_case.induct) (auto split: if_splits option.splits)

lemma rq_name_normalize [simp]: "rq_name (normalize_arguments resolved kvs rq) = rq_name rq"
  by (induction resolved kvs rq rule: normalize_arguments.induct) (auto simp: Let_def)

lemma gget_set_arg: "rq_args rq \<noteq> None \<Longrightarrow> gget (tool_args (set_arg k v rq)) j = (if j = k then Some v else gget (tool_args rq) j)"
  by (auto simp: gget_def tool_args_def set_arg_def update_conv')

lemma injected_other: "inject_case shown safe kvs rq = Inr rq' \<Longrightarrow> rq_args rq \<noteq> None \<Longrightarrow> k \<notin> fst ` set kvs \<Longrightarrow>
    gget (tool_args rq') k = gget (tool_args rq) k \<and> rq_args rq' \<noteq> None"
  by (induction shown safe kvs rq rule: inject_case.induct) (auto simp: gget_set_arg split: if_splits option.splits)

lemma injected:
  "inject_case shown safe kvs rq = Inr rq' \<Longrightarrow> rq_args rq \<noteq> None \<Longrightarrow> distinct (map fst kvs) \<Longrightarrow> (k, v) \<in> set kvs \<Longrightarrow> k \<in> set safe \<Longrightarrow>
     gget (tool_args rq') k = Some (GStr v)"
proof (induction shown safe kvs rq rule: inject_case.induct)
  case (2 shown safe key expected kvs rq)
  show ?case
  proof (cases "key \<in> set safe")
    case True
    then have it: "inject_case shown safe kvs (set_arg key (GStr expected) rq) = Inr rq'"
      using 2(4) by (auto split: option.splits if_splits)
    show ?thesis
    proof (cases "k = key")
      case k: True
      then have "v = expected" using 2(6,7) by force
      with k injected_other [OF it, of k] 2(5,6) show ?thesis by (simp add: gget_set_arg)
    next
      case False
      with 2 it True show ?thesis by (auto split: option.splits if_splits)
    qed
  next
    case False
    with 2 show ?thesis by auto
  qed
qed simp

lemma bad_segment_none: "bad_segment p raws = None \<longleftrightarrow> (\<forall>raw \<in> set raws. strip raw \<noteq> [] \<and> startswith (strip raw) p)"
  by (induction p raws rule: bad_segment.induct) (auto simp: Let_def)

definition within_case :: "(gval \<Rightarrow> string) \<Rightarrow> string option \<Rightarrow> gval \<Rightarrow> bool" where
  "within_case shown p v \<longleftrightarrow>
     (\<exists>p'. p = Some p' \<and> (\<forall>raw \<in> set (split_char (CHR '','') (py_str shown v)). strip raw \<noteq> [] \<and> startswith (strip raw) p'))"

lemma unbound_argument_none:
  "unbound_argument shown p args ks = None \<longleftrightarrow> (\<forall>k \<in> set ks. \<forall>v. gget args k = Some v \<longrightarrow> gtruthy v \<longrightarrow> within_case shown p v)"
proof (induction shown p args ks rule: unbound_argument.induct)
  case (2 shown p args key ks)
  show ?case
  proof (cases "gget args key")
    case None
    with 2(1) show ?thesis by simp
  next
    case (Some v)
    show ?thesis
    proof (cases "gtruthy v")
      case False
      with 2(2) [OF Some] Some show ?thesis by simp
    next
      case True
      show ?thesis
      proof (cases p)
        case None
        with Some True show ?thesis by (auto simp: within_case_def)
      next
        case p: (Some p')
        have "within_case shown p v \<longleftrightarrow> bad_segment p' (split_char (CHR '','') (py_str shown v)) = None"
          by (simp add: within_case_def p bad_segment_none)
        with Some True p 2(3) [OF Some] show ?thesis by (auto split: option.split)
      qed
    qed
  qed
qed simp

lemma distinct_case_values: "distinct (map fst (case_values c))" "fst ` set (case_values c) = {''case_id'', ''case_key'', ''case_dir''}"
  by (simp_all add: case_values_def)

text \<open>What the request that is sent on has: every safe argument names the active case, the others are the client's.\<close>

definition names_case :: "gateway \<Rightarrow> case_row \<Rightarrow> tool_request \<Rightarrow> tool_request \<Rightarrow> bool" where
  "names_case g c rq rq1 \<longleftrightarrow>
     (\<exists>safe. safe_case_argument_names (gw_surface g) (rq_name rq) = Some safe \<and>
       (rq_args rq \<noteq> None \<longrightarrow>
          (\<forall>k v. (k, v) \<in> set (case_values c) \<longrightarrow> k \<in> set safe \<longrightarrow> gget (tool_args rq1) k = Some (GStr v)) \<and>
          (\<forall>k. k \<notin> {''case_id'', ''case_key'', ''case_dir''} \<longrightarrow> gget (tool_args rq1) k = gget (tool_args rq) k)))"

definition bound_arguments_within :: "gateway \<Rightarrow> case_row \<Rightarrow> tool_request \<Rightarrow> bool" where
  "bound_arguments_within g c rq \<longleftrightarrow>
     (\<forall>k \<in> set (case_bound_argument_names (gw_surface g) (rq_name rq)). \<forall>v.
        gget (tool_args rq) k = Some v \<longrightarrow> gtruthy v \<longrightarrow> within_case (gw_shown g) (index_prefix c) v)"

lemma proxy_passes:
  assumes "st_calls (snd (proxy_active_case g nxt sc rq st)) \<noteq> st_calls st"
  shows "passes nxt st (snd (proxy_active_case g nxt sc rq st)) (\<lambda>sc1 rq1 st1.
     sc1 = sc \<and> st1 = st \<and> rq_name rq1 = rq_name rq \<and> (rq_args rq1 = None \<longleftrightarrow> rq_args rq = None) \<and>
     (if proxied_case_tool g (rq_name rq)
      then \<forall>c. sc_case sc = Some c \<longrightarrow> names_case g c rq rq1 \<and> bound_arguments_within g c rq
      else rq1 = rq))"
proof (cases "proxied_case_tool g (rq_name rq)")
  case True
  show ?thesis
  proof (cases "sc_case sc")
    case None
    with True show ?thesis by (intro passesI [of _ sc rq st]) (auto simp: proxy_active_case_def)
  next
    case (Some c)
    let ?args = "case_bound_argument_names (gw_surface g) (rq_name rq)"
    from assms True Some have bound: "unbound_argument (gw_shown g) (index_prefix c) (tool_args rq) ?args = None"
      by (auto simp: proxy_active_case_def split: option.splits)
    then have it: "proxy_active_case g nxt sc rq st = bind_case_arguments g nxt c sc rq st"
      using True Some by (simp add: proxy_active_case_def)
    have within: "bound_arguments_within g c rq"
      using bound by (simp add: unbound_argument_none bound_arguments_within_def)
    from assms obtain safe where safe: "safe_case_argument_names (gw_surface g) (rq_name rq) = Some safe"
      by (auto simp: it bind_case_arguments_def split: option.splits)
    show ?thesis
    proof (cases "safe = []")
      case empty: True
      then have "names_case g c rq rq" using safe by (simp add: names_case_def)
      moreover have "proxy_active_case g nxt sc rq st = nxt sc rq st" using it safe empty by (simp add: bind_case_arguments_def)
      ultimately show ?thesis using True Some within by (intro passesI [of _ sc rq st]) auto
    next
      case nonempty: False
      from assms safe nonempty obtain rq1 where rq1: "inject_case (gw_shown g) safe (case_values c) rq = Inr rq1"
        by (auto simp: it bind_case_arguments_def split: sum.splits)
      have "names_case g c rq rq1"
        using safe injected [OF rq1 _ distinct_case_values(1)] injected_other [OF rq1] by (auto simp: names_case_def distinct_case_values(2))
      moreover have "rq_args rq1 = None \<longleftrightarrow> rq_args rq = None"
        by (rule injected_args [OF rq1])
      moreover have "proxy_active_case g nxt sc rq st = nxt sc rq1 st" using it safe nonempty rq1 by (simp add: bind_case_arguments_def)
      ultimately show ?thesis using True Some within rq_name_inject [OF rq1] by (intro passesI [of _ sc rq1 st]) auto
    qed
  qed
qed (auto simp: proxy_active_case_def intro!: passesI [of _ sc rq st])

lemma normalize_other:
  "key \<notin> fst ` set by_argument \<Longrightarrow> rq_args rq \<noteq> None \<Longrightarrow> gget (tool_args (normalize_arguments resolved by_argument rq)) key = gget (tool_args rq) key"
  by (induction resolved by_argument rq rule: normalize_arguments.induct) (auto simp: Let_def gget_set_arg)

lemma admit_all_Some: "admit_all g c refs = Some resolved \<Longrightarrow> map fst resolved = refs \<and> (\<forall>(ref, b) \<in> set resolved. admit g c ref = Some b)"
  by (induction g c refs arbitrary: resolved rule: admit_all.induct) (fastforce split: option.splits)+

text \<open>The call is admitted: the gate is open, and each reference of each argument has a binding that goes with the call.\<close>

definition admitted :: "gateway \<Rightarrow> case_row \<Rightarrow> tool_request \<Rightarrow> call_scope \<Rightarrow> bool" where
  "admitted g c rq sc1 \<longleftrightarrow> \<not> blocked (gate_of g c) \<and>
     (\<exists>by_argument. evidence_references_for_tool (gw_host g) (gw_shown g) (rq_name rq) (tool_args rq)
          (case case_dir_of c of Some d \<Rightarrow> d | None \<Rightarrow> []) = Inr by_argument \<and>
        (\<forall>(key, refs) \<in> set by_argument. \<forall>ref \<in> set refs. \<exists>b. admit g c ref = Some b \<and> b \<in> set (sc_admitted sc1)) \<and>
        (\<forall>b \<in> set (sc_admitted sc1). \<exists>ref. admit g c ref = Some b))"

lemma gate_passes:
  assumes "st_calls (snd (evidence_gate g nxt sc rq st)) \<noteq> st_calls st"
  shows "passes nxt st (snd (evidence_gate g nxt sc rq st)) (\<lambda>sc1 rq1 st1. st1 = st \<and> rq_name rq1 = rq_name rq \<and>
     sc_identity sc1 = sc_identity sc \<and> sc_case sc1 = sc_case sc \<and>
     (case sc_case sc of
        None \<Rightarrow> sc1 = sc \<and> rq1 = rq
      | Some c \<Rightarrow> admitted g c rq sc1 \<and>
          (\<forall>k. k \<notin> set (declared_arguments (rq_name rq)) \<longrightarrow> rq_args rq \<noteq> None \<longrightarrow> gget (tool_args rq1) k = gget (tool_args rq) k)))"
proof (cases "sc_case sc")
  case None
  then show ?thesis by (intro passesI [of _ sc rq st]) (auto simp: evidence_gate_def)
next
  case (Some c)
  with assms obtain by_argument where refs: "\<not> blocked (gate_of g c)"
      "evidence_references_for_tool (gw_host g) (gw_shown g) (rq_name rq) (tool_args rq) (case case_dir_of c of Some d \<Rightarrow> d | None \<Rightarrow> []) =
       Inr by_argument" "evidence_gate g nxt sc rq st = run_admitted g nxt c (gate_of g c) by_argument sc rq st"
    by (auto simp: evidence_gate_def split: if_splits sum.splits)
  with assms obtain resolved token where r: "admit_all g c (all_references by_argument) = Some resolved"
      "evidence_gate g nxt sc rq st = nxt (bound_scope (rq_name rq) resolved token sc) (normalize_arguments resolved by_argument rq) st"
    by (auto simp: run_admitted_def split: option.splits)
  have "\<exists>b. admit g c ref = Some b \<and> b \<in> snd ` set resolved" if "(key, rs) \<in> set by_argument" "ref \<in> set rs" for key rs ref
  proof -
    have "ref \<in> set (all_references by_argument)" using that by (force simp: all_references_def set_first_seen)
    then have "ref \<in> fst ` set resolved" using admit_all_Some [OF r(1)] by (metis set_map)
    then show ?thesis using admit_all_Some [OF r(1)] by fastforce
  qed
  moreover have "\<exists>ref. admit g c ref = Some b" if "b \<in> snd ` set resolved" for b
    using that admit_all_Some [OF r(1)] by fastforce
  ultimately have "admitted g c rq (bound_scope (rq_name rq) resolved token sc)"
    using refs(1,2) by (auto simp: admitted_def bound_scope_def)
  moreover have "fst ` set by_argument \<subseteq> set (declared_arguments (rq_name rq))"
    using collect_declared refs(2) unfolding evidence_references_for_tool_def by blast
  then have "gget (tool_args (normalize_arguments resolved by_argument rq)) k = gget (tool_args rq) k"
    if "k \<notin> set (declared_arguments (rq_name rq))" "rq_args rq \<noteq> None" for k
    using that by (intro normalize_other) auto
  ultimately show ?thesis
    using Some r(2)
    by (intro passesI [of _ "bound_scope (rq_name rq) resolved token sc" "normalize_arguments resolved by_argument rq" st])
      (auto simp: bound_scope_def)
qed

end
