(* ===== verification/Gateway_Envelope.thy ===== *)
theory Gateway_Envelope
  imports Gateway_Access
begin

text \<open>
  The audit envelope (\<open>AuditEnvelopeMiddleware\<close> of \<open>sift_gateway/policy_middleware.py\<close>): a row is reserved in the audit table before
  the call, a tool that changes something is refused when that fails, the id the caller is to cite is written into the answer,
  and a row with the outcome is added.

  Shown here: no tool that changes something is called without its reserved row, and the answer of a tool that is not the core's
  carries the gateway's own id.
\<close>

section \<open>Before the call\<close>

definition envelope_case_dir :: "call_scope \<Rightarrow> string option" where
  "envelope_case_dir sc = (case sc_case sc of Some c \<Rightarrow> cr_artifact_path c | None \<Rightarrow> None)"

definition redacted :: "gateway \<Rightarrow> call_scope \<Rightarrow> gval \<Rightarrow> gval" where
  "redacted g sc v = redact_for_audit (guard_sensitive_prefixes (gw_host g)) (gw_realpath g) (envelope_case_dir sc) v"

definition request_id :: "call_scope \<Rightarrow> string" where
  "request_id sc =
     (case sc_core sc of
        Some cx \<Rightarrow> if cx_request_id cx \<noteq> [] then cx_request_id cx else sc_fresh_request_id sc
      | None \<Rightarrow> sc_fresh_request_id sc)"

definition requested_entry :: "gateway \<Rightarrow> call_scope \<Rightarrow> tool_request \<Rightarrow> db_entry" where
  "requested_entry g sc rq =
     \<lparr>de_type = ''mcp.tool.call'', de_actor = sc_identity sc, de_case = map_option cr_id (sc_case sc), de_status = ''requested'',
      de_summary = ''requested '' @ rq_name rq, de_request = request_id sc,
      de_details = fields [(''tool'', GStr (rq_name rq)), (''backend'', GStr (backend_name (gw_surface g) (rq_name rq))),
         (''phase'', GStr ''pre_dispatch''), (''principal'', opt_str (examiner_of sc)),
         (''principal_type'', opt_str (map_option principal_type (sc_identity sc)))] @ request_fields sc @
        fields [(''case_key'', opt_str (map_option cr_key (sc_case sc))), (''arguments'', redacted g sc (GDict (tool_args rq)))]\<rparr>"

definition db_record :: "(nat \<Rightarrow> db_entry \<Rightarrow> string option) \<Rightarrow> db_entry \<Rightarrow> gw_state \<Rightarrow> string option \<times> gw_state" where
  "db_record f e st =
     (case f (length (st_rows st)) e of
        Some i \<Rightarrow> (Some i, st\<lparr>st_rows := st_rows st @ [(i, e)]\<rparr>)
      | None \<Rightarrow> (None, st))"

definition attach_audit_event :: "call_scope \<Rightarrow> string \<Rightarrow> gw_state \<Rightarrow> gw_state" where
  "attach_audit_event sc event st =
     (if sc_core sc \<noteq> None \<and> event \<noteq> [] then st\<lparr>st_attached := st_attached st @ [event]\<rparr> else st)"

text \<open>The id of the envelope, or nothing when the call has to be refused.\<close>

definition reserve_event :: "gateway \<Rightarrow> call_scope \<Rightarrow> tool_request \<Rightarrow> gw_state \<Rightarrow> string option \<times> gw_state" where
  "reserve_event g sc rq st =
     (case gw_db_audit g of
        None \<Rightarrow> (Some (sc_event_id sc), st)
      | Some f \<Rightarrow>
          (case db_record f (requested_entry g sc rq) st of
             (Some event, st1) \<Rightarrow> (Some event, attach_audit_event sc event st1)
           | (None, st1) \<Rightarrow>
               if \<not> tool_read_only (gw_surface g) (rq_name rq) then (None, st1) else (Some (sc_event_id sc), st1)))"

section \<open>The answer\<close>

definition set_default :: "string \<Rightarrow> gval \<Rightarrow> (gkey \<times> gval) list option \<Rightarrow> (gkey \<times> gval) list option" where
  "set_default key v m =
     (let d = (case m of Some d \<Rightarrow> d | None \<Rightarrow> []) in Some (if gget d key = None then d @ [(StrKey key, v)] else d))"

definition stamps :: "bool \<Rightarrow> (gkey \<times> gval) list \<Rightarrow> bool" where
  "stamps is_core d \<longleftrightarrow> \<not> is_core \<or> gget d ''audit_id'' = None"

definition stamp_content :: "gateway \<Rightarrow> bool \<Rightarrow> string \<Rightarrow> tool_result \<Rightarrow> tool_result" where
  "stamp_content g is_core cite r =
     (case content r of
        [] \<Rightarrow> r\<lparr>meta := set_default ''audit_id'' (GStr cite) (meta r)\<rparr>
      | TextItem s # items \<Rightarrow>
          (case gw_loads g s of
             None \<Rightarrow> r\<lparr>meta := set_default ''audit_id'' (GStr cite) (meta r)\<rparr>
           | Some (GDict d) \<Rightarrow>
               if stamps is_core d
               then r\<lparr>content := TextItem (gw_dumps_raw g (GDict (AList.update (StrKey ''audit_id'') (GStr cite) d))) # items\<rparr>
               else r
           | Some v \<Rightarrow> r)
      | OtherItem k # items \<Rightarrow> r)"

definition stamp_structured :: "bool \<Rightarrow> string \<Rightarrow> tool_result \<Rightarrow> tool_result" where
  "stamp_structured is_core cite r =
     (case structured r of
        Some (GDict d) \<Rightarrow>
          if stamps is_core d then r\<lparr>structured := Some (GDict (AList.update (StrKey ''audit_id'') (GStr cite) d))\<rparr> else r
      | _ \<Rightarrow> r)"

definition stamp_result :: "gateway \<Rightarrow> bool \<Rightarrow> string \<Rightarrow> tool_result \<Rightarrow> tool_result" where
  "stamp_result g is_core cite r = stamp_structured is_core cite (stamp_content g is_core cite r)"

section \<open>After the call\<close>

text \<open>The end of the expression also matches before a last newline.\<close>

definition uuid_shaped :: "string \<Rightarrow> bool" where
  "uuid_shaped s \<longleftrightarrow>
     (let ps = split_char (CHR ''-'') (if s \<noteq> [] \<and> last s = newline then butlast s else s)
      in map length ps = [8, 4, 4, 4, 12] \<and> list_all (list_all (\<lambda>c. lower_char c \<in> set ''0123456789abcdef'')) ps)"

definition keep_native :: "bool \<Rightarrow> string \<Rightarrow> string \<Rightarrow> bool" where
  "keep_native is_core event nid \<longleftrightarrow> is_core \<or> nid = event \<or> \<not> uuid_shaped nid"

definition raw_aliases :: "bool \<Rightarrow> string \<Rightarrow> string list \<Rightarrow> string list" where
  "raw_aliases is_core event native = first_seen [] (filter (keep_native is_core event) native @ [event])"

text \<open>The details of the outcome and the aliases; an error of the summary leaves both empty.\<close>

definition result_detail ::
  "gateway \<Rightarrow> call_scope \<Rightarrow> bool \<Rightarrow> string \<Rightarrow> string list \<Rightarrow> tool_result option \<Rightarrow> (gkey \<times> gval) list \<times> gval" where
  "result_detail g sc is_core event native r =
     (let items = (case r of Some r \<Rightarrow> content r | None \<Rightarrow> []) in
      case summarize_result (gw_loads g) items of
        Inl e \<Rightarrow> ([], GList [])
      | Inr summary \<Rightarrow>
          ((if summary = [] then [] else fields [(''result_summary'', redacted g sc (GDict summary))]) @
           (case extract_run_command_detail (guard_sensitive_prefixes (gw_host g)) (gw_realpath g) (gw_loads g) (envelope_case_dir sc) items of
              Some d \<Rightarrow> if gtruthy d then fields [(''detail'', d)] else [] | None \<Rightarrow> []),
           redacted g sc (GList (map GStr (raw_aliases is_core event native)))))"

definition result_entry ::
  "gateway \<Rightarrow> call_scope \<Rightarrow> tool_request \<Rightarrow> string \<Rightarrow> string option \<Rightarrow> string \<Rightarrow> string list \<Rightarrow> tool_result option \<Rightarrow> db_entry" where
  "result_entry g sc rq outcome cite event native r =
     (let backend = backend_name (gw_surface g) (rq_name rq); q = result_detail g sc (backend = ''sift-core'') event native r in
      \<lparr>de_type = ''mcp.tool.result'', de_actor = sc_identity sc, de_case = map_option cr_id (sc_case sc),
       de_status = (if outcome = ''ok'' then ''success'' else ''failure''), de_summary = outcome @ '' '' @ rq_name rq, de_request = request_id sc,
       de_details = put_fields (fst q) (fields [(''tool'', GStr (rq_name rq)), (''backend'', GStr backend), (''phase'', GStr ''result''),
         (''status'', GStr outcome), (''elapsed_ms'', sc_elapsed sc), (''backend_audit_id'', opt_str cite), (''audit_aliases'', snd q),
         (''envelope_event_id'', GStr event), (''principal'', opt_str (examiner_of sc))])\<rparr>)"

definition envelope_log :: "gateway \<Rightarrow> call_scope \<Rightarrow> tool_request \<Rightarrow> string \<Rightarrow> string option \<Rightarrow> string \<Rightarrow> log_entry" where
  "envelope_log g sc rq outcome cite event =
     \<lparr>lg_tool = rq_name rq, lg_summary = outcome, lg_source = ''gateway_mcp_envelope'',
      lg_extra = stamp_identity_extra sc (request_fields sc @ fields [(''backend'', GStr (backend_name (gw_surface g) (rq_name rq))),
        (''status'', GStr outcome), (''backend_audit_id'', opt_str cite), (''request_id'', GStr (request_id sc)),
        (''audit_event_id'', GStr event)] @ case_extra (sc_case sc)),
      lg_examiner = examiner_of sc, lg_elapsed = sc_elapsed sc\<rparr>"

definition finish_event ::
  "gateway \<Rightarrow> call_scope \<Rightarrow> tool_request \<Rightarrow> string \<Rightarrow> string option \<Rightarrow> string \<Rightarrow> string list \<Rightarrow> tool_result option \<Rightarrow> gw_state \<Rightarrow> gw_state" where
  "finish_event g sc rq outcome cite event native r st =
     write_log (envelope_log g sc rq outcome cite event)
       (case gw_db_audit g of
          None \<Rightarrow> st
        | Some f \<Rightarrow> snd (db_record f (result_entry g sc rq outcome cite event native r) st))"

definition canonical_id :: "bool \<Rightarrow> string \<Rightarrow> string list \<Rightarrow> string" where
  "canonical_id is_core event native = (if is_core \<and> native \<noteq> [] then hd native else event)"

definition audit_envelope :: "gateway \<Rightarrow> handler \<Rightarrow> handler" where
  "audit_envelope g nxt sc rq st =
     (case reserve_event g sc rq st of
        (None, st1) \<Rightarrow>
          (Inr (error_result g ''audit_unavailable'' ''required audit could not be persisted; mutating call denied'' (rq_name rq)), st1)
      | (Some event, st1) \<Rightarrow>
          (case nxt sc rq st1 of
             (Inl e, st2) \<Rightarrow> (Inl e, finish_event g sc rq ''error'' None event [] None st2)
           | (Inr r, st2) \<Rightarrow>
               (let outcome = (if is_error r then ''error'' else ''ok'');
                    native = extract_all_audit_ids_from_result (gw_loads g) r;
                    is_core = (backend_name (gw_surface g) (rq_name rq) = ''sift-core'');
                    cite = canonical_id is_core event native;
                    r' = stamp_result g is_core cite r
                in (Inr r', finish_event g sc rq outcome (Some cite) event native (Some r') st2))))"

section \<open>What comes through\<close>

lemma db_record_rows: "db_record f e st = (q, st') \<Longrightarrow> prefix (st_rows st) (st_rows st') \<and> st_calls st' = st_calls st"
  by (auto simp: db_record_def split: option.splits)

lemma finish_keeps [simp]: "st_calls (finish_event g sc rq out c event native r st) = st_calls st"
  "prefix (st_rows st) (st_rows (finish_event g sc rq out c event native r st))"
  by (auto simp: finish_event_def db_record_def split: option.splits)

lemma attach_keeps [simp]: "st_calls (attach_audit_event sc event st) = st_calls st" "st_rows (attach_audit_event sc event st) = st_rows st"
  by (auto simp: attach_audit_event_def)

text \<open>The row that precedes the call.\<close>

definition reserved :: "gateway \<Rightarrow> call_scope \<Rightarrow> tool_request \<Rightarrow> gw_state \<Rightarrow> gw_state \<Rightarrow> bool" where
  "reserved g sc rq st st1 \<longleftrightarrow>
     (case gw_db_audit g of
        None \<Rightarrow> st_rows st1 = st_rows st
      | Some f \<Rightarrow> (case f (length (st_rows st)) (requested_entry g sc rq) of
          Some event \<Rightarrow> st_rows st1 = st_rows st @ [(event, requested_entry g sc rq)]
        | None \<Rightarrow> st_rows st1 = st_rows st \<and> tool_read_only (gw_surface g) (rq_name rq)))"

lemma reserve_event_keeps:
  assumes "reserve_event g sc rq st = (ev, st1)"
  shows "st_calls st1 = st_calls st" "ev \<noteq> None \<Longrightarrow> reserved g sc rq st st1"
  using assms by (auto simp: reserve_event_def reserved_def db_record_def split: option.splits if_splits)

lemma envelope_passes:
  assumes "st_calls (snd (audit_envelope g nxt sc rq st)) \<noteq> st_calls st"
  shows "passes nxt st (snd (audit_envelope g nxt sc rq st)) (\<lambda>sc1 rq1 st1. sc1 = sc \<and> rq1 = rq \<and> reserved g sc rq st st1)"
proof -
  obtain ev st1 where r: "reserve_event g sc rq st = (ev, st1)" by (cases "reserve_event g sc rq st")
  note k = reserve_event_keeps [OF r]
  with assms r obtain event where e: "ev = Some event" by (cases ev) (auto simp: audit_envelope_def)
  show ?thesis
    by (rule passesI [of _ sc rq st1])
      (use r e k in \<open>auto simp: audit_envelope_def Let_def split: prod.split sum.split\<close>)
qed

section \<open>Whose id is cited\<close>

lemma gget_update: "gget (AList.update (StrKey k) v d) j = (if j = k then Some v else gget d j)"
  by (simp add: gget_def update_conv')

lemma stamp_structured_id:
  "structured (stamp_result g False cite r) = Some (GDict d) \<Longrightarrow> gget d ''audit_id'' = Some (GStr cite)"
  by (auto simp: stamp_result_def stamp_structured_def stamp_content_def stamps_def gget_update
      split: list.splits item.splits option.splits gval.splits if_splits)

lemma stamp_content_id:
  assumes "content r = TextItem s # items" "gw_loads g s = Some (GDict d)"
  shows "content (stamp_result g False cite r) = TextItem (gw_dumps_raw g (GDict (AList.update (StrKey ''audit_id'') (GStr cite) d))) # items"
  using assms by (auto simp: stamp_result_def stamp_structured_def stamp_content_def stamps_def split: option.split gval.split)

lemma aliases_own: "a \<in> set (raw_aliases False event native) \<Longrightarrow> uuid_shaped a \<Longrightarrow> a = event"
  by (auto simp: raw_aliases_def set_first_seen keep_native_def)


text \<open>The stamp is put into texts after they have been guarded: a text is read and printed again, so that a place or a control
  character written with an escape of JSON, which the guard does not see, comes out in clear.\<close>

lemma escaped_path_comes_out:
  assumes "gw_loads g t = Some (GDict [(StrKey ''p'', GStr ''/cases/x'')])" "content r = [TextItem t]"
  shows "content (stamp_result g False cite r) =
    [TextItem (gw_dumps_raw g (GDict [(StrKey ''p'', GStr ''/cases/x''), (StrKey ''audit_id'', GStr cite)]))]"
  using stamp_content_id [OF assms(2,1)] by simp

lemma escaped_path_not_seen:
  "redact_paths_in_text GUARD_SENSITIVE_PREFIXES None (quote # [backslash] @ ''/cases'' @ [backslash] @ ''/x'' @ [quote]) =
     (quote # [backslash] @ ''/cases'' @ [backslash] @ ''/x'' @ [quote], 0)"
  by code_simp

text \<open>Where the first text is JSON but no object, no id is put anywhere.\<close>

lemma list_answer_not_stamped:
  "gw_loads g s = Some (GList xs) \<Longrightarrow> stamp_content g is_core cite \<lparr>content = [TextItem s], structured = None, meta = None, is_error = False\<rparr> =
     \<lparr>content = [TextItem s], structured = None, meta = None, is_error = False\<rparr>"
  by (simp add: stamp_content_def)

end
