(* ===== verification/Gateway_Response.thy ===== *)
theory Gateway_Response
  imports Gateway_Access
begin

text \<open>
  The guard of the answer (\<open>ResponseGuardMiddleware\<close> of \<open>sift_gateway/policy_middleware.py\<close>): what the next handler returns is redacted and
  cut, findings and cuts are logged, and the caller is told of them.
\<close>

section \<open>What is logged\<close>

fun severity_text :: "severity \<Rightarrow> string" where
  "severity_text Critical = ''critical''"
| "severity_text High = ''high''"
| "severity_text Medium = ''medium''"

definition finding_value :: "finding \<Rightarrow> gval" where
  "finding_value f = str_dict ([(''pattern_name'', GStr (pattern_name f)), (''severity'', GStr (severity_text (f_severity f))),
     (''char_offset'', GNum (int (char_offset f)))] @ (case f_path f of Some p \<Rightarrow> [(''path'', GStr p)] | None \<Rightarrow> []))"

definition cap_event_value :: "cap_event \<Rightarrow> gval" where
  "cap_event_value e = str_dict ([(''tool'', GStr (ev_tool e)), (''original_bytes'', GNum (int (original_bytes e))),
     (''returned_bytes'', GNum (int (returned_bytes e))), (''cap_bytes'', GNum (int (cap_bytes e))), (''sha256'', GStr (ev_sha256 e))] @
     (case output_file e of Some f \<Rightarrow> [(''output_file'', GStr f)] | None \<Rightarrow> []))"

definition guard_case_dir :: "gateway \<Rightarrow> call_scope \<Rightarrow> string option" where
  "guard_case_dir g sc =
     (case (case sc_case sc of Some c \<Rightarrow> cr_artifact_path c | None \<Rightarrow> Some (getenv (gw_host g) ''SIFT_CASE_DIR'')) of
        Some d \<Rightarrow> if d = [] then None else Some d
      | None \<Rightarrow> None)"

definition override_key :: "gateway \<Rightarrow> call_scope \<Rightarrow> string" where
  "override_key g sc =
     (let key = (case sc_case sc of Some c \<Rightarrow> cr_id c | None \<Rightarrow> [])
      in if key \<noteq> [] then key else case guard_case_dir g sc of Some d \<Rightarrow> d | None \<Rightarrow> [])"

definition pattern_names :: "finding list \<Rightarrow> gval" where
  "pattern_names fs = GList (map GStr (sort (remdups (map pattern_name fs))))"

definition guard_log :: "gateway \<Rightarrow> call_scope \<Rightarrow> string \<Rightarrow> finding list \<Rightarrow> bool \<Rightarrow> string option \<Rightarrow> log_entry" where
  "guard_log g sc name fs override by =
     \<lparr>lg_tool = name, lg_summary = ''response_guard: '' @ dec_digits (length fs) @ '' pattern(s) detected'', lg_source = ''gateway_response_guard'',
      lg_extra = fields [(''examiner'', opt_str (examiner_of sc))] @ case_extra (sc_case sc) @
        fields ([(''findings'', GList (map finding_value fs)), (''redact_override_active'', GBool override)] @
          (if override then [(''override_by'', opt_str by)] else [])),
      lg_examiner = None, lg_elapsed = GNull\<rparr>"

definition cap_log :: "call_scope \<Rightarrow> string \<Rightarrow> cap_event list \<Rightarrow> nat \<Rightarrow> log_entry" where
  "cap_log sc name evs cap =
     \<lparr>lg_tool = name, lg_summary = ''output_cap: '' @ dec_digits (length evs) @ '' response(s) capped at '' @ dec_digits cap @ '' bytes'',
      lg_source = ''gateway_output_cap'',
      lg_extra = fields [(''examiner'', opt_str (examiner_of sc)), (''cap_events'', GList (map cap_event_value evs))] @ case_extra (sc_case sc),
      lg_examiner = None, lg_elapsed = GNull\<rparr>"

section \<open>What the caller is told\<close>

text \<open>Of a cut the caller sees the numbers and where the whole is, below the case.\<close>

definition told_cap :: "gateway \<Rightarrow> string option \<Rightarrow> cap_event \<Rightarrow> path_error + gval" where
  "told_cap g case_dir e =
     (let numbers = [(''original_bytes'', GNum (int (original_bytes e))), (''returned_bytes'', GNum (int (returned_bytes e))),
        (''cap_bytes'', GNum (int (cap_bytes e)))]
      in case output_file e of
        None \<Rightarrow> Inr (str_dict numbers)
      | Some f \<Rightarrow> res_bind (display_spill_path (gw_host g) (Some f) case_dir) (\<lambda>d. Inr (str_dict (numbers @ [(''output_file'', opt_str d)]))))"

definition tell :: "gateway \<Rightarrow> (gkey \<times> gval) list \<Rightarrow> tool_result \<Rightarrow> tool_result" where
  "tell g ctx r =
     (if ctx = [] \<or> content r = [] then r
      else r\<lparr>content := content r @ [TextItem (gw_dumps g (str_dict [(''_sift_context'', GDict ctx)]))],
             meta := Some (AList.update (StrKey ''_sift_context'') (GDict ctx) (case meta r of Some m \<Rightarrow> m | None \<Rightarrow> []))\<rparr>)"

definition finding_context :: "finding list \<Rightarrow> bool \<Rightarrow> (gkey \<times> gval) list" where
  "finding_context fs override =
     (if fs = [] then [] else fields [(''secret_warning'', pattern_names fs), (''redact_override_active'', GBool override)])"

definition deliver ::
  "gateway \<Rightarrow> call_scope \<Rightarrow> string \<Rightarrow> bool \<Rightarrow> tool_result \<Rightarrow> finding list \<Rightarrow> cap_event list \<Rightarrow> gw_state \<Rightarrow> answer" where
  "deliver g sc name override r fs evs st =
     (let status = get_override_status (override_key g sc) (sc_after sc) (st_overrides st);
          st1 = (if fs = [] then st
                 else write_log (guard_log g sc name fs override (by_whom (snd status)))
                   (if override then st\<lparr>st_overrides := fst status\<rparr> else st));
          st2 = (if evs = [] then st1 else write_log (cap_log sc name evs (output_cap_bytes (gw_host g))) st1)
      in case (if evs = [] then Inr [] else map_res (told_cap g (guard_case_dir g sc)) evs) of
           Inl e \<Rightarrow> (Inl (PathFailure e), st2)
         | Inr told \<Rightarrow>
             (Inr (tell g (finding_context fs override @ (if evs = [] then [] else fields [(''output_capped'', GList told)])) r), st2))"

definition response_guard :: "gateway \<Rightarrow> handler \<Rightarrow> handler" where
  "response_guard g nxt sc rq st =
     (case nxt sc rq st of
        (Inl e, st1) \<Rightarrow> (Inl e, st1)
      | (Inr r, st1) \<Rightarrow>
          (let o' = is_override_active (override_key g sc) (sc_after sc) (st_overrides st1); st2 = st1\<lparr>st_overrides := fst o'\<rparr> in
           case guard_tool_result (gw_host g) (gw_spill g) (gw_envelope g) (gw_loads g) (gw_dumps_raw g) r (snd o')
                  (guard_case_dir g sc) (rq_name rq) (output_cap_bytes (gw_host g)) of
             Inl e \<Rightarrow> (Inl (PathFailure e), st2)
           | Inr (r', fs, evs) \<Rightarrow> deliver g sc (rq_name rq) (snd o') r' fs evs st2))"

section \<open>What comes through\<close>

lemma deliver_keeps [simp]: "st_calls (snd (deliver g sc name ov r fs evs st)) = st_calls st"
  "st_rows (snd (deliver g sc name ov r fs evs st)) = st_rows st"
  by (auto simp: deliver_def Let_def write_log_def split: sum.split)

lemma guard_passes:
  "passes nxt st (snd (response_guard g nxt sc rq st)) (\<lambda>sc1 rq1 st1. sc1 = sc \<and> rq1 = rq \<and> st1 = st)"
  by (rule passesI [of _ sc rq st]) (auto simp: response_guard_def Let_def split: prod.split sum.split)

text \<open>The structured content that is delivered is that of the guarded result.\<close>

lemma tell_structured [simp]: "structured (tell g ctx r) = structured r"
  by (simp add: tell_def)

lemma delivered_structured:
  "response_guard g nxt sc rq st = (Inr r', st') \<Longrightarrow> \<exists>r st1 fs evs r1. nxt sc rq st = (Inr r, st1) \<and>
     guard_tool_result (gw_host g) (gw_spill g) (gw_envelope g) (gw_loads g) (gw_dumps_raw g) r
       (snd (is_override_active (override_key g sc) (sc_after sc) (st_overrides st1))) (guard_case_dir g sc) (rq_name rq)
       (output_cap_bytes (gw_host g)) = Inr (r1, fs, evs) \<and> structured r' = structured r1"
  by (auto simp: response_guard_def deliver_def Let_def split: prod.splits sum.splits if_splits)

end
