(* ===== verification/Gateway_Jobs.thy ===== *)
theory Gateway_Jobs
  imports Gateway_Access
begin

text \<open>
  Durable jobs at the gateway (\<open>OpenSearchJobDispatchMiddleware\<close> and \<open>OpenSearchIngestStatusAugmentMiddleware\<close> of
  \<open>sift_gateway/policy_middleware.py\<close>): two tools are not sent to their backend but put into the queue of jobs, with the case taken
  from the gateway, and the status of ingestion is completed with the rows of the queue.
\<close>

section \<open>Values\<close>

definition TRUTHY :: "string list" where "TRUTHY = [''1'', ''true'', ''yes'', ''on'']"

definition is_truthy :: "(gval \<Rightarrow> string) \<Rightarrow> gval \<Rightarrow> bool" where
  "is_truthy shown v =
     (case v of
        GBool b \<Rightarrow> b
      | GNum i \<Rightarrow> i \<noteq> 0
      | GFloat t \<Rightarrow> gtruthy v
      | _ \<Rightarrow> lower (strip (py_str shown v)) \<in> set TRUTHY)"

definition str_list :: "(gval \<Rightarrow> string) \<Rightarrow> gval option \<Rightarrow> string list" where
  "str_list shown v =
     filter (\<lambda>p. p \<noteq> [])
       (case v of
          Some (GStr s) \<Rightarrow> map strip (split_char (CHR '','') s)
        | Some (GList xs) \<Rightarrow> map (\<lambda>x. strip (py_str shown x)) xs
        | Some (GTuple xs) \<Rightarrow> map (\<lambda>x. strip (py_str shown x)) xs
        | _ \<Rightarrow> [])"

text \<open>\<open>v not in (None, "", [], False)\<close>, by equality, under which zero is \<open>False\<close>.\<close>

definition dropped :: "gval \<Rightarrow> bool" where
  "dropped v \<longleftrightarrow> v \<in> {GNull, GStr [], GList [], GBool False, GNum 0, GFloat ''0.0'', GFloat ''-0.0''}"

definition drop_empty :: "(gkey \<times> gval) list \<Rightarrow> (gkey \<times> gval) list" where
  "drop_empty d = filter (\<lambda>(k, v). \<not> dropped v) d"

definition int_of :: "gateway \<Rightarrow> gval \<Rightarrow> int option" where
  "int_of g v =
     (case v of
        GNum i \<Rightarrow> Some i
      | GBool b \<Rightarrow> Some (if b then 1 else 0)
      | GFloat t \<Rightarrow> gw_float_int g t
      | GStr s \<Rightarrow> py_int s
      | _ \<Rightarrow> None)"

definition arg_text :: "gateway \<Rightarrow> (gkey \<times> gval) list \<Rightarrow> string \<Rightarrow> string \<Rightarrow> string" where
  "arg_text g args key d = py_str (gw_shown g) (or_else (gget args key) (GStr d))"

definition arg_flag :: "(gkey \<times> gval) list \<Rightarrow> string \<Rightarrow> bool" where
  "arg_flag args key = (case gget args key of Some v \<Rightarrow> gtruthy v | None \<Rightarrow> False)"

section \<open>The queue\<close>

definition OPENSEARCH_JOB_DISPATCH_TOOLS :: "string list" where
  "OPENSEARCH_JOB_DISPATCH_TOOLS = [''opensearch_ingest'', ''opensearch_enrich_intel'']"

definition text_list :: "string list \<Rightarrow> gval" where "text_list xs = GList (map GStr xs)"

definition spec_public :: "gateway \<Rightarrow> string \<Rightarrow> (gkey \<times> gval) list \<Rightarrow> (gkey \<times> gval) list option" where
  "spec_public g name args =
     (if name = ''opensearch_enrich_intel'' then Some (drop_empty (fields [(''force'', GBool (arg_flag args ''force''))]))
      else case int_of g (or_else (gget args ''tier'') (GNum 1)) of
        None \<Rightarrow> None
      | Some tier \<Rightarrow> Some (drop_empty (fields
          [(''path'', GStr (arg_text g args ''path'' [])), (''format'', GStr (lower (strip (arg_text g args ''format'' ''auto'')))),
           (''hostname'', GStr (arg_text g args ''hostname'' [])), (''index_suffix'', GStr (arg_text g args ''index_suffix'' [])),
           (''time_field'', GStr (arg_text g args ''time_field'' [])), (''delimiter'', GStr (arg_text g args ''delimiter'' [])),
           (''recursive'', GBool (arg_flag args ''recursive'')), (''include'', text_list (str_list (gw_shown g) (gget args ''include''))),
           (''exclude'', text_list (str_list (gw_shown g) (gget args ''exclude''))),
           (''source_timezone'', GStr (arg_text g args ''source_timezone'' [])), (''all_logs'', GBool (arg_flag args ''all_logs'')),
           (''reduced_ids'', GBool (arg_flag args ''reduced_ids'')), (''full'', GBool (arg_flag args ''full'')), (''tier'', GNum tier),
           (''plugins'', text_list (str_list (gw_shown g) (gget args ''plugins''))), (''force'', GBool (arg_flag args ''force'')),
           (''vss'', GBool (arg_flag args ''vss'')), (''no_hayabusa'', GBool (arg_flag args ''no_hayabusa''))])))"

definition spec_internal :: "gateway \<Rightarrow> call_scope \<Rightarrow> case_row \<Rightarrow> string \<Rightarrow> (gkey \<times> gval) list" where
  "spec_internal g sc c name =
     (let dsn = strip (gw_forward_dsn g);
          examiner = (case sc_identity sc of Some i \<Rightarrow> if principal i = [] then ''agent'' else principal i | None \<Rightarrow> ''agent'')
      in fields ([(''case_dir'', GStr (case cr_artifact_path c of Some p \<Rightarrow> p | None \<Rightarrow> [])), (''case_key'', GStr (cr_key c)),
           (''examiner'', GStr examiner), (''tool'', GStr name)] @ (if dsn = [] then [] else [(''control_plane_dsn'', GStr dsn)])))"

definition job_request_of :: "gateway \<Rightarrow> call_scope \<Rightarrow> case_row \<Rightarrow> string \<Rightarrow> (gkey \<times> gval) list \<Rightarrow> job_request option" where
  "job_request_of g sc c name args =
     (case (spec_public g name args, int_of g (or_else (gget args ''priority'') (GNum 100)), int_of g (or_else (gget args ''max_attempts'') (GNum 1))) of
        (Some public, Some priority, Some attempts) \<Rightarrow>
          Some \<lparr>jr_type = (if name = ''opensearch_enrich_intel'' then ''enrich'' else ''ingest''), jr_case = cr_id c, jr_public = public,
                jr_internal = spec_internal g sc c name, jr_priority = priority, jr_attempts = attempts, jr_actor = sc_identity sc\<rparr>
      | _ \<Rightarrow> None)"

definition queued_payload :: "string \<Rightarrow> string \<Rightarrow> gval" where
  "queued_payload job_id job_type = str_dict
     [(''job_id'', GStr job_id), (''status'', GStr ''queued''), (''job_type'', GStr job_type), (''dispatched_to'', GStr ''opensearch-worker''),
      (''next_step'', GStr (''Dispatched to a dedicated OpenSearch worker (non-blocking). Poll '' @
         ''running_commands_status(job_id) for realtime progress (worker_label, '' @ ''current_step) and the terminal result_public.''))]"

definition enqueue :: "gateway \<Rightarrow> job_service \<Rightarrow> call_scope \<Rightarrow> case_row \<Rightarrow> tool_request \<Rightarrow> gw_state \<Rightarrow> answer" where
  "enqueue g js sc c rq st =
     (let failed = error_result g ''opensearch_job_dispatch_failed'' ''could not enqueue the opensearch worker job'' (rq_name rq) in
      case job_request_of g sc c (rq_name rq) (tool_args rq) of
        None \<Rightarrow> (Inr failed, st)
      | Some j \<Rightarrow>
          (case js_enqueue js (length (st_jobs st)) j of
             None \<Rightarrow> (Inr failed, st)
           | Some i \<Rightarrow> (Inr (text_result (gw_dumps g) (queued_payload i (jr_type j)) False), st\<lparr>st_jobs := st_jobs st @ [(i, j)]\<rparr>)))"

definition job_dispatch :: "gateway \<Rightarrow> handler \<Rightarrow> handler" where
  "job_dispatch g nxt sc rq st =
     (if rq_name rq \<notin> set OPENSEARCH_JOB_DISPATCH_TOOLS then nxt sc rq st
      else case (gw_job_service g, sc_case sc) of
        (Some js, Some c) \<Rightarrow>
          if rq_name rq = ''opensearch_ingest'' \<and>
             is_truthy (gw_shown g) (case gget (tool_args rq) ''dry_run'' of Some v \<Rightarrow> v | None \<Rightarrow> GBool True)
          then nxt sc rq st
          else enqueue g js sc c rq st
      | _ \<Rightarrow> nxt sc rq st)"

section \<open>The status of ingestion\<close>

definition STATUS_MAP :: "(string \<times> string) list" where
  "STATUS_MAP = [(''pending'', ''starting''), (''running'', ''running''), (''retrying'', ''running''), (''succeeded'', ''complete''),
     (''failed'', ''failed''), (''expired'', ''failed'')]"

fun first_text :: "item list \<Rightarrow> string option" where
  "first_text [] = None"
| "first_text (TextItem s # items) = Some s"
| "first_text (OtherItem k # items) = first_text items"

text \<open>\<open>row.get(key) or {}\<close>, used as a dictionary.\<close>

definition sub_dict :: "(gkey \<times> gval) list \<Rightarrow> string \<Rightarrow> (gkey \<times> gval) list option" where
  "sub_dict row key = (case or_else (gget row key) (GDict []) of GDict d \<Rightarrow> Some d | _ \<Rightarrow> None)"

definition count_of :: "gateway \<Rightarrow> (gkey \<times> gval) list \<Rightarrow> string \<Rightarrow> int option" where
  "count_of g d key = int_of g (or_else (gget d key) (GNum 0))"

definition ingest_message :: "string \<Rightarrow> string \<Rightarrow> string \<Rightarrow> string" where
  "ingest_message job_type job_status job_id =
     ''Worker-dispatched '' @ job_type @ '' job '' @ ''('' @ job_status @ ''). Poll '' @ ''running_commands_status(job_id='' @ [apostrophe] @ job_id @
     [apostrophe] @ '') '' @ ''for realtime worker_label, current_step, and terminal result_public.''"

definition ingest_run :: "gateway \<Rightarrow> (gkey \<times> gval) list \<Rightarrow> gval option" where
  "ingest_run g row =
     (case (sub_dict row ''current_step'', sub_dict row ''result_public'') of
        (Some step, Some pub) \<Rightarrow>
          (case (count_of g pub ''indexed_docs'', count_of g pub ''hosts_complete'', count_of g pub ''hosts_total'',
                 count_of g pub ''artifacts_complete'', count_of g pub ''artifacts_total'') of
             (Some docs, Some hc, Some ht, Some ac, Some atot) \<Rightarrow>
               (let job_status = py_str (gw_shown g) (or_else (gget row ''status'') (GStr ''unknown''));
                    job_id = py_str (gw_shown g) (or_else (gget row ''job_id'') (GStr []));
                    job_type = py_str (gw_shown g) (case gget row ''job_type'' of Some v \<Rightarrow> v | None \<Rightarrow> GStr ''ingest'');
                    col = (\<lambda>k. (k, or_null (gget row k)))
                in Some (str_dict
                  [col ''case_id'', (''status'', GStr (case map_of STATUS_MAP job_status of Some s \<Rightarrow> s | None \<Rightarrow> ''unknown'')), (''pid'', GNull),
                   (''elapsed'', GStr []), (''total_indexed'', GNum docs), (''bulk_failed'', GNum 0), (''hosts_complete'', GNum hc),
                   (''hosts_total'', GNum ht), (''artifacts_complete'', GNum ac), (''artifacts_total'', GNum atot), (''log_file'', GStr []),
                   (''checklist'', GList []), (''message'', GStr (ingest_message job_type job_status job_id)), (''halt_reason'', GNull),
                   (''errors'', GList []), (''next_steps'', GList []), (''warnings'', GList []),
                   (''details'', str_dict ([col ''job_id'', col ''job_type'', col ''worker_label'', (''current_step'', GDict step),
                     (''result_public'', GDict pub), col ''error_summary'', col ''created_at'', col ''started_at'', col ''finished_at'',
                     col ''updated_at'', (''step_label'', GStr (py_str (gw_shown g) (or_else (gget step ''detail'') (GStr []))))]))]))
           | _ \<Rightarrow> None)
      | _ \<Rightarrow> None)"

definition status_message :: "nat \<Rightarrow> string" where
  "status_message n =
     ''Durable job authority is active. '' @
     (if n \<noteq> 0 then dec_digits n @ '' ingest/enrich job(s) found for this case. '' @ ''For per-job realtime detail poll '' @
        ''running_commands_status(job_id=<job_id from details>).''
      else ''No active or recent ingest/enrich jobs found for this case. '' @
        ''If your opensearch_ingest returned a job_id (status='' @ [apostrophe] @ ''queued'' @ [apostrophe] @ ''), '' @
        ''poll running_commands_status(job_id=<that job_id>) directly. '' @ ''Confirm a completed ingest with opensearch_count / '' @
        ''opensearch_case_summary on the target indices.'')"

fun all_runs :: "gateway \<Rightarrow> (gkey \<times> gval) list list \<Rightarrow> gval list option" where
  "all_runs g [] = Some []"
| "all_runs g (row # rows) =
     (case ingest_run g row of None \<Rightarrow> None | Some v \<Rightarrow> map_option (\<lambda>vs. v # vs) (all_runs g rows))"

text \<open>Where anything fails, the answer of the backend is kept.\<close>

definition augment :: "gateway \<Rightarrow> job_service \<Rightarrow> case_row \<Rightarrow> tool_result \<Rightarrow> tool_result" where
  "augment g js c r =
     (case first_text (content r) of
        None \<Rightarrow> r
      | Some s \<Rightarrow>
          (case gw_loads g s of
             Some (GDict payload) \<Rightarrow>
               (case js_list js (cr_id c) of
                  None \<Rightarrow> r
                | Some rows \<Rightarrow>
                    (case all_runs g rows of
                       None \<Rightarrow> r
                     | Some runs \<Rightarrow>
                         (let p = put_fields (fields [(''ingests'', GList runs), (''message'', GStr (status_message (length runs)))]) payload;
                              base = (case structured r of Some (GDict d) \<Rightarrow> d | _ \<Rightarrow> [])
                          in \<lparr>content = [TextItem (gw_dumps g (GDict p))], structured = Some (GDict (put_fields p base)), meta = None,
                              is_error = False\<rparr>)))
           | _ \<Rightarrow> r))"

definition ingest_status_augment :: "gateway \<Rightarrow> handler \<Rightarrow> handler" where
  "ingest_status_augment g nxt sc rq st =
     (if rq_name rq \<noteq> ''opensearch_ingest_status'' then nxt sc rq st
      else case (gw_job_service g, sc_case sc) of
        (Some js, Some c) \<Rightarrow>
          (case nxt sc rq st of
             (Inl e, st1) \<Rightarrow> (Inl e, st1)
           | (Inr r, st1) \<Rightarrow> (Inr (if is_error r then r else augment g js c r), st1))
      | _ \<Rightarrow> nxt sc rq st)"

section \<open>What comes through\<close>

lemma enqueue_keeps [simp]: "st_calls (snd (enqueue g js sc c rq st)) = st_calls st" "st_rows (snd (enqueue g js sc c rq st)) = st_rows st"
  by (auto simp: enqueue_def Let_def split: option.split)

lemma dispatch_passes:
  "st_calls (snd (job_dispatch g nxt sc rq st)) \<noteq> st_calls st \<Longrightarrow>
     passes nxt st (snd (job_dispatch g nxt sc rq st)) (\<lambda>sc1 rq1 st1. sc1 = sc \<and> rq1 = rq \<and> st1 = st)"
  by (rule passesI [of _ sc rq st]) (auto simp: job_dispatch_def split: option.splits if_splits)

lemma augment_passes:
  "passes nxt st (snd (ingest_status_augment g nxt sc rq st)) (\<lambda>sc1 rq1 st1. sc1 = sc \<and> rq1 = rq \<and> st1 = st)"
  by (rule passesI [of _ sc rq st]) (auto simp: ingest_status_augment_def split: option.split prod.split sum.split)

section \<open>What a job holds\<close>

lemma keys_drop_empty: "fst ` set (drop_empty d) \<subseteq> fst ` set d"
  by (auto simp: drop_empty_def)

lemma public_keys:
  "spec_public g name args = Some d \<Longrightarrow> StrKey k \<in> fst ` set d \<Longrightarrow> k \<notin> {''case_id'', ''case_key'', ''case_dir'', ''control_plane_dsn''}"
proof -
  assume a: "spec_public g name args = Some d" "StrKey k \<in> fst ` set d"
  then have "StrKey k \<in> fst ` set (fields (map (\<lambda>k. (k, GNull)) [''path'', ''format'', ''hostname'', ''index_suffix'', ''time_field'', ''delimiter'',
      ''recursive'', ''include'', ''exclude'', ''source_timezone'', ''all_logs'', ''reduced_ids'', ''full'', ''tier'', ''plugins'', ''force'', ''vss'',
      ''no_hayabusa'']))"
    unfolding spec_public_def using keys_drop_empty by (fastforce split: if_splits option.splits)
  then show ?thesis by auto
qed

lemma no_public_key: "spec_public g name args = Some d \<Longrightarrow> k \<in> {''case_id'', ''case_key'', ''case_dir'', ''control_plane_dsn''} \<Longrightarrow> gget d k = None"
  using public_keys [of g name args d k] by (auto simp: gget_def map_of_eq_None_iff)

lemma internal_fields:
  "gget (spec_internal g sc c name) ''case_dir'' = Some (GStr (case cr_artifact_path c of Some p \<Rightarrow> p | None \<Rightarrow> []))"
  "gget (spec_internal g sc c name) ''case_key'' = Some (GStr (cr_key c))"
  by (simp_all add: spec_internal_def gget_def Let_def)

lemma enqueued_job:
  assumes "enqueue g js sc c rq st = (Inr r, st')" "st_jobs st' = st_jobs st @ [(i, j)]"
  shows "job_request_of g sc c (rq_name rq) (tool_args rq) = Some j" "structured r = Some (queued_payload i (jr_type j))"
    "st_calls st' = st_calls st"
proof -
  have keep: "st' \<noteq> st" using assms(2) by auto
  obtain j' where j': "job_request_of g sc c (rq_name rq) (tool_args rq) = Some j'"
    using assms(1) keep by (cases "job_request_of g sc c (rq_name rq) (tool_args rq)") (simp_all add: enqueue_def Let_def)
  obtain i' where i': "js_enqueue js (length (st_jobs st)) j' = Some i'"
    using assms(1) keep j' by (cases "js_enqueue js (length (st_jobs st)) j'") (simp_all add: enqueue_def Let_def)
  have it: "r = text_result (gw_dumps g) (queued_payload i' (jr_type j')) False" "st' = st\<lparr>st_jobs := st_jobs st @ [(i', j')]\<rparr>"
    using assms(1) j' i' by (simp_all add: enqueue_def Let_def)
  then have "i' = i" "j' = j" using assms(2) by simp_all
  with it j' show "job_request_of g sc c (rq_name rq) (tool_args rq) = Some j" "structured r = Some (queued_payload i (jr_type j))"
    "st_calls st' = st_calls st"
    by (simp_all add: text_result_def)
qed

text \<open>C14. Jobs.  A job a call puts into the queue belongs to the active case and carries its directory and key from the gateway,
  whatever the arguments say; no field the caller can see names the case or the database, and what the caller is
  told is the id of the job.\<close>

theorem queued_job_is_of_the_case:
  assumes "sc_case sc = Some c" "job_dispatch g nxt sc rq st = (Inr r, st')" "st_jobs st' = st_jobs st @ [(i, j)]"
    "\<And>sc rq st. st_jobs (snd (nxt sc rq st)) = st_jobs st"
  shows "jr_case j = cr_id c \<and> gget (jr_internal j) ''case_dir'' = Some (GStr (case cr_artifact_path c of Some p \<Rightarrow> p | None \<Rightarrow> [])) \<and>
    gget (jr_internal j) ''case_key'' = Some (GStr (cr_key c)) \<and> jr_actor j = sc_identity sc \<and>
    list_all (\<lambda>k. gget (jr_public j) k = None) [''case_id'', ''case_key'', ''case_dir'', ''control_plane_dsn''] \<and>
    rq_name rq \<in> set OPENSEARCH_JOB_DISPATCH_TOOLS \<and> structured r = Some (queued_payload i (jr_type j)) \<and> st_calls st' = st_calls st"
proof -
  have other: "nxt sc rq st \<noteq> (Inr r, st')" using assms(3) assms(4) [of sc rq st] by auto
  then have tool: "rq_name rq \<in> set OPENSEARCH_JOB_DISPATCH_TOOLS" using assms(2) by (cases "rq_name rq \<in> set OPENSEARCH_JOB_DISPATCH_TOOLS") (simp_all add: job_dispatch_def)
  obtain js where svc: "gw_job_service g = Some js"
    using other tool assms(2) by (cases "gw_job_service g") (simp_all add: job_dispatch_def)
  have js: "enqueue g js sc c rq st = (Inr r, st')"
    using other assms(2) by (simp only: job_dispatch_def tool svc assms(1) not_True_eq_False if_False prod.case option.case split: if_splits) simp
  note q = enqueued_job [OF js assms(3)]
  from q(1) obtain public where p: "spec_public g (rq_name rq) (tool_args rq) = Some public" "jr_public j = public" "jr_case j = cr_id c"
      "jr_internal j = spec_internal g sc c (rq_name rq)" "jr_actor j = sc_identity sc"
    by (auto simp: job_request_of_def split: option.splits)
  show ?thesis using q(2,3) p tool no_public_key [OF p(1)] by (simp add: internal_fields)
qed

end
