(* ===== verification/Gateway_Policy.thy ===== *)
theory Gateway_Policy
  imports Gateway_Binding Gateway_Envelope Gateway_Response Gateway_Jobs
begin

text \<open>
  A tool call from the request to the backend: the middlewares in their order (\<open>gateway_policy_middlewares\<close> of
  \<open>sift_gateway/policy_middleware.py\<close>) around the dispatch.

  The locale \<open>layer\<close> is the contract of a middleware: when a call comes through to a backend, then by way of the next handler,
  called in a way that stands in the relation \<open>cond\<close> to how the middleware was called.  Layers compose, each middleware is
  interpreted, and the theorems on whole calls follow from the composed relation.
\<close>

section \<open>The contract of a middleware\<close>

type_synonym layer_cond = "call_scope \<Rightarrow> tool_request \<Rightarrow> gw_state \<Rightarrow> call_scope \<Rightarrow> tool_request \<Rightarrow> gw_state \<Rightarrow> bool"

definition then_cond :: "layer_cond \<Rightarrow> layer_cond \<Rightarrow> layer_cond" where
  "then_cond c1 c2 sc rq st sc2 rq2 st2 \<longleftrightarrow> (\<exists>sc1 rq1 st1. c1 sc rq st sc1 rq1 st1 \<and> c2 sc1 rq1 st1 sc2 rq2 st2)"

locale layer =
  fixes mw :: "handler \<Rightarrow> handler" and cond :: layer_cond
  assumes comes_through: "st_calls (snd (mw nxt sc rq st)) \<noteq> st_calls st \<Longrightarrow> passes nxt st (snd (mw nxt sc rq st)) (cond sc rq st)"
begin

text \<open>Around the dispatch, one call is made, with what the layer lets through.\<close>

lemma dispatched:
  assumes "st_calls (snd (mw (dispatch g) sc rq st)) \<noteq> st_calls st"
  obtains sc1 rq1 st1 where "cond sc rq st sc1 rq1 st1" "st_calls (snd (mw (dispatch g) sc rq st)) = st_calls st @ [(sc1, rq1)]"
    "prefix (st_rows st1) (st_rows (snd (mw (dispatch g) sc rq st)))"
  using comes_through [OF assms] by (rule passesE) (auto simp: dispatch_def)

end

lemma layer_then:
  assumes "layer m1 c1" "layer m2 c2"
  shows "layer (\<lambda>nxt. m1 (m2 nxt)) (then_cond c1 c2)"
proof
  fix nxt sc rq st
  assume a: "st_calls (snd (m1 (m2 nxt) sc rq st)) \<noteq> st_calls st"
  from layer.comes_through [OF assms(1) a] obtain sc1 rq1 st1 where one: "c1 sc rq st sc1 rq1 st1" "st_calls st1 = st_calls st"
      "st_calls (snd (m1 (m2 nxt) sc rq st)) = st_calls (snd (m2 nxt sc1 rq1 st1))"
      "prefix (st_rows (snd (m2 nxt sc1 rq1 st1))) (st_rows (snd (m1 (m2 nxt) sc rq st)))"
    by (rule passesE)
  with a have "st_calls (snd (m2 nxt sc1 rq1 st1)) \<noteq> st_calls st1" by simp
  from layer.comes_through [OF assms(2) this] obtain sc2 rq2 st2 where two: "c2 sc1 rq1 st1 sc2 rq2 st2" "st_calls st2 = st_calls st1"
      "st_calls (snd (m2 nxt sc1 rq1 st1)) = st_calls (snd (nxt sc2 rq2 st2))"
      "prefix (st_rows (snd (nxt sc2 rq2 st2))) (st_rows (snd (m2 nxt sc1 rq1 st1)))"
    by (rule passesE)
  show "passes nxt st (snd (m1 (m2 nxt) sc rq st)) (then_cond c1 c2 sc rq st)"
  proof (rule passesI)
    show "then_cond c1 c2 sc rq st sc2 rq2 st2" using one(1) two(1) by (auto simp: then_cond_def)
    show "st_calls st2 = st_calls st" "st_calls (snd (m1 (m2 nxt) sc rq st)) = st_calls (snd (nxt sc2 rq2 st2))"
      using one two by simp_all
    show "prefix (st_rows (snd (nxt sc2 rq2 st2))) (st_rows (snd (m1 (m2 nxt) sc rq st)))"
      using one(4) two(4) by (rule prefix_order.trans [rotated])
  qed
qed

section \<open>The middlewares keep it\<close>

definition same_call :: "layer_cond" where
  "same_call sc rq st sc1 rq1 st1 \<longleftrightarrow> sc1 = sc \<and> rq1 = rq \<and> st1 = st"

definition control_cond :: "gateway \<Rightarrow> layer_cond" where
  "control_cond g sc rq st sc1 rq1 st1 \<longleftrightarrow> present (gw_dsn g) \<and> same_call sc rq st sc1 rq1 st1"

definition caller_may :: "gateway \<Rightarrow> call_scope \<Rightarrow> tool_request \<Rightarrow> gw_state \<Rightarrow> bool" where
  "caller_may g sc rq st \<longleftrightarrow>
     (case sc_identity sc of
        None \<Rightarrow> \<not> gw_auth_enabled g
      | Some i \<Rightarrow> is_tool_allowed (Some i) (rq_name rq) \<and> snd (check_examiner_rate_limit (sc_now sc) (principal i) (st_rates st)))"

definition caller_cond :: "gateway \<Rightarrow> layer_cond" where
  "caller_cond g sc rq st sc1 rq1 st1 \<longleftrightarrow> sc1 = sc \<and> rq1 = rq \<and> st_rows st1 = st_rows st \<and> caller_may g sc rq st"

definition addon_met :: "gateway \<Rightarrow> call_scope \<Rightarrow> tool_request \<Rightarrow> bool" where
  "addon_met g sc rq \<longleftrightarrow>
     (case addon_authority_for_tool (gw_surface g) (rq_name rq) of
        None \<Rightarrow> True
      | Some p \<Rightarrow> list_all (is_scope_satisfied (sc_identity sc)) (ap_required_scopes p) \<and>
          attempted_prohibited_operations (rq_name rq) (tool_args rq) (filter (\<lambda>op. op \<noteq> []) (ap_prohibited p)) = [])"

definition addon_cond :: "gateway \<Rightarrow> layer_cond" where
  "addon_cond g sc rq st sc1 rq1 st1 \<longleftrightarrow> addon_met g sc rq \<and> same_call sc rq st sc1 rq1 st1"

text \<open>The case of a call: that of the service, or none where there is no service or the tool needs no case.\<close>

definition case_found :: "gateway \<Rightarrow> call_scope \<Rightarrow> tool_request \<Rightarrow> case_row option \<Rightarrow> bool" where
  "case_found g sc rq c \<longleftrightarrow>
     (case c of Some c \<Rightarrow> case_lookup g (sc_identity sc) = Inr (Some c)
      | None \<Rightarrow> gw_case_service g = None \<or> \<not> is_case_scoped_tool (gw_surface g) (rq_name rq))"

definition case_cond :: "gateway \<Rightarrow> layer_cond" where
  "case_cond g sc rq st sc1 rq1 st1 \<longleftrightarrow>
     (\<exists>c. case_found g sc rq c \<and> rq1 = rq \<and> st1 = st \<and> sc1 = with_case c (gw_case_service g \<noteq> None) sc)"

definition envelope_cond :: "gateway \<Rightarrow> layer_cond" where
  "envelope_cond g sc rq st sc1 rq1 st1 \<longleftrightarrow> sc1 = sc \<and> rq1 = rq \<and> reserved g sc rq st st1"

definition proxy_cond :: "gateway \<Rightarrow> layer_cond" where
  "proxy_cond g sc rq st sc1 rq1 st1 \<longleftrightarrow> sc1 = sc \<and> st1 = st \<and> rq_name rq1 = rq_name rq \<and> (rq_args rq1 = None \<longleftrightarrow> rq_args rq = None) \<and>
     (if proxied_case_tool g (rq_name rq)
      then \<forall>c. sc_case sc = Some c \<longrightarrow> names_case g c rq rq1 \<and> bound_arguments_within g c rq
      else rq1 = rq)"

definition gate_cond :: "gateway \<Rightarrow> layer_cond" where
  "gate_cond g sc rq st sc1 rq1 st1 \<longleftrightarrow> st1 = st \<and> rq_name rq1 = rq_name rq \<and> sc_identity sc1 = sc_identity sc \<and> sc_case sc1 = sc_case sc \<and>
     (case sc_case sc of
        None \<Rightarrow> sc1 = sc \<and> rq1 = rq
      | Some c \<Rightarrow> admitted g c rq sc1 \<and>
          (\<forall>k. k \<notin> set (declared_arguments (rq_name rq)) \<longrightarrow> rq_args rq \<noteq> None \<longrightarrow> gget (tool_args rq1) k = gget (tool_args rq) k))"

interpretation control: layer "control_plane_required g" "control_cond g" for g
  by unfold_locales (drule control_plane_passes, simp add: control_cond_def [abs_def] same_call_def)

interpretation caller: layer "tool_authorization g" "caller_cond g" for g
  by unfold_locales (drule authorization_passes, simp add: caller_cond_def [abs_def] caller_may_def)

lemma addon_met_iff:
  "addon_met g sc rq \<longleftrightarrow> (\<forall>p. addon_authority_for_tool (gw_surface g) (rq_name rq) = Some p \<longrightarrow>
     (\<forall>s \<in> set (ap_required_scopes p). is_scope_satisfied (sc_identity sc) s) \<and>
     attempted_prohibited_operations (rq_name rq) (tool_args rq) (filter (\<lambda>op. op \<noteq> []) (ap_prohibited p)) = [])"
  by (auto simp: addon_met_def list_all_iff split: option.split)

interpretation addon: layer "addon_authority g" "addon_cond g" for g
  by unfold_locales (drule addon_passes, simp add: addon_cond_def [abs_def] addon_met_iff same_call_def conj_ac)

interpretation active_case: layer "case_context g" "case_cond g" for g
  by unfold_locales (drule case_passes, simp add: case_cond_def [abs_def] case_found_def conj_ac)

interpretation envelope: layer "audit_envelope g" "envelope_cond g" for g
  by unfold_locales (drule envelope_passes, simp add: envelope_cond_def [abs_def])

interpretation proxy: layer "proxy_active_case g" "proxy_cond g" for g
  by unfold_locales (drule proxy_passes, simp add: proxy_cond_def [abs_def])

interpretation gate: layer "evidence_gate g" "gate_cond g" for g
  by unfold_locales (drule gate_passes, simp add: gate_cond_def [abs_def])

interpretation guard: layer "response_guard g" same_call for g
  by unfold_locales (use guard_passes in \<open>simp add: same_call_def [abs_def]\<close>)

interpretation augmented: layer "ingest_status_augment g" same_call for g
  by unfold_locales (use augment_passes in \<open>simp add: same_call_def [abs_def]\<close>)

interpretation queued: layer "job_dispatch g" same_call for g
  by unfold_locales (drule dispatch_passes, simp add: same_call_def [abs_def])

section \<open>A whole call\<close>

definition gateway_policy_middlewares :: "gateway \<Rightarrow> (handler \<Rightarrow> handler) list" where
  "gateway_policy_middlewares g =
     [control_plane_required g, tool_authorization g, addon_authority g, case_context g, audit_envelope g, proxy_active_case g,
      evidence_gate g, response_guard g, ingest_status_augment g, job_dispatch g]"

definition call_tool :: "gateway \<Rightarrow> handler" where
  "call_tool g = foldr (\<lambda>m nxt. m nxt) (gateway_policy_middlewares g) (dispatch g)"

definition call_cond :: "gateway \<Rightarrow> layer_cond" where
  "call_cond g =
     then_cond (control_cond g) (then_cond (caller_cond g) (then_cond (addon_cond g) (then_cond (case_cond g)
       (then_cond (envelope_cond g) (then_cond (proxy_cond g) (then_cond (gate_cond g)
         (then_cond same_call (then_cond same_call same_call))))))))"

interpretation whole: layer
  "\<lambda>nxt. control_plane_required g (tool_authorization g (addon_authority g (case_context g (audit_envelope g (proxy_active_case g
     (evidence_gate g (response_guard g (ingest_status_augment g (job_dispatch g nxt)))))))))" "call_cond g" for g
  unfolding call_cond_def
  by (rule layer_then [OF control.layer_axioms layer_then [OF caller.layer_axioms layer_then [OF addon.layer_axioms layer_then [OF active_case.layer_axioms 
    layer_then [OF envelope.layer_axioms layer_then [OF proxy.layer_axioms layer_then [OF gate.layer_axioms layer_then [OF guard.layer_axioms layer_then [OF augmented.layer_axioms queued.layer_axioms]]]]]]]]])

lemma call_tool_eq:
  "call_tool g = control_plane_required g (tool_authorization g (addon_authority g (case_context g (audit_envelope g (proxy_active_case g
     (evidence_gate g (response_guard g (ingest_status_augment g (job_dispatch g (dispatch g))))))))))"
  by (simp add: call_tool_def gateway_policy_middlewares_def)

lemma call_dispatched:
  assumes "st_calls (snd (call_tool g sc rq st)) \<noteq> st_calls st"
  obtains sc1 rq1 st1 where "call_cond g sc rq st sc1 rq1 st1" "st_calls (snd (call_tool g sc rq st)) = st_calls st @ [(sc1, rq1)]"
    "prefix (st_rows st1) (st_rows (snd (call_tool g sc rq st)))"
  using whole.dispatched [OF assms [unfolded call_tool_eq]] unfolding call_tool_eq .

section \<open>What a call that reaches a backend has passed\<close>

text \<open>C3. Authorisation.  A backend is called only when the control plane is configured, the caller is known or nobody is asked who he
  is, a known caller has a scope for the tool and is within the rate, the scopes of the add-on are held and none
  of its forbidden operations is asked for; and then once, for the same tool and caller.\<close>

theorem call_is_authorized:
  assumes "st_calls (snd (call_tool g sc rq st)) \<noteq> st_calls st"
  shows "present (gw_dsn g) \<and> caller_may g sc rq st \<and> addon_met g sc rq \<and>
    (\<exists>sc1 rq1. st_calls (snd (call_tool g sc rq st)) = st_calls st @ [(sc1, rq1)] \<and> rq_name rq1 = rq_name rq \<and> sc_identity sc1 = sc_identity sc)"
  using assms
proof (rule call_dispatched)
  fix sc1 rq1 st1
  assume "call_cond g sc rq st sc1 rq1 st1" "st_calls (snd (call_tool g sc rq st)) = st_calls st @ [(sc1, rq1)]"
  then show ?thesis
    by (auto simp: call_cond_def then_cond_def same_call_def control_cond_def caller_cond_def addon_cond_def case_cond_def envelope_cond_def
        proxy_cond_def gate_cond_def with_case_def)
qed

lemma call_stages:
  assumes "call_cond g sc rq st sc1 rq1 st1"
  obtains c rq' where "case_found g sc rq c" "proxy_cond g (with_case c (gw_case_service g \<noteq> None) sc) rq st1 (with_case c (gw_case_service g \<noteq> None) sc) rq' st1"
    "gate_cond g (with_case c (gw_case_service g \<noteq> None) sc) rq' st1 sc1 rq1 st1"
    "\<exists>st0. st_rows st0 = st_rows st \<and> reserved g (with_case c (gw_case_service g \<noteq> None) sc) rq st0 st1"
proof -
  from assms obtain st0 c st2 sc2 rq' st3 where r: "st_rows st0 = st_rows st" "case_found g sc rq c"
      "reserved g (with_case c (gw_case_service g \<noteq> None) sc) rq st0 st2"
      "proxy_cond g (with_case c (gw_case_service g \<noteq> None) sc) rq st2 sc2 rq' st3" "gate_cond g sc2 rq' st3 sc1 rq1 st1"
    unfolding call_cond_def then_cond_def same_call_def control_cond_def caller_cond_def addon_cond_def case_cond_def envelope_cond_def
    by blast
  moreover from r(4,5) have "sc2 = with_case c (gw_case_service g \<noteq> None) sc" "st3 = st2" "st1 = st2"
    by (simp_all add: proxy_cond_def gate_cond_def)
  ultimately have r: "st_rows st0 = st_rows st" "case_found g sc rq c"
      "reserved g (with_case c (gw_case_service g \<noteq> None) sc) rq st0 st1"
      "proxy_cond g (with_case c (gw_case_service g \<noteq> None) sc) rq st1 (with_case c (gw_case_service g \<noteq> None) sc) rq' st1"
      "gate_cond g (with_case c (gw_case_service g \<noteq> None) sc) rq' st1 sc1 rq1 st1"
    by simp_all
  from r(2,4,5) show ?thesis by (rule that) (use r(1,3) in blast)
qed

lemma sc_case_with_case [simp]: "sc_case (with_case c db sc) = c"
  by (simp add: with_case_def)


lemma admitted_same_references:
  assumes "admitted g c rq' sc1" "rq_name rq' = rq_name rq"
    "\<And>k. k \<in> {''working_dir'', ''evidence_refs'', ''command'', ''path''} \<Longrightarrow> gget (tool_args rq') k = gget (tool_args rq) k"
  shows "admitted g c rq sc1"
proof -
  have "evidence_references_for_tool (gw_host g) (gw_shown g) (rq_name rq) (tool_args rq') d =
      evidence_references_for_tool (gw_host g) (gw_shown g) (rq_name rq) (tool_args rq) d" for d
    unfolding evidence_references_for_tool_def using declared_subset [of "rq_name rq"] by (intro references_depend assms(3)) auto
  then show ?thesis using assms(1,2) by (simp add: admitted_def)
qed


text \<open>C4. Audit before action.  With an audit table, a tool that is not known to read only reaches a backend only after the row of the request has
  been stored: the answer of the table to this very row was an id, and the row with that id is the next in the table.\<close>

theorem mutating_call_is_audited_first:
  assumes "st_calls (snd (call_tool g sc rq st)) \<noteq> st_calls st" "gw_db_audit g = Some f" "\<not> tool_read_only (gw_surface g) (rq_name rq)"
  shows "\<exists>c event. case_found g sc rq c \<and>
    f (length (st_rows st)) (requested_entry g (with_case c (gw_case_service g \<noteq> None) sc) rq) = Some event \<and>
    prefix (st_rows st @ [(event, requested_entry g (with_case c (gw_case_service g \<noteq> None) sc) rq)]) (st_rows (snd (call_tool g sc rq st)))"
  using assms(1)
proof (rule call_dispatched)
  fix sc1 rq1 st1
  assume cond: "call_cond g sc rq st sc1 rq1 st1" and rows: "prefix (st_rows st1) (st_rows (snd (call_tool g sc rq st)))"
  from cond obtain c rq' where s: "case_found g sc rq c"
      "\<exists>st0. st_rows st0 = st_rows st \<and> reserved g (with_case c (gw_case_service g \<noteq> None) sc) rq st0 st1"
    by (rule call_stages)
  let ?e = "requested_entry g (with_case c (gw_case_service g \<noteq> None) sc) rq"
  from s(2) assms(2,3) obtain event where "f (length (st_rows st)) ?e = Some event" "st_rows st1 = st_rows st @ [(event, ?e)]"
    by (auto simp: reserved_def split: option.splits)
  with s(1) rows show ?thesis by auto
qed

end
