(* ===== verification/Case_Metadata.thy ===== *)
theory Case_Metadata
  imports Gateway_Identity Complex_Main "HOL-Library.AList"
begin

text \<open>
  The metadata of a case (\<open>sift_gateway/active_case.py\<close>): the status words, what a request may put into the metadata, and the plan that carries
  the values of a \<open>CASE.yaml\<close> over to the row of the database.

  \<open>py_eq\<close> is the operator \<open>==\<close> on values of documents, where whole numbers, floats and Booleans are compared by value; the number a float
  stands for, none for \<open>nan\<close>, and \<open>str\<close> of containers are parameters.
\<close>

section \<open>Comparing values\<close>

fun num_value :: "(string \<Rightarrow> real option) \<Rightarrow> gval \<Rightarrow> real option" where
  "num_value fv (GBool b) = Some (if b then 1 else 0)"
| "num_value fv (GNum i) = Some (of_int i)"
| "num_value fv (GFloat t) = fv t"
| "num_value fv v = None"

fun py_eq :: "(string \<Rightarrow> real option) \<Rightarrow> gval \<Rightarrow> gval \<Rightarrow> bool"
  and py_eq_list :: "(string \<Rightarrow> real option) \<Rightarrow> gval list \<Rightarrow> gval list \<Rightarrow> bool"
  and py_eq_fields :: "(string \<Rightarrow> real option) \<Rightarrow> (gkey \<times> gval) list \<Rightarrow> (gkey \<times> gval) list \<Rightarrow> bool" where
  "py_eq fv GNull w \<longleftrightarrow> w = GNull"
| "py_eq fv (GStr s) w \<longleftrightarrow> w = GStr s"
| "py_eq fv (GList xs) w \<longleftrightarrow> (case w of GList ys \<Rightarrow> py_eq_list fv xs ys | _ \<Rightarrow> False)"
| "py_eq fv (GTuple xs) w \<longleftrightarrow> (case w of GTuple ys \<Rightarrow> py_eq_list fv xs ys | _ \<Rightarrow> False)"
| "py_eq fv (GDict d) w \<longleftrightarrow> (case w of GDict e \<Rightarrow> length d = length e \<and> py_eq_fields fv d e | _ \<Rightarrow> False)"
| "py_eq fv v w \<longleftrightarrow> num_value fv v \<noteq> None \<and> num_value fv v = num_value fv w"
| "py_eq_list fv [] ys \<longleftrightarrow> ys = []"
| "py_eq_list fv (x # xs) ys \<longleftrightarrow> (case ys of [] \<Rightarrow> False | y # ys' \<Rightarrow> py_eq fv x y \<and> py_eq_list fv xs ys')"
| "py_eq_fields fv [] e \<longleftrightarrow> True"
| "py_eq_fields fv ((k, v) # d) e \<longleftrightarrow> (case map_of e k of None \<Rightarrow> False | Some w \<Rightarrow> py_eq fv v w) \<and> py_eq_fields fv d e"

section \<open>Status and fields\<close>

definition DB_CASE_STATUSES :: "string list" where
  "DB_CASE_STATUSES = [''draft'', ''active'', ''paused'', ''closed'', ''archived'']"

definition CASE_YAML_STATUS_TO_DB :: "(string \<times> string) list" where
  "CASE_YAML_STATUS_TO_DB = [(''open'', ''active''), (''active'', ''active''), (''draft'', ''draft''), (''paused'', ''paused''),
     (''closed'', ''closed''), (''archived'', ''archived'')]"

definition CASE_BRIEF_METADATA_FIELDS :: "string list" where
  "CASE_BRIEF_METADATA_FIELDS =
     [''description'', ''incident_type'', ''severity'', ''tlp'', ''client'', ''point_of_contact'', ''impact_summary'', ''detected_at'',
      ''occurred_at'', ''reported_at'', ''contained_at'', ''eradicated_at'', ''recovered_at'', ''affected_systems'', ''affected_accounts'',
      ''tags'', ''related_cases'']"

definition CONSUMED_CASE_YAML_FIELDS :: "string list" where
  "CONSUMED_CASE_YAML_FIELDS =
     [''case_id'', ''name'', ''title'', ''description'', ''status'', ''examiner'', ''created'', ''created_at'', ''closed'', ''close_summary'',
      ''lead_examiner''] @ filter (\<lambda>f. f \<noteq> ''description'') CASE_BRIEF_METADATA_FIELDS"

definition CASE_METADATA_JSON_FIELDS :: "string list" where
  "CASE_METADATA_JSON_FIELDS =
     filter (\<lambda>f. f \<notin> {''case_id'', ''name'', ''title'', ''description''}) CONSUMED_CASE_YAML_FIELDS"

definition empty_case_value :: "gval \<Rightarrow> bool" where
  "empty_case_value v \<longleftrightarrow> v \<in> {GNull, GStr [], GList [], GDict []}"

text \<open>An absent field reads as \<open>None\<close>.\<close>

abbreviation field :: "(gkey \<times> gval) list \<Rightarrow> string \<Rightarrow> gval" where
  "field d k \<equiv> or_null (gget d k)"

abbreviation put :: "string \<Rightarrow> gval \<Rightarrow> (gkey \<times> gval) list \<Rightarrow> (gkey \<times> gval) list" where
  "put k \<equiv> AList.update (StrKey k)"

definition status_word :: "(gval \<Rightarrow> string) \<Rightarrow> gval \<Rightarrow> string" where
  "status_word shown v = lower (strip (py_str shown v))"

definition db_status_from_case_yaml :: "(gval \<Rightarrow> string) \<Rightarrow> gval \<Rightarrow> string option \<Rightarrow> string option" where
  "db_status_from_case_yaml shown v d =
     (let raw = status_word shown (or_else (Some v) (GStr [])) in if raw = [] then d else map_of CASE_YAML_STATUS_TO_DB raw)"

definition dict_of :: "gval option \<Rightarrow> (gkey \<times> gval) list" where
  "dict_of v = (case v of Some (GDict d) \<Rightarrow> d | _ \<Rightarrow> [])"

text \<open>\<open>{**metadata, **payload}\<close> looks into the payload first.\<close>

definition coerce_case_metadata :: "(gval \<Rightarrow> string) \<Rightarrow> (gkey \<times> gval) list \<Rightarrow> string \<Rightarrow> (gkey \<times> gval) list" where
  "coerce_case_metadata shown payload db_status =
     (let metadata = dict_of (gget payload ''metadata'') in
      foldl (\<lambda>m f. case (case gget payload f of Some v \<Rightarrow> Some v | None \<Rightarrow> gget metadata f) of
           None \<Rightarrow> m
         | Some v \<Rightarrow>
             if empty_case_value v then m
             else if f = ''status'' \<and> status_word shown v = db_status then m
             else put f v m) metadata CASE_METADATA_JSON_FIELDS)"

section \<open>The plan\<close>

record divergence =
  dv_field :: string
  dv_db :: gval
  dv_yaml :: gval

record backfill_plan =
  bp_updates :: "(gkey \<times> gval) list"
  bp_metadata :: "(gkey \<times> gval) list"
  bp_metadata_changed :: bool
  bp_changed :: bool
  bp_divergences :: "divergence list"

definition fill_column ::
  "(gval \<Rightarrow> string) \<Rightarrow> (gkey \<times> gval) list \<Rightarrow> string \<times> string \<times> gval \<Rightarrow> (gkey \<times> gval) list \<times> divergence list \<Rightarrow> (gkey \<times> gval) list \<times> divergence list" where
  "fill_column shown row = (\<lambda>(f, column, desired) (updates, divs).
     if empty_case_value desired then (updates, divs)
     else let current = field row column in
       if empty_case_value current then (put column desired updates, divs)
       else if py_str shown current \<noteq> py_str shown desired
       then (updates, divs @ [\<lparr>dv_field = f, dv_db = current, dv_yaml = desired\<rparr>])
       else (updates, divs))"

definition fill_metadata ::
  "(string \<Rightarrow> real option) \<Rightarrow> (gkey \<times> gval) list \<Rightarrow> string \<Rightarrow> (gkey \<times> gval) list \<times> divergence list \<Rightarrow> (gkey \<times> gval) list \<times> divergence list" where
  "fill_metadata fv yaml f = (\<lambda>(metadata, divs).
     case gget yaml f of
       None \<Rightarrow> (metadata, divs)
     | Some desired \<Rightarrow>
         if empty_case_value desired then (metadata, divs)
         else let current = field metadata f in
           if empty_case_value current then (put f desired metadata, divs)
           else if \<not> py_eq fv current desired
           then (metadata, divs @ [\<lparr>dv_field = f, dv_db = current, dv_yaml = desired\<rparr>])
           else (metadata, divs))"

text \<open>The columns a plan may fill, with the values of the document.\<close>

definition wanted_columns :: "(gval \<Rightarrow> string) \<Rightarrow> (gkey \<times> gval) list \<Rightarrow> (string \<times> string \<times> gval) list" where
  "wanted_columns shown yaml =
     [(''case_id'', ''case_key'', field yaml ''case_id''),
      (''name'', ''title'', or_else (gget yaml ''name'') (field yaml ''title'')),
      (''description'', ''description'', field yaml ''description'')] @
     (case db_status_from_case_yaml shown (field yaml ''status'') None of
        Some s \<Rightarrow> [(''status'', ''status'', GStr s)]
      | None \<Rightarrow> [])"

text \<open>Comparing the filled metadata with the old as the code does is comparing them field by field: a field that was filled was empty.\<close>

definition plan_case_yaml_backfill ::
  "(gval \<Rightarrow> string) \<Rightarrow> (string \<Rightarrow> real option) \<Rightarrow> (gkey \<times> gval) list \<Rightarrow> (gkey \<times> gval) list \<Rightarrow> backfill_plan" where
  "plan_case_yaml_backfill shown fv row yaml =
     (let old = dict_of (gget row ''metadata'');
          (updates, divs1) = fold (fill_column shown row) (wanted_columns shown yaml) ([], []);
          (metadata, divs2) = fold (fill_metadata fv yaml) CASE_METADATA_JSON_FIELDS (old, divs1);
          changed = (metadata \<noteq> old)
      in \<lparr>bp_updates = updates, bp_metadata = metadata, bp_metadata_changed = changed, bp_changed = (updates \<noteq> [] \<or> changed),
          bp_divergences = divs2\<rparr>)"

text \<open>Carrying a plan out.\<close>

definition apply_plan :: "backfill_plan \<Rightarrow> (gkey \<times> gval) list \<Rightarrow> (gkey \<times> gval) list" where
  "apply_plan p row = put ''metadata'' (GDict (bp_metadata p)) (AList.merge row (bp_updates p))"


section \<open>A plan fills what is empty, once\<close>

lemma field_put: "field (put k v d) j = (if j = k then v else field d j)"
  by (simp add: gget_def update_conv' or_null_def)

lemma field_merge: "field (AList.merge d u) k = (case gget u k of Some v \<Rightarrow> v | None \<Rightarrow> field d k)"
  by (simp add: gget_def merge_conv' map_add_def or_null_def split: option.split)

text \<open>Both folds fill the entries that are wanted and empty.\<close>

lemma columns_settled:
  "(\<And>f c v. (f, c, v) \<in> set wanted \<Longrightarrow> empty_case_value v \<or> \<not> empty_case_value (field row c)) \<Longrightarrow>
     fst (fold (fill_column shown row) wanted (u, d)) = u"
proof (induction wanted arbitrary: d)
  case (Cons w wanted)
  obtain f c v where w: "w = (f, c, v)" by (cases w)
  have "\<exists>d'. fill_column shown row w (u, d) = (u, d')"
    using Cons.prems [of f c v] by (auto simp: w fill_column_def Let_def)
  then show ?case using Cons.IH Cons.prems by fastforce
qed simp

lemma columns_filled:
  assumes "\<And>k x. gget u k = Some x \<Longrightarrow> \<not> empty_case_value x \<and> empty_case_value (field row k)"
  shows "(\<forall>k x. gget (fst (fold (fill_column shown row) wanted (u, d))) k = Some x \<longrightarrow> \<not> empty_case_value x \<and> empty_case_value (field row k)) \<and>
    (\<forall>k. gget u k \<noteq> None \<longrightarrow> gget (fst (fold (fill_column shown row) wanted (u, d))) k \<noteq> None) \<and>
    (\<forall>(f, c, v) \<in> set wanted. \<not> empty_case_value v \<longrightarrow> empty_case_value (field row c) \<longrightarrow>
       gget (fst (fold (fill_column shown row) wanted (u, d))) c \<noteq> None)"
  using assms
proof (induction wanted arbitrary: u d)
  case (Cons w wanted)
  obtain f c v where w: "w = (f, c, v)" by (cases w)
  obtain u' d' where step: "fill_column shown row w (u, d) = (u', d')" by (cases "fill_column shown row w (u, d)")
  have u': "u' = (if \<not> empty_case_value v \<and> empty_case_value (field row c) then put c v u else u)"
    using step by (auto simp: w fill_column_def Let_def split: if_splits)
  have "gget u' k = Some x \<Longrightarrow> \<not> empty_case_value x \<and> empty_case_value (field row k)" for k x
    using Cons.prems [of k x] by (auto simp: u' gget_def update_conv' split: if_splits)
  note IH = Cons.IH [where u = u' and d = d', OF this]
  have keep: "gget u k \<noteq> None \<Longrightarrow> gget u' k \<noteq> None" for k by (auto simp: u' gget_def update_conv')
  have here: "\<not> empty_case_value v \<Longrightarrow> empty_case_value (field row c) \<Longrightarrow> gget u' c \<noteq> None" by (simp add: u' gget_def update_conv')
  show ?case using IH keep here unfolding fold_simps step by (auto simp: w)
qed auto

text \<open>The metadata: what was there stays, what is wanted is there, and settled metadata does not change.\<close>

lemma metadata_step:
  "fst (fill_metadata fv yaml f (m, d)) =
     (case gget yaml f of Some v \<Rightarrow> if \<not> empty_case_value v \<and> empty_case_value (field m f) then put f v m else m | None \<Rightarrow> m)"
  by (auto simp: fill_metadata_def Let_def split: option.split)

lemma metadata_settled:
  "(\<And>f v. f \<in> set fs \<Longrightarrow> gget yaml f = Some v \<Longrightarrow> empty_case_value v \<or> \<not> empty_case_value (field m f)) \<Longrightarrow>
     fst (fold (fill_metadata fv yaml) fs (m, d)) = m"
proof (induction fs arbitrary: d)
  case (Cons f fs)
  have "fst (fill_metadata fv yaml f (m, d)) = m"
    using Cons.prems [of f] by (auto simp: metadata_step split: option.split)
  then obtain d' where "fill_metadata fv yaml f (m, d) = (m, d')" by (cases "fill_metadata fv yaml f (m, d)") simp
  with Cons show ?case by simp
qed simp

lemma metadata_filled:
  "(\<forall>k. \<not> empty_case_value (field m k) \<longrightarrow> field (fst (fold (fill_metadata fv yaml) fs (m, d))) k = field m k) \<and>
   (\<forall>f \<in> set fs. \<forall>v. gget yaml f = Some v \<longrightarrow> \<not> empty_case_value v \<longrightarrow>
      \<not> empty_case_value (field (fst (fold (fill_metadata fv yaml) fs (m, d))) f))"
proof (induction fs arbitrary: m d)
  case (Cons f fs)
  obtain m' d' where step: "fill_metadata fv yaml f (m, d) = (m', d')" by (cases "fill_metadata fv yaml f (m, d)")
  then have m': "m' = (case gget yaml f of Some v \<Rightarrow> if \<not> empty_case_value v \<and> empty_case_value (field m f) then put f v m else m | None \<Rightarrow> m)"
    using metadata_step [of fv yaml f m d] by simp
  have keep: "\<not> empty_case_value (field m k) \<Longrightarrow> field m' k = field m k" for k
    by (auto simp: m' field_put split: option.split)
  have here: "gget yaml f = Some v \<Longrightarrow> \<not> empty_case_value v \<Longrightarrow> \<not> empty_case_value (field m' f)" for v
    by (simp add: m' field_put)
  from Cons.IH [of m' d'] keep here show ?case unfolding step fold_simps by (metis set_ConsD)
qed simp

text \<open>Carrying a case file over.  The plan leaves every column and every field of the metadata that has a value as it is, and once it
  is carried out there is nothing left to carry over: planning again changes nothing.\<close>

theorem backfill_fills_once:
  "\<not> bp_changed (plan_case_yaml_backfill shown fv (apply_plan (plan_case_yaml_backfill shown fv row yaml) row) yaml) \<and>
    (\<forall>k. k = ''metadata'' \<or> empty_case_value (field row k) \<or>
       field (apply_plan (plan_case_yaml_backfill shown fv row yaml) row) k = field row k) \<and>
    (\<forall>k. empty_case_value (field (dict_of (gget row ''metadata'')) k) \<or>
       field (bp_metadata (plan_case_yaml_backfill shown fv row yaml)) k = field (dict_of (gget row ''metadata'')) k)"
proof (intro conjI)
  define p where "p = plan_case_yaml_backfill shown fv row yaml"
  let ?old = "dict_of (gget row ''metadata'')" and ?row = "apply_plan p row"
  obtain updates divs1 where c: "fold (fill_column shown row) (wanted_columns shown yaml) ([], []) = (updates, divs1)"
    by (cases "fold (fill_column shown row) (wanted_columns shown yaml) ([], [])")
  obtain m divs2 where md: "fold (fill_metadata fv yaml) CASE_METADATA_JSON_FIELDS (?old, divs1) = (m, divs2)"
    by (cases "fold (fill_metadata fv yaml) CASE_METADATA_JSON_FIELDS (?old, divs1)")
  have p: "bp_updates p = updates" "bp_metadata p = m"
    by (simp_all add: p_def plan_case_yaml_backfill_def c md Let_def)
  have cols: "\<And>k x. gget updates k = Some x \<Longrightarrow> \<not> empty_case_value x \<and> empty_case_value (field row k)"
      "\<And>f col v. (f, col, v) \<in> set (wanted_columns shown yaml) \<Longrightarrow> \<not> empty_case_value v \<Longrightarrow> empty_case_value (field row col) \<Longrightarrow>
         gget updates col \<noteq> None"
  proof -
    have none: "gget [] k = Some x \<Longrightarrow> \<not> empty_case_value x \<and> empty_case_value (field row k)" for k x by (simp add: gget_def)
    note f = columns_filled [where u = "[]" and wanted = "wanted_columns shown yaml" and d = "[]" and shown = shown, OF none, unfolded c fst_conv]
    show "gget updates k = Some x \<Longrightarrow> \<not> empty_case_value x \<and> empty_case_value (field row k)" for k x using f by blast
    show "(f, col, v) \<in> set (wanted_columns shown yaml) \<Longrightarrow> \<not> empty_case_value v \<Longrightarrow> empty_case_value (field row col) \<Longrightarrow>
         gget updates col \<noteq> None" for f col v using f by blast
  qed
  have meta: "\<And>k. \<not> empty_case_value (field ?old k) \<Longrightarrow> field m k = field ?old k"
      "\<And>f v. f \<in> set CASE_METADATA_JSON_FIELDS \<Longrightarrow> gget yaml f = Some v \<Longrightarrow> \<not> empty_case_value v \<Longrightarrow> \<not> empty_case_value (field m f)"
    using metadata_filled [of ?old fv yaml CASE_METADATA_JSON_FIELDS divs1] unfolding md fst_conv by blast+
  have col: "field ?row k = (case gget updates k of Some v \<Rightarrow> v | None \<Rightarrow> field row k)" if "k \<noteq> ''metadata''" for k
    using that by (simp add: apply_plan_def p field_put field_merge)
  have old: "dict_of (gget ?row ''metadata'') = m"
    by (simp add: apply_plan_def p gget_def update_conv' dict_of_def)
  have names: "(f, k, v) \<in> set (wanted_columns shown yaml) \<Longrightarrow> k \<noteq> ''metadata''" for f k v
    by (auto simp: wanted_columns_def split: option.splits)
  have "fst (fold (fill_column shown ?row) (wanted_columns shown yaml) ([], [])) = []"
  proof (rule columns_settled)
    fix f k v assume w: "(f, k, v) \<in> set (wanted_columns shown yaml)"
    show "empty_case_value v \<or> \<not> empty_case_value (field ?row k)"
      using cols(1) [of k] cols(2) [OF w] col [OF names [OF w]] by (cases "gget updates k") auto
  qed
  moreover have "fst (fold (fill_metadata fv yaml) CASE_METADATA_JSON_FIELDS (m, d)) = m" for d
    using meta(2) by (intro metadata_settled) blast
  ultimately have settled: "fst (fold (fill_column shown ?row) (wanted_columns shown yaml) ([], [])) = []"
      "\<And>d. fst (fold (fill_metadata fv yaml) CASE_METADATA_JSON_FIELDS (m, d)) = m" by blast+
  obtain d1 where d1: "fold (fill_column shown ?row) (wanted_columns shown yaml) ([], []) = ([], d1)"
    using settled(1) by (metis prod.collapse)
  obtain d2 where d2: "fold (fill_metadata fv yaml) CASE_METADATA_JSON_FIELDS (m, d1) = (m, d2)"
    using settled(2) [of d1] by (metis prod.collapse)
  have "\<not> bp_changed (plan_case_yaml_backfill shown fv ?row yaml)"
    by (simp add: plan_case_yaml_backfill_def old Let_def d1 d2)
  then show "\<not> bp_changed (plan_case_yaml_backfill shown fv (apply_plan (plan_case_yaml_backfill shown fv row yaml) row) yaml)"
    by (simp add: p_def)
  have "\<forall>k. k = ''metadata'' \<or> empty_case_value (field row k) \<or> field ?row k = field row k"
    using cols(1) col by (auto split: option.splits)
  then show "\<forall>k. k = ''metadata'' \<or> empty_case_value (field row k) \<or>
      field (apply_plan (plan_case_yaml_backfill shown fv row yaml) row) k = field row k" by (simp add: p_def)
  have "\<forall>k. empty_case_value (field ?old k) \<or> field (bp_metadata p) k = field ?old k"
    using meta(1) unfolding p by blast
  then show "\<forall>k. empty_case_value (field ?old k) \<or>
      field (bp_metadata (plan_case_yaml_backfill shown fv row yaml)) k = field ?old k" by (simp add: p_def)
qed

end
