(* ===== verification/Active_Case.thy ===== *)
theory Active_Case
  imports Case_Metadata "HOL-Library.List_Lexorder" "HOL-Library.Char_ord"
begin

text \<open>
  The authority on cases (\<open>ActiveCaseService\<close> of \<open>sift_gateway/active_case.py\<close>): which case is active in the deployment, who may enter it, who
  may create, activate and change cases.

  The tables \<open>cases\<close>, \<open>case_members\<close>, \<open>active_case_state\<close> and \<open>audit_events\<close> are lists and fields of \<open>case_store\<close>; each method is one
  transaction, so a fault leaves the tables as they were.  The unique indices on the id and the key of a case are kept by the insertion, and
  the one on active members leaves one active row per case and operator.  The new id and the time stamp of a generated
  key are arguments.
\<close>

section \<open>Callers\<close>

text \<open>An identity of the gateway or the dictionary of a portal session.\<close>

datatype actor = Nobody | Caller identity | Session "(gkey \<times> gval) list"

definition str_or_none :: "(gval \<Rightarrow> string) \<Rightarrow> gval \<Rightarrow> gval" where
  "str_or_none shown v = (if gtruthy v then GStr (py_str shown v) else GNull)"

fun actor_type :: "actor \<Rightarrow> gval" where
  "actor_type Nobody = GNull"
| "actor_type (Caller i) = GStr (if principal_type i = ''user'' then ''operator'' else principal_type i)"
| "actor_type (Session d) = field d ''principal_type''"

fun actor_id :: "(gval \<Rightarrow> string) \<Rightarrow> actor \<Rightarrow> gval" where
  "actor_id shown Nobody = GNull"
| "actor_id shown (Caller i) = principal_id i"
| "actor_id shown (Session d) = str_or_none shown (field d ''principal_id'')"

fun actor_system_role :: "(gval \<Rightarrow> string) \<Rightarrow> actor \<Rightarrow> gval" where
  "actor_system_role shown Nobody = GNull"
| "actor_system_role shown (Caller i) = system_role i"
| "actor_system_role shown (Session d) = str_or_none shown (field d ''system_role'')"

fun actor_default_case :: "(gval \<Rightarrow> string) \<Rightarrow> actor \<Rightarrow> gval" where
  "actor_default_case shown Nobody = GNull"
| "actor_default_case shown (Caller i) = id_case_id i"
| "actor_default_case shown (Session d) = str_or_none shown (or_else (gget d ''case_id'') (field d ''default_case_id''))"

definition sequence_of :: "gval \<Rightarrow> gval list" where
  "sequence_of v = (case v of GList xs \<Rightarrow> xs | GTuple xs \<Rightarrow> xs | _ \<Rightarrow> [])"

fun membership_role_from_identity :: "(gval \<Rightarrow> string) \<Rightarrow> actor \<Rightarrow> string \<Rightarrow> gval" where
  "membership_role_from_identity shown Nobody cid = GNull"
| "membership_role_from_identity shown (Caller i) cid =
     (case find (\<lambda>m. cm_case_id m = cid) (case_memberships i) of Some m \<Rightarrow> GStr (cm_role m) | None \<Rightarrow> GNull)"
| "membership_role_from_identity shown (Session d) cid =
     (case find (\<lambda>m. case m of GDict e \<Rightarrow> py_str shown (field e ''case_id'') = cid | _ \<Rightarrow> False)
         (sequence_of (or_else (gget d ''case_memberships'') (GTuple []))) of
        Some m \<Rightarrow> str_or_none shown (field (dict_of (Some m)) ''role'')
      | None \<Rightarrow> GNull)"

definition actor_columns :: "(gval \<Rightarrow> string) \<Rightarrow> actor \<Rightarrow> string \<times> gval" where
  "actor_columns shown a =
     (if actor_type a = GStr ''operator'' then (''user'', actor_id shown a)
      else if actor_type a = GStr ''agent'' then (''agent'', actor_id shown a)
      else if actor_type a = GStr ''service'' then (''service'', actor_id shown a)
      else (''system'', GNull))"

section \<open>The tables\<close>

record case_db =
  cd_id :: string
  cd_key :: string
  cd_title :: string
  cd_description :: "string option"
  cd_status :: string
  cd_dir :: "string option"
  cd_metadata :: "(gkey \<times> gval) list"
  cd_created_by :: gval

record member_row =
  mb_case :: string
  mb_operator :: gval
  mb_role :: string
  mb_status :: string

record case_event =
  ce_case :: string
  ce_event :: string
  ce_actor_type :: string
  ce_actor :: gval
  ce_summary :: string
  ce_details :: "(gkey \<times> gval) list"

record case_note =
  cn_event :: string
  cn_case :: string
  cn_key :: string
  cn_examiner :: gval

record case_store =
  cs_cases :: "case_db list"
  cs_members :: "member_row list"
  cs_active :: "string option"
  cs_set_by :: gval
  cs_events :: "case_event list"
  cs_notes :: "case_note list"

record active_case_row =
  ac_row :: case_db
  ac_role :: gval

datatype case_fault = CaseFault string int | DatabaseFault

definition case_from_row :: "case_db \<Rightarrow> case_db" where
  "case_from_row c = c\<lparr>cd_dir := (case cd_dir c of Some d \<Rightarrow> if d = [] then None else Some d | None \<Rightarrow> None)\<rparr>"

definition opt_gval :: "string option \<Rightarrow> gval" where
  "opt_gval s = (case s of Some t \<Rightarrow> GStr t | None \<Rightarrow> GNull)"

definition as_dict :: "active_case_row \<Rightarrow> gval" where
  "as_dict a =
     (let c = ac_row a in str_dict
        [(''id'', GStr (cd_key c)), (''uuid'', GStr (cd_id c)), (''case_id'', GStr (cd_id c)), (''case_key'', GStr (cd_key c)),
         (''title'', GStr (cd_title c)), (''name'', GStr (cd_title c)), (''description'', opt_gval (cd_description c)),
         (''status'', GStr (cd_status c)), (''artifact_path'', opt_gval (cd_dir c)), (''case_dir'', opt_gval (cd_dir c)),
         (''metadata'', GDict (cd_metadata c)), (''membership_role'', ac_role a)])"

section \<open>Roles\<close>

definition WRITE_ROLES :: "gval list" where
  "WRITE_ROLES = map GStr [''operator'', ''lead'', ''owner'', ''admin'']"

definition SYSTEM_BYPASS_ROLES :: "gval list" where
  "SYSTEM_BYPASS_ROLES = map GStr [''owner'', ''admin'']"

definition stored_role :: "case_store \<Rightarrow> string \<Rightarrow> gval \<Rightarrow> gval" where
  "stored_role s cid pid =
     (case find (\<lambda>m. mb_case m = cid \<and> mb_operator m = pid \<and> mb_status m = ''active'') (rev (cs_members s)) of
        Some m \<Rightarrow> GStr (mb_role m)
      | None \<Rightarrow> GNull)"

text \<open>\<open>GNull\<close> is the absence of a role.\<close>

definition membership_role :: "(gval \<Rightarrow> string) \<Rightarrow> case_store \<Rightarrow> actor \<Rightarrow> string \<Rightarrow> gval" where
  "membership_role shown s a cid =
     (if a = Nobody then GNull
      else if actor_type a = GStr ''operator'' \<and> actor_system_role shown a \<in> set SYSTEM_BYPASS_ROLES then actor_system_role shown a
      else if gtruthy (membership_role_from_identity shown a cid) then membership_role_from_identity shown a cid
      else if actor_default_case shown a = GStr cid then or_else (Some (actor_type a)) (GStr ''principal'')
      else if actor_type a \<noteq> GStr ''operator'' \<or> \<not> gtruthy (actor_id shown a) then GNull
      else stored_role s cid (actor_id shown a))"

definition get_active_case :: "(gval \<Rightarrow> string) \<Rightarrow> case_store \<Rightarrow> actor \<Rightarrow> case_fault + active_case_row" where
  "get_active_case shown s a =
     (case cs_active s of
        None \<Rightarrow> Inl (CaseFault ''no_active_case'' 404)
      | Some cid \<Rightarrow>
          (case find (\<lambda>c. cd_id c = cid) (cs_cases s) of
             None \<Rightarrow> Inl (CaseFault ''no_active_case'' 404)
           | Some c \<Rightarrow> Inr \<lparr>ac_row = case_from_row c, ac_role = membership_role shown s a (cd_id c)\<rparr>))"

definition require_active_case :: "(gval \<Rightarrow> string) \<Rightarrow> case_store \<Rightarrow> actor \<Rightarrow> case_fault + active_case_row" where
  "require_active_case shown s a =
     res_bind (get_active_case shown s a) (\<lambda>c.
       if membership_role shown s a (cd_id (ac_row c)) = GNull then Inl (CaseFault ''active_case_membership_required'' 403) else Inr c)"

text \<open>A row found by its id or its key; the first of the table when both are met.\<close>

definition find_case :: "case_store \<Rightarrow> string \<Rightarrow> case_db option" where
  "find_case s cid = find (\<lambda>c. cd_id c = cid \<or> cd_key c = cid) (cs_cases s)"

definition get_case_metadata :: "(gval \<Rightarrow> string) \<Rightarrow> case_store \<Rightarrow> string \<Rightarrow> actor \<Rightarrow> case_fault + active_case_row" where
  "get_case_metadata shown s cid a =
     (case find_case s cid of
        None \<Rightarrow> Inl (CaseFault ''case_not_found'' 404)
      | Some c \<Rightarrow>
          (let role = membership_role shown s a (cd_id c) in
           if role = GNull then Inl (CaseFault ''case_membership_required'' 403)
           else Inr \<lparr>ac_row = case_from_row c, ac_role = role\<rparr>))"

text \<open>The cases a caller is shown, the newest first; rows are added at the end of a table.\<close>

definition list_cases :: "(gval \<Rightarrow> string) \<Rightarrow> case_store \<Rightarrow> actor \<Rightarrow> active_case_row list" where
  "list_cases shown s a =
     (if actor_type a = GStr ''operator'' \<and> actor_system_role shown a \<in> set SYSTEM_BYPASS_ROLES
      then map (\<lambda>c. \<lparr>ac_row = case_from_row c, ac_role = GNull\<rparr>) (rev (cs_cases s))
      else if actor_type a = GStr ''operator'' \<and> gtruthy (actor_id shown a)
      then concat (map (\<lambda>c. map (\<lambda>m. \<lparr>ac_row = case_from_row c, ac_role = GStr (mb_role m)\<rparr>)
          (filter (\<lambda>m. mb_case m = cd_id c \<and> mb_operator m = actor_id shown a \<and> mb_status m = ''active'') (cs_members s))) (rev (cs_cases s)))
      else if \<not> gtruthy (actor_default_case shown a) then []
      else map (\<lambda>c. \<lparr>ac_row = case_from_row c, ac_role = GNull\<rparr>)
        (filter (\<lambda>c. GStr (cd_id c) = actor_default_case shown a) (rev (cs_cases s))))"

section \<open>Events\<close>

definition insert_event :: "(gval \<Rightarrow> string) \<Rightarrow> string \<Rightarrow> actor \<Rightarrow> string \<Rightarrow> string \<Rightarrow> (gkey \<times> gval) list \<Rightarrow> case_store \<Rightarrow> case_store" where
  "insert_event shown event a cid summary details s =
     (let (kind, pid) = actor_columns shown a in
      s\<lparr>cs_events := cs_events s @ [\<lparr>ce_case = cid, ce_event = event, ce_actor_type = kind,
         ce_actor = (if gtruthy pid then pid else GNull), ce_summary = summary, ce_details = details\<rparr>]\<rparr>)"

definition set_active_row :: "(gval \<Rightarrow> string) \<Rightarrow> string \<Rightarrow> actor \<Rightarrow> case_store \<Rightarrow> case_store" where
  "set_active_row shown cid a s =
     insert_event shown ''active_case.changed'' a cid ''deployment active case changed'' [(StrKey ''authority'', GStr ''postgres'')]
       (s\<lparr>cs_active := Some cid, cs_set_by := snd (actor_columns shown a)\<rparr>)"

definition examiner_of_actor :: "actor \<Rightarrow> gval" where
  "examiner_of_actor a =
     (case a of Caller i \<Rightarrow> GStr (principal i) | Session d \<Rightarrow> or_else (gget d ''display_name'') (field d ''email'') | Nobody \<Rightarrow> GNull)"

definition notify :: "string \<Rightarrow> actor \<Rightarrow> case_db \<Rightarrow> case_store \<Rightarrow> case_store" where
  "notify event a c s = s\<lparr>cs_notes := cs_notes s @ [\<lparr>cn_event = event, cn_case = cd_id c, cn_key = cd_key c, cn_examiner = examiner_of_actor a\<rparr>]\<rparr>"

section \<open>Creating a case\<close>

text \<open>A run of characters replaced by one hyphen.\<close>

function squash :: "(char \<Rightarrow> bool) \<Rightarrow> string \<Rightarrow> string" where
  "squash P [] = []"
| "squash P (c # cs) = (if P c then CHR ''-'' # squash P (dropWhile P cs) else c # squash P cs)"
  by pat_completeness auto

termination
  by (relation "measure (\<lambda>(P, s). length s)") (auto simp: less_Suc_eq_le length_dropWhile_le)

definition lower_letter :: "char \<Rightarrow> bool" where
  "lower_letter c \<longleftrightarrow> c \<in> set ''abcdefghijklmnopqrstuvwxyz''"

definition key_char :: "char \<Rightarrow> bool" where
  "key_char c \<longleftrightarrow> lower_letter c \<or> c \<in> set ''0123456789_-''"

definition strip_hyphens :: "string \<Rightarrow> string" where
  "strip_hyphens s = rev (dropWhile (\<lambda>c. c = CHR ''-'') (rev (dropWhile (\<lambda>c. c = CHR ''-'') s)))"

definition case_key_from_name :: "string \<Rightarrow> string \<Rightarrow> string" where
  "case_key_from_name stamp name =
     (let slug = strip_hyphens (squash (\<lambda>c. \<not> key_char c) (lower name));
          slug = squash (\<lambda>c. c = CHR ''-'') slug;
          slug = (if slug = [] then ''case'' else slug)
      in take 45 slug @ ''-'' @ stamp)"

text \<open>The whole text matches \<open>[a-z][a-z0-9_-]{2,63}\<close>.\<close>

definition valid_case_key :: "string \<Rightarrow> bool" where
  "valid_case_key s \<longleftrightarrow> (case s of [] \<Rightarrow> False | c # cs \<Rightarrow> lower_letter c \<and> list_all key_char cs \<and> 2 \<le> length cs \<and> length cs \<le> 63)"

definition requested_key :: "(gval \<Rightarrow> string) \<Rightarrow> string \<Rightarrow> (gkey \<times> gval) list \<Rightarrow> string" where
  "requested_key shown stamp payload =
     (let key = strip (py_str shown (or_else (gget payload ''case_key'') (or_else (gget payload ''case_id'') (GStr []))))
      in if key = [] then case_key_from_name stamp (py_str shown (or_else (gget payload ''casename'') (GStr ''case''))) else key)"

definition stripped_or_none :: "(gval \<Rightarrow> string) \<Rightarrow> gval \<Rightarrow> string option" where
  "stripped_or_none shown v = (if v = GNull then None else let t = strip (py_str shown v) in if t = [] then None else Some t)"

text \<open>The row a request asks for, before the table is asked.\<close>

definition requested_case ::
  "(gval \<Rightarrow> string) \<Rightarrow> string \<Rightarrow> string \<Rightarrow> (gkey \<times> gval) list \<Rightarrow> actor \<Rightarrow> case_fault + case_db" where
  "requested_case shown fresh stamp payload a =
     (let key = requested_key shown stamp payload in
      if \<not> valid_case_key key then Inl (CaseFault ''invalid_case_key'' 400)
      else let title = strip (py_str shown (or_else (gget payload ''title'') (or_else (gget payload ''name'') (GStr key)))) in
      if title = [] then Inl (CaseFault ''title_required'' 400)
      else case db_status_from_case_yaml shown (field payload ''status'') (Some ''active'') of
        None \<Rightarrow> Inl (CaseFault ''invalid_case_status'' 400)
      | Some status \<Rightarrow>
          if status \<notin> set DB_CASE_STATUSES then Inl (CaseFault ''invalid_case_status'' 400)
          else let dir = or_else (gget payload ''artifact_path'') (field payload ''case_dir'') in
            Inr \<lparr>cd_id = fresh, cd_key = key, cd_title = title, cd_description = stripped_or_none shown (field payload ''description''),
              cd_status = status, cd_dir = (if gtruthy dir then Some (strip (py_str shown dir)) else None),
              cd_metadata = coerce_case_metadata shown payload status, cd_created_by = actor_id shown a\<rparr>)"

definition insert_case :: "case_db \<Rightarrow> case_store \<Rightarrow> case_fault + case_store" where
  "insert_case c s =
     (if list_ex (\<lambda>d. cd_id d = cd_id c \<or> cd_key d = cd_key c) (cs_cases s) then Inl DatabaseFault
      else Inr (s\<lparr>cs_cases := cs_cases s @ [c]\<rparr>))"

definition create_case ::
  "(gval \<Rightarrow> string) \<Rightarrow> string \<Rightarrow> string \<Rightarrow> (gkey \<times> gval) list \<Rightarrow> actor \<Rightarrow> case_store \<Rightarrow> case_store \<times> (case_fault + active_case_row)" where
  "create_case shown fresh stamp payload a s =
     (if actor_type a \<noteq> GStr ''operator'' \<or> \<not> gtruthy (actor_id shown a) then (s, Inl (CaseFault ''operator_principal_required'' 403))
      else case res_bind (requested_case shown fresh stamp payload a) (\<lambda>c. res_bind (insert_case c s) (\<lambda>s1. Inr (c, s1))) of
        Inl e \<Rightarrow> (s, Inl e)
      | Inr (c, s1) \<Rightarrow>
          (let s2 = s1\<lparr>cs_members := cs_members s1 @ [\<lparr>mb_case = cd_id c, mb_operator = actor_id shown a, mb_role = ''owner'', mb_status = ''active''\<rparr>]\<rparr>;
               s3 = insert_event shown ''case.created'' a (cd_id c) (''created case '' @ cd_key c) [(StrKey ''case_key'', GStr (cd_key c))] s2;
               s4 = (if gtruthy (case gget payload ''activate'' of Some v \<Rightarrow> v | None \<Rightarrow> GBool True) then set_active_row shown (cd_id c) a s3 else s3)
           in (notify ''case.created'' a (case_from_row c) s4, Inr \<lparr>ac_row = case_from_row c, ac_role = GStr ''owner''\<rparr>)))"

section \<open>Activating a case\<close>

definition set_active_case :: "(gval \<Rightarrow> string) \<Rightarrow> string \<Rightarrow> actor \<Rightarrow> case_store \<Rightarrow> case_store \<times> (case_fault + active_case_row)" where
  "set_active_case shown cid a s =
     (case find_case s cid of
        None \<Rightarrow> (s, Inl (CaseFault ''case_not_found'' 404))
      | Some c \<Rightarrow>
          (let role = membership_role shown s a (cd_id c) in
           if role \<notin> set WRITE_ROLES then (s, Inl (CaseFault ''active_case_membership_required'' 403))
           else (notify ''active_case.changed'' a (case_from_row c) (set_active_row shown (cd_id c) a s),
                 Inr \<lparr>ac_row = case_from_row c, ac_role = role\<rparr>)))"

section \<open>Changing a case\<close>

type_synonym case_changes = "(gkey \<times> gval) list \<times> (gkey \<times> gval) list"

definition patched_title :: "(gval \<Rightarrow> string) \<Rightarrow> (gkey \<times> gval) list \<Rightarrow> (gkey \<times> gval) list \<Rightarrow> (gkey \<times> gval) list" where
  "patched_title shown patch updates =
     (if gget patch ''title'' \<noteq> None \<or> gget patch ''name'' \<noteq> None
      then put ''title'' (GStr (strip (py_str shown (or_else (gget patch ''title'') (or_else (gget patch ''name'') (GStr [])))))) updates
      else updates)"

definition patched_description :: "(gval \<Rightarrow> string) \<Rightarrow> (gkey \<times> gval) list \<Rightarrow> (gkey \<times> gval) list \<Rightarrow> (gkey \<times> gval) list" where
  "patched_description shown patch updates =
     (case gget patch ''description'' of
        None \<Rightarrow> updates
      | Some v \<Rightarrow> put ''description'' (if v = GNull then GNull else GStr (strip (py_str shown v))) updates)"

definition patched_status :: "(gval \<Rightarrow> string) \<Rightarrow> (gkey \<times> gval) list \<Rightarrow> (gkey \<times> gval) list \<Rightarrow> case_fault + (gkey \<times> gval) list" where
  "patched_status shown patch updates =
     (case gget patch ''status'' of
        None \<Rightarrow> Inr updates
      | Some v \<Rightarrow>
          (case db_status_from_case_yaml shown v None of
             None \<Rightarrow> Inl (CaseFault ''invalid_case_status'' 400)
           | Some t \<Rightarrow> if t \<in> set DB_CASE_STATUSES then Inr (put ''status'' (GStr t) updates) else Inl (CaseFault ''invalid_case_status'' 400)))"

definition incoming_status :: "(gval \<Rightarrow> string) \<Rightarrow> (gkey \<times> gval) list \<Rightarrow> case_changes \<Rightarrow> case_changes" where
  "incoming_status shown incoming = (\<lambda>(updates, metadata).
     case gget incoming ''status'' of
       None \<Rightarrow> (updates, metadata)
     | Some v \<Rightarrow>
         (case db_status_from_case_yaml shown v None of
            None \<Rightarrow> (updates, put ''status'' v metadata)
          | Some t \<Rightarrow>
              if t \<notin> set DB_CASE_STATUSES then (updates, put ''status'' v metadata)
              else (put ''status'' (GStr t) updates, if status_word shown v \<noteq> t then put ''status'' v metadata else metadata)))"

definition incoming_fields :: "(gkey \<times> gval) list \<Rightarrow> (gkey \<times> gval) list \<Rightarrow> (gkey \<times> gval) list" where
  "incoming_fields incoming metadata =
     foldl (\<lambda>m (k, v). AList.update k v m) metadata
       (filter (\<lambda>(k, v). (\<exists>f \<in> set CASE_METADATA_JSON_FIELDS. k = StrKey f \<and> f \<noteq> ''status'') \<and> \<not> empty_case_value v) incoming)"

definition merge_incoming :: "(gval \<Rightarrow> string) \<Rightarrow> (gkey \<times> gval) list \<Rightarrow> case_changes \<Rightarrow> case_fault + case_changes" where
  "merge_incoming shown patch changes =
     (case gget patch ''metadata'' of
        None \<Rightarrow> Inr changes
      | Some (GDict incoming) \<Rightarrow>
          (let (updates, metadata) = changes;
               updates = patched_description shown incoming (patched_title shown incoming updates);
               (updates, metadata) = incoming_status shown incoming (updates, metadata)
           in Inr (updates, incoming_fields incoming metadata))
      | Some v \<Rightarrow> Inl (CaseFault ''metadata_must_be_object'' 400))"

definition gkey_names :: "(gkey \<times> gval) list \<Rightarrow> string list" where
  "gkey_names d = List.map_filter (\<lambda>(k, v). case k of StrKey s \<Rightarrow> Some s | OtherKey i \<Rightarrow> None) d"

definition text_of :: "gval \<Rightarrow> string \<Rightarrow> string" where
  "text_of v d = (case v of GStr t \<Rightarrow> t | _ \<Rightarrow> d)"

text \<open>The statement that changes the row; a column without a new value is kept.\<close>

definition changed_row :: "case_changes \<Rightarrow> case_db \<Rightarrow> case_db" where
  "changed_row changes c =
     c\<lparr>cd_title := text_of (field (fst changes) ''title'') (cd_title c),
       cd_description := (case field (fst changes) ''description'' of GStr t \<Rightarrow> Some t | _ \<Rightarrow> cd_description c),
       cd_status := text_of (field (fst changes) ''status'') (cd_status c), cd_metadata := snd changes\<rparr>"

definition write_changes ::
  "(gval \<Rightarrow> string) \<Rightarrow> (string \<Rightarrow> real option) \<Rightarrow> actor \<Rightarrow> (gkey \<times> gval) list \<Rightarrow> active_case_row \<Rightarrow> case_changes \<Rightarrow> case_store \<Rightarrow>
   case_store \<times> (case_fault + active_case_row)" where
  "write_changes shown fv a patch current changes s =
     (if fst changes = [] \<and> py_eq fv (GDict (snd changes)) (GDict (cd_metadata (ac_row current))) then (s, Inr current)
      else let cid = cd_id (ac_row current);
               s1 = s\<lparr>cs_cases := map (\<lambda>c. if cd_id c = cid then changed_row changes c else c) (cs_cases s)\<rparr>
           in case find (\<lambda>c. cd_id c = cid) (cs_cases s1) of
             None \<Rightarrow> (s, Inl (CaseFault ''case_not_found'' 404))
           | Some c \<Rightarrow>
               (notify ''case.metadata.updated'' a (case_from_row c)
                  (insert_event shown ''case.metadata.updated'' a cid (''updated case metadata '' @ cd_key c)
                     [(StrKey ''changed'', GList (map GStr (sort (gkey_names patch))))] s1),
                Inr \<lparr>ac_row = case_from_row c, ac_role = ac_role current\<rparr>))"

text \<open>The method calls itself once when the patch names one of the columns as a field.\<close>

function update_case_metadata ::
  "(gval \<Rightarrow> string) \<Rightarrow> (string \<Rightarrow> real option) \<Rightarrow> string \<Rightarrow> actor \<Rightarrow> (gkey \<times> gval) list \<Rightarrow> case_store \<Rightarrow>
   case_store \<times> (case_fault + active_case_row)" where
  "update_case_metadata shown fv cid a patch s =
     (case get_case_metadata shown s cid a of
        Inl e \<Rightarrow> (s, Inl e)
      | Inr current \<Rightarrow>
          if ac_role current \<notin> set WRITE_ROLES then (s, Inl (CaseFault ''case_metadata_write_forbidden'' 403))
          else case patched_status shown patch (patched_description shown patch (patched_title shown patch [])) of
            Inl e \<Rightarrow> (s, Inl e)
          | Inr updates \<Rightarrow>
              let finish = (\<lambda>metadata. case merge_incoming shown patch (updates, metadata) of
                    Inl e \<Rightarrow> (s, Inl e)
                  | Inr changes \<Rightarrow> write_changes shown fv a patch current changes s)
              in case gget patch ''field'' of
                None \<Rightarrow> finish (cd_metadata (ac_row current))
              | Some v \<Rightarrow>
                  let name = strip (py_str shown (or_else (Some v) (GStr [])));
                      value = (case gget patch ''value'' of Some w \<Rightarrow> w | None \<Rightarrow> GStr [])
                  in if name = [] then (s, Inl (CaseFault ''field_required'' 400))
                     else if name \<in> {''case_id'', ''case_key'', ''id'', ''legacy_case_dir''} then (s, Inl (CaseFault ''protected_field'' 400))
                     else if name \<in> {''title'', ''name'', ''description'', ''status''}
                     then update_case_metadata shown fv cid a [(StrKey name, value)] s
                     else finish (put name value (cd_metadata (ac_row current))))"
  by pat_completeness auto

termination
  by (relation "measure (\<lambda>(shown, fv, cid, a, patch, s). if gget patch ''field'' = None then 0 else 1)")
    (auto simp: gget_def)

declare update_case_metadata.simps [simp del]

section \<open>What a change does\<close>

definition status_ok :: "(gkey \<times> gval) list \<Rightarrow> bool" where
  "status_ok updates \<longleftrightarrow> (\<forall>t. field updates ''status'' = GStr t \<longrightarrow> t \<in> set DB_CASE_STATUSES)"

lemma status_ok_put: "status_ok updates \<Longrightarrow> k \<noteq> ''status'' \<Longrightarrow> status_ok (put k v updates)"
  by (simp add: status_ok_def field_put)

lemma status_ok_title [simp]: "status_ok updates \<Longrightarrow> status_ok (patched_title shown patch updates)"
  by (simp add: patched_title_def status_ok_put)

lemma status_ok_description [simp]: "status_ok updates \<Longrightarrow> status_ok (patched_description shown patch updates)"
  by (auto simp: patched_description_def status_ok_put split: option.split)

lemma status_ok_status: "patched_status shown patch updates = Inr u \<Longrightarrow> status_ok updates \<Longrightarrow> status_ok u"
  by (auto simp: patched_status_def status_ok_def field_put split: option.splits if_splits)

lemma status_ok_incoming: "status_ok (fst c) \<Longrightarrow> status_ok (fst (incoming_status shown incoming c))"
  by (cases c) (auto simp: incoming_status_def status_ok_def field_put split: option.splits)

lemma status_ok_merge: "merge_incoming shown patch c = Inr c' \<Longrightarrow> status_ok (fst c) \<Longrightarrow> status_ok (fst c')"
proof -
  assume m: "merge_incoming shown patch c = Inr c'" and ok: "status_ok (fst c)"
  show ?thesis
  proof (cases "gget patch ''metadata''")
    case (Some v)
    with m obtain incoming where v: "v = GDict incoming" by (cases v) (auto simp: merge_incoming_def)
    have "status_ok (fst (incoming_status shown incoming (patched_description shown incoming (patched_title shown incoming (fst c)), snd c)))"
      by (rule status_ok_incoming) (simp add: ok)
    with m Some v show ?thesis by (auto simp: merge_incoming_def Let_def split: prod.splits)
  qed (use m ok in \<open>simp add: merge_incoming_def\<close>)
qed

lemma status_ok_Nil [simp]: "status_ok []"
  by (simp add: status_ok_def gget_def or_null_def)

text \<open>A change is refused or written for a caller whose role may write.\<close>

lemma update_shape:
  "update_case_metadata shown fv cid a patch s = (s', r) \<Longrightarrow>
     s' = s \<or> (\<exists>current changes patch'. get_case_metadata shown s cid a = Inr current \<and> ac_role current \<in> set WRITE_ROLES \<and>
       status_ok (fst changes) \<and> (s', r) = write_changes shown fv a patch' current changes s)"
proof (induction shown fv cid a patch s rule: update_case_metadata.induct)
  case (1 shown fv cid a patch s)
  show ?case
  proof (cases "get_case_metadata shown s cid a")
    case (Inl e)
    with 1(2) show ?thesis by (subst (asm) update_case_metadata.simps) simp
  next
    case (Inr current)
    show ?thesis
    proof (cases "ac_role current \<in> set WRITE_ROLES")
      case False
      with 1(2) Inr show ?thesis by (subst (asm) update_case_metadata.simps) simp
    next
      case role: True
      show ?thesis
      proof (cases "patched_status shown patch (patched_description shown patch (patched_title shown patch []))")
        case (Inl e)
        with 1(2) Inr role show ?thesis by (subst (asm) update_case_metadata.simps) simp
      next
        case updates: (Inr updates)
        have ok: "status_ok updates" by (rule status_ok_status [OF updates]) simp
        let ?name = "strip (py_str shown (or_else (gget patch ''field'') (GStr [])))"
        let ?given = "case gget patch ''value'' of Some w \<Rightarrow> w | None \<Rightarrow> GStr []"
        have finish: ?thesis if "(s', r) = (case merge_incoming shown patch (updates, m) of
            Inl e \<Rightarrow> (s, Inl e) | Inr changes \<Rightarrow> write_changes shown fv a patch current changes s)" for m
        proof (cases "merge_incoming shown patch (updates, m)")
          case changes: (Inr changes)
          have "status_ok (fst changes)" by (rule status_ok_merge [OF changes]) (simp add: ok)
          with that Inr role changes show ?thesis by (intro disjI2 exI [of _ current] exI [of _ changes] exI [of _ patch]) simp
        qed (use that in simp)
        show ?thesis
        proof (cases "gget patch ''field''")
          case None
          with 1(2) Inr role updates have "(s', r) = (case merge_incoming shown patch (updates, cd_metadata (ac_row current)) of
              Inl e \<Rightarrow> (s, Inl e) | Inr changes \<Rightarrow> write_changes shown fv a patch current changes s)"
            by (subst (asm) update_case_metadata.simps) (simp add: Let_def)
          then show ?thesis by (rule finish)
        next
          case (Some v)
          show ?thesis
          proof (cases "?name \<in> {''title'', ''name'', ''description'', ''status''}")
            case True
            then have "update_case_metadata shown fv cid a [(StrKey ?name, ?given)] s = (s', r)"
              using 1(2) Inr role updates Some by (subst (asm) update_case_metadata.simps) (auto simp: Let_def)
            with 1(1) [OF Inr _ updates refl Some refl refl] True role Some show ?thesis by auto
          next
            case False
            with 1(2) Inr role updates Some have "s' = s \<or> (s', r) = (case merge_incoming shown patch (updates, put ?name ?given (cd_metadata (ac_row current))) of
                Inl e \<Rightarrow> (s, Inl e) | Inr changes \<Rightarrow> write_changes shown fv a patch current changes s)"
              by (subst (asm) update_case_metadata.simps) (auto simp: Let_def split: if_splits)
            with finish show ?thesis by blast
          qed
        qed
      qed
    qed
  qed
qed

section \<open>The tables stay in order\<close>

datatype case_op =
    CreateOp string string "(gkey \<times> gval) list" actor
  | ActivateOp string actor
  | UpdateOp string actor "(gkey \<times> gval) list"

fun case_call ::
  "(gval \<Rightarrow> string) \<Rightarrow> (string \<Rightarrow> real option) \<Rightarrow> case_op \<Rightarrow> case_store \<Rightarrow> case_store \<times> (case_fault + active_case_row)" where
  "case_call shown fv (CreateOp fresh stamp payload a) s = create_case shown fresh stamp payload a s"
| "case_call shown fv (ActivateOp cid a) s = set_active_case shown cid a s"
| "case_call shown fv (UpdateOp cid a patch) s = update_case_metadata shown fv cid a patch s"

definition empty_store :: case_store where
  "empty_store = \<lparr>cs_cases = [], cs_members = [], cs_active = None, cs_set_by = GNull, cs_events = [], cs_notes = []\<rparr>"

lemma find_in: "find P xs = Some x \<Longrightarrow> x \<in> set xs \<and> P x"
  by (induction xs) (auto split: if_splits)

text \<open>The case of the last event that changed the active case.\<close>

definition last_activated :: "case_event list \<Rightarrow> string option" where
  "last_activated es = map_option ce_case (find (\<lambda>e. ce_event e = ''active_case.changed'') (rev es))"

definition row_ok :: "member_row list \<Rightarrow> case_db \<Rightarrow> bool" where
  "row_ok ms c \<longleftrightarrow> valid_case_key (cd_key c) \<and> cd_status c \<in> set DB_CASE_STATUSES \<and> gtruthy (cd_created_by c) \<and>
     \<lparr>mb_case = cd_id c, mb_operator = cd_created_by c, mb_role = ''owner'', mb_status = ''active''\<rparr> \<in> set ms"

definition store_ok :: "case_store \<Rightarrow> bool" where
  "store_ok s \<longleftrightarrow> distinct (map cd_id (cs_cases s)) \<and> distinct (map cd_key (cs_cases s)) \<and>
     (\<forall>c \<in> set (cs_cases s). row_ok (cs_members s) c) \<and> cs_active s = last_activated (cs_events s) \<and>
     (\<forall>e \<in> set (cs_events s). ce_case e \<in> cd_id ` set (cs_cases s))"

lemma last_activated_snoc:
  "last_activated (es @ [e]) = (if ce_event e = ''active_case.changed'' then Some (ce_case e) else last_activated es)"
  by (simp add: last_activated_def)

definition event_cases :: "case_store \<Rightarrow> string set" where
  "event_cases s = ce_case ` set (cs_events s)"

lemma event_cases_update [simp]:
  "event_cases (s\<lparr>cs_cases := cs\<rparr>) = event_cases s" "event_cases (s\<lparr>cs_members := ms\<rparr>) = event_cases s"
  "event_cases (s\<lparr>cs_active := c\<rparr>) = event_cases s" "event_cases (s\<lparr>cs_set_by := v\<rparr>) = event_cases s"
  by (simp_all add: event_cases_def)

lemma insert_event_fields [simp]:
  "cs_cases (insert_event shown event a cid summary details s) = cs_cases s"
  "cs_members (insert_event shown event a cid summary details s) = cs_members s"
  "cs_active (insert_event shown event a cid summary details s) = cs_active s"
  "last_activated (cs_events (insert_event shown event a cid summary details s)) =
     (if event = ''active_case.changed'' then Some cid else last_activated (cs_events s))"
  "event_cases (insert_event shown event a cid summary details s) = insert cid (event_cases s)"
  by (auto simp: insert_event_def last_activated_snoc event_cases_def split: prod.split)

lemma notify_fields [simp]:
  "cs_cases (notify event a c s) = cs_cases s" "cs_members (notify event a c s) = cs_members s"
  "cs_active (notify event a c s) = cs_active s" "cs_events (notify event a c s) = cs_events s"
  "event_cases (notify event a c s) = event_cases s"
  by (simp_all add: notify_def event_cases_def)

lemma set_active_row_fields [simp]:
  "cs_cases (set_active_row shown cid a s) = cs_cases s" "cs_members (set_active_row shown cid a s) = cs_members s"
  "cs_active (set_active_row shown cid a s) = Some cid" "last_activated (cs_events (set_active_row shown cid a s)) = Some cid"
  "event_cases (set_active_row shown cid a s) = insert cid (event_cases s)"
  by (simp_all add: set_active_row_def)

lemma store_ok_iff:
  "store_ok s \<longleftrightarrow> distinct (map cd_id (cs_cases s)) \<and> distinct (map cd_key (cs_cases s)) \<and>
     (\<forall>c \<in> set (cs_cases s). row_ok (cs_members s) c) \<and> cs_active s = last_activated (cs_events s) \<and>
     event_cases s \<subseteq> set (map cd_id (cs_cases s))"
  by (auto simp: store_ok_def event_cases_def)

lemma changed_row_fields [simp]:
  "cd_id (changed_row changes c) = cd_id c" "cd_key (changed_row changes c) = cd_key c" "cd_dir (changed_row changes c) = cd_dir c"
  "cd_created_by (changed_row changes c) = cd_created_by c"
  by (simp_all add: changed_row_def)

lemma changed_row_ok: "row_ok ms c \<Longrightarrow> status_ok (fst changes) \<Longrightarrow> row_ok ms (changed_row changes c)"
  by (auto simp: row_ok_def changed_row_def status_ok_def text_of_def split: gval.split)

lemma requested_case_ok:
  "requested_case shown fresh stamp payload a = Inr c \<Longrightarrow>
     valid_case_key (cd_key c) \<and> cd_status c \<in> set DB_CASE_STATUSES \<and> cd_id c = fresh \<and> cd_created_by c = actor_id shown a"
  by (auto simp: requested_case_def Let_def split: if_splits option.splits)

text \<open>A creation that succeeds.\<close>

lemma create_case_shape:
  assumes "create_case shown fresh stamp payload a s = (s', Inr r)"
  obtains c where "gtruthy (actor_id shown a)" "requested_case shown fresh stamp payload a = Inr c"
    "cd_id c \<notin> cd_id ` set (cs_cases s)" "cd_key c \<notin> cd_key ` set (cs_cases s)" "cs_cases s' = cs_cases s @ [c]"
    "cs_members s' = cs_members s @ [\<lparr>mb_case = cd_id c, mb_operator = actor_id shown a, mb_role = ''owner'', mb_status = ''active''\<rparr>]"
    "cs_active s' = cs_active s \<and> last_activated (cs_events s') = last_activated (cs_events s) \<or>
       cs_active s' = Some (cd_id c) \<and> last_activated (cs_events s') = Some (cd_id c)"
    "event_cases s' = insert (cd_id c) (event_cases s)"
    "r = \<lparr>ac_row = case_from_row c, ac_role = GStr ''owner''\<rparr>"
proof -
  from assms obtain c s1 where c: "gtruthy (actor_id shown a)" "requested_case shown fresh stamp payload a = Inr c" "insert_case c s = Inr s1"
    by (auto simp: create_case_def split: if_splits sum.splits)
  then have s1: "s1 = s\<lparr>cs_cases := cs_cases s @ [c]\<rparr>" "cd_id c \<notin> cd_id ` set (cs_cases s)" "cd_key c \<notin> cd_key ` set (cs_cases s)"
    by (force simp: insert_case_def list_ex_iff split: if_splits)+
  have "actor_type a = GStr ''operator''" using assms by (auto simp: create_case_def split: if_splits)
  with assms c s1 show ?thesis by (intro that [of c]) (auto simp: create_case_def Let_def split: if_splits)
qed

lemma write_changes_ok:
  assumes "store_ok s" "status_ok (fst changes)" "write_changes shown fv a patch current changes s = (s', r)"
  shows "store_ok s'"
proof -
  let ?f = "\<lambda>c. if cd_id c = cd_id (ac_row current) then changed_row changes c else c"
  have ids: "map cd_id (map ?f cs) = map cd_id cs" "map cd_key (map ?f cs) = map cd_key cs" for cs
    by simp_all
  have rows: "\<forall>c \<in> set (map ?f (cs_cases s)). row_ok (cs_members s) c" using assms(1) changed_row_ok [OF _ assms(2)] by (auto simp: store_ok_iff)
  show ?thesis
  proof (cases "fst changes = [] \<and> py_eq fv (GDict (snd changes)) (GDict (cd_metadata (ac_row current)))")
    case True
    with assms(1,3) show ?thesis by (simp add: write_changes_def)
  next
    case False
    show ?thesis
    proof (cases "find (\<lambda>c. cd_id c = cd_id (ac_row current)) (map ?f (cs_cases s))")
      case None
      with assms(1,3) show ?thesis unfolding write_changes_def if_not_P [OF False] by (simp add: Let_def)
    next
      case (Some c)
      from find_in [OF this] have "c \<in> set (map ?f (cs_cases s))" "cd_id c = cd_id (ac_row current)" by blast+
      note c = this
      have "cd_id c \<in> set (map cd_id (map ?f (cs_cases s)))" by (subst set_map, rule imageI, rule c(1))
      then have "cd_id (ac_row current) \<in> set (map cd_id (cs_cases s))" unfolding ids c(2) .
      moreover have s': "s' = notify ''case.metadata.updated'' a (case_from_row c)
         (insert_event shown ''case.metadata.updated'' a (cd_id (ac_row current)) (''updated case metadata '' @ cd_key c)
            [(StrKey ''changed'', GList (map GStr (sort (gkey_names patch))))] (s\<lparr>cs_cases := map ?f (cs_cases s)\<rparr>))"
        using assms(3) Some unfolding write_changes_def if_not_P [OF False] by (simp add: Let_def)
      have now: "cs_cases s' = map ?f (cs_cases s)" "cs_members s' = cs_members s" "cs_active s' = cs_active s"
          "last_activated (cs_events s') = last_activated (cs_events s)" "event_cases s' = insert (cd_id (ac_row current)) (event_cases s)"
        unfolding s' by simp_all
      ultimately show ?thesis using assms(1) rows unfolding store_ok_iff now ids by blast
    qed
  qed
qed

lemma case_call_ok: "store_ok s \<Longrightarrow> store_ok (fst (case_call shown fv op s))"
proof (cases op)
  case (CreateOp fresh stamp payload a)
  assume ok: "store_ok s"
  obtain s' r where c: "create_case shown fresh stamp payload a s = (s', r)" by (cases "create_case shown fresh stamp payload a s")
  show ?thesis
  proof (cases r)
    case (Inl e)
    with c have "s' = s" by (auto simp: create_case_def Let_def split: if_splits sum.splits)
    with ok c CreateOp show ?thesis by simp
  next
    case (Inr r')
    show ?thesis
    proof (rule create_case_shape [OF c [unfolded Inr]], goal_cases)
      case (1 d)
      have d: "row_ok (cs_members s') d" using requested_case_ok [OF 1(2)] 1(1,6) by (simp add: row_ok_def)
      have "row_ok (cs_members s') e" if "row_ok (cs_members s) e" for e using that 1(6) by (simp add: row_ok_def)
      with ok d 1(3-5,7,8) have "store_ok s'" unfolding store_ok_iff by auto
      with c CreateOp show ?case by simp
    qed
  qed
next
  case (ActivateOp cid a)
  assume ok: "store_ok s"
  show ?thesis
  proof (cases "find_case s cid")
    case (Some c)
    then have "cd_id c \<in> set (map cd_id (cs_cases s))" by (auto simp: find_case_def find_Some_iff)
    with ok Some ActivateOp show ?thesis by (simp add: set_active_case_def Let_def store_ok_iff)
  qed (use ok ActivateOp in \<open>simp add: set_active_case_def\<close>)
next
  case (UpdateOp cid a patch)
  assume ok: "store_ok s"
  obtain s' r where u: "update_case_metadata shown fv cid a patch s = (s', r)" by (cases "update_case_metadata shown fv cid a patch s")
  from update_shape [OF u] have "store_ok s'" using ok write_changes_ok by metis
  with u UpdateOp show ?thesis by simp
qed

interpretation case_tables: guarded_object "case_call shown fv" "\<lambda>_ _. True" store_ok
  by unfold_locales (rule case_call_ok)

text \<open>C7. The case tables.  From empty tables, whatever calls are made, ids and keys of cases are unique, every key has its form, every
  status is one of the database and every case has its creator as an active owner; and the active case is the one that the last
  event of a change of the active case names, so that the audit accounts for it.\<close>

theorem case_tables_stay_in_order:
  "let s = run_state (case_call shown fv) ops empty_store in
     distinct (map cd_id (cs_cases s)) \<and> distinct (map cd_key (cs_cases s)) \<and> (\<forall>c \<in> set (cs_cases s). row_ok (cs_members s) c) \<and>
     cs_active s = last_activated (cs_events s) \<and> (cs_active s = None \<or> the (cs_active s) \<in> cd_id ` set (cs_cases s))"
proof -
  have "store_ok empty_store" by (simp add: store_ok_def empty_store_def last_activated_def)
  then have ok: "store_ok (run_state (case_call shown fv) ops empty_store)"
    by (rule case_tables.run_inv) (simp add: always_enabled)
  moreover have "last_activated es = None \<or> the (last_activated es) \<in> ce_case ` set es" for es
  proof (cases "find (\<lambda>e. ce_event e = ''active_case.changed'') (rev es)")
    case (Some e)
    from find_in [OF this] Some show ?thesis by (simp add: last_activated_def)
  qed (simp add: last_activated_def)
  ultimately show ?thesis unfolding Let_def store_ok_def by fastforce
qed

section \<open>Who may enter\<close>

text \<open>A caller the tables, the identity or the deployment knows in the case.\<close>

definition knows_caller :: "case_store \<Rightarrow> identity \<Rightarrow> string \<Rightarrow> bool" where
  "knows_caller s i cid \<longleftrightarrow>
     principal_type i \<in> {''user'', ''operator''} \<and> system_role i \<in> {GStr ''owner'', GStr ''admin''} \<or>
     (\<exists>m. find (\<lambda>m. cm_case_id m = cid) (case_memberships i) = Some m \<and> cm_role m \<noteq> []) \<or>
     id_case_id i = GStr cid \<or>
     principal_type i \<in> {''user'', ''operator''} \<and> gtruthy (principal_id i) \<and>
       (\<exists>m \<in> set (cs_members s). mb_case m = cid \<and> mb_operator m = principal_id i \<and> mb_status m = ''active'')"

lemma stored_role_iff:
  "stored_role s cid pid \<noteq> GNull \<longleftrightarrow> (\<exists>m \<in> set (cs_members s). mb_case m = cid \<and> mb_operator m = pid \<and> mb_status m = ''active'')"
proof (cases "find (\<lambda>m. mb_case m = cid \<and> mb_operator m = pid \<and> mb_status m = ''active'') (rev (cs_members s))")
  case None
  then show ?thesis unfolding stored_role_def None using None by (auto simp: find_None_iff)
next
  case (Some m)
  from find_in [OF this] Some show ?thesis by (auto simp: stored_role_def)
qed

lemma identity_role_iff:
  "gtruthy (membership_role_from_identity shown (Caller i) cid) \<longleftrightarrow>
     (\<exists>m. find (\<lambda>m. cm_case_id m = cid) (case_memberships i) = Some m \<and> cm_role m \<noteq> [])"
  by (cases "find (\<lambda>m. cm_case_id m = cid) (case_memberships i)") auto

lemma operator_type: "actor_type (Caller i) = GStr ''operator'' \<longleftrightarrow> principal_type i \<in> {''user'', ''operator''}"
  by auto

lemma role_known: "membership_role shown s (Caller i) cid \<noteq> GNull \<longleftrightarrow> knows_caller s i cid"
proof -
  have bypass: "system_role i \<in> set SYSTEM_BYPASS_ROLES \<longleftrightarrow> system_role i \<in> {GStr ''owner'', GStr ''admin''}" "GNull \<notin> set SYSTEM_BYPASS_ROLES"
    by (auto simp: SYSTEM_BYPASS_ROLES_def)
  have own: "or_else (Some v) (GStr ''principal'') \<noteq> GNull" for v by (auto simp: or_else_def)
  have truthy: "gtruthy v \<Longrightarrow> v \<noteq> GNull" for v by auto
  show ?thesis
    unfolding membership_role_def knows_caller_def stored_role_iff [symmetric] identity_role_iff [where shown = shown, symmetric] operator_type
    using bypass own truthy by (auto simp del: gtruthy.simps membership_role_from_identity.simps actor_type.simps)
qed

text \<open>Entering the active case.  The case service lets a caller into a case exactly when it is the active case of the deployment and
  the caller is an operator with a system role over all cases, a member by its identity, has the case as its own, or is
  an operator with an active row in the table of members; otherwise it says that there is no case or no membership.\<close>

theorem active_case_entered_iff:
  "(\<exists>r. require_active_case shown s (Caller i) = Inr r \<and> cd_id (ac_row r) = cid) \<longleftrightarrow>
     cs_active s = Some cid \<and> cid \<in> cd_id ` set (cs_cases s) \<and> knows_caller s i cid"
proof (cases "cs_active s")
  case (Some cid')
  show ?thesis
  proof (cases "find (\<lambda>c. cd_id c = cid') (cs_cases s)")
    case None
    then have "cid' \<notin> cd_id ` set (cs_cases s)" by (auto simp: find_None_iff)
    then show ?thesis using Some None by (auto simp: require_active_case_def get_active_case_def)
  next
    case c: (Some c)
    then have "cd_id c = cid'" "c \<in> set (cs_cases s)" by (auto simp: find_Some_iff)
    then show ?thesis using Some c role_known [of shown s i cid']
      by (auto simp: require_active_case_def get_active_case_def case_from_row_def)
  qed
qed (simp add: require_active_case_def get_active_case_def)

section \<open>Who may change\<close>

text \<open>The caller has a role that may write in the case.\<close>

definition may_write :: "(gval \<Rightarrow> string) \<Rightarrow> case_store \<Rightarrow> actor \<Rightarrow> string \<Rightarrow> bool" where
  "may_write shown s a cid \<longleftrightarrow> membership_role shown s a cid \<in> set WRITE_ROLES"

text \<open>A call changes the row of a case, or the case that is active.\<close>

definition changes_case :: "(gval \<Rightarrow> string) \<Rightarrow> case_op \<Rightarrow> case_store \<Rightarrow> string \<Rightarrow> bool" where
  "changes_case shown op s cid \<longleftrightarrow> (case op of UpdateOp k a patch \<Rightarrow> may_write shown s a cid | _ \<Rightarrow> False)"

definition activates :: "(gval \<Rightarrow> string) \<Rightarrow> case_op \<Rightarrow> case_store \<Rightarrow> string \<Rightarrow> bool" where
  "activates shown op s cid \<longleftrightarrow>
     (case op of
        ActivateOp k a \<Rightarrow> may_write shown s a cid \<and> (\<exists>c \<in> set (cs_cases s). cd_id c = cid \<and> k \<in> {cd_id c, cd_key c})
      | CreateOp fresh stamp payload a \<Rightarrow> cid = fresh \<and> actor_type a = GStr ''operator'' \<and> gtruthy (actor_id shown a)
      | UpdateOp k a patch \<Rightarrow> False)"

definition same_identity :: "case_db \<Rightarrow> case_db \<Rightarrow> bool" where
  "same_identity c c' \<longleftrightarrow> cd_id c' = cd_id c \<and> cd_key c' = cd_key c \<and> cd_dir c' = cd_dir c \<and> cd_created_by c' = cd_created_by c"

lemma same_identity_refl [simp]: "same_identity c c" "same_identity c (changed_row changes c)"
  by (simp_all add: same_identity_def)

lemma find_case_in: "find_case s cid = Some c \<Longrightarrow> c \<in> set (cs_cases s) \<and> cid \<in> {cd_id c, cd_key c}"
  by (auto simp: find_case_def dest: find_in)

lemma metadata_writer:
  "get_case_metadata shown s cid a = Inr current \<Longrightarrow> ac_role current = membership_role shown s a (cd_id (ac_row current))"
  by (auto simp: get_case_metadata_def case_from_row_def Let_def split: option.splits if_splits)

lemma write_changes_rows:
  assumes "write_changes shown fv a patch current changes s = (s', r)"
  shows "cs_active s' = cs_active s" "set (cs_members s') = set (cs_members s)"
    "c \<in> set (cs_cases s) \<Longrightarrow> \<exists>c' \<in> set (cs_cases s'). same_identity c c' \<and> (c' = c \<or> cd_id c = cd_id (ac_row current))"
proof -
  let ?f = "\<lambda>c. if cd_id c = cd_id (ac_row current) then changed_row changes c else c"
  have "s' = s \<or> cs_cases s' = map ?f (cs_cases s) \<and> cs_active s' = cs_active s \<and> cs_members s' = cs_members s"
  proof (cases "fst changes = [] \<and> py_eq fv (GDict (snd changes)) (GDict (cd_metadata (ac_row current)))")
    case True
    with assms show ?thesis by (simp add: write_changes_def)
  next
    case False
    with assms show ?thesis unfolding write_changes_def if_not_P [OF False]
      by (cases "find (\<lambda>c. cd_id c = cd_id (ac_row current)) (map ?f (cs_cases s))") (auto simp: Let_def)
  qed
  then consider "s' = s" | "cs_cases s' = map ?f (cs_cases s)" "cs_active s' = cs_active s" "cs_members s' = cs_members s" by blast
  then have "cs_active s' = cs_active s \<and> set (cs_members s') = set (cs_members s) \<and> (c \<in> set (cs_cases s) \<longrightarrow>
      (\<exists>c' \<in> set (cs_cases s'). same_identity c c' \<and> (c' = c \<or> cd_id c = cd_id (ac_row current))))"
  proof cases
    case 1
    then show ?thesis using same_identity_refl(1) [of c] by blast
  next
    case 2
    have "\<exists>c' \<in> set (cs_cases s'). same_identity c c' \<and> (c' = c \<or> cd_id c = cd_id (ac_row current))" if "c \<in> set (cs_cases s)"
      by (rule bexI [of _ "?f c"]) (use that 2(1) in auto)
    with 2 show ?thesis by simp
  qed
  then show "cs_active s' = cs_active s" "set (cs_members s') = set (cs_members s)"
    "c \<in> set (cs_cases s) \<Longrightarrow> \<exists>c' \<in> set (cs_cases s'). same_identity c c' \<and> (c' = c \<or> cd_id c = cd_id (ac_row current))"
    by blast+
qed

text \<open>C6. Cases are changed by those who may.  A call keeps the id, the key, the directory and the creator of every case and removes no member; it
  changes a row only as an update by a caller with a writing role in that case, and it makes another case the active one only for
  such a caller or for the operator who creates it.\<close>

theorem cases_changed_by_writers:
  assumes "fst (case_call shown fv op s) = s'"
  shows "(\<forall>c \<in> set (cs_cases s). \<exists>c' \<in> set (cs_cases s'). same_identity c c' \<and> (c' = c \<or> changes_case shown op s (cd_id c))) \<and>
    set (cs_members s) \<subseteq> set (cs_members s') \<and>
    (cs_active s' = cs_active s \<or> (\<exists>cid. cs_active s' = Some cid \<and> activates shown op s cid))"
proof (cases op)
  case (CreateOp fresh stamp payload a)
  obtain r where c: "create_case shown fresh stamp payload a s = (s', r)" using assms CreateOp by (metis case_call.simps(1) prod.collapse)
  show ?thesis
  proof (cases r)
    case (Inl e)
    with c have "s' = s" by (auto simp: create_case_def Let_def split: if_splits sum.splits)
    then show ?thesis using same_identity_refl(1) by blast
  next
    case (Inr r')
    have type: "actor_type a = GStr ''operator''" using c Inr by (auto simp: create_case_def split: if_splits)
    show ?thesis
    proof (rule create_case_shape [OF c [unfolded Inr]], goal_cases)
      case (1 d)
      have "cd_id d = fresh" using requested_case_ok [OF 1(2)] by simp
      then have "cs_active s' = cs_active s \<or> (\<exists>cid. cs_active s' = Some cid \<and> activates shown op s cid)"
        using 1(1,7) type CreateOp by (auto simp: activates_def)
      moreover have "set (cs_cases s) \<subseteq> set (cs_cases s')" "set (cs_members s) \<subseteq> set (cs_members s')" using 1(5,6) by auto
      ultimately show ?case using same_identity_refl(1) by blast
    qed
  qed
next
  case (ActivateOp cid a)
  show ?thesis
  proof (cases "find_case s cid")
    case None
    with assms ActivateOp have "s' = s" by (simp add: set_active_case_def)
    then show ?thesis using same_identity_refl(1) by blast
  next
    case (Some c)
    from find_case_in [OF this] have c: "c \<in> set (cs_cases s)" "cid \<in> {cd_id c, cd_key c}" by blast+
    show ?thesis
    proof (cases "may_write shown s a (cd_id c)")
      case True
      then have s': "cs_cases s' = cs_cases s" "cs_members s' = cs_members s" "cs_active s' = Some (cd_id c)"
        using assms ActivateOp Some by (auto simp: set_active_case_def may_write_def Let_def)
      have "activates shown op s (cd_id c)" using True c ActivateOp by (auto simp: activates_def)
      with s' show ?thesis using same_identity_refl(1) by (metis subset_refl)
    next
      case False
      then have "s' = s" using assms ActivateOp Some by (auto simp: set_active_case_def may_write_def Let_def)
      then show ?thesis using same_identity_refl(1) by blast
    qed
  qed
next
  case (UpdateOp cid a patch)
  obtain r where "update_case_metadata shown fv cid a patch s = (s', r)" using assms UpdateOp by (metis case_call.simps(3) prod.collapse)
  from update_shape [OF this] consider "s' = s" | current changes patch' where
      "get_case_metadata shown s cid a = Inr current" "ac_role current \<in> set WRITE_ROLES"
      "write_changes shown fv a patch' current changes s = (s', r)" by metis
  then show ?thesis
  proof cases
    case 1
    then show ?thesis using same_identity_refl(1) by blast
  next
    case 2
    have "changes_case shown op s (cd_id (ac_row current))"
      using metadata_writer [OF 2(1)] 2(2) UpdateOp by (simp add: changes_case_def may_write_def)
    with write_changes_rows [OF 2(3)] show ?thesis by fastforce
  qed
qed

section \<open>Corners\<close>

text \<open>A caller whose own case it is gets its type as role, and \<open>operator\<close> is a role that may write, also for an operator who may
  only read.\<close>

lemma own_case_operator_writes:
  assumes "principal_type i = ''user''" "system_role i = GStr ''readonly''" "case_memberships i = []" "id_case_id i = GStr cid"
  shows "may_write shown s (Caller i) cid"
  using assms by (simp add: may_write_def membership_role_def SYSTEM_BYPASS_ROLES_def WRITE_ROLES_def or_else_def)

text \<open>A generated key may have a form that is refused.\<close>

lemma digit_name_refused:
  "requested_case shown fresh ''20260101-1200'' [(StrKey ''casename'', GStr ''1st case'')] a = Inl (CaseFault ''invalid_case_key'' 400)"
proof -
  have "requested_key shown ''20260101-1200'' [(StrKey ''casename'', GStr ''1st case'')] = ''1st-case-20260101-1200''"
  proof -
    have "strip [] = []" "case_key_from_name ''20260101-1200'' ''1st case'' = ''1st-case-20260101-1200''" by code_simp+
    then show ?thesis by (simp add: requested_key_def gget_def or_else_def)
  qed
  moreover have "\<not> valid_case_key ''1st-case-20260101-1200''" by code_simp
  ultimately show ?thesis by (simp add: requested_case_def Let_def)
qed

text \<open>A key may be the id of another case.\<close>

lemma key_may_be_an_id:
  "valid_case_key ''a1b2c3d4-0000-4000-8000-000000000000''" by code_simp

text \<open>A description cannot be taken away, and a title can be emptied.\<close>

lemma description_stays: "cd_description (changed_row (patched_description shown [(StrKey ''description'', GNull)] [], m) c) = cd_description c"
  by (simp add: patched_description_def changed_row_def gget_def or_null_def)

lemma title_emptied: "cd_title (changed_row (patched_title shown [(StrKey ''title'', GStr [])] [], m) c) = []"
proof -
  have "strip [] = []" by code_simp
  then show ?thesis by (simp add: patched_title_def changed_row_def gget_def or_null_def or_else_def text_of_def)
qed

text \<open>A patch that names a column as its field loses its other changes.\<close>

lemma field_drops_others:
  assumes "get_case_metadata shown s cid a = Inr current" "ac_role current \<in> set WRITE_ROLES"
  shows "update_case_metadata shown fv cid a [(StrKey ''title'', GStr t), (StrKey ''field'', GStr ''status''), (StrKey ''value'', GStr ''closed'')] s =
    update_case_metadata shown fv cid a [(StrKey ''status'', GStr ''closed'')] s"
proof -
  have "strip ''status'' = ''status''" by code_simp
  with assms show ?thesis
    by (subst update_case_metadata.simps)
      (simp add: patched_status_def patched_description_def patched_title_def gget_def or_else_def Let_def)
qed

section \<open>A sample\<close>

definition sample_operator :: identity where
  "sample_operator =
     \<lparr>principal = ''ann'', principal_type = ''user'', token_id = GNull, agent_id = GNull, created_by = GNull, id_role = ''examiner'',
      source_ip = GNull, auth_surface = ''portal'', id_case_id = GNull, tool_scopes = [], token_fingerprint = GNull, auth_user_id = GNull,
      principal_id = GStr ''p1'', system_role = GNull, case_memberships = [], email = GNull\<rparr>"

definition sample_payload :: "(gkey \<times> gval) list" where
  "sample_payload = [(StrKey ''case_key'', GStr ''alpha''), (StrKey ''artifact_path'', GStr ''/cases/alpha'')]"

lemma sample_request: "requested_case (\<lambda>v. []) ''u1'' [] sample_payload (Caller sample_operator) =
    Inr \<lparr>cd_id = ''u1'', cd_key = ''alpha'', cd_title = ''alpha'', cd_description = None, cd_status = ''active'', cd_dir = Some ''/cases/alpha'',
      cd_metadata = [], cd_created_by = GStr ''p1''\<rparr>"
  by code_simp

lemma sample_run:
  "cs_active (run_state (case_call (\<lambda>v. []) (\<lambda>t. None)) [CreateOp ''u1'' [] sample_payload (Caller sample_operator)] empty_store) = Some ''u1''"
  "map cd_key (cs_cases (run_state (case_call (\<lambda>v. []) (\<lambda>t. None)) [CreateOp ''u1'' [] sample_payload (Caller sample_operator)] empty_store)) =
     [''alpha'']"
  using sample_request
  by (simp_all add: create_case_def insert_case_def empty_store_def sample_operator_def sample_payload_def gget_def Let_def)

theorem case_tables_stay_in_order_witness:
  "let s = run_state (case_call (\<lambda>v. []) (\<lambda>t. None)) [CreateOp ''u1'' [] sample_payload (Caller sample_operator)] empty_store in
     row_ok (cs_members s) (hd (cs_cases s)) \<and> last_activated (cs_events s) = Some ''u1''"
  using case_tables_stay_in_order [of "\<lambda>v. []" "\<lambda>t. None" "[CreateOp ''u1'' [] sample_payload (Caller sample_operator)]"] sample_run
  unfolding Let_def by (metis hd_in_set list.map_disc_iff list.distinct(1))

theorem cases_changed_by_writers_witness:
  "\<exists>cid. cs_active (fst (case_call (\<lambda>v. []) (\<lambda>t. None) (CreateOp ''u1'' [] sample_payload (Caller sample_operator)) empty_store)) = Some cid \<and>
     activates (\<lambda>v. []) (CreateOp ''u1'' [] sample_payload (Caller sample_operator)) empty_store cid"
proof -
  have "cs_active (fst (case_call (\<lambda>v. []) (\<lambda>t. None) (CreateOp ''u1'' [] sample_payload (Caller sample_operator)) empty_store)) \<noteq>
      cs_active empty_store"
    using sample_run(1) by (simp add: empty_store_def)
  then show ?thesis
    using cases_changed_by_writers [of "\<lambda>v. []" "\<lambda>t. None" "CreateOp ''u1'' [] sample_payload (Caller sample_operator)" empty_store, OF refl]
    by blast
qed

end
