(* ===== verification/Gateway_Case.thy ===== *)
theory Gateway_Case
  imports Gateway_Policy Active_Case
begin

text \<open>
  The gateway with the case service of the program: what the middlewares assume of a service is here \<open>require_active_case_for_principal\<close> on
  the tables of \<open>Active_Case\<close>.
\<close>

text \<open>The answer of the service to the middleware; any error it raises is a denial with its reason.\<close>

definition case_row_of :: "active_case_row \<Rightarrow> case_row" where
  "case_row_of r = \<lparr>cr_id = cd_id (ac_row r), cr_key = cd_key (ac_row r), cr_artifact_path = cd_dir (ac_row r), cr_role = ac_role r\<rparr>"

definition case_service_of :: "(gval \<Rightarrow> string) \<Rightarrow> case_store \<Rightarrow> identity option \<Rightarrow> case_error + case_row" where
  "case_service_of shown s who =
     (case require_active_case shown s (case who of Some i \<Rightarrow> Caller i | None \<Rightarrow> Nobody) of
        Inr r \<Rightarrow> Inr (case_row_of r)
      | Inl (CaseFault why http_status) \<Rightarrow> Inl (CaseDenied why)
      | Inl DatabaseFault \<Rightarrow> Inl CaseFailed)"

definition with_store :: "(gval \<Rightarrow> string) \<Rightarrow> case_store \<Rightarrow> gateway \<Rightarrow> gateway" where
  "with_store shown s g = g\<lparr>gw_case_service := Some (case_service_of shown s)\<rparr>"

lemma service_lets_in:
  assumes "case_service_of shown s who = Inr c"
  shows "\<exists>i row. who = Some i \<and> cs_active s = Some (cr_id c) \<and> row \<in> set (cs_cases s) \<and> cd_id row = cr_id c \<and> knows_caller s i (cr_id c) \<and>
    cr_key c = cd_key row \<and> cr_artifact_path c = cd_dir (case_from_row row)"
proof -
  obtain r where r: "require_active_case shown s (case who of Some i \<Rightarrow> Caller i | None \<Rightarrow> Nobody) = Inr r" "c = case_row_of r"
    using assms by (auto simp: case_service_of_def split: sum.splits case_fault.splits)
  then obtain cid row where row: "cs_active s = Some cid" "find (\<lambda>c. cd_id c = cid) (cs_cases s) = Some row" "ac_row r = case_from_row row"
      "membership_role shown s (case who of Some i \<Rightarrow> Caller i | None \<Rightarrow> Nobody) (cd_id (case_from_row row)) \<noteq> GNull"
    by (auto simp: require_active_case_def get_active_case_def split: option.splits if_splits)
  then obtain i where i: "who = Some i" by (cases who) (auto simp: membership_role_def)
  from find_in [OF row(2)] have "row \<in> set (cs_cases s)" "cd_id row = cid" by blast+
  moreover have "cd_id (case_from_row row) = cd_id row" "cd_key (case_from_row row) = cd_key row" by (simp_all add: case_from_row_def)
  ultimately show ?thesis using row i r(2) role_known [of shown s i cid] by (auto simp: case_row_of_def)
qed

text \<open>C5. Calls of members.  With the case service of the program, a call that works on a case reaches a backend only for a caller the
  deployment's active case knows, and the case of the call is that case, with its key and its directory; a call without a case
  is one of a tool that needs none.\<close>

theorem call_is_of_a_member:
  assumes "st_calls (snd (call_tool (with_store shown s g) sc rq st)) \<noteq> st_calls st"
  shows "\<exists>sc1 rq1. st_calls (snd (call_tool (with_store shown s g) sc rq st)) = st_calls st @ [(sc1, rq1)] \<and>
    (case sc_case sc1 of
       None \<Rightarrow> \<not> is_case_scoped_tool (gw_surface g) (rq_name rq)
     | Some c \<Rightarrow> \<exists>i row. sc_identity sc = Some i \<and> cs_active s = Some (cr_id c) \<and> row \<in> set (cs_cases s) \<and> cd_id row = cr_id c \<and>
         knows_caller s i (cr_id c) \<and> cr_key c = cd_key row \<and> cr_artifact_path c = cd_dir (case_from_row row))"
  using assms
proof (rule call_dispatched)
  let ?g = "with_store shown s g"
  have g: "gw_case_service ?g = Some (case_service_of shown s)" "gw_surface ?g = gw_surface g" by (simp_all add: with_store_def)
  fix sc1 rq1 st1
  assume cond: "call_cond ?g sc rq st sc1 rq1 st1" and sent: "st_calls (snd (call_tool ?g sc rq st)) = st_calls st @ [(sc1, rq1)]"
  from cond obtain c rq' where found: "case_found ?g sc rq c"
      "gate_cond ?g (with_case c (gw_case_service ?g \<noteq> None) sc) rq' st1 sc1 rq1 st1"
    by (rule call_stages)
  then have sc1: "sc_case sc1 = c" by (simp add: gate_cond_def)
  show ?thesis
  proof (cases c)
    case None
    with found(1) sent sc1 g show ?thesis by (auto simp: case_found_def)
  next
    case (Some c')
    with found(1) have "case_lookup ?g (sc_identity sc) = Inr (Some c')" by (auto simp: case_found_def split: option.splits)
    then have "case_service_of shown s (sc_identity sc) = Inr c'"
      by (auto simp: case_lookup_def g split: sum.splits case_error.splits option.splits)
    from service_lets_in [OF this] sent sc1 Some show ?thesis by auto
  qed
qed

end
