(* ===== verification/Gateway_Sample.thy ===== *)
theory Gateway_Sample
  imports Gateway_Case
begin

text \<open>
  A gateway with one proxied tool, a case with one sealed file and a caller who may use the tool, on which the theorems on whole calls are
  applied: the call reaches the backend.
\<close>

section \<open>The gateway\<close>

definition sample_case :: case_row where
  "sample_case = \<lparr>cr_id = ''1'', cr_key = ''C1'', cr_artifact_path = Some ''/cases/C1'', cr_role = GStr ''lead''\<rparr>"

definition sample_store :: case_store where
  "sample_store = \<lparr>cs_cases = [\<lparr>cd_id = ''1'', cd_key = ''C1'', cd_title = ''C1'', cd_description = None, cd_status = ''active'',
     cd_dir = Some ''/cases/C1'', cd_metadata = [], cd_created_by = GStr ''p1''\<rparr>], cs_members = [], cs_active = Some ''1'', cs_set_by = GStr ''p1'',
     cs_events = [], cs_notes = []\<rparr>"

definition sample_service :: "identity option \<Rightarrow> case_error + case_row" where
  "sample_service = case_service_of (\<lambda>v. []) sample_store"

definition sample_manifest :: tool_manifest where
  "sample_manifest = \<lparr>mf_backend = Some ''opensearch'', mf_case_scoped = Some True, mf_category = ''ingest'', mf_phase = [],
     mf_safe_args = Some [''case_dir''], mf_bound_args = [''index''], mf_read_only = Some False,
     mf_required_scopes = [''tool:opensearch_ingest''], mf_non_authoritative = True, mf_prohibited = [''seal'']\<rparr>"

definition sample_surface :: tool_surface where
  "sample_surface = \<lparr>manifest = (\<lambda>n. if n = ''opensearch_ingest'' then Some sample_manifest else None), schema_props = (\<lambda>n. []),
     local_tools = [], tool_map = (\<lambda>n. Some ''opensearch'')\<rparr>"

definition sample_file :: stat_result where
  "sample_file = \<lparr>st_kind = Regular, st_perm = 292, st_dev = 1, st_ino = 2, st_nlink = 1, st_size = 3, st_mtime_ns = 4, st_ctime_ns = 5\<rparr>"

definition sample_sealed :: sealed_row where
  "sample_sealed = \<lparr>sr_evidence_id = ''e'', sr_display_path = ''evidence/a'', sr_version_id = ''v'', sr_sha256 = ''00'', sr_size = Some 3,
     sr_dev = Some 1, sr_ino = Some 2, sr_manifest_version = 1, sr_manifest_hash = ''h''\<rparr>"

definition sample_answer :: tool_result where
  "sample_answer = \<lparr>content = [TextItem ''t''], structured = Some (GDict [(StrKey ''audit_id'', GStr ''forged'')]), meta = None, is_error = False\<rparr>"

definition sample_gateway :: gateway where
  "sample_gateway = \<lparr>gw_dsn = Some ''postgres'', gw_auth_enabled = True, gw_surface = sample_surface, gw_host = bare_host, gw_spill = no_spill,
     gw_loads = (\<lambda>s. if s = ''t'' then Some (GDict []) else None), gw_dumps = (\<lambda>v. []), gw_dumps_indent = (\<lambda>v. []), gw_dumps_raw = (\<lambda>v. []),
     gw_envelope = (\<lambda>r. []), gw_shown = (\<lambda>v. []),
     gw_case_service = Some sample_service, gw_reconcile_db = (\<lambda>c es ok. Some (Some ''OPEN'', Some 1)),
     gw_state_db = (\<lambda>c. None), gw_scan = (\<lambda>d. Some []), gw_sealed = (\<lambda>c r d. Some sample_sealed), gw_lstat = (\<lambda>p. Some sample_file),
     gw_inventory_token = (\<lambda>d. Some ''token''), gw_db_audit = Some (\<lambda>n e. Some ''event''), gw_job_service = None,
     gw_float_int = (\<lambda>s. None), gw_realpath = (\<lambda>s. s), gw_forward_dsn = [], gw_backend = (\<lambda>sc rq n. Inr sample_answer)\<rparr>"

definition sample_caller :: identity where
  "sample_caller = \<lparr>principal = ''ann'', principal_type = ''agent'', token_id = GNull, agent_id = GNull, created_by = GNull, id_role = ''agent'',
     source_ip = GNull, auth_surface = ''mcp'', id_case_id = GNull, tool_scopes = [''namespace:opensearch''], token_fingerprint = GNull,
     auth_user_id = GNull, principal_id = GNull, system_role = GNull, case_memberships = [\<lparr>cm_case_id = ''1'', cm_role = ''lead''\<rparr>], email = GNull\<rparr>"

definition sample_scope :: call_scope where
  "sample_scope = \<lparr>sc_identity = Some sample_caller, sc_now = 100, sc_after = 101, sc_elapsed = GNum 1, sc_request_id = ''r1'',
     sc_fresh_request_id = ''r2'', sc_event_id = ''local'', sc_case = None, sc_core = None, sc_admitted = [], sc_inventory = [],
     sc_authority = None, sc_revalidates = False\<rparr>"

definition sample_request :: tool_request where
  "sample_request = \<lparr>rq_name = ''opensearch_ingest'',
     rq_args = Some [(StrKey ''path'', GStr ''a''), (StrKey ''index'', GStr ''case-c1-evtx'')]\<rparr>"

definition sample_state :: gw_state where
  "sample_state = \<lparr>st_rates = \<lparr>ip_limiter = None, examiner_limiter = None\<rparr>, st_overrides = [], st_last429 = [], st_log = [], st_rows = [],
     st_attached = [], st_jobs = [], st_calls = []\<rparr>"

section \<open>Its call\<close>

text \<open>What a middleware calls next, as far as the calls are concerned.\<close>

lemma guard_calls: "st_calls (snd (response_guard g nxt sc rq st)) = st_calls (snd (nxt sc rq st))"
  by (auto simp: response_guard_def Let_def split: prod.split sum.split)

lemma augment_calls: "st_calls (snd (ingest_status_augment g nxt sc rq st)) = st_calls (snd (nxt sc rq st))"
  by (auto simp: ingest_status_augment_def split: option.split prod.split sum.split)

lemma envelope_calls:
  "reserve_event g sc rq st = (Some event, st1) \<Longrightarrow> st_calls (snd (audit_envelope g nxt sc rq st)) = st_calls (snd (nxt sc rq st1))"
  by (auto simp: audit_envelope_def Let_def split: prod.split sum.split)

lemma sample_fields:
  "gw_dsn sample_gateway = Some ''postgres''" "gw_auth_enabled sample_gateway" "gw_surface sample_gateway = sample_surface"
  "gw_db_audit sample_gateway = Some (\<lambda>n e. Some ''event'')" "gw_job_service sample_gateway = None"
  "gw_case_service sample_gateway = Some sample_service" "rq_name sample_request = ''opensearch_ingest''"
  "gw_shown sample_gateway = (\<lambda>v. [])" "sc_identity sample_scope = Some sample_caller" "sc_now sample_scope = 100"
  "principal sample_caller = ''ann''" "st_rates sample_state = \<lparr>ip_limiter = None, examiner_limiter = None\<rparr>" "st_calls sample_state = []"
  "st_rows sample_state = []"
  by (simp_all add: sample_gateway_def sample_request_def sample_scope_def sample_caller_def sample_state_def)

lemma sample_service_answer [simp]: "sample_service (Some sample_caller) = Inr sample_case"
  by (simp add: sample_service_def case_service_of_def require_active_case_def get_active_case_def membership_role_def sample_store_def
      sample_caller_def SYSTEM_BYPASS_ROLES_def case_row_of_def case_from_row_def sample_case_def)

lemma sample_addon:
  "addon_authority_for_tool sample_surface ''opensearch_ingest'' = Some \<lparr>ap_backend = Some ''opensearch'',
     ap_required_scopes = [''tool:opensearch_ingest''], ap_non_authoritative = True, ap_prohibited = [''seal'']\<rparr>"
  "is_scope_satisfied (Some sample_caller) ''tool:opensearch_ingest''" "is_tool_allowed (Some sample_caller) ''opensearch_ingest''"
  "attempted_prohibited_operations ''opensearch_ingest'' (tool_args sample_request) [''seal''] = []"
  by code_simp+

lemma sample_rate: "snd (check_examiner_rate_limit 100 ''ann'' \<lparr>ip_limiter = None, examiner_limiter = None\<rparr>)"
  by (simp add: check_examiner_rate_limit_def get_examiner_rate_limiter_def is_allowed_def new_limiter_def Let_def CLEANUP_INTERVAL_def cleanup_def)

lemma sample_proxied: "proxied_case_tool sample_gateway ''opensearch_ingest''"
  by (simp add: proxied_case_tool_def sample_fields) code_simp

abbreviation sample_in_case :: call_scope where
  "sample_in_case \<equiv> with_case (Some sample_case) True sample_scope"

lemma sample_bound:
  "safe_case_argument_names sample_surface ''opensearch_ingest'' = Some [''case_dir'']"
  "case_bound_argument_names sample_surface ''opensearch_ingest'' = [''index'']"
  "unbound_argument (\<lambda>v. []) (index_prefix sample_case) (tool_args sample_request) [''index''] = None"
  by code_simp+

lemma sample_injected:
  "inject_case (\<lambda>v. []) [''case_dir''] (case_values sample_case) sample_request = Inr (set_arg ''case_dir'' (GStr ''/cases/C1'') sample_request)"
  by (simp add: sample_request_def sample_case_def case_values_def tool_args_def gget_def set_arg_def)

lemma sample_gate: "\<not> blocked (gate_of sample_gateway sample_case)"
  by (simp add: gate_of_def sample_gateway_def check_evidence_gate_db_def reconcile_def sample_case_def case_dir_of_def absent_def
      classify_inventory_entries_def gate_result_of_def row_state_def GATE_TO_CHAIN_STATUS_def Let_def)

lemma strip_a: "strip ''a'' = ''a''"
  by code_simp

lemma sample_references:
  "evidence_references_for_tool (gw_host sample_gateway) (gw_shown sample_gateway) ''opensearch_ingest''
     (tool_args (set_arg ''case_dir'' (GStr ''/cases/C1'') sample_request)) d = Inr [(''path'', [''a''])]"
  by (simp add: evidence_references_for_tool_def declared_arguments_def EVIDENCE_REFERENCE_ARGUMENTS_def sample_request_def set_arg_def
      tool_args_def gget_def argument_references_def strip_a)

lemma sample_admit: "\<exists>b. admit sample_gateway sample_case ''a'' = Some b"
  by (simp add: admit_def resolve_sealed_version_def sample_gateway_def sample_case_def case_dir_of_def absent_def sample_file_def sample_sealed_def
      matches_column_def)

lemma sample_evidence:
  "sc_case sc = Some sample_case \<Longrightarrow> \<exists>sc1 rq1. rq_name rq1 = ''opensearch_ingest'' \<and>
     evidence_gate sample_gateway nxt sc (set_arg ''case_dir'' (GStr ''/cases/C1'') sample_request) st = nxt sc1 rq1 st"
proof -
  assume sc: "sc_case sc = Some sample_case"
  obtain b where b: "admit sample_gateway sample_case ''a'' = Some b" using sample_admit by blast
  have token: "gw_inventory_token sample_gateway d = Some ''token''" for d by (simp add: sample_gateway_def)
  have refs: "all_references [(''path'', [''a''])] = [''a'']" by (simp add: all_references_def)
  let ?rq = "set_arg ''case_dir'' (GStr ''/cases/C1'') sample_request"
  have "evidence_gate sample_gateway nxt sc ?rq st =
      nxt (bound_scope ''opensearch_ingest'' [(''a'', b)] ''token'' sc) (normalize_arguments [(''a'', b)] [(''path'', [''a''])] ?rq) st"
    unfolding evidence_gate_def sc using sample_gate sample_references token b
    by (simp add: sample_fields run_admitted_def refs)
  moreover have "rq_name (normalize_arguments [(''a'', b)] [(''path'', [''a''])] ?rq) = ''opensearch_ingest''"
    by (simp only: rq_name_normalize rq_name_set_arg sample_fields)
  ultimately show ?thesis by blast
qed

lemma inner_calls:
  "rq_name rq = ''opensearch_ingest'' \<Longrightarrow>
     st_calls (snd (response_guard sample_gateway (ingest_status_augment sample_gateway (job_dispatch sample_gateway (dispatch sample_gateway))) sc rq st))
       = st_calls st @ [(sc, rq)]"
  by (simp add: guard_calls augment_calls job_dispatch_def sample_fields dispatch_def)

text \<open>The call comes through.\<close>

lemma sample_sent: "st_calls (snd (call_tool sample_gateway sample_scope sample_request sample_state)) \<noteq> st_calls sample_state"
proof -
  let ?inner = "response_guard sample_gateway (ingest_status_augment sample_gateway (job_dispatch sample_gateway (dispatch sample_gateway)))"
  let ?gate = "evidence_gate sample_gateway ?inner"
  have gate: "st_calls (snd (?gate sample_in_case (set_arg ''case_dir'' (GStr ''/cases/C1'') sample_request) st)) \<noteq> st_calls st" for st
    using sample_evidence [of sample_in_case ?inner st] inner_calls by fastforce
  let ?proxy = "proxy_active_case sample_gateway ?gate"
  have "?proxy sample_in_case sample_request st = ?gate sample_in_case (set_arg ''case_dir'' (GStr ''/cases/C1'') sample_request) st" for st
    using sample_proxied sample_bound sample_injected
    by (simp add: proxy_active_case_def bind_case_arguments_def sample_fields)
  with gate have proxy: "st_calls (snd (?proxy sample_in_case sample_request st)) \<noteq> st_calls st" for st by simp
  let ?envelope = "audit_envelope sample_gateway ?proxy"
  have envelope: "st_calls (snd (?envelope sample_in_case sample_request st)) \<noteq> st_calls st" for st
  proof -
    obtain st1 where r: "reserve_event sample_gateway sample_in_case sample_request st = (Some ''event'', st1)" "st_calls st1 = st_calls st"
      by (auto simp: reserve_event_def sample_fields db_record_def)
    from envelope_calls [OF r(1)] proxy [of st1] r(2) show ?thesis by simp
  qed
  let ?case = "case_context sample_gateway ?envelope"
  have "st_calls (snd (?case sample_scope sample_request st)) \<noteq> st_calls st" for st
    using envelope by (simp add: case_context_def case_lookup_def sample_fields run_in_case_snd)
  then have addon: "st_calls (snd (addon_authority sample_gateway ?case sample_scope sample_request st)) \<noteq> st_calls st" for st
    using sample_addon by (simp add: addon_authority_def sample_fields)
  have "st_calls (snd (tool_authorization sample_gateway (addon_authority sample_gateway ?case) sample_scope sample_request sample_state)) \<noteq>
      st_calls sample_state"
    using sample_addon sample_rate
      addon [of "sample_state\<lparr>st_rates := fst (check_examiner_rate_limit 100 ''ann'' \<lparr>ip_limiter = None, examiner_limiter = None\<rparr>)\<rparr>"]
    by (simp add: tool_authorization_def sample_fields Let_def)
  then show ?thesis by (simp add: call_tool_eq control_plane_required_def present_def sample_fields)
qed

section \<open>The theorems on it\<close>

theorem call_is_authorized_witness:
  "caller_may sample_gateway sample_scope sample_request sample_state \<and> addon_met sample_gateway sample_scope sample_request"
  using call_is_authorized [OF sample_sent] by simp



theorem mutating_call_is_audited_first_witness:
  "\<exists>e. prefix [(''event'', e)] (st_rows (snd (call_tool sample_gateway sample_scope sample_request sample_state))) \<and> de_status e = ''requested''"
proof -
  have "\<not> tool_read_only (gw_surface sample_gateway) (rq_name sample_request)" by (simp add: sample_fields) code_simp
  from mutating_call_is_audited_first [OF sample_sent sample_fields(4) this] show ?thesis
    by (auto simp: sample_fields) (metis db_entry.select_convs(4) requested_entry_def)
qed


theorem call_is_of_a_member_witness:
  "\<exists>(c :: case_row) i. sc_identity sample_scope = Some i \<and> cs_active sample_store = Some (cr_id c) \<and> knows_caller sample_store i (cr_id c)"
proof -
  have same: "with_store (\<lambda>v. []) sample_store sample_gateway = sample_gateway"
    unfolding with_store_def sample_service_def [symmetric] using sample_fields(6) by (simp add: sample_gateway_def)
  have "is_case_scoped_tool (gw_surface sample_gateway) (rq_name sample_request)" using sample_proxied by (simp add: proxied_case_tool_def sample_fields)
  with call_is_of_a_member [of "\<lambda>v. []" sample_store sample_gateway, unfolded same, OF sample_sent] show ?thesis
    by (auto split: option.splits) blast
qed

text \<open>The same gateway with a queue, and the tool that is always queued.\<close>

definition queue_gateway :: gateway where
  "queue_gateway = sample_gateway\<lparr>gw_job_service := Some \<lparr>js_enqueue = (\<lambda>n j. Some ''j1''), js_list = (\<lambda>c. None)\<rparr>\<rparr>"

definition enrich_request :: tool_request where
  "enrich_request = \<lparr>rq_name = ''opensearch_enrich_intel'', rq_args = Some [(StrKey ''case_dir'', GStr ''/cases/other'')]\<rparr>"

theorem queued_job_is_of_the_case_witness:
  "\<exists>j. st_jobs (snd (job_dispatch queue_gateway (dispatch queue_gateway) sample_in_case enrich_request sample_state)) = [(''j1'', j)] \<and>
     gget (jr_internal j) ''case_dir'' = Some (GStr ''/cases/C1'')"
proof -
  have "\<exists>j. job_request_of queue_gateway sample_in_case sample_case ''opensearch_enrich_intel'' (tool_args enrich_request) = Some j"
    by (simp add: job_request_of_def spec_public_def enrich_request_def tool_args_def gget_def or_else_def int_of_def)
  then obtain r st' j where r: "job_dispatch queue_gateway (dispatch queue_gateway) sample_in_case enrich_request sample_state = (Inr r, st')"
      "st_jobs st' = st_jobs sample_state @ [(''j1'', j)]"
    by (simp add: job_dispatch_def OPENSEARCH_JOB_DISPATCH_TOOLS_def enqueue_def queue_gateway_def enrich_request_def Let_def)
      (auto simp: Let_def)
  have "st_jobs (snd (dispatch queue_gateway sc rq st)) = st_jobs st" for sc rq st by (simp add: dispatch_def)
  from queued_job_is_of_the_case [where nxt = "dispatch queue_gateway", OF _ r this] r show ?thesis by (auto simp: sample_case_def sample_state_def)
qed

end
