(* ===== verification/Gateway_Auth.thy ===== *)
theory Gateway_Auth
  imports Gateway_Identity "HOL-Library.AList" "HOL-Library.List_Lexorder" "HOL-Library.Char_ord"
begin

text \<open>
  From a token to an identity (\<open>sift_gateway/supabase_auth.py\<close>: \<open>SupabaseAuthClient.get_user\<close>, \<open>SupabasePrincipalRepository\<close>,
  \<open>SupabaseIdentityResolver\<close> with its cache; \<open>SiftTokenVerifier\<close> and \<open>_identity_to_claims\<close> of \<open>sift_gateway/mcp_endpoint.py\<close>).

  The authentication server, the rows of the database and the clock are arguments of a call (\<open>auth_world\<close>, two readings of the clock), as
  they differ from call to call; the digests of tokens are parameters of the whole.
\<close>

section \<open>Principals\<close>

datatype auth_error =
    InvalidToken string
  | PrincipalNotMapped
  | PrincipalDisabled string
  | AmbiguousPrincipal
  | SupabaseUnavailable
  | OtherError

record principal_record =
  pr_type :: string
  pr_id :: string
  pr_user :: string
  pr_name :: "string option"
  pr_email :: gval
  pr_status :: string
  pr_system_role :: "string option"
  pr_default_case :: "string option"
  pr_memberships :: "case_membership list"
  pr_scopes :: "string list"

text \<open>A row of the view of principals, and what the other world answers during one call: the status and the body of the server, the rows
  of a user, the active memberships of an operator, and the active global scopes of a principal by the column of its type.\<close>

record principal_row =
  row_type :: string
  row_id :: string
  row_user :: string
  row_name :: "string option"
  row_email :: gval
  row_status :: string
  row_role :: "string option"
  row_case :: "string option"

record auth_world =
  w_http :: "string \<Rightarrow> (int \<times> gval option) option"
  w_rows :: "string \<Rightarrow> principal_row list option"
  w_members :: "string \<Rightarrow> (string \<times> string) list"
  w_scopes :: "string \<Rightarrow> string \<Rightarrow> string list"

definition MAX_TOKEN_LENGTH :: nat where "MAX_TOKEN_LENGTH = 8192"

definition load_memberships :: "auth_world \<Rightarrow> string \<Rightarrow> string \<Rightarrow> case_membership list" where
  "load_memberships w ptype pid =
     (if ptype \<noteq> ''operator'' then [] else map (\<lambda>(cid, role). \<lparr>cm_case_id = cid, cm_role = role\<rparr>) (w_members w pid))"

definition scope_column :: "string \<Rightarrow> string option" where
  "scope_column ptype =
     map_of [(''operator'', ''operator_profile_id''), (''agent'', ''agent_id''), (''service'', ''service_identity_id'')] ptype"

definition load_scopes :: "auth_world \<Rightarrow> string \<Rightarrow> string \<Rightarrow> string list" where
  "load_scopes w ptype pid =
     (case scope_column ptype of None \<Rightarrow> [] | Some column \<Rightarrow> filter (\<lambda>s. s \<noteq> []) (w_scopes w column pid))"

definition nonempty :: "string option \<Rightarrow> string option" where
  "nonempty s = (case s of Some t \<Rightarrow> if t = [] then None else Some t | None \<Rightarrow> None)"

definition record_of_row :: "auth_world \<Rightarrow> principal_row \<Rightarrow> principal_record" where
  "record_of_row w r =
     \<lparr>pr_type = row_type r, pr_id = row_id r, pr_user = row_user r, pr_name = row_name r, pr_email = row_email r, pr_status = row_status r,
      pr_system_role = nonempty (row_role r), pr_default_case = nonempty (row_case r),
      pr_memberships = load_memberships w (row_type r) (row_id r), pr_scopes = load_scopes w (row_type r) (row_id r)\<rparr>"

definition lookup_by_auth_user_id :: "auth_world \<Rightarrow> string \<Rightarrow> auth_error + principal_record option" where
  "lookup_by_auth_user_id w uid =
     (case w_rows w uid of
        None \<Rightarrow> Inl OtherError
      | Some [] \<Rightarrow> Inr None
      | Some [r] \<Rightarrow> Inr (Some (record_of_row w r))
      | Some rs \<Rightarrow> Inl AmbiguousPrincipal)"

definition system_role_to_role :: "string \<Rightarrow> string option \<Rightarrow> string" where
  "system_role_to_role ptype role =
     (if ptype = ''agent'' then ''agent''
      else if ptype = ''service'' then ''service''
      else if role = Some ''readonly'' then ''readonly''
      else ''examiner'')"

definition opt_text :: "string option \<Rightarrow> gval" where
  "opt_text s = (case s of Some t \<Rightarrow> GStr t | None \<Rightarrow> GNull)"

definition record_to_identity :: "(string \<Rightarrow> string) \<Rightarrow> principal_record \<Rightarrow> string \<Rightarrow> gval \<Rightarrow> string \<Rightarrow> identity" where
  "record_to_identity fingerprint r token ip surface =
     \<lparr>principal = (case nonempty (pr_name r) of Some n \<Rightarrow> n | None \<Rightarrow> pr_id r),
      principal_type = (if pr_type r \<in> {''agent'', ''service''} then pr_type r else ''user''),
      token_id = GStr (pr_id r), agent_id = (if pr_type r = ''agent'' then GStr (pr_id r) else GNull), created_by = GNull,
      id_role = system_role_to_role (pr_type r) (pr_system_role r), source_ip = ip, auth_surface = surface,
      id_case_id = opt_text (pr_default_case r), tool_scopes = pr_scopes r, token_fingerprint = GStr (fingerprint token),
      auth_user_id = GStr (pr_user r), principal_id = GStr (pr_id r), system_role = opt_text (pr_system_role r),
      case_memberships = pr_memberships r, email = pr_email r\<rparr>"

section \<open>The authentication server\<close>

definition get_user :: "auth_world \<Rightarrow> string \<Rightarrow> auth_error + gval" where
  "get_user w token =
     (if token = [] \<or> length token > MAX_TOKEN_LENGTH then Inl (InvalidToken ''missing or oversized token'')
      else case w_http w token of
        None \<Rightarrow> Inl SupabaseUnavailable
      | Some (http_status, body) \<Rightarrow>
          if http_status = 200 then (case body of Some v \<Rightarrow> Inr v | None \<Rightarrow> Inl OtherError)
          else if http_status = 401 \<or> http_status = 403 then Inl (InvalidToken ''Supabase rejected token'')
          else Inl SupabaseUnavailable)"

text \<open>The part of \<open>resolve\<close> that asks the server and the database.\<close>

definition subject_of :: "(gval \<Rightarrow> string) \<Rightarrow> gval \<Rightarrow> auth_error + string" where
  "subject_of shown user =
     (case user of
        GDict kvs \<Rightarrow>
          (let uid = py_str shown (or_else (gget kvs ''id'') (GStr [])) in
           if uid = [] then Inl (InvalidToken ''token has no subject'') else Inr uid)
      | _ \<Rightarrow> Inl OtherError)"

definition validated :: "(gval \<Rightarrow> string) \<Rightarrow> auth_world \<Rightarrow> string \<Rightarrow> auth_error + principal_record" where
  "validated shown w token =
     res_bind (get_user w token) (\<lambda>user.
     res_bind (subject_of shown user) (\<lambda>uid.
     res_bind (lookup_by_auth_user_id w uid) (\<lambda>found.
       case found of
         None \<Rightarrow> Inl PrincipalNotMapped
       | Some r \<Rightarrow> if pr_status r \<noteq> ''active'' then Inl (PrincipalDisabled (pr_status r)) else Inr r)))"

section \<open>The resolver and its cache\<close>

type_synonym identity_cache = "(string \<times> (identity \<times> int)) list"

record resolver =
  rs_ttl :: int
  rs_configured :: bool
  rs_digest :: "string \<Rightarrow> string"
  rs_fingerprint :: "string \<Rightarrow> string"
  rs_shown :: "gval \<Rightarrow> string"

definition auth_cache_get :: "resolver \<Rightarrow> int \<Rightarrow> string \<Rightarrow> identity_cache \<Rightarrow> identity option \<times> identity_cache" where
  "auth_cache_get r now key cache =
     (if rs_ttl r \<le> 0 then (None, cache)
      else case map_of cache key of
        None \<Rightarrow> (None, cache)
      | Some (i, expires) \<Rightarrow> if expires \<le> now then (None, AList.delete key cache) else (Some i, cache))"

definition auth_cache_put :: "resolver \<Rightarrow> int \<Rightarrow> string \<Rightarrow> identity \<Rightarrow> identity_cache \<Rightarrow> identity_cache" where
  "auth_cache_put r now key i cache = (if rs_ttl r \<le> 0 then cache else AList.update key (i, now + rs_ttl r) cache)"

definition restamp :: "gval \<Rightarrow> string \<Rightarrow> identity \<Rightarrow> identity" where
  "restamp ip surface i = i\<lparr>source_ip := ip, auth_surface := surface\<rparr>"

text \<open>One call; \<open>now\<close> is the clock at the lookup in the cache and \<open>later\<close> the one at the insertion.\<close>

definition resolve_token ::
  "resolver \<Rightarrow> auth_world \<Rightarrow> int \<Rightarrow> int \<Rightarrow> string \<Rightarrow> gval \<Rightarrow> string \<Rightarrow> identity_cache \<Rightarrow> (auth_error + identity) \<times> identity_cache" where
  "resolve_token r w now later token ip surface cache =
     (if token = [] \<or> length token > MAX_TOKEN_LENGTH then (Inl (InvalidToken ''missing or oversized token''), cache)
      else if \<not> rs_configured r then (Inl SupabaseUnavailable, cache)
      else case auth_cache_get r now (rs_digest r token) cache of
        (Some i, cache1) \<Rightarrow> (Inr (restamp ip surface i), cache1)
      | (None, cache1) \<Rightarrow>
          (case validated (rs_shown r) w token of
             Inl e \<Rightarrow> (Inl e, cache1)
           | Inr rec \<Rightarrow>
               (let i = record_to_identity (rs_fingerprint r) rec token ip surface
                in (Inr i, auth_cache_put r later (rs_digest r token) i cache1))))"

definition try_resolve ::
  "resolver \<Rightarrow> auth_world \<Rightarrow> int \<Rightarrow> int \<Rightarrow> string \<Rightarrow> gval \<Rightarrow> string \<Rightarrow> identity_cache \<Rightarrow> (auth_error + identity option) \<times> identity_cache" where
  "try_resolve r w now later token ip surface cache =
     (case resolve_token r w now later token ip surface cache of
        (Inl OtherError, c) \<Rightarrow> (Inl OtherError, c)
      | (Inl e, c) \<Rightarrow> (Inr None, c)
      | (Inr i, c) \<Rightarrow> (Inr (Some i), c))"

definition invalidate_token :: "resolver \<Rightarrow> string \<Rightarrow> identity_cache \<Rightarrow> identity_cache" where
  "invalidate_token r token cache = AList.delete (rs_digest r token) cache"

definition invalidate_principal :: "string \<Rightarrow> identity_cache \<Rightarrow> identity_cache" where
  "invalidate_principal uid cache =
     (if uid = [] then cache else filter (\<lambda>(k, i, expires). auth_user_id i \<noteq> GStr uid) cache)"

section \<open>The verifier and the claims\<close>

definition membership_value :: "case_membership \<Rightarrow> gval" where
  "membership_value m = str_dict [(''case_id'', GStr (cm_case_id m)), (''role'', GStr (cm_role m))]"

definition identity_to_claims :: "identity \<Rightarrow> gval" where
  "identity_to_claims i =
     str_dict
       [(''principal'', GStr (principal i)), (''principal_type'', GStr (principal_type i)), (''token_id'', token_id i),
        (''agent_id'', agent_id i), (''created_by'', created_by i), (''role'', GStr (id_role i)), (''source_ip'', source_ip i),
        (''auth_surface'', GStr (auth_surface i)), (''case_id'', id_case_id i),
        (''tool_scopes'', GList (map GStr (sort (remdups (tool_scopes i))))), (''token_fingerprint'', token_fingerprint i),
        (''auth_user_id'', auth_user_id i), (''principal_id'', principal_id i), (''system_role'', system_role i),
        (''case_memberships'', GList (map membership_value (case_memberships i)))]"

record access_token =
  at_token :: string
  at_client :: gval
  at_scopes :: "string list"
  at_claims :: "(gkey \<times> gval) list"

definition token_of_identity :: "string \<Rightarrow> identity \<Rightarrow> access_token" where
  "token_of_identity token i =
     \<lparr>at_token = token, at_client = or_else (Some (token_id i)) (GStr (principal i)),
      at_scopes = sort (remdups (tool_scopes i)), at_claims = [(StrKey ''sift_identity'', identity_to_claims i)]\<rparr>"

text \<open>Every error denies; so does the role that may only read.\<close>

definition verify_token :: "resolver option \<Rightarrow> auth_world \<Rightarrow> int \<Rightarrow> int \<Rightarrow> string \<Rightarrow> identity_cache \<Rightarrow> access_token option \<times> identity_cache" where
  "verify_token r w now later token cache =
     (case r of
        None \<Rightarrow> (None, cache)
      | Some r \<Rightarrow>
          (case resolve_token r w now later token GNull ''mcp'' cache of
             (Inl e, c) \<Rightarrow> (None, c)
           | (Inr i, c) \<Rightarrow> (if id_role i = ''readonly'' then None else Some (token_of_identity token i), c)))"

text \<open>The identity of a request: the one the guard left in its state, or the one in the claims of the token.\<close>

definition current_mcp_identity :: "(gval \<Rightarrow> string) \<Rightarrow> identity option \<Rightarrow> gval \<Rightarrow> access_token option \<Rightarrow> claims_error + identity option" where
  "current_mcp_identity shown in_state ip token =
     (case in_state of
        Some i \<Rightarrow> Inr (Some i)
      | None \<Rightarrow> (case token of None \<Rightarrow> Inr None | Some t \<Rightarrow> identity_from_claims shown ip (Some (at_claims t))))"

section \<open>What a cached identity stands for\<close>

datatype auth_op =
    ResolveOp auth_world int int string gval string
  | InvalidateOp string
  | InvalidateUserOp string

fun auth_step :: "resolver \<Rightarrow> identity_cache \<Rightarrow> auth_op \<Rightarrow> identity_cache" where
  "auth_step r cache (ResolveOp w now later token ip surface) = snd (resolve_token r w now later token ip surface cache)"
| "auth_step r cache (InvalidateOp token) = invalidate_token r token cache"
| "auth_step r cache (InvalidateUserOp uid) = invalidate_principal uid cache"

definition auth_run :: "resolver \<Rightarrow> auth_op list \<Rightarrow> identity_cache" where
  "auth_run r ops = foldl (auth_step r) [] ops"

text \<open>The calls so far hold one that validated a token of this digest, and since then neither the token nor its user was invalidated.\<close>

definition justified :: "resolver \<Rightarrow> auth_op list \<Rightarrow> string \<Rightarrow> identity \<Rightarrow> int \<Rightarrow> bool" where
  "justified r ops key i expires \<longleftrightarrow>
     (\<exists>pre w now later token ip surface post rec.
        ops = pre @ ResolveOp w now later token ip surface # post \<and> rs_digest r token = key \<and>
        validated (rs_shown r) w token = Inr rec \<and> i = record_to_identity (rs_fingerprint r) rec token ip surface \<and>
        expires = later + rs_ttl r \<and>
        (\<forall>uid. InvalidateUserOp uid \<in> set post \<longrightarrow> uid = [] \<or> uid \<noteq> pr_user rec) \<and>
        (\<forall>t. InvalidateOp t \<in> set post \<longrightarrow> rs_digest r t \<noteq> key))"

lemma justified_snoc:
  assumes "justified r ops key i expires"
    "\<And>uid. op = InvalidateUserOp uid \<Longrightarrow> uid = [] \<or> auth_user_id i \<noteq> GStr uid" "\<And>t. op = InvalidateOp t \<Longrightarrow> rs_digest r t \<noteq> key"
  shows "justified r (ops @ [op]) key i expires"
proof -
  from assms(1) obtain pre w now later token ip surface post rec where j:
      "ops = pre @ ResolveOp w now later token ip surface # post" "rs_digest r token = key" "validated (rs_shown r) w token = Inr rec"
      "i = record_to_identity (rs_fingerprint r) rec token ip surface" "expires = later + rs_ttl r"
      "\<forall>uid. InvalidateUserOp uid \<in> set post \<longrightarrow> uid = [] \<or> uid \<noteq> pr_user rec" "\<forall>t. InvalidateOp t \<in> set post \<longrightarrow> rs_digest r t \<noteq> key"
    by (auto simp: justified_def)
  moreover have "auth_user_id i = GStr (pr_user rec)" using j(4) by (simp add: record_to_identity_def)
  ultimately have "ops @ [op] = pre @ ResolveOp w now later token ip surface # (post @ [op])"
      "\<forall>uid. InvalidateUserOp uid \<in> set (post @ [op]) \<longrightarrow> uid = [] \<or> uid \<noteq> pr_user rec"
      "\<forall>t. InvalidateOp t \<in> set (post @ [op]) \<longrightarrow> rs_digest r t \<noteq> key"
    using assms(2,3) by auto
  with j show ?thesis unfolding justified_def by blast
qed

lemma set_update: "set (AList.update k v al) \<subseteq> insert (k, v) (set al)"
  by (induction al) auto

lemma auth_cache_get_cases:
  "fst (auth_cache_get r now key cache) = Some i \<Longrightarrow> \<exists>expires. (key, i, expires) \<in> set cache \<and> now < expires"
  "set (snd (auth_cache_get r now key cache)) \<subseteq> set cache"
  by (force simp: auth_cache_get_def AList.delete_eq dest: map_of_SomeD split: option.splits if_splits)+

lemma auth_run_justified: "(key, i, expires) \<in> set (auth_run r ops) \<Longrightarrow> justified r ops key i expires"
proof (induction ops arbitrary: key i expires rule: rev_induct)
  case Nil
  then show ?case by (simp add: auth_run_def)
next
  case (snoc op ops)
  let ?c = "auth_run r ops"
  have run: "auth_run r (ops @ [op]) = auth_step r ?c op" by (simp add: auth_run_def)
  show ?case
  proof (cases op)
    case (InvalidateOp t)
    with snoc.prems run have "(key, i, expires) \<in> set ?c" "rs_digest r t \<noteq> key"
      by (auto simp: invalidate_token_def AList.delete_eq)
    with snoc.IH InvalidateOp show ?thesis by (intro justified_snoc) auto
  next
    case (InvalidateUserOp uid)
    with snoc.prems run have "(key, i, expires) \<in> set ?c" "uid = [] \<or> auth_user_id i \<noteq> GStr uid"
      by (auto simp: invalidate_principal_def split: if_splits)
    with snoc.IH InvalidateUserOp show ?thesis by (intro justified_snoc) auto
  next
    case (ResolveOp w now later token ip surface)
    show ?thesis
    proof (cases "(key, i, expires) \<in> set ?c")
      case True
      with snoc.IH ResolveOp show ?thesis by (intro justified_snoc) auto
    next
      case False
      with snoc.prems run ResolveOp auth_cache_get_cases(2) [of r now "rs_digest r token" ?c] obtain rec where
          "validated (rs_shown r) w token = Inr rec" "key = rs_digest r token"
          "i = record_to_identity (rs_fingerprint r) rec token ip surface" "expires = later + rs_ttl r"
        using set_update by (fastforce simp: resolve_token_def Let_def auth_cache_put_def split: if_splits prod.splits option.splits sum.splits)
      then show ?thesis unfolding justified_def using ResolveOp
        by (intro exI [of _ ops] exI [of _ w] exI [of _ now] exI [of _ later] exI [of _ token] exI [of _ ip] exI [of _ surface] exI [of _ "[]"]
            exI [of _ rec]) simp
    qed
  qed
qed

text \<open>The server accepts the token for a user who has one principal, an active one.\<close>

definition accepted_for :: "resolver \<Rightarrow> auth_world \<Rightarrow> string \<Rightarrow> principal_record \<Rightarrow> bool" where
  "accepted_for r w token rec \<longleftrightarrow>
     (\<exists>user uid row. get_user w token = Inr user \<and> subject_of (rs_shown r) user = Inr uid \<and> w_rows w uid = Some [row] \<and>
        rec = record_of_row w row \<and> row_status row = ''active'')"

lemma validated_accepted: "validated (rs_shown r) w token = Inr rec \<Longrightarrow> accepted_for r w token rec"
proof -
  assume v: "validated (rs_shown r) w token = Inr rec"
  obtain user where user: "get_user w token = Inr user" using v by (cases "get_user w token") (auto simp: validated_def)
  obtain uid where uid: "subject_of (rs_shown r) user = Inr uid"
    using v user by (cases "subject_of (rs_shown r) user") (auto simp: validated_def)
  obtain row where "w_rows w uid = Some [row]" "rec = record_of_row w row" "pr_status rec = ''active''"
    using v user uid by (auto simp: validated_def lookup_by_auth_user_id_def split: option.splits list.splits if_splits)
  with user uid show ?thesis unfolding accepted_for_def by (auto simp: record_of_row_def)
qed

text \<open>C11. Who a token stands for.  Whatever calls came before, a token that the resolver accepts was presented, itself or one with the
  same digest, in this call or in one less than the time to live before, when the authentication server accepted it and its user
  had exactly one principal, an active one, which is the identity given out; and after that call neither the
  token nor its user was invalidated.\<close>

theorem accepted_token_was_validated:
  assumes "fst (resolve_token r w now later token ip surface (auth_run r ops)) = Inr i"
  shows "\<exists>pre w0 now0 later0 token0 ip0 surface0 post rec.
    ops @ [ResolveOp w now later token ip surface] = pre @ ResolveOp w0 now0 later0 token0 ip0 surface0 # post \<and>
    rs_digest r token0 = rs_digest r token \<and> (post = [] \<or> now < later0 + rs_ttl r) \<and>
    accepted_for r w0 token0 rec \<and> i = restamp ip surface (record_to_identity (rs_fingerprint r) rec token0 ip0 surface0) \<and>
    (\<forall>uid. InvalidateUserOp uid \<in> set post \<longrightarrow> uid = [] \<or> uid \<noteq> pr_user rec) \<and>
    (\<forall>t. InvalidateOp t \<in> set post \<longrightarrow> rs_digest r t \<noteq> rs_digest r token)"
proof -
  obtain cached cache1 where c: "auth_cache_get r now (rs_digest r token) (auth_run r ops) = (cached, cache1)"
    by (cases "auth_cache_get r now (rs_digest r token) (auth_run r ops)")
  show ?thesis
  proof (cases cached)
    case None
    with assms c obtain rec where "validated (rs_shown r) w token = Inr rec" "i = record_to_identity (rs_fingerprint r) rec token ip surface"
      by (auto simp: resolve_token_def Let_def split: if_splits sum.splits)
    moreover from this(2) have "i = restamp ip surface (record_to_identity (rs_fingerprint r) rec token ip surface)"
      by (simp add: restamp_def record_to_identity_def)
    ultimately show ?thesis using validated_accepted by (intro exI [of _ ops] exI [of _ w] exI [of _ now] exI [of _ later] exI [of _ token]
        exI [of _ ip] exI [of _ surface] exI [of _ "[]"] exI [of _ rec] conjI) simp_all
  next
    case (Some j)
    with assms c have i: "i = restamp ip surface j" by (auto simp: resolve_token_def split: if_splits)
    from auth_cache_get_cases(1) [of r now "rs_digest r token" "auth_run r ops" j] c Some obtain expires where
        "(rs_digest r token, j, expires) \<in> set (auth_run r ops)" "now < expires" by auto
    from auth_run_justified [OF this(1)] this(2) obtain pre w0 now0 later0 token0 ip0 surface0 post rec where
        j: "ops = pre @ ResolveOp w0 now0 later0 token0 ip0 surface0 # post" "rs_digest r token0 = rs_digest r token"
        "validated (rs_shown r) w0 token0 = Inr rec" "j = record_to_identity (rs_fingerprint r) rec token0 ip0 surface0"
        "now < later0 + rs_ttl r" "\<forall>uid. InvalidateUserOp uid \<in> set post \<longrightarrow> uid = [] \<or> uid \<noteq> pr_user rec"
        "\<forall>t. InvalidateOp t \<in> set post \<longrightarrow> rs_digest r t \<noteq> rs_digest r token"
      by (auto simp: justified_def)
    with i validated_accepted [OF j(3)] show ?thesis
      by (intro exI [of _ pre] exI [of _ w0] exI [of _ now0] exI [of _ later0] exI [of _ token0] exI [of _ ip0]
          exI [of _ surface0] exI [of _ "post @ [ResolveOp w now later token ip surface]"] exI [of _ rec] conjI) simp_all
  qed
qed

section \<open>Claims\<close>

lemma memberships_round_trip: "List.map_filter (membership_of shown) (map membership_value ms) = ms"
  by (induction ms) (simp_all add: List.map_filter_def membership_of_def membership_value_def gget_def or_null_def)

lemma scopes_round_trip: "scopes_of (Some (GList (map GStr ss))) = Some ss"
  by (simp add: scopes_of_def text_items_def list_all_iff o_def)

text \<open>C15. The identity in the claims.  The identity that the verifier writes into the claims of a token is read back by the
  middlewares with the same principal, role, scopes, principal and case attributes and memberships; only the address of the
  caller is that of the request when there is one, and the e-mail address is not carried.\<close>

theorem claims_round_trip:
  assumes "principal i \<noteq> []" "principal_type i \<noteq> []" "id_role i \<noteq> []" "auth_surface i \<noteq> []"
  shows "current_mcp_identity shown None ip (Some (token_of_identity token i)) =
    Inr (Some (i\<lparr>source_ip := (if gtruthy ip then ip else source_ip i), tool_scopes := sort (remdups (tool_scopes i)), email := GNull\<rparr>))"
  using assms scopes_round_trip [of "sort (remdups (tool_scopes i))"]
  by (simp add: current_mcp_identity_def token_of_identity_def identity_from_claims_def identity_to_claims_def identity_of_data_def gget_def
      or_else_def or_null_def memberships_of_def memberships_round_trip)

text \<open>A call that validated its token before a revocation puts the identity into the cache after it.\<close>

lemma revocation_overtaken:
  assumes "auth_user_id i = GStr uid" "0 < rs_ttl r" "now < later + rs_ttl r"
  shows "fst (auth_cache_get r now key (auth_cache_put r later key i (invalidate_principal uid cache))) = Some i"
  using assms by (simp add: auth_cache_get_def auth_cache_put_def update_conv')

section \<open>A sample\<close>

text \<open>A server that accepts one token, and one that is down.\<close>

definition sample_world :: auth_world where
  "sample_world = \<lparr>w_http = (\<lambda>t. if t = ''t'' then Some (200, Some (str_dict [(''id'', GStr ''u1'')])) else Some (401, None)),
     w_rows = (\<lambda>u. Some [\<lparr>row_type = ''agent'', row_id = ''p1'', row_user = u, row_name = None, row_email = GNull, row_status = ''active'',
        row_role = None, row_case = None\<rparr>]),
     w_members = (\<lambda>p. []), w_scopes = (\<lambda>c p. [''mcp:*''])\<rparr>"

definition down_world :: auth_world where
  "down_world = \<lparr>w_http = (\<lambda>t. None), w_rows = (\<lambda>u. None), w_members = (\<lambda>p. []), w_scopes = (\<lambda>c p. [])\<rparr>"

definition sample_resolver :: resolver where
  "sample_resolver = \<lparr>rs_ttl = 30, rs_configured = True, rs_digest = (\<lambda>t. t), rs_fingerprint = (\<lambda>t. t), rs_shown = (\<lambda>v. [])\<rparr>"

lemma down_rejects: "\<not> accepted_for sample_resolver down_world t rec"
  by (simp add: accepted_for_def get_user_def down_world_def)

lemma sample_fingerprint: "rs_fingerprint sample_resolver = (\<lambda>t. t)"
  by (simp add: sample_resolver_def)

theorem accepted_token_was_validated_witness: "\<exists>rec. accepted_for sample_resolver sample_world ''t'' rec \<and>
    fst (resolve_token sample_resolver down_world 20 21 ''t'' GNull ''mcp''
      (auth_run sample_resolver [ResolveOp sample_world 0 1 ''t'' GNull ''rest''])) =
    Inr (restamp GNull ''mcp'' (record_to_identity (\<lambda>t. t) rec ''t'' GNull ''rest''))"
proof -
  let ?ops = "[ResolveOp sample_world 0 1 ''t'' GNull ''rest'']"
  obtain i where i: "fst (resolve_token sample_resolver down_world 20 21 ''t'' GNull ''mcp'' (auth_run sample_resolver ?ops)) = Inr i"
    by (simp add: auth_run_def resolve_token_def MAX_TOKEN_LENGTH_def sample_resolver_def auth_cache_get_def auth_cache_put_def Let_def
        validated_def get_user_def subject_of_def lookup_by_auth_user_id_def sample_world_def record_of_row_def gget_def or_else_def)
  from accepted_token_was_validated [OF i] show ?thesis
    using down_rejects unfolding i by (auto simp: Cons_eq_append_conv sample_fingerprint)
qed

definition sample_identity :: identity where
  "sample_identity = record_to_identity (\<lambda>t. t)
     \<lparr>pr_type = ''operator'', pr_id = ''p1'', pr_user = ''u1'', pr_name = Some ''ann'', pr_email = GStr ''a@b'', pr_status = ''active'',
      pr_system_role = Some ''examiner'', pr_default_case = None, pr_memberships = [\<lparr>cm_case_id = ''c'', cm_role = ''lead''\<rparr>],
      pr_scopes = [''tool:b'', ''tool:a'']\<rparr> ''t'' (GStr ''10.0.0.1'') ''mcp''"

theorem claims_round_trip_witness:
  "\<exists>i. current_mcp_identity (\<lambda>v. []) None GNull (Some (token_of_identity ''t'' sample_identity)) = Inr (Some i) \<and>
     principal i = ''ann'' \<and> tool_scopes i = [''tool:a'', ''tool:b''] \<and> email i = GNull \<and> email sample_identity = GStr ''a@b''"
proof -
  have "sort (remdups (tool_scopes sample_identity)) = [''tool:a'', ''tool:b'']" by (simp add: sample_identity_def record_to_identity_def)
  moreover have "principal sample_identity = ''ann''" "principal_type sample_identity = ''user''" "id_role sample_identity = ''examiner''"
      "auth_surface sample_identity = ''mcp''" "email sample_identity = GStr ''a@b''"
    by (simp_all add: sample_identity_def record_to_identity_def system_role_to_role_def nonempty_def)
  ultimately show ?thesis using claims_round_trip [of sample_identity "\<lambda>v. []" GNull "''t''"] by simp
qed

end
