(* ===== verification/Investigation_Store.thy ===== *)
theory Investigation_Store
  imports Case_Metadata "HOL-Library.List_Lexorder" "HOL-Library.Char_ord"
begin

text \<open>
  The authority on findings, timeline events, indicators and tasks (\<open>sift_core/investigation_store.py\<close>): what an agent may write, how an
  examiner decides, and what a report is made of.

  The four tables are lists of rows; their unique indices and check constraints are tests of the writes.  Each method is one transaction:
  a fault leaves the tables as they were.  A JSON column gives back the object it was given.  The digest of an object, SHA-256 of its JSON
  text with sorted keys, is a parameter, as are \<open>str\<close> of containers, the number of a float, the time and its text.  Keys of objects are texts, as in JSON.
\<close>

section \<open>The tables\<close>

datatype inv_kind = FindingKind | TimelineKind | IocKind

record inv_row =
  iv_case :: string
  iv_item :: string
  iv_status :: string
  iv_version :: nat
  iv_hash :: gval
  iv_payload :: "(gkey \<times> gval) list"
  iv_value :: gval
  iv_type :: gval
  iv_created_by :: gval
  iv_approved_by :: gval
  iv_rejected_by :: gval
  iv_reauth :: "string option"
  iv_source :: string
  iv_updated :: int

record todo_row =
  td_case :: string
  td_todo :: string
  td_status :: string
  td_priority :: string
  td_assignee :: gval
  td_payload :: "(gkey \<times> gval) list"
  td_created_by :: gval
  td_completed :: gval
  td_version :: nat
  td_updated :: int

record inv_store =
  is_findings :: "inv_row list"
  is_timeline :: "inv_row list"
  is_iocs :: "inv_row list"
  is_todos :: "todo_row list"

fun rows_of :: "inv_kind \<Rightarrow> inv_store \<Rightarrow> inv_row list" where
  "rows_of FindingKind s = is_findings s"
| "rows_of TimelineKind s = is_timeline s"
| "rows_of IocKind s = is_iocs s"

fun set_rows :: "inv_kind \<Rightarrow> inv_row list \<Rightarrow> inv_store \<Rightarrow> inv_store" where
  "set_rows FindingKind rs s = s\<lparr>is_findings := rs\<rparr>"
| "set_rows TimelineKind rs s = s\<lparr>is_timeline := rs\<rparr>"
| "set_rows IocKind rs s = s\<lparr>is_iocs := rs\<rparr>"

definition empty_inv_store :: inv_store where
  "empty_inv_store = \<lparr>is_findings = [], is_timeline = [], is_iocs = [], is_todos = []\<rparr>"

definition at_key :: "string \<Rightarrow> string \<Rightarrow> inv_row \<Rightarrow> bool" where
  "at_key cid item r \<longleftrightarrow> iv_case r = cid \<and> iv_item r = item"

definition find_row :: "inv_row list \<Rightarrow> string \<Rightarrow> string \<Rightarrow> inv_row option" where
  "find_row rows cid item = find (at_key cid item) rows"

definition replace_row :: "string \<Rightarrow> string \<Rightarrow> (inv_row \<Rightarrow> inv_row) \<Rightarrow> inv_row list \<Rightarrow> inv_row list" where
  "replace_row cid item f rows = map (\<lambda>r. if at_key cid item r then f r else r) rows"

datatype inv_fault = StaleRow string | BadPayload | ColumnFault

text \<open>A column of texts takes a text or nothing; an identifier is not blank.\<close>

definition text_column :: "gval \<Rightarrow> bool" where
  "text_column v \<longleftrightarrow> (case v of GNull \<Rightarrow> True | GStr _ \<Rightarrow> True | _ \<Rightarrow> False)"

definition blank_id :: "string \<Rightarrow> bool" where
  "blank_id i \<longleftrightarrow> list_all (\<lambda>c. c = CHR '' '') i"

section \<open>Digests\<close>

definition HUMAN_LOCKED_STATUSES :: "string list" where
  "HUMAN_LOCKED_STATUSES = [''APPROVED'', ''REJECTED'']"

definition HASH_EXCLUDE_KEYS :: "string list" where
  "HASH_EXCLUDE_KEYS =
     [''status'', ''approved_at'', ''approved_by'', ''rejected_at'', ''rejected_by'', ''rejection_reason'', ''examiner_notes'',
      ''examiner_modifications'', ''content_hash'', ''verification'', ''modified_at'', ''provenance'', ''provenance_detail'',
      ''provenance_chain'', ''provenance_grade'', ''provenance_warnings'', ''provenance_gaps'', ''timeline_event_id'', ''source_evidence'',
      ''confidence_derivation'', ''grounding'']"

fun internal_key :: "gkey \<Rightarrow> bool" where
  "internal_key (StrKey k) = startswith k ''_''"
| "internal_key (OtherKey i) = False"

definition hashable :: "(gkey \<times> gval) list \<Rightarrow> (gkey \<times> gval) list" where
  "hashable p = filter (\<lambda>(k, _). k \<notin> StrKey ` set HASH_EXCLUDE_KEYS \<and> \<not> internal_key k) p"

definition compute_content_hash :: "((gkey \<times> gval) list \<Rightarrow> string) \<Rightarrow> (gkey \<times> gval) list \<Rightarrow> string" where
  "compute_content_hash digest p = digest (hashable p)"

definition is_human_locked :: "string \<Rightarrow> bool" where
  "is_human_locked status \<longleftrightarrow> upper (strip status) \<in> set HUMAN_LOCKED_STATUSES"

section \<open>Reading\<close>

definition project_row :: "string \<Rightarrow> nat \<Rightarrow> (gkey \<times> gval) list \<Rightarrow> (gkey \<times> gval) list" where
  "project_row status version p = put ''_version'' (GNum (int version)) (put ''status'' (GStr status) p)"

definition payload_rows :: "inv_kind \<Rightarrow> string \<Rightarrow> inv_store \<Rightarrow> (gkey \<times> gval) list list" where
  "payload_rows k cid s =
     (let rows = sort_key (\<lambda>r. - iv_updated r) (sort_key iv_item (filter (\<lambda>r. iv_case r = cid) (rows_of k s)))
      in map (\<lambda>r. project_row (iv_status r) (iv_version r) (iv_payload r)) (filter (\<lambda>r. iv_payload r \<noteq> []) rows))"

definition list_todo_rows :: "string \<Rightarrow> inv_store \<Rightarrow> (gkey \<times> gval) list list" where
  "list_todo_rows cid s =
     (let rows = sort_key (\<lambda>r. - td_updated r) (sort_key td_todo (filter (\<lambda>r. td_case r = cid) (is_todos s)))
      in map (\<lambda>r. project_row (td_status r) (td_version r) (td_payload r)) (filter (\<lambda>r. td_payload r \<noteq> []) rows))"

section \<open>What an agent writes\<close>

definition agent_status :: "(gval \<Rightarrow> string) \<Rightarrow> (gkey \<times> gval) list \<Rightarrow> string" where
  "agent_status shown p =
     (let status = py_str shown (or_else (gget p ''status'') (GStr ''DRAFT''))
      in if upper status \<in> set HUMAN_LOCKED_STATUSES then ''DRAFT'' else status)"

definition agent_payload ::
  "(gval \<Rightarrow> string) \<Rightarrow> ((gkey \<times> gval) list \<Rightarrow> string) \<Rightarrow> (gkey \<times> gval) list \<Rightarrow> (gkey \<times> gval) list" where
  "agent_payload shown digest payload =
     (let p = filter (\<lambda>(k, _). \<not> internal_key k) payload;
          p1 = put ''status'' (GStr (agent_status shown p)) p
      in put ''content_hash'' (or_else (gget p1 ''content_hash'') (GStr (compute_content_hash digest p1))) p1)"

record upsert_reply =
  ur_item :: string
  ur_status :: string
  ur_version :: nat
  ur_applied :: bool

definition new_row :: "int \<Rightarrow> inv_kind \<Rightarrow> string \<Rightarrow> string \<Rightarrow> string \<Rightarrow> (gkey \<times> gval) list \<Rightarrow> gval \<Rightarrow> gval \<Rightarrow> gval \<Rightarrow> inv_row" where
  "new_row tick k cid item status p value type created =
     \<lparr>iv_case = cid, iv_item = item, iv_status = status, iv_version = 1,
      iv_hash = (if k = IocKind then GNull else field p ''content_hash''), iv_payload = p, iv_value = value, iv_type = type,
      iv_created_by = created, iv_approved_by = GNull, iv_rejected_by = GNull, iv_reauth = None, iv_source = ''agent'', iv_updated = tick\<rparr>"

definition overwritten :: "int \<Rightarrow> inv_kind \<Rightarrow> string \<Rightarrow> (gkey \<times> gval) list \<Rightarrow> gval \<Rightarrow> gval \<Rightarrow> gval \<Rightarrow> inv_row \<Rightarrow> inv_row" where
  "overwritten tick k status p value type created r =
     r\<lparr>iv_status := status, iv_hash := (if k = IocKind then iv_hash r else field p ''content_hash''), iv_payload := p,
       iv_value := value, iv_type := type, iv_created_by := (if iv_created_by r = GNull then created else iv_created_by r),
       iv_version := iv_version r + 1, iv_updated := tick\<rparr>"

definition agent_upsert ::
  "(gval \<Rightarrow> string) \<Rightarrow> ((gkey \<times> gval) list \<Rightarrow> string) \<Rightarrow> int \<Rightarrow> inv_kind \<Rightarrow> string \<Rightarrow> string \<Rightarrow> (gkey \<times> gval) list \<Rightarrow> inv_store
   \<Rightarrow> inv_store \<times> (inv_fault + upsert_reply)" where
  "agent_upsert shown digest tick k cid item payload s =
     (let p = agent_payload shown digest payload;
          status = agent_status shown (filter (\<lambda>(k, _). \<not> internal_key k) payload);
          created = or_else (gget p ''created_by'') (field p ''examiner'');
          value = (if k = IocKind then field p ''value'' else GNull);
          type = (if k = IocKind then or_else (gget p ''type'') (field p ''ioc_type'') else GNull);
          texts = (if k = IocKind then [created, value, type] else [created, field p ''content_hash''])
      in case find_row (rows_of k s) cid item of
           Some r \<Rightarrow>
             if is_human_locked (iv_status r)
             then (s, Inr \<lparr>ur_item = item, ur_status = iv_status r, ur_version = iv_version r, ur_applied = False\<rparr>)
             else if \<not> list_all text_column texts then (s, Inl ColumnFault)
             else (set_rows k (replace_row cid item (overwritten tick k status p value type created) (rows_of k s)) s,
                   Inr \<lparr>ur_item = item, ur_status = status, ur_version = iv_version r + 1, ur_applied = True\<rparr>)
         | None \<Rightarrow>
             if blank_id item \<or> \<not> list_all text_column texts then (s, Inl ColumnFault)
             else (set_rows k (rows_of k s @ [new_row tick k cid item status p value type created]) s,
                   Inr \<lparr>ur_item = item, ur_status = status, ur_version = 1, ur_applied = True\<rparr>))"

definition upsert_todo ::
  "(gval \<Rightarrow> string) \<Rightarrow> int \<Rightarrow> string \<Rightarrow> string \<Rightarrow> (gkey \<times> gval) list \<Rightarrow> inv_store \<Rightarrow> inv_store \<times> (inv_fault + upsert_reply)" where
  "upsert_todo shown tick cid todo p s =
     (let status = py_str shown (or_else (gget p ''status'') (GStr ''open''));
          priority = py_str shown (or_else (gget p ''priority'') (GStr ''medium''));
          created = or_else (gget p ''created_by'') (field p ''examiner'');
          completed = or_else (gget p ''completed_at'') GNull;
          here = (\<lambda>r. td_case r = cid \<and> td_todo r = todo)
      in if blank_id todo \<or> status \<notin> {''open'', ''completed''} \<or> priority \<notin> {''low'', ''medium'', ''high''} \<or>
            \<not> list_all text_column [field p ''assignee'', created, completed] then (s, Inl ColumnFault)
         else case find here (is_todos s) of
             None \<Rightarrow>
               (s\<lparr>is_todos := is_todos s @ [\<lparr>td_case = cid, td_todo = todo, td_status = status, td_priority = priority,
                  td_assignee = field p ''assignee'', td_payload = p, td_created_by = created, td_completed = completed,
                  td_version = 1, td_updated = tick\<rparr>]\<rparr>,
                Inr \<lparr>ur_item = todo, ur_status = status, ur_version = 1, ur_applied = True\<rparr>)
           | Some r \<Rightarrow>
               (s\<lparr>is_todos := map (\<lambda>x. if here x then x\<lparr>td_status := status, td_priority := priority, td_assignee := field p ''assignee'',
                  td_payload := p, td_completed := completed, td_version := td_version x + 1, td_updated := tick\<rparr> else x) (is_todos s)\<rparr>,
                Inr \<lparr>ur_item = todo, ur_status = status, ur_version = td_version r + 1, ur_applied = True\<rparr>))"

section \<open>What an examiner decides\<close>

record review_action =
  ra_item :: string
  ra_action :: string
  ra_mods :: "(string \<times> gval) list"
  ra_note :: string
  ra_reason :: string
  ra_hash :: string
  ra_version :: "nat option"

record review_tally =
  rt_approved :: nat
  rt_rejected :: nat
  rt_edited :: nat
  rt_skipped :: "(string \<times> string) list"

definition EDITABLE_FIELDS :: "string list" where
  "EDITABLE_FIELDS =
     [''title'', ''observation'', ''interpretation'', ''confidence'', ''confidence_justification'', ''description'', ''host'',
      ''affected_account'', ''event_type'', ''mitre_ids'', ''related_findings'', ''timestamp'', ''source'', ''value'']"

definition kind_rows :: "inv_store \<Rightarrow> string \<Rightarrow> string \<Rightarrow> (inv_kind \<times> inv_row option) list" where
  "kind_rows s cid item = map (\<lambda>k. (k, find_row (rows_of k s) cid item)) [FindingKind, TimelineKind, IocKind]"

definition find_kind :: "inv_store \<Rightarrow> string \<Rightarrow> string \<Rightarrow> (inv_kind \<times> inv_row) option" where
  "find_kind s cid item = map_option (\<lambda>(k, r). (k, the r)) (find (\<lambda>(k, r). r \<noteq> None) (kind_rows s cid item))"

text \<open>A modification is an object with the value that was shown and the new one, or the new value alone.\<close>

definition modified_value :: "gval \<Rightarrow> gval" where
  "modified_value m = (case m of GDict d \<Rightarrow> field d ''modified'' | _ \<Rightarrow> m)"

definition original_value :: "gval \<Rightarrow> gval" where
  "original_value m = (case m of GDict d \<Rightarrow> field d ''original'' | _ \<Rightarrow> GNull)"

definition modification_conflicts :: "(string \<Rightarrow> real option) \<Rightarrow> (gkey \<times> gval) list \<Rightarrow> string \<times> gval \<Rightarrow> bool" where
  "modification_conflicts fv p = (\<lambda>(f, m).
     case m of GDict d \<Rightarrow> gget d ''original'' \<noteq> None \<and> \<not> py_eq fv (field p f) (field d ''original'') | _ \<Rightarrow> False)"

fun edit_fields :: "string \<Rightarrow> string \<Rightarrow> (string \<times> gval) list \<Rightarrow> (gkey \<times> gval) list \<Rightarrow> inv_fault + (gkey \<times> gval) list" where
  "edit_fields examiner now [] p = Inr p"
| "edit_fields examiner now ((f, m) # mods) p =
     (if f \<notin> set EDITABLE_FIELDS then edit_fields examiner now mods p
      else let p1 = put f (modified_value m) p in
        case (case gget p1 ''examiner_modifications'' of None \<Rightarrow> GDict [] | Some v \<Rightarrow> v) of
          GDict history \<Rightarrow>
            edit_fields examiner now mods (put ''examiner_modifications'' (GDict (put f (str_dict
              [(''original'', original_value m), (''modified'', modified_value m), (''modified_by'', GStr examiner), (''modified_at'', GStr now)]) history)) p1)
        | _ \<Rightarrow> Inl BadPayload)"

definition add_note :: "string \<Rightarrow> string \<Rightarrow> string \<Rightarrow> (gkey \<times> gval) list \<Rightarrow> inv_fault + (gkey \<times> gval) list" where
  "add_note examiner now note p =
     (if note = [] then Inr p
      else case (case gget p ''examiner_notes'' of None \<Rightarrow> GList [] | Some v \<Rightarrow> v) of
        GList notes \<Rightarrow>
          Inr (put ''examiner_notes'' (GList (notes @ [str_dict [(''note'', GStr note), (''by'', GStr examiner), (''at'', GStr now)]])) p)
      | _ \<Rightarrow> Inl BadPayload)"

record reviewer =
  rv_examiner :: string
  rv_reauth :: "string option"
  rv_now :: string
  rv_tick :: int

definition reviewed_row ::
  "reviewer \<Rightarrow> (gkey \<times> gval) list \<Rightarrow> string \<Rightarrow> gval \<Rightarrow> gval \<Rightarrow> gval \<Rightarrow> inv_row \<Rightarrow> inv_row" where
  "reviewed_row rv p status hash value type r =
     r\<lparr>iv_status := status, iv_value := value, iv_type := type, iv_payload := p, iv_hash := hash,
       iv_approved_by := (if status = ''APPROVED'' then GStr (rv_examiner rv) else GNull),
       iv_rejected_by := (if status = ''REJECTED'' then GStr (rv_examiner rv) else GNull), iv_reauth := rv_reauth rv,
       iv_version := iv_version r + 1, iv_updated := rv_tick rv\<rparr>"

text \<open>The update counts the rows it changes: the version the transaction has seen is part of its condition.\<close>

definition write_review ::
  "reviewer \<Rightarrow> inv_kind \<Rightarrow> string \<Rightarrow> string \<Rightarrow> (gkey \<times> gval) list \<Rightarrow> string \<Rightarrow> gval \<Rightarrow> nat \<Rightarrow> inv_store \<Rightarrow> inv_fault + inv_store" where
  "write_review rv k cid item p status hash observed s =
     (let value = (if k = IocKind then field p ''value'' else GNull);
          type = (if k = IocKind then or_else (gget p ''type'') (field p ''ioc_type'') else GNull);
          hit = (\<lambda>r. at_key cid item r \<and> iv_version r = observed)
      in if \<not> list_all text_column [value, type, hash] then Inl ColumnFault
         else if length (filter hit (rows_of k s)) \<noteq> 1 then Inl (StaleRow item)
         else Inr (set_rows k (map (\<lambda>r. if hit r then reviewed_row rv p status hash value type r else r) (rows_of k s)) s))"

definition approved_payload :: "((gkey \<times> gval) list \<Rightarrow> string) \<Rightarrow> string \<Rightarrow> string \<Rightarrow> (gkey \<times> gval) list \<Rightarrow> (gkey \<times> gval) list" where
  "approved_payload digest examiner now p =
     put ''modified_at'' (GStr now) (put ''approved_by'' (GStr examiner) (put ''approved_at'' (GStr now)
       (put ''status'' (GStr ''APPROVED'') (put ''content_hash'' (GStr (compute_content_hash digest p)) p))))"

definition rejected_payload :: "string \<Rightarrow> string \<Rightarrow> string \<Rightarrow> (gkey \<times> gval) list \<Rightarrow> (gkey \<times> gval) list" where
  "rejected_payload examiner now reason p =
     (let p1 = put ''rejected_by'' (GStr examiner) (put ''rejected_at'' (GStr now) (put ''status'' (GStr ''REJECTED'') p))
      in put ''modified_at'' (GStr now) (if reason = [] then p1 else put ''rejection_reason'' (GStr reason) p1))"

definition edited_payload :: "((gkey \<times> gval) list \<Rightarrow> string) \<Rightarrow> string \<Rightarrow> (gkey \<times> gval) list \<Rightarrow> (gkey \<times> gval) list" where
  "edited_payload digest now p = put ''modified_at'' (GStr now) (put ''content_hash'' (GStr (compute_content_hash digest p)) p)"

definition skip_action :: "string \<Rightarrow> string \<Rightarrow> review_tally \<Rightarrow> review_tally" where
  "skip_action item why t = t\<lparr>rt_skipped := rt_skipped t @ [(item, why)]\<rparr>"

text \<open>What is done with the payload of the row, once the action fits it.\<close>

definition decide ::
  "((gkey \<times> gval) list \<Rightarrow> string) \<Rightarrow> reviewer \<Rightarrow> string \<Rightarrow> review_action \<Rightarrow> inv_kind \<Rightarrow> inv_row \<Rightarrow> (gkey \<times> gval) list \<Rightarrow>
   inv_store \<times> review_tally \<Rightarrow> inv_fault + (inv_store \<times> review_tally)" where
  "decide digest rv cid act k r p = (\<lambda>(s, t).
     let action = lower (ra_action act);
         store = (\<lambda>p' status. write_review rv k cid (ra_item act) p' status (field p' ''content_hash'') (iv_version r) s)
     in if action = ''approve'' then
          let p' = approved_payload digest (rv_examiner rv) (rv_now rv) p in
          res_bind (store p' ''APPROVED'') (\<lambda>s'. Inr (s', t\<lparr>rt_approved := rt_approved t + 1\<rparr>))
        else if action = ''reject'' then
          let p' = rejected_payload (rv_examiner rv) (rv_now rv) (ra_reason act) p in
          res_bind (store p' ''REJECTED'') (\<lambda>s'. Inr (s', t\<lparr>rt_rejected := rt_rejected t + 1\<rparr>))
        else if action = ''edit'' then
          if ra_mods act = [] then Inr (s, t)
          else let p' = edited_payload digest (rv_now rv) p in
            res_bind (store p' (iv_status r)) (\<lambda>s'. Inr (s', t\<lparr>rt_edited := rt_edited t + 1\<rparr>))
        else Inr (s, skip_action (ra_item act) (''unknown action '' @ action) t))"

definition review_one ::
  "(string \<Rightarrow> real option) \<Rightarrow> ((gkey \<times> gval) list \<Rightarrow> string) \<Rightarrow> reviewer \<Rightarrow> string \<Rightarrow> review_action \<Rightarrow> inv_store \<times> review_tally
   \<Rightarrow> inv_fault + (inv_store \<times> review_tally)" where
  "review_one fv digest rv cid act = (\<lambda>(s, t).
     case find_kind s cid (ra_item act) of
       None \<Rightarrow> Inr (s, skip_action (ra_item act) ''not found'' t)
     | Some (k, r) \<Rightarrow>
         (let p = iv_payload r in
          if (case ra_version act of None \<Rightarrow> False | Some v \<Rightarrow> v \<noteq> iv_version r)
          then Inr (s, skip_action (ra_item act) ''stale version'' t)
          else if ra_hash act \<noteq> [] \<and> gtruthy (field p ''content_hash'') \<and> field p ''content_hash'' \<noteq> GStr (ra_hash act)
          then Inr (s, skip_action (ra_item act) ''stale content hash'' t)
          else case find (modification_conflicts fv p) (ra_mods act) of
            Some (f, _) \<Rightarrow> Inr (s, skip_action (ra_item act) (''field '' @ [CHR 0x27] @ f @ [CHR 0x27] @ '' changed since review'') t)
          | None \<Rightarrow>
              res_bind (edit_fields (rv_examiner rv) (rv_now rv) (ra_mods act) p) (\<lambda>p1.
              res_bind (add_note (rv_examiner rv) (rv_now rv) (ra_note act) p1) (\<lambda>p2.
              decide digest rv cid act k r p2 (s, t)))))"

fun review_all ::
  "(string \<Rightarrow> real option) \<Rightarrow> ((gkey \<times> gval) list \<Rightarrow> string) \<Rightarrow> reviewer \<Rightarrow> string \<Rightarrow> review_action list \<Rightarrow> inv_store \<times> review_tally
   \<Rightarrow> inv_fault + (inv_store \<times> review_tally)" where
  "review_all fv digest rv cid [] st = Inr st"
| "review_all fv digest rv cid (a # as) st = res_bind (review_one fv digest rv cid a st) (review_all fv digest rv cid as)"

definition apply_review ::
  "(string \<Rightarrow> real option) \<Rightarrow> ((gkey \<times> gval) list \<Rightarrow> string) \<Rightarrow> reviewer \<Rightarrow> string \<Rightarrow> review_action list \<Rightarrow> inv_store
   \<Rightarrow> inv_store \<times> (inv_fault + review_tally)" where
  "apply_review fv digest rv cid acts s =
     (case review_all fv digest rv cid acts (s, \<lparr>rt_approved = 0, rt_rejected = 0, rt_edited = 0, rt_skipped = []\<rparr>) of
        Inl e \<Rightarrow> (s, Inl e)
      | Inr (s', t) \<Rightarrow> (s', Inr t))"

section \<open>What a report is made of\<close>

definition reported_payload :: "inv_row \<Rightarrow> (gkey \<times> gval) list" where
  "reported_payload r =
     (let p0 = put ''status'' (GStr ''APPROVED'') (iv_payload r);
          p1 = (if gtruthy (iv_hash r) then put ''content_hash'' (iv_hash r) p0 else p0);
          p2 = (if gtruthy (iv_approved_by r) then put ''approved_by'' (iv_approved_by r) p1 else p1)
      in put ''_version'' (GNum (int (iv_version r))) p2)"

definition report_inputs :: "string \<Rightarrow> inv_store \<Rightarrow> inv_kind \<Rightarrow> (gkey \<times> gval) list list" where
  "report_inputs cid s k =
     map reported_payload (filter (\<lambda>r. iv_payload r \<noteq> [])
       (sort_key iv_item (filter (\<lambda>r. iv_case r = cid \<and> upper (iv_status r) = ''APPROVED'') (rows_of k s))))"

section \<open>Calls\<close>

datatype inv_op =
    AgentWrites inv_kind string string "(gkey \<times> gval) list" int
  | TodoWrites string string "(gkey \<times> gval) list" int
  | Reviews reviewer string "review_action list"

datatype inv_reply = Upserted upsert_reply | Reviewed review_tally

fun inv_call ::
  "(gval \<Rightarrow> string) \<Rightarrow> (string \<Rightarrow> real option) \<Rightarrow> ((gkey \<times> gval) list \<Rightarrow> string) \<Rightarrow> inv_op \<Rightarrow> inv_store \<Rightarrow> inv_store \<times> (inv_fault + inv_reply)" where
  "inv_call shown fv digest (AgentWrites k cid item p tick) s = map_prod id (map_sum id Upserted) (agent_upsert shown digest tick k cid item p s)"
| "inv_call shown fv digest (TodoWrites cid todo p tick) s = map_prod id (map_sum id Upserted) (upsert_todo shown tick cid todo p s)"
| "inv_call shown fv digest (Reviews rv cid acts) s = map_prod id (map_sum id Reviewed) (apply_review fv digest rv cid acts s)"

section \<open>Rows and digests\<close>

lemma rows_of_set_rows [simp]: "rows_of k' (set_rows k rs s) = (if k' = k then rs else rows_of k' s)"
  by (cases k; cases k') simp_all

lemma rows_of_todos [simp]: "rows_of k (s\<lparr>is_todos := ts\<rparr>) = rows_of k s"
  by (cases k) simp_all

lemma hashable_update:
  "k \<in> StrKey ` set HASH_EXCLUDE_KEYS \<or> internal_key k \<Longrightarrow> hashable (AList.update k v p) = hashable p"
  by (induction p) (auto simp: hashable_def)

lemma hashable_put [simp]:
  "f \<in> set HASH_EXCLUDE_KEYS \<Longrightarrow> hashable (put f v p) = hashable p"
  "hashable (put ''_version'' v p) = hashable p"
  by (simp_all add: hashable_update)

lemma excluded_keys [simp]:
  "''status'' \<in> set HASH_EXCLUDE_KEYS" "''approved_at'' \<in> set HASH_EXCLUDE_KEYS" "''approved_by'' \<in> set HASH_EXCLUDE_KEYS"
  "''content_hash'' \<in> set HASH_EXCLUDE_KEYS" "''modified_at'' \<in> set HASH_EXCLUDE_KEYS"
  by (simp_all add: HASH_EXCLUDE_KEYS_def)

lemma gget_put [simp]: "gget (put f v p) g = (if f = g then Some v else gget p g)"
  by (simp add: gget_def update_conv')

lemma put_not_Nil [simp]: "put f v p \<noteq> []"
  by (cases p) auto

text \<open>The digest a row carries is that of its payload, in the column and in the payload.\<close>

definition verified :: "((gkey \<times> gval) list \<Rightarrow> string) \<Rightarrow> inv_row \<Rightarrow> bool" where
  "verified digest r \<longleftrightarrow>
     iv_hash r = GStr (compute_content_hash digest (iv_payload r)) \<and> gget (iv_payload r) ''content_hash'' = Some (iv_hash r)"

definition inv_ok :: "((gkey \<times> gval) list \<Rightarrow> string) \<Rightarrow> inv_store \<Rightarrow> bool" where
  "inv_ok digest s \<longleftrightarrow>
     (\<forall>k. distinct (map (\<lambda>r. (iv_case r, iv_item r)) (rows_of k s)) \<and>
          (\<forall>r \<in> set (rows_of k s). upper (iv_status r) = ''APPROVED'' \<longrightarrow> verified digest r))"

lemma inv_okD:
  assumes "inv_ok digest s" "r \<in> set (rows_of k s)" "r' \<in> set (rows_of k s)" "iv_case r = iv_case r'" "iv_item r = iv_item r'"
  shows "r = r'"
proof -
  have "inj_on (\<lambda>r. (iv_case r, iv_item r)) (set (rows_of k s))" using assms(1) by (simp add: inv_ok_def distinct_map)
  then show ?thesis using assms(2-) by (auto dest: inj_onD)
qed

lemma find_row_Some: "find_row rows cid item = Some r \<Longrightarrow> r \<in> set rows \<and> at_key cid item r"
  by (auto simp: find_row_def find_Some_iff)

lemma find_row_None: "find_row rows cid item = None \<longleftrightarrow> (cid, item) \<notin> set (map (\<lambda>r. (iv_case r, iv_item r)) rows)"
  by (auto simp: find_row_def find_None_iff at_key_def)

lemma find_kind_Some: "find_kind s cid item = Some (k, r) \<Longrightarrow> r \<in> set (rows_of k s) \<and> at_key cid item r"
  by (auto simp: find_kind_def kind_rows_def dest: find_row_Some split: if_splits)

text \<open>How a write by an agent and an accepted decision change a row.\<close>

lemma new_row_fields [simp]:
  "iv_case (new_row tick k cid item status p value type created) = cid" "iv_item (new_row tick k cid item status p value type created) = item"
  "iv_status (new_row tick k cid item status p value type created) = status"
  by (simp_all add: new_row_def)

lemma overwritten_fields [simp]:
  "iv_case (overwritten tick k status p value type created r) = iv_case r" "iv_item (overwritten tick k status p value type created r) = iv_item r"
  "iv_status (overwritten tick k status p value type created r) = status"
  "iv_version (overwritten tick k status p value type created r) = iv_version r + 1"
  by (simp_all add: overwritten_def)

lemma reviewed_row_fields [simp]:
  "iv_case (reviewed_row rv p status hash value type r) = iv_case r" "iv_item (reviewed_row rv p status hash value type r) = iv_item r"
  "iv_status (reviewed_row rv p status hash value type r) = status" "iv_version (reviewed_row rv p status hash value type r) = iv_version r + 1"
  "iv_hash (reviewed_row rv p status hash value type r) = hash" "iv_payload (reviewed_row rv p status hash value type r) = p"
  "iv_reauth (reviewed_row rv p status hash value type r) = rv_reauth rv"
  by (simp_all add: reviewed_row_def)

lemma agent_status_open: "upper (agent_status shown p) \<notin> set HUMAN_LOCKED_STATUSES"
proof -
  have "upper ''DRAFT'' = ''DRAFT''" by (simp add: upper_def upper_char_def in_range_def)
  then show ?thesis by (simp add: agent_status_def Let_def HUMAN_LOCKED_STATUSES_def)
qed

section \<open>Steps\<close>

text \<open>The decision an action stands for: the status it gives and, for an approval or an edit, the digest.\<close>

definition decided :: "((gkey \<times> gval) list \<Rightarrow> string) \<Rightarrow> review_action \<Rightarrow> inv_row \<Rightarrow> (gkey \<times> gval) list \<Rightarrow> string \<Rightarrow> gval \<Rightarrow> bool" where
  "decided digest act r p status hash \<longleftrightarrow>
     lower (ra_action act) = ''reject'' \<and> status = ''REJECTED'' \<or>
     (lower (ra_action act) = ''approve'' \<and> status = ''APPROVED'' \<or> lower (ra_action act) = ''edit'' \<and> status = iv_status r) \<and>
     hash = GStr (compute_content_hash digest p) \<and> gget p ''content_hash'' = Some hash"

lemma write_review_shape:
  assumes "write_review rv k cid item p status hash observed s = Inr s'"
  shows "\<exists>value type. s' = set_rows k (map (\<lambda>x. if at_key cid item x \<and> iv_version x = observed
      then reviewed_row rv p status hash value type x else x) (rows_of k s)) s"
  using assms unfolding write_review_def Let_def by (auto split: if_splits)

lemma payload_digests:
  "gget (approved_payload digest examiner now p) ''content_hash'' = Some (GStr (compute_content_hash digest (approved_payload digest examiner now p)))"
  "gget (edited_payload digest now p) ''content_hash'' = Some (GStr (compute_content_hash digest (edited_payload digest now p)))"
  by (simp_all add: approved_payload_def edited_payload_def compute_content_hash_def)

definition written :: "((gkey \<times> gval) list \<Rightarrow> string) \<Rightarrow> reviewer \<Rightarrow> string \<Rightarrow> review_action \<Rightarrow> inv_kind \<Rightarrow> inv_row \<Rightarrow> inv_store \<Rightarrow> inv_store \<Rightarrow> bool" where
  "written digest rv cid act k r s s' \<longleftrightarrow> (\<exists>p status hash value type. decided digest act r p status hash \<and>
     s' = set_rows k (map (\<lambda>x. if at_key cid (ra_item act) x \<and> iv_version x = iv_version r
       then reviewed_row rv p status hash value type x else x) (rows_of k s)) s)"

lemma writtenI:
  "write_review rv k cid (ra_item act) p status hash (iv_version r) s = Inr s' \<Longrightarrow> decided digest act r p status hash \<Longrightarrow>
   written digest rv cid act k r s s'"
  unfolding written_def using write_review_shape by blast

lemma decide_shape:
  assumes "decide digest rv cid act k r p (s, t) = Inr (s', t')"
  shows "s' = s \<or> written digest rv cid act k r s s'"
proof -
  consider (approve) "lower (ra_action act) = ''approve''" | (reject) "lower (ra_action act) = ''reject''"
    | (edit) "lower (ra_action act) = ''edit''" "ra_mods act \<noteq> []"
    | (other) "lower (ra_action act) \<noteq> ''approve''" "lower (ra_action act) \<noteq> ''reject''" "lower (ra_action act) = ''edit'' \<Longrightarrow> ra_mods act = []"
    by blast
  then show ?thesis
  proof cases
    case approve
    with assms have "write_review rv k cid (ra_item act) (approved_payload digest (rv_examiner rv) (rv_now rv) p) ''APPROVED''
        (field (approved_payload digest (rv_examiner rv) (rv_now rv) p) ''content_hash'') (iv_version r) s = Inr s'"
      by (simp add: decide_def Let_def)
    then show ?thesis by (intro disjI2, elim writtenI) (simp add: decided_def approve payload_digests or_null_def)
  next
    case reject
    with assms have "write_review rv k cid (ra_item act) (rejected_payload (rv_examiner rv) (rv_now rv) (ra_reason act) p) ''REJECTED''
        (field (rejected_payload (rv_examiner rv) (rv_now rv) (ra_reason act) p) ''content_hash'') (iv_version r) s = Inr s'"
      by (simp add: decide_def Let_def)
    then show ?thesis by (intro disjI2, elim writtenI) (simp add: decided_def reject)
  next
    case edit
    with assms have "write_review rv k cid (ra_item act) (edited_payload digest (rv_now rv) p) (iv_status r)
        (field (edited_payload digest (rv_now rv) p) ''content_hash'') (iv_version r) s = Inr s'"
      by (simp add: decide_def Let_def)
    then show ?thesis by (intro disjI2, elim writtenI) (simp add: decided_def edit payload_digests or_null_def)
  next
    case other
    with assms have "s' = s" by (auto simp: decide_def Let_def split: if_splits)
    then show ?thesis by (rule disjI1)
  qed
qed

lemma review_one_shape:
  assumes "review_one fv digest rv cid act (s, t) = Inr (s', t')"
  shows "s' = s \<or> (\<exists>k r. find_kind s cid (ra_item act) = Some (k, r) \<and> written digest rv cid act k r s s')"
proof (cases "find_kind s cid (ra_item act)")
  case None
  with assms show ?thesis by (simp add: review_one_def)
next
  case (Some kr)
  obtain k r where kr: "kr = (k, r)" by force
  have "s' = s \<or> (\<exists>p. decide digest rv cid act k r p (s, t) = Inr (s', t'))"
    using assms Some kr by (auto simp: review_one_def Let_def split: if_splits option.splits)
  then show ?thesis unfolding Some kr using decide_shape by blast
qed

text \<open>A row of the new tables stands for one of the old or is a first version; it is the same or has a later version.\<close>

definition same_key :: "inv_row \<Rightarrow> inv_row \<Rightarrow> bool" where
  "same_key r r' \<longleftrightarrow> iv_case r = iv_case r' \<and> iv_item r = iv_item r'"

definition advances :: "inv_store \<Rightarrow> inv_store \<Rightarrow> bool" where
  "advances s s' \<longleftrightarrow> (\<forall>k. \<forall>r \<in> set (rows_of k s). \<exists>r' \<in> set (rows_of k s'). same_key r r' \<and> (r' = r \<or> iv_version r < iv_version r'))"

lemma advances_refl [simp]: "advances s s"
  by (auto simp: advances_def same_key_def)

definition later :: "inv_row \<Rightarrow> inv_row \<Rightarrow> bool" where
  "later r r' \<longleftrightarrow> same_key r r' \<and> (r' = r \<or> iv_version r < iv_version r')"

lemma later_trans: "later r r' \<Longrightarrow> later r' r'' \<Longrightarrow> later r r''"
  by (auto simp: later_def same_key_def)

lemma advances_trans: "advances s s' \<Longrightarrow> advances s' s'' \<Longrightarrow> advances s s''"
  unfolding advances_def later_def [symmetric] by (meson later_trans)

lemma advances_map:
  assumes "\<And>r. r \<in> set (rows_of k s) \<Longrightarrow> same_key r (f r) \<and> (f r = r \<or> iv_version r < iv_version (f r))"
  shows "advances s (set_rows k (map f (rows_of k s)) s)"
  unfolding advances_def
proof (intro allI ballI)
  fix k' r assume r: "r \<in> set (rows_of k' s)"
  show "\<exists>r' \<in> set (rows_of k' (set_rows k (map f (rows_of k s)) s)). same_key r r' \<and> (r' = r \<or> iv_version r < iv_version r')"
  proof (cases "k' = k")
    case True
    with r have "f r \<in> set (rows_of k' (set_rows k (map f (rows_of k s)) s))" "r \<in> set (rows_of k s)" by simp_all
    then show ?thesis using assms by blast
  next
    case False
    with r show ?thesis by (auto simp: same_key_def)
  qed
qed

lemma advances_snoc: "advances s (set_rows k (rows_of k s @ [r]) s)"
  by (auto simp: advances_def same_key_def)

lemma written_advances: "written digest rv cid act k r s s' \<Longrightarrow> advances s s'"
  by (auto simp: written_def same_key_def intro!: advances_map)

lemma inv_ok_map:
  assumes "inv_ok digest s" "\<And>r. r \<in> set (rows_of k s) \<Longrightarrow> same_key r (f r)"
    "\<And>r. r \<in> set (rows_of k s) \<Longrightarrow> f r \<noteq> r \<Longrightarrow> upper (iv_status (f r)) = ''APPROVED'' \<Longrightarrow> verified digest (f r)"
  shows "inv_ok digest (set_rows k (map f (rows_of k s)) s)"
proof -
  have "map (\<lambda>r. (iv_case r, iv_item r)) (map f (rows_of k s)) = map (\<lambda>r. (iv_case r, iv_item r)) (rows_of k s)"
    using assms(2) by (auto simp: same_key_def)
  moreover have "verified digest (f r)" if "r \<in> set (rows_of k s)" "upper (iv_status (f r)) = ''APPROVED''" for r
    using assms(1,3) that by (cases "f r = r") (auto simp: inv_ok_def)
  ultimately show ?thesis using assms(1) unfolding inv_ok_def by (simp del: map_map)
qed

lemma inv_ok_snoc:
  "inv_ok digest s \<Longrightarrow> find_row (rows_of k s) (iv_case r) (iv_item r) = None \<Longrightarrow> upper (iv_status r) \<noteq> ''APPROVED'' \<Longrightarrow>
   inv_ok digest (set_rows k (rows_of k s @ [r]) s)"
  by (auto simp: inv_ok_def find_row_None)

lemma upper_locked: "upper ''REJECTED'' = ''REJECTED''" "upper ''APPROVED'' = ''APPROVED''"
  by (simp_all add: upper_def upper_char_def in_range_def)

lemma written_ok:
  assumes "inv_ok digest s" "written digest rv cid act k r s s'"
  shows "inv_ok digest s'"
proof -
  from assms(2) obtain p status hash v ty where d: "decided digest act r p status hash" and
    s': "s' = set_rows k (map (\<lambda>x. if at_key cid (ra_item act) x \<and> iv_version x = iv_version r
       then reviewed_row rv p status hash v ty x else x) (rows_of k s)) s"
    unfolding written_def by blast
  show ?thesis unfolding s'
  proof (rule inv_ok_map [OF assms(1)], goal_cases)
    case (1 x)
    then show ?case by (simp add: same_key_def)
  next
    case (2 x)
    with d show ?case by (auto simp: verified_def decided_def upper_locked split: if_splits)
  qed
qed

lemma agent_upsert_cases [consumes 1, case_names same add overwrite]:
  assumes "fst (agent_upsert shown digest tick k cid item p s) = s'"
  obtains "s' = s"
  | st q v ty c where "find_row (rows_of k s) cid item = None" "upper st \<notin> set HUMAN_LOCKED_STATUSES"
      "s' = set_rows k (rows_of k s @ [new_row tick k cid item st q v ty c]) s"
  | r st q v ty c where "find_row (rows_of k s) cid item = Some r" "\<not> is_human_locked (iv_status r)" "upper st \<notin> set HUMAN_LOCKED_STATUSES"
      "s' = set_rows k (replace_row cid item (overwritten tick k st q v ty c) (rows_of k s)) s"
proof -
  let ?q = "agent_payload shown digest p" and ?st = "agent_status shown (filter (\<lambda>(k, _). \<not> internal_key k) p)"
  let ?v = "if k = IocKind then field ?q ''value'' else GNull"
    and ?ty = "if k = IocKind then or_else (gget ?q ''type'') (field ?q ''ioc_type'') else GNull"
    and ?c = "or_else (gget ?q ''created_by'') (field ?q ''examiner'')"
  show thesis
  proof (cases "find_row (rows_of k s) cid item")
    case None
    then have "s' = s \<or> s' = set_rows k (rows_of k s @ [new_row tick k cid item ?st ?q ?v ?ty ?c]) s"
      using assms by (simp add: agent_upsert_def Let_def split del: if_split split: if_split_asm)
    then show thesis using that(1) that(2) [OF None agent_status_open] by blast
  next
    case (Some r)
    then have "s' = s \<or> \<not> is_human_locked (iv_status r) \<and> s' = set_rows k (replace_row cid item (overwritten tick k ?st ?q ?v ?ty ?c) (rows_of k s)) s"
      using assms by (simp add: agent_upsert_def Let_def split del: if_split split: if_split_asm)
    then show thesis using that(1) that(3) [OF Some _ agent_status_open] by blast
  qed
qed

lemma not_locked_not_approved: "upper st \<notin> set HUMAN_LOCKED_STATUSES \<Longrightarrow> upper st \<noteq> ''APPROVED''"
  by (auto simp: HUMAN_LOCKED_STATUSES_def)

lemma agent_upsert_ok:
  assumes "inv_ok digest s" "fst (agent_upsert shown digest tick k cid item p s) = s'"
  shows "inv_ok digest s' \<and> advances s s'"
  using assms(2)
proof (cases rule: agent_upsert_cases)
  case same
  with assms(1) show ?thesis by simp
next
  case (add st q v ty c)
  with assms(1) show ?thesis by (simp add: advances_snoc inv_ok_snoc not_locked_not_approved)
next
  case (overwrite r st q v ty c)
  show ?thesis unfolding overwrite(4) replace_row_def
  proof
    show "inv_ok digest (set_rows k (map (\<lambda>r. if at_key cid item r then overwritten tick k st q v ty c r else r) (rows_of k s)) s)"
      by (rule inv_ok_map [OF assms(1)]) (auto simp: same_key_def not_locked_not_approved [OF overwrite(3)] split: if_splits)
    show "advances s (set_rows k (map (\<lambda>r. if at_key cid item r then overwritten tick k st q v ty c r else r) (rows_of k s)) s)"
      by (rule advances_map) (simp add: same_key_def)
  qed
qed

lemma review_all_ok:
  "review_all fv digest rv cid acts (s, t) = Inr (s', t') \<Longrightarrow> inv_ok digest s \<Longrightarrow> inv_ok digest s' \<and> advances s s'"
proof (induction acts arbitrary: s t)
  case (Cons act acts)
  then obtain s1 t1 where one: "review_one fv digest rv cid act (s, t) = Inr (s1, t1)" and rest: "review_all fv digest rv cid acts (s1, t1) = Inr (s', t')"
    by auto
  have "inv_ok digest s1 \<and> advances s s1"
    using review_one_shape [OF one] Cons.prems(2) written_ok written_advances by auto
  with Cons.IH [OF rest] show ?case using advances_trans by blast
qed simp

lemma upsert_todo_rows [simp]: "rows_of k (fst (upsert_todo shown tick cid todo p s)) = rows_of k s"
  by (auto simp: upsert_todo_def Let_def split: option.split)

lemma inv_call_ok:
  assumes "inv_ok digest s"
  shows "inv_ok digest (fst (inv_call shown fv digest op s)) \<and> advances s (fst (inv_call shown fv digest op s))"
proof (cases op)
  case (AgentWrites k cid item p tick)
  with agent_upsert_ok [OF assms refl] show ?thesis by simp
next
  case (TodoWrites cid todo p tick)
  then have "rows_of k (fst (inv_call shown fv digest op s)) = rows_of k s" for k by simp
  with assms show ?thesis by (auto simp: inv_ok_def advances_def same_key_def)
next
  case (Reviews rv cid acts)
  show ?thesis
  proof (cases "review_all fv digest rv cid acts (s, \<lparr>rt_approved = 0, rt_rejected = 0, rt_edited = 0, rt_skipped = []\<rparr>)")
    case (Inl e)
    with Reviews assms show ?thesis by (simp add: apply_review_def)
  next
    case (Inr st)
    obtain s' t' where st: "st = (s', t')" by force
    from review_all_ok [OF Inr [unfolded st] assms] Inr st Reviews show ?thesis by (simp add: apply_review_def)
  qed
qed

interpretation inv_tables: guarded_object "inv_call shown fv digest" "\<lambda>_ _. True" "inv_ok digest"
  by unfold_locales (simp add: inv_call_ok)

lemma inv_ok_empty: "inv_ok digest empty_inv_store"
proof -
  have "rows_of k empty_inv_store = []" for k by (cases k) (simp_all add: empty_inv_store_def)
  then show ?thesis by (simp add: inv_ok_def)
qed

lemma inv_ok_run: "inv_ok digest (run_state (inv_call shown fv digest) ops empty_inv_store)"
  by (rule inv_tables.run_inv [OF inv_ok_empty always_enabled])

lemma advances_run: "inv_ok digest s \<Longrightarrow> advances s (run_state (inv_call shown fv digest) ops s)"
proof (induction ops arbitrary: s)
  case (Cons op ops)
  from inv_call_ok [OF Cons.prems] Cons.IH show ?case using advances_trans by fastforce
qed simp

section \<open>What is promised\<close>

text \<open>C9. What is reported verifies.  Whatever agents and examiners have written since the tables were empty, the digest that a reported finding,
  event or indicator carries is the digest of what is reported.\<close>

theorem reported_items_verify:
  "list_all (\<lambda>item. gget item ''content_hash'' = Some (GStr (compute_content_hash digest item)))
     (report_inputs cid (run_state (inv_call shown fv digest) ops empty_inv_store) k)"
proof -
  have "gget (reported_payload r) ''content_hash'' = Some (GStr (compute_content_hash digest (reported_payload r)))"
    if "verified digest r" for r
    using that by (simp add: reported_payload_def verified_def compute_content_hash_def Let_def)
  then show ?thesis using inv_ok_run unfolding report_inputs_def inv_ok_def by (auto simp: list_all_iff)
qed


text \<open>How a batch of decisions touches the rows of a table, one by one.\<close>

definition decides :: "review_action \<Rightarrow> string \<Rightarrow> bool" where
  "decides a status \<longleftrightarrow> (lower (ra_action a), status) \<in> {(''approve'', ''APPROVED''), (''reject'', ''REJECTED'')}"

definition touched :: "reviewer \<Rightarrow> string \<Rightarrow> review_action list \<Rightarrow> inv_row \<Rightarrow> inv_row \<Rightarrow> bool" where
  "touched rv cid acts r r' \<longleftrightarrow> same_key r r' \<and>
     (r' = r \<or> iv_case r' = cid \<and> iv_item r' \<in> ra_item ` set acts \<and> iv_reauth r' = rv_reauth rv \<and>
       (iv_status r' = iv_status r \<or> (\<exists>a \<in> set acts. ra_item a = iv_item r' \<and> decides a (iv_status r'))))"

lemma touched_refl [simp]: "touched rv cid acts r r"
  by (simp add: touched_def same_key_def)

definition settled :: "review_action list \<Rightarrow> inv_row \<Rightarrow> bool" where
  "settled acts r \<longleftrightarrow> (\<exists>a \<in> set acts. ra_item a = iv_item r \<and> decides a (iv_status r))"

lemma touched_iff:
  "touched rv cid acts r r' \<longleftrightarrow> same_key r r' \<and>
     (r' = r \<or> iv_case r' = cid \<and> iv_item r' \<in> ra_item ` set acts \<and> iv_reauth r' = rv_reauth rv \<and> (iv_status r' = iv_status r \<or> settled acts r'))"
  by (simp add: touched_def settled_def)

lemma touched_Cons:
  assumes "touched rv cid [a] r r'" "touched rv cid acts r' r''"
  shows "touched rv cid (a # acts) r r''"
proof -
  have keys: "same_key r r'" "same_key r' r''" "same_key r r''" using assms by (auto simp: touched_def same_key_def)
  have more: "settled (a # acts) x" if "settled acts x \<or> settled [a] x" for x using that by (auto simp: settled_def)
  have settled_eq: "settled bs x \<longleftrightarrow> settled bs y" if "iv_item x = iv_item y" "iv_status x = iv_status y" for bs x y
    using that by (simp add: settled_def)
  show ?thesis
  proof (cases "r'' = r'")
    case True
    with assms(1) more [of r'] keys show ?thesis unfolding touched_iff by auto
  next
    case False
    with assms(2) have b: "iv_case r'' = cid" "iv_item r'' \<in> ra_item ` set acts" "iv_reauth r'' = rv_reauth rv"
        "iv_status r'' = iv_status r' \<or> settled acts r''" unfolding touched_iff by blast+
    have "iv_status r'' = iv_status r \<or> settled (a # acts) r''"
    proof (cases "settled acts r''")
      case False
      with b(4) have st: "iv_status r'' = iv_status r'" by blast
      from assms(1) have "r' = r \<or> iv_status r' = iv_status r \<or> settled [a] r'" unfolding touched_iff by blast
      with st more [of r''] settled_eq [of r' r''] keys(2) show ?thesis by (auto simp: same_key_def)
    qed (use more in blast)
    with b keys(3) show ?thesis unfolding touched_iff by simp
  qed
qed

lemma written_touches:
  assumes "written digest rv cid act k r s s'" "find_kind s cid (ra_item act) = Some (k, r)" "inv_ok digest s"
  shows "list_all2 (touched rv cid [act]) (rows_of k' s) (rows_of k' s')"
proof (cases "k' = k")
  case False
  with assms(1) show ?thesis by (auto simp: written_def list_all2_same)
next
  case True
  from assms(1) obtain p status hash v ty where d: "decided digest act r p status hash" and
    s': "s' = set_rows k (map (\<lambda>x. if at_key cid (ra_item act) x \<and> iv_version x = iv_version r
       then reviewed_row rv p status hash v ty x else x) (rows_of k s)) s"
    unfolding written_def by blast
  have r: "r \<in> set (rows_of k s)" "at_key cid (ra_item act) r" using find_kind_Some [OF assms(2)] by simp_all
  have "touched rv cid [act] x (reviewed_row rv p status hash v ty x)" if "x \<in> set (rows_of k s)" "at_key cid (ra_item act) x" for x
  proof -
    have "x = r" using inv_okD [OF assms(3) that(1) r(1)] that(2) r(2) by (simp add: at_key_def)
    with d that(2) show ?thesis by (auto simp: touched_def same_key_def at_key_def decided_def decides_def)
  qed
  then show ?thesis unfolding s' True by (simp add: list_all2_map2 list_all2_same)
qed

lemma review_all_touches:
  "review_all fv digest rv cid acts (s, t) = Inr (s', t') \<Longrightarrow> inv_ok digest s \<Longrightarrow> list_all2 (touched rv cid acts) (rows_of k s) (rows_of k s')"
proof (induction acts arbitrary: s t)
  case Nil
  then show ?case by (simp add: list_all2_same)
next
  case (Cons act acts)
  then obtain s1 t1 where one: "review_one fv digest rv cid act (s, t) = Inr (s1, t1)" and rest: "review_all fv digest rv cid acts (s1, t1) = Inr (s', t')"
    by auto
  have first: "inv_ok digest s1 \<and> list_all2 (touched rv cid [act]) (rows_of k s) (rows_of k s1)"
    using review_one_shape [OF one] Cons.prems(2) written_ok written_touches by (auto simp: list_all2_same)
  show ?case using touched_Cons conjunct2 [OF first] Cons.IH [OF rest conjunct1 [OF first]] by (rule list_all2_trans)
qed

fun reviewed :: "inv_op \<Rightarrow> inv_row \<Rightarrow> bool" where
  "reviewed (Reviews rv cid acts) r \<longleftrightarrow> iv_case r = cid \<and> iv_item r \<in> ra_item ` set acts \<and> iv_reauth r = rv_reauth rv"
| "reviewed op r \<longleftrightarrow> False"

fun decided_in :: "inv_op \<Rightarrow> inv_row \<Rightarrow> bool" where
  "decided_in (Reviews rv cid acts) r \<longleftrightarrow> (\<exists>a \<in> set acts. ra_item a = iv_item r \<and> decides a (iv_status r))"
| "decided_in op r \<longleftrightarrow> False"

text \<open>C8. Decisions are made by examiners.  A call leaves a row that was approved or rejected as it is, unless it is a review that names the
  item, and then the row records the sign-in of that review; and a row is approved or rejected after a call only if it
  was before or if an action of the review approved or rejected it.\<close>

theorem decisions_are_made_by_examiners:
  assumes "s = run_state (inv_call shown fv digest) ops empty_inv_store" "s' = fst (inv_call shown fv digest op s)"
  shows "(\<forall>r \<in> set (rows_of k s). is_human_locked (iv_status r) \<longrightarrow> (\<exists>r' \<in> set (rows_of k s'). same_key r r' \<and> (r' = r \<or> reviewed op r'))) \<and>
    (\<forall>r' \<in> set (rows_of k s'). upper (iv_status r') \<in> set HUMAN_LOCKED_STATUSES \<longrightarrow>
      (\<exists>r \<in> set (rows_of k s). same_key r r' \<and> iv_status r' = iv_status r) \<or> reviewed op r' \<and> decided_in op r')"
proof (cases op)
  case (AgentWrites k' cid item p tick)
  have ok: "inv_ok digest s" using assms(1) inv_ok_run by simp
  have "s' = fst (agent_upsert shown digest tick k' cid item p s)" using assms(2) AgentWrites by simp
  from this [symmetric] show ?thesis
  proof (cases rule: agent_upsert_cases)
    case same
    then show ?thesis by (auto simp: same_key_def)
  next
    case (add st q v ty c)
    then show ?thesis by (auto simp: same_key_def)
  next
    case (overwrite r st q v ty c)
    have "\<not> at_key cid item x" if "x \<in> set (rows_of k' s)" "is_human_locked (iv_status x)" for x
      using inv_okD [OF ok that(1), of r] find_row_Some [OF overwrite(1)] overwrite(2) that by (auto simp: at_key_def)
    then show ?thesis unfolding overwrite(4) replace_row_def using overwrite(3) by (auto simp: same_key_def)
  qed
next
  case (TodoWrites cid todo p tick)
  then have "rows_of k s' = rows_of k s" using assms(2) by simp
  then show ?thesis by (auto simp: same_key_def)
next
  case (Reviews rv cid acts)
  have ok: "inv_ok digest s" using assms(1) inv_ok_run by simp
  have all: "list_all2 (touched rv cid acts) (rows_of k s) (rows_of k s')"
  proof (cases "review_all fv digest rv cid acts (s, \<lparr>rt_approved = 0, rt_rejected = 0, rt_edited = 0, rt_skipped = []\<rparr>)")
    case (Inl e)
    then show ?thesis using assms(2) Reviews by (simp add: apply_review_def list_all2_same)
  next
    case (Inr st)
    obtain s1 t where st: "st = (s1, t)" by force
    have "s' = s1" using assms(2) Reviews Inr st by (simp add: apply_review_def)
    then show ?thesis using review_all_touches [OF Inr [unfolded st] ok] by simp
  qed
  have fwd: "\<exists>r' \<in> set (rows_of k s'). touched rv cid acts r r'" if "r \<in> set (rows_of k s)" for r
    using all that by (auto simp: list_all2_conv_all_nth in_set_conv_nth) (metis nth_mem)
  have bwd: "\<exists>r \<in> set (rows_of k s). touched rv cid acts r r'" if "r' \<in> set (rows_of k s')" for r'
    using all that by (auto simp: list_all2_conv_all_nth in_set_conv_nth) (metis nth_mem)
  show ?thesis unfolding Reviews reviewed.simps decided_in.simps
    using fwd bwd unfolding touched_def by (intro conjI ballI impI) blast+
qed

section \<open>Observations\<close>

text \<open>An edit that only has a note is counted as nothing, and the note is dropped.\<close>

lemma note_alone_is_lost:
  assumes "find_kind s cid (ra_item act) = Some (k, r)" "lower (ra_action act) = ''edit''" "ra_mods act = []"
    "add_note (rv_examiner rv) (rv_now rv) (ra_note act) (iv_payload r) = Inr p"
    "ra_version act = None" "ra_hash act = []"
  shows "review_one fv digest rv cid act (s, t) = Inr (s, t)"
  using assms by (simp add: review_one_def decide_def Let_def)

text \<open>A text in the place of the notes, which an agent may write, makes every review with a note on the item fail, with all its other actions.\<close>

lemma agent_note_field_blocks_review:
  assumes "find_kind s cid (ra_item act) = Some (k, r)" "gget (iv_payload r) ''examiner_notes'' = Some (GStr x)" "ra_note act \<noteq> []" "ra_mods act = []"
    "ra_version act = None" "ra_hash act = []"
  shows "apply_review fv digest rv cid (act # acts) s = (s, Inl BadPayload)"
  using assms by (simp add: apply_review_def review_one_def add_note_def Let_def)

text \<open>An examiner who edits an approved item is recorded as the one who approved it.\<close>

lemma editing_takes_over_approval:
  "gget (reported_payload (reviewed_row rv p ''APPROVED'' hash v ty r)) ''approved_by'' =
     Some (if rv_examiner rv = [] then or_null (gget p ''approved_by'') else GStr (rv_examiner rv))"
  if "gget p ''approved_by'' \<noteq> None"
  using that by (auto simp: reported_payload_def reviewed_row_def Let_def or_null_def)

text \<open>The status of an agent is compared without stripping it, and the lock strips it.\<close>

lemma padded_status_locks:
  "agent_status shown [(StrKey ''status'', GStr '' APPROVED'')] = '' APPROVED''" "is_human_locked '' APPROVED''"
  by (simp_all add: agent_status_def gget_def or_else_def HUMAN_LOCKED_STATUSES_def is_human_locked_def upper_def upper_char_def in_range_def
      strip_def strip_by_def isspace_def)

section \<open>An example\<close>

text \<open>An agent writes a finding, an examiner approves it, and the agent writes it again.\<close>

definition sample_digest :: "(gkey \<times> gval) list \<Rightarrow> string" where
  "sample_digest p = concat (map (\<lambda>(k, v). case v of GStr s \<Rightarrow> s | _ \<Rightarrow> []) p)"

definition sample_write :: "string \<Rightarrow> inv_op" where
  "sample_write title = AgentWrites FindingKind ''c1'' ''F-ana-001''
     [(StrKey ''title'', GStr title), (StrKey ''status'', GStr ''APPROVED''), (StrKey ''examiner'', GStr ''ana'')] 1"

definition sample_approval :: inv_op where
  "sample_approval = Reviews \<lparr>rv_examiner = ''ben'', rv_reauth = Some ''e7'', rv_now = ''noon'', rv_tick = 2\<rparr> ''c1''
     [\<lparr>ra_item = ''F-ana-001'', ra_action = ''approve'', ra_mods = [], ra_note = [], ra_reason = [], ra_hash = [], ra_version = Some 1\<rparr>]"

definition sample_inv :: "inv_op list \<Rightarrow> inv_store" where
  "sample_inv ops = run_state (inv_call (\<lambda>v. []) (\<lambda>t. None) sample_digest) ops empty_inv_store"

lemma sample_inv_run:
  "map iv_status (is_findings (sample_inv [sample_write ''a''])) = [''DRAFT'']"
  "map iv_status (is_findings (sample_inv [sample_write ''a'', sample_approval])) = [''APPROVED'']"
  "map iv_version (is_findings (sample_inv [sample_write ''a'', sample_approval])) = [2]"
  "map iv_version (is_findings (sample_inv [sample_write ''a'', sample_approval, sample_write ''b''])) = [2]"
  "map (\<lambda>p. gget p ''approved_by'') (report_inputs ''c1'' (sample_inv [sample_write ''a'', sample_approval]) FindingKind) = [Some (GStr ''ben'')]"
  by code_simp+


theorem decisions_are_made_by_examiners_witness:
  "reviewed sample_approval (hd (is_findings (sample_inv [sample_write ''a'', sample_approval]))) \<and>
   decided_in sample_approval (hd (is_findings (sample_inv [sample_write ''a'', sample_approval])))"
proof -
  let ?call = "inv_call (\<lambda>v. []) (\<lambda>t. None) sample_digest"
  let ?s = "run_state ?call [sample_write ''a''] empty_inv_store"
  let ?r = "hd (rows_of FindingKind (fst (?call sample_approval ?s)))"
  have f: "?r \<in> set (rows_of FindingKind (fst (?call sample_approval ?s)))" "upper (iv_status ?r) \<in> set HUMAN_LOCKED_STATUSES"
      "list_all (\<lambda>r. iv_status ?r \<noteq> iv_status r) (rows_of FindingKind ?s)"
    by code_simp+
  have "reviewed sample_approval ?r \<and> decided_in sample_approval ?r"
    using decisions_are_made_by_examiners [OF refl refl, THEN conjunct2, THEN bspec, OF f(1), THEN mp, OF f(2)] f(3)
    by (auto simp: list_all_iff)
  then show ?thesis by (simp add: sample_inv_def)
qed

end
