(* ===== verification/Ioc_Values.thy ===== *)
theory Ioc_Values
  imports Case_Metadata Py_Regex_Lang
begin

text \<open>
  Indicators of compromise as texts (\<open>sift_core/ioc_helpers.py\<close>): ranks of confidence, undoing the usual masking of addresses, the key under
  which two spellings are one indicator, and the recognition of the type.  The patterns are those of the source,
  matched from the beginning by \<open>re_match\<close>.
\<close>

section \<open>Patterns and texts\<close>

definition re_match :: "rx \<Rightarrow> string \<Rightarrow> bool" where
  "re_match r s \<longleftrightarrow> rx_match s r 0 no_groups \<noteq> []"

text \<open>\<open>r{m,n}\<close> and \<open>r{m,}\<close>.\<close>

fun at_most :: "nat \<Rightarrow> rx \<Rightarrow> rx" where
  "at_most 0 r = Eps"
| "at_most (Suc n) r = Opt (Cat r (at_most n r))"

definition times :: "nat \<Rightarrow> nat \<Rightarrow> rx \<Rightarrow> rx" where
  "times m n r = Cat (cats (replicate m r)) (at_most (n - m) r)"

definition times_or_more :: "nat \<Rightarrow> rx \<Rightarrow> rx" where
  "times_or_more m r = Cat (cats (replicate m r)) (Star r)"

definition ascii_letter :: "char \<Rightarrow> bool" where
  "ascii_letter c \<longleftrightarrow> in_range 65 90 c \<or> in_range 97 122 c"

definition ascii_alnum :: "char \<Rightarrow> bool" where
  "ascii_alnum c \<longleftrightarrow> ascii_letter c \<or> ascii_digit c"

definition hex_char :: "char \<Rightarrow> bool" where
  "hex_char c \<longleftrightarrow> ascii_digit c \<or> in_range 65 70 c \<or> in_range 97 102 c"

text \<open>\<open>s.replace(a, b)\<close> for a text \<open>a\<close> that is not empty; the number counts the characters of a match still to be skipped.\<close>

fun replace_from :: "string \<Rightarrow> string \<Rightarrow> nat \<Rightarrow> string \<Rightarrow> string" where
  "replace_from a b n [] = []"
| "replace_from a b (Suc n) (c # s) = replace_from a b n s"
| "replace_from a b 0 (c # s) =
     (if startswith (c # s) a then b @ replace_from a b (length a - 1) s else c # replace_from a b 0 s)"

definition replace_all :: "string \<Rightarrow> string \<Rightarrow> string \<Rightarrow> string" where
  "replace_all a b s = replace_from a b 0 s"

definition rstrip_char :: "char \<Rightarrow> string \<Rightarrow> string" where
  "rstrip_char c s = rev (dropWhile (\<lambda>x. x = c) (rev s))"

abbreviation backslash :: char where "backslash \<equiv> CHR 0x5C"

section \<open>Confidence\<close>

definition CONF_RANKS :: "(string \<times> nat) list" where
  "CONF_RANKS = [(''HIGH'', 0), (''MEDIUM'', 1), (''LOW'', 2)]"

definition normalize_confidence :: "string \<Rightarrow> string" where
  "normalize_confidence conf = (if upper conf = ''SPECULATIVE'' then ''LOW'' else upper conf)"

definition conf_rank :: "string \<Rightarrow> nat" where
  "conf_rank conf = (case map_of CONF_RANKS (normalize_confidence conf) of Some n \<Rightarrow> n | None \<Rightarrow> 99)"

section \<open>Spellings\<close>

definition MASKED :: rx where
  "MASKED = cats [Cls (\<lambda>c. c = CHR ''[''), Cls (\<lambda>c. \<not> is_word_char c), Cls (\<lambda>c. c = CHR '']'')]"

definition refang_ioc :: "string \<Rightarrow> string" where
  "refang_ioc value =
     (let v = replace_all ''hxxp'' ''http'' (replace_all ''[.]'' ''.'' value)
      in concat (map (\<lambda>(m, w). if m then [w ! 1] else w) (rx_pieces MASKED v)))"

definition HASH_TEXT :: rx where
  "HASH_TEXT = cats [LineStart, times 32 64 (Cls hex_char), LineEnd]"

definition normalize_ioc :: "string \<Rightarrow> string" where
  "normalize_ioc value =
     (let v = strip value in
      if re_match HASH_TEXT v then lower v
      else if CHR ''.'' \<in> set v \<and> \<not> str_isdigit (filter (\<lambda>c. c \<noteq> CHR ''.'') v) then rstrip_char (CHR ''.'') (lower v)
      else if backslash \<in> set v then lower v
      else v)"

section \<open>Types\<close>

definition URL_TEXT :: rx where
  "URL_TEXT = cats [LineStart, lit_ci ''http'', Opt (lit_ci ''s''), lit ''://'']"

definition EMAIL_TEXT :: rx where
  "EMAIL_TEXT = (let part = Plus (Cls (\<lambda>c. c \<noteq> CHR ''@'' \<and> \<not> isspace c)) in
     cats [LineStart, part, lit ''@'', part, lit ''.'', part, LineEnd])"

definition hash_of_length :: "nat \<Rightarrow> rx" where
  "hash_of_length n = cats [LineStart, times n n (Cls hex_char), LineEnd]"

definition PORT_TAIL :: rx where
  "PORT_TAIL = cats [Cls (\<lambda>c. c = CHR '':''), times 1 5 (Cls ascii_digit), LineEnd]"

definition PORT_OR_MASK_TAIL :: rx where
  "PORT_OR_MASK_TAIL = cats [Cls (\<lambda>c. c = CHR '':'' \<or> c = CHR ''/''), times 1 5 (Cls ascii_digit), LineEnd]"

definition OCTETS :: rx where
  "OCTETS = (let octet = times 1 3 (Cls ascii_digit) in
     cats [LineStart, octet, lit ''.'', octet, lit ''.'', octet, lit ''.'', octet, LineEnd])"

definition IPV6_TEXT :: rx where
  "IPV6_TEXT = cats [LineStart, times_or_more 6 (Cls (\<lambda>c. hex_char c \<or> c = CHR '':'')), LineEnd]"

definition REGISTRY_TEXT :: rx where
  "REGISTRY_TEXT = cats [LineStart, lit_ci ''HK'', alts [lit_ci ''EY_'', lit_ci ''LM'', lit_ci ''CU'', lit_ci ''CR'', lit_ci [CHR ''U'', backslash]]]"

definition ACCOUNT_TEXT :: rx where
  "ACCOUNT_TEXT = (let name = Plus (Cls (\<lambda>c. ascii_alnum c \<or> c \<in> {CHR ''.'', CHR ''_'', CHR ''-''})) in
     cats [LineStart, name, Cls (\<lambda>c. c = backslash), name, LineEnd])"

definition EXE_EXTS :: "string list" where
  "EXE_EXTS = [''.exe'', ''.sys'', ''.dll'', ''.bat'', ''.ps1'', ''.cmd'', ''.vbs'', ''.js'', ''.msi'', ''.scr'']"

definition DOMAIN_TEXT :: rx where
  "DOMAIN_TEXT = cats [LineStart, Cls ascii_alnum, Plus (cats [Star (Cls (\<lambda>c. ascii_alnum c \<or> c = CHR ''-'')), lit ''.'']),
     times_or_more 2 (Cls ascii_letter), LineEnd]"

definition FILE_TEXT :: rx where
  "FILE_TEXT = cats [LineStart, Plus (Cls (\<lambda>c. c \<noteq> CHR ''/'' \<and> c \<noteq> backslash)), lit ''.'', times 1 10 (Cls ascii_alnum), LineEnd]"

definition SERVICE_TEXT :: rx where
  "SERVICE_TEXT = cats [LineStart, Cls ascii_letter, times 2 29 (Cls ascii_alnum), LineEnd]"

definition ipv4_shaped :: "string \<Rightarrow> bool" where
  "ipv4_shaped v =
     (let stripped = rx_subst PORT_OR_MASK_TAIL [] v
      in re_match OCTETS stripped \<and> list_all (\<lambda>w. int_digits w \<le> 255) (split_char (CHR ''.'') stripped))"

definition detect_ioc_type :: "string \<Rightarrow> string \<times> string" where
  "detect_ioc_type value =
     (let v = strip value; l = lower v in
      if re_match URL_TEXT v then (''url'', ''network'')
      else if re_match EMAIL_TEXT v then (''email-addr'', ''network'')
      else if re_match (hash_of_length 64) v then (''file:hash:sha256'', ''host'')
      else if re_match (hash_of_length 40) v then (''file:hash:sha1'', ''host'')
      else if re_match (hash_of_length 32) v then (''file:hash:md5'', ''host'')
      else if ipv4_shaped v then (''ipv4-addr'', ''network'')
      else if re_match IPV6_TEXT v \<and> 2 \<le> length (filter (\<lambda>c. c = CHR '':'') v) then (''ipv6-addr'', ''network'')
      else if re_match REGISTRY_TEXT v then (''registry-key'', ''system'')
      else if startswith v ([backslash] @ ''Microsoft'' @ [backslash]) \<or> startswith v ([backslash] @ ''Windows'' @ [backslash])
        then (''scheduled-task'', ''system'')
      else if re_match ACCOUNT_TEXT v then (''user-account'', ''identity'')
      else if CHR ''.'' \<in> set v \<and> list_ex (endswith l) EXE_EXTS \<and> CHR ''/'' \<notin> set v \<and> backslash \<notin> set v then (''file:name'', ''host'')
      else if re_match DOMAIN_TEXT v then (''domain-name'', ''network'')
      else if contains l ''.exe '' \<or> contains l (''.exe'' @ [CHR 0x09]) then (''process:command-line'', ''system'')
      else if CHR ''/'' \<in> set v \<or> backslash \<in> set v then (''file:path'', ''host'')
      else if re_match FILE_TEXT v then (''file:name'', ''host'')
      else if re_match SERVICE_TEXT v \<and> (endswith l ''svc'' \<or> endswith l ''service'') then (''service-name'', ''system'')
      else (''unknown'', ''unknown''))"

text \<open>The stable fields of an indicator, in the order of the source, those without a value left out.\<close>

definition IOC_HASH_FIELDS :: "string list" where
  "IOC_HASH_FIELDS = [''value'', ''type'', ''category'', ''description'', ''tags'', ''mitre_techniques'']"

definition compute_ioc_hash :: "((gkey \<times> gval) list \<Rightarrow> string) \<Rightarrow> (gkey \<times> gval) list \<Rightarrow> string" where
  "compute_ioc_hash digest ioc =
     digest (map (\<lambda>f. (StrKey f, field ioc f)) (filter (\<lambda>f. field ioc f \<noteq> GNull) IOC_HASH_FIELDS))"

section \<open>Observations\<close>

text \<open>Samples of the recognition.\<close>

lemma detect_samples:
  "detect_ioc_type ''10.0.0.5:8443'' = (''ipv4-addr'', ''network'')"
  "detect_ioc_type ''evil.example.com'' = (''domain-name'', ''network'')"
  "detect_ioc_type ''svchost.exe'' = (''file:name'', ''host'')"
  "refang_ioc ''hxxp://evil[.]com[/]x'' = ''http://evil.com/x''"
  by code_simp+

text \<open>A time of day is an IPv6 address.\<close>

lemma time_is_ipv6: "detect_ioc_type ''12:30:45'' = (''ipv6-addr'', ''network'')"
  by code_simp

text \<open>The shortest IPv6 address is not one.\<close>

lemma loopback_is_unknown: "detect_ioc_type ''::1'' = (''unknown'', ''unknown'')"
  by code_simp

text \<open>Two spellings of an IPv6 address are two indicators.\<close>

lemma ipv6_case_kept: "normalize_ioc ''FE80::1'' \<noteq> normalize_ioc ''fe80::1''"
  by code_simp

text \<open>The type and the category belong together.\<close>

definition IOC_TYPES :: "(string \<times> string) list" where
  "IOC_TYPES =
     [(''url'', ''network''), (''email-addr'', ''network''), (''file:hash:sha256'', ''host''), (''file:hash:sha1'', ''host''),
      (''file:hash:md5'', ''host''), (''ipv4-addr'', ''network''), (''ipv6-addr'', ''network''), (''registry-key'', ''system''),
      (''scheduled-task'', ''system''), (''user-account'', ''identity''), (''file:name'', ''host''), (''domain-name'', ''network''),
      (''process:command-line'', ''system''), (''file:path'', ''host''), (''service-name'', ''system''), (''unknown'', ''unknown'')]"

lemma detected_type_known: "detect_ioc_type v \<in> set IOC_TYPES"
  unfolding detect_ioc_type_def Let_def by (simp add: IOC_TYPES_def)

lemma conf_rank_cases:
  "conf_rank c = 0 \<longleftrightarrow> upper c = ''HIGH''" "conf_rank c = 1 \<longleftrightarrow> upper c = ''MEDIUM''"
  "conf_rank ''HIGH'' = 0" "conf_rank ''MEDIUM'' = 1" "conf_rank ''LOW'' = 2"
  by (auto simp: conf_rank_def CONF_RANKS_def normalize_confidence_def upper_def upper_char_def in_range_def)

end
