(* ===== verification/Path_Resolution.thy ===== *)
theory Path_Resolution
  imports Path_Policy
begin

text \<open>
  When the resolution of a path ends.  \<open>Path.resolve()\<close> (\<open>real_path\<close> of \<open>Host\<close>) is a recursion with no measure of its own: a link may lead
  to a link, and a cycle of links never ends (the code sees a \<open>RuntimeError\<close>, here \<open>SymlinkLoop\<close>).

  \<^item> \<open>met links path rest q\<close>: the walk of the names \<open>rest\<close> from \<open>path\<close> comes to the link \<open>q\<close> by itself, not inside the target of another link.
  \<^item> \<open>leads links q q'\<close>: the walk of the target of \<open>q\<close> comes to \<open>q'\<close>.

  A walk ends exactly when no link it meets begins an endless chain (\<open>walk_ends_iff\<close>); with finitely many links that is, when none leads
  to a link that leads to itself.
\<close>

section \<open>The links a walk meets\<close>

text \<open>Where the target of a link starts, and its names.\<close>

fun target_start :: "comps \<Rightarrow> py_path \<Rightarrow> comps" where
  "target_start path (AbsPath q) = []"
| "target_start path (RelPath q) = path"

fun target_names :: "py_path \<Rightarrow> comps" where
  "target_names (AbsPath q) = q"
| "target_names (RelPath q) = q"

definition expand :: "(comps \<Rightarrow> string option) \<Rightarrow> comps \<Rightarrow> string \<Rightarrow> comps option" where
  "expand links path t = walk links (target_start path (parse_path t)) (target_names (parse_path t))"

inductive met :: "(comps \<Rightarrow> string option) \<Rightarrow> comps \<Rightarrow> comps \<Rightarrow> comps \<Rightarrow> bool" for links where
  met_here: "n \<noteq> ''..'' \<Longrightarrow> links (path @ [n]) \<noteq> None \<Longrightarrow> met links path (n # rest) (path @ [n])"
| met_up: "met links (butlast path) rest q \<Longrightarrow> met links path (''..'' # rest) q"
| met_on: "n \<noteq> ''..'' \<Longrightarrow> links (path @ [n]) = None \<Longrightarrow> met links (path @ [n]) rest q \<Longrightarrow> met links path (n # rest) q"
| met_after: "n \<noteq> ''..'' \<Longrightarrow> links (path @ [n]) = Some t \<Longrightarrow> expand links path t = Some p \<Longrightarrow> met links p rest q \<Longrightarrow>
    met links path (n # rest) q"

inductive_simps met_Nil [simp]: "met links path [] q"
inductive_simps met_Cons: "met links path (n # rest) q"

inductive leads :: "(comps \<Rightarrow> string option) \<Rightarrow> comps \<Rightarrow> comps \<Rightarrow> bool" for links where
  leads: "links (path @ [n]) = Some t \<Longrightarrow> met links (target_start path (parse_path t)) (target_names (parse_path t)) q \<Longrightarrow>
    leads links (path @ [n]) q"

inductive_simps leads_snoc: "leads links (path @ [n]) q"

section \<open>A walk, name by name\<close>

lemma walk_Nil [simp]: "walk links path [] = Some path"
  by (simp add: walk.simps)

lemma walk_up [simp]: "walk links path (''..'' # rest) = walk links (butlast path) rest"
  by (subst walk.simps) simp

lemma walk_on: "n \<noteq> ''..'' \<Longrightarrow> links (path @ [n]) = None \<Longrightarrow> walk links path (n # rest) = walk links (path @ [n]) rest"
  by (subst walk.simps) simp

lemma walk_link:
  "n \<noteq> ''..'' \<Longrightarrow> links (path @ [n]) = Some t \<Longrightarrow>
     walk links path (n # rest) = walk links (target_start path (parse_path t)) (target_names (parse_path t) @ rest)"
  by (subst walk.simps) (simp split: py_path.split)

text \<open>Induction over a walk that ends.\<close>

lemma walk_ended_induct [consumes 1, case_names Nil up on link]:
  assumes "walk links path rest = Some r"
    and "\<And>path. P path [] path"
    and "\<And>path rest r. walk links (butlast path) rest = Some r \<Longrightarrow> P (butlast path) rest r \<Longrightarrow> P path (''..'' # rest) r"
    and "\<And>path n rest r. n \<noteq> ''..'' \<Longrightarrow> links (path @ [n]) = None \<Longrightarrow> walk links (path @ [n]) rest = Some r \<Longrightarrow>
      P (path @ [n]) rest r \<Longrightarrow> P path (n # rest) r"
    and "\<And>path n t rest r. n \<noteq> ''..'' \<Longrightarrow> links (path @ [n]) = Some t \<Longrightarrow>
      walk links (target_start path (parse_path t)) (target_names (parse_path t) @ rest) = Some r \<Longrightarrow>
      P (target_start path (parse_path t)) (target_names (parse_path t) @ rest) r \<Longrightarrow> P path (n # rest) r"
  shows "P path rest r"
proof -
  have "walk links path rest = Some r \<and> (links = links \<longrightarrow> P path rest r)"
  proof (rule walk.raw_induct [where P = "\<lambda>l path rest r. walk l path rest = Some r \<and> (l = links \<longrightarrow> P path rest r)", OF _ assms(1)], goal_cases)
    case (1 go l path rest r)
    show ?case
    proof (cases rest)
      case Nil
      with 1 assms(2) show ?thesis by auto
    next
      case (Cons n rest')
      consider (up) "n = ''..''" | (on) "n \<noteq> ''..''" "l (path @ [n]) = None"
        | (link) t where "n \<noteq> ''..''" "l (path @ [n]) = Some t" by (cases "l (path @ [n])") auto
      then show ?thesis
      proof cases
        case up
        with 1 Cons assms(3) [of path rest' r] show ?thesis by auto
      next
        case on
        with 1 Cons assms(4) [of n path rest' r] show ?thesis by (auto simp: walk_on)
      next
        case link
        have "go l (target_start path (parse_path t)) (target_names (parse_path t) @ rest') = Some r"
          using 1(2) Cons link by (cases "parse_path t") auto
        with 1(1) [of l] have "walk l (target_start path (parse_path t)) (target_names (parse_path t) @ rest') = Some r \<and>
            (l = links \<longrightarrow> P (target_start path (parse_path t)) (target_names (parse_path t) @ rest') r)" by blast
        with Cons link assms(5) [of n path t rest' r] show ?thesis by (auto simp: walk_link)
      qed
    qed
  qed
  then show ?thesis by simp
qed

text \<open>A walk of two parts.\<close>

lemma walk_append: "walk links path rest = Some p \<Longrightarrow> walk links path (rest @ rs) = walk links p rs"
  by (induction rule: walk_ended_induct) (simp_all add: walk_on walk_link)

lemma walk_link_expanded:
  "n \<noteq> ''..'' \<Longrightarrow> links (path @ [n]) = Some t \<Longrightarrow> expand links path t = Some p \<Longrightarrow> walk links path (n # rest) = walk links p rest"
  by (simp add: walk_link expand_def walk_append)

lemma met_append: "met links path rest q \<Longrightarrow> met links path (rest @ rs) q"
  by (induction rule: met.induct) (auto intro: met.intros)

text \<open>The first part of a walk that ends, ends.\<close>

lemma walk_first: "walk links path rest = Some r \<Longrightarrow> rest = a @ b \<Longrightarrow> \<exists>p. walk links path a = Some p"
proof (induction arbitrary: a rule: walk_ended_induct)
  case (up path rest r)
  then show ?case by (cases a) auto
next
  case (on path n rest r)
  then show ?case by (cases a) (auto simp: walk_on)
next
  case (link path n t rest r)
  show ?case
  proof (cases a)
    case (Cons m a')
    with link.prems have "target_names (parse_path t) @ rest = (target_names (parse_path t) @ a') @ b" "m = n" by simp_all
    from link.IH [OF this(1)] this(2) Cons link.hyps show ?thesis by (simp add: walk_link)
  qed simp
qed simp

lemma met_later: "walk links path rest = Some p \<Longrightarrow> met links p rs q \<Longrightarrow> met links path (rest @ rs) q"
proof (induction rest arbitrary: path)
  case (Cons n rest)
  consider (up) "n = ''..''" | (on) "n \<noteq> ''..''" "links (path @ [n]) = None"
    | (link) t where "n \<noteq> ''..''" "links (path @ [n]) = Some t" by (cases "links (path @ [n])") auto
  then show ?case
  proof cases
    case link
    with Cons.prems obtain p1 where p1: "expand links path t = Some p1"
      using walk_first [OF _ refl] unfolding expand_def by (metis walk_link)
    with link Cons.prems have "met links p1 (rest @ rs) q" by (intro Cons.IH) (simp_all add: walk_link_expanded)
    from met_after [of n links path t p1, OF link p1 this] show ?thesis by simp
  next
    case up
    with Cons.prems Cons.IH [of "butlast path"] show ?thesis by (simp add: met_up)
  next
    case on
    with Cons.prems Cons.IH [of "path @ [n]"] show ?thesis by (simp add: walk_on met_on)
  qed
qed simp

section \<open>A walk ends when the chains of links do\<close>

abbreviation ends :: "(comps \<Rightarrow> string option) \<Rightarrow> comps \<Rightarrow> bool" where
  "ends links \<equiv> Wellfounded.accp (\<lambda>q' q. leads links q q')"

lemma ended_walk: "walk links path rest = Some r \<Longrightarrow> met links path rest q \<Longrightarrow> ends links q"
proof (induction arbitrary: q rule: walk_ended_induct)
  case (link path n t rest r)
  let ?s = "target_start path (parse_path t)" and ?ns = "target_names (parse_path t)"
  from link.prems link.hyps(1,2) consider "q = path @ [n]" | p where "expand links path t = Some p" "met links p rest q"
    by (auto simp: met_Cons)
  then show ?case
  proof cases
    case 1
    have "ends links q'" if "leads links q q'" for q'
      using that 1 link.hyps(2) by (intro link.IH met_append) (simp add: leads_snoc)
    then show ?thesis by (rule accpI)
  next
    case 2
    with met_later [of links ?s ?ns p rest q] link.IH show ?thesis by (simp add: expand_def)
  qed
qed (auto simp: met_Cons)

lemma walk_over_ended:
  assumes "\<And>path' n t. met links path rest (path' @ [n]) \<Longrightarrow> links (path' @ [n]) = Some t \<Longrightarrow> expand links path' t \<noteq> None"
  shows "\<exists>p. walk links path rest = Some p"
  using assms
proof (induction rest arbitrary: path)
  case (Cons n rest)
  consider (up) "n = ''..''" | (on) "n \<noteq> ''..''" "links (path @ [n]) = None"
    | (link) t where "n \<noteq> ''..''" "links (path @ [n]) = Some t" by (cases "links (path @ [n])") auto
  then show ?case
  proof cases
    case up
    have "\<exists>p. walk links (butlast path) rest = Some p" by (rule Cons.IH) (use Cons.prems up met_up in blast)
    with up show ?thesis by simp
  next
    case on
    have "\<exists>p. walk links (path @ [n]) rest = Some p" by (rule Cons.IH) (use Cons.prems on met_on in blast)
    with on show ?thesis by (simp add: walk_on)
  next
    case link
    from Cons.prems [of path n t] met_here [of n links path rest] link obtain p where p: "expand links path t = Some p" by auto
    have "\<exists>r. walk links p rest = Some r" by (rule Cons.IH) (use Cons.prems link p met_after in blast)
    with link p show ?thesis by (simp add: walk_link_expanded)
  qed
qed simp

lemma ended_expands: "ends links q \<Longrightarrow> q = path @ [n] \<Longrightarrow> links q = Some t \<Longrightarrow> expand links path t \<noteq> None"
proof (induction arbitrary: path n t rule: accp_induct_rule)
  case (1 q)
  note IH = 1(2) and q = 1(3,4)
  have "\<exists>p. walk links (target_start path (parse_path t)) (target_names (parse_path t)) = Some p"
    by (rule walk_over_ended) (use IH q leads in blast)
  then show "expand links path t \<noteq> None" by (auto simp: expand_def)
qed

lemma walk_ends_iff: "(\<exists>p. walk links path rest = Some p) \<longleftrightarrow> (\<forall>q. met links path rest q \<longrightarrow> ends links q)"
  using ended_walk ended_expands walk_over_ended by metis

section \<open>With finitely many links\<close>

abbreviation looped :: "(comps \<Rightarrow> string option) \<Rightarrow> comps \<Rightarrow> bool" where
  "looped links q \<equiv> (\<exists>q'. (leads links)\<^sup>*\<^sup>* q q' \<and> (leads links)\<^sup>+\<^sup>+ q' q')"

lemma leads_link: "leads links q q' \<Longrightarrow> links q \<noteq> None"
  by (auto elim: leads.cases)

lemma ends_no_loop: "ends links q \<Longrightarrow> \<not> (leads links)\<^sup>+\<^sup>+ q q"
proof (induction rule: accp_induct_rule)
  case (1 q)
  note IH = 1(2)
  show "\<not> (leads links)\<^sup>+\<^sup>+ q q"
  proof
    assume "(leads links)\<^sup>+\<^sup>+ q q"
    then obtain q' where q': "leads links q q'" "(leads links)\<^sup>*\<^sup>* q' q" by (metis tranclpD)
    then have "(leads links)\<^sup>+\<^sup>+ q' q'" by simp
    with IH q'(1) show False by blast
  qed
qed

lemma ends_below: "(leads links)\<^sup>*\<^sup>* q q' \<Longrightarrow> ends links q \<Longrightarrow> ends links q'"
  by (induction rule: rtranclp_induct) (auto intro: accp_downward)

lemma ends_iff_no_loop:
  assumes fin: "finite {q. links q \<noteq> None}"
  shows "ends links q \<longleftrightarrow> \<not> looped links q"
proof
  assume "ends links q"
  then show "\<not> looped links q" using ends_below ends_no_loop by metis
next
  assume no: "\<not> looped links q"
  let ?R = "{(b, a). leads links a b \<and> links b \<noteq> None \<and> (leads links)\<^sup>*\<^sup>* q a}"
  have "?R \<subseteq> {q. links q \<noteq> None} \<times> {q. links q \<noteq> None}" using leads_link by auto
  then have "finite ?R" using fin by (meson finite_SigmaI finite_subset)
  moreover have "acyclic ?R"
  proof (rule acyclicI, intro allI notI)
    fix x assume "(x, x) \<in> ?R\<^sup>+"
    moreover have "(y, x) \<in> ?R\<^sup>+ \<Longrightarrow> (leads links)\<^sup>+\<^sup>+ x y \<and> (leads links)\<^sup>*\<^sup>* q x" for x y
      by (induction rule: trancl_induct) (auto intro: tranclp_into_tranclp2)
    ultimately show False using no by blast
  qed
  ultimately have "wf ?R" by (rule finite_acyclic_wf)
  then have "(leads links)\<^sup>*\<^sup>* q a \<longrightarrow> ends links a" for a
  proof (induction a rule: wf_induct_rule)
    case (less a)
    show ?case
    proof (rule impI, rule accpI)
      fix b assume ab: "(leads links)\<^sup>*\<^sup>* q a" "leads links a b"
      show "ends links b"
      proof (cases "links b")
        case None
        show ?thesis by (rule accpI) (use None leads_link in blast)
      next
        case (Some t)
        with ab less [of b] show ?thesis by (auto intro: rtranclp.rtrancl_into_rtrancl)
      qed
    qed
  qed
  then show "ends links q" by simp
qed

definition loops :: "host \<Rightarrow> py_path \<Rightarrow> bool" where
  "loops h c \<longleftrightarrow> (\<exists>q. met (readlink h) [] (absolute h c) q \<and> looped (readlink h) q)"

lemma resolve_cases:
  assumes "finite {q. readlink h q \<noteq> None}"
  shows "resolve h c = (if loops h c then Inl SymlinkLoop else Inr (the (real_path h (absolute h c))))"
  using walk_ends_iff [of "readlink h" "[]" "absolute h c"] ends_iff_no_loop [OF assms]
  by (auto simp: resolve_def real_path_def loops_def split: option.split)


text \<open>The one link of the sample case; with it a link to itself would be a loop.\<close>

abbreviation example_link :: comps where
  "example_link \<equiv> [''cases'', ''C1'', ''agent'', ''ev'']"

lemma example_links: "readlink example_host q \<noteq> None \<longleftrightarrow> q = example_link"
  by (simp add: example_host_def)

lemma example_leads: "\<not> leads (readlink example_host) q q'"
proof
  assume l: "leads (readlink example_host) q q'"
  then have q: "q = [''cases'', ''C1'', ''agent''] @ [''ev'']" using leads_link example_links by fastforce
  have t: "parse_path ''../evidence'' = RelPath [''..'', ''evidence'']" by code_simp
  from l show False unfolding q leads_snoc
    by (auto simp: example_host_def t met_Cons)
qed

lemma loop_link: "loops (h\<lparr>readlink := (\<lambda>q. if q = [''a''] then Some ''a'' else None)\<rparr>) (AbsPath [''a''])"
proof -
  let ?l = "\<lambda>q. if q = [''a''] then Some ''a'' else None"
  have p: "parse_path ''a'' = RelPath [''a'']" by code_simp
  have m: "met ?l [] [''a''] [''a'']" using met_here [of "''a''" ?l "[]" "[]"] by simp
  then have "leads ?l [''a''] [''a'']" using leads_snoc [of ?l "[]"] by (simp add: p)
  then have "looped ?l [''a'']" by blast
  with m show ?thesis by (auto simp: loops_def)
qed


end
