(* ===== verification/Shell_Command.thy ===== *)
theory Shell_Command
  imports Path_Policy Command_Parser Security_Policy Py_Regex
begin

text \<open>
  The command boundary of \<open>sift_core/execute/security.py\<close>: \<open>validate_shell_command\<close> and
  the checks it makes of each stage of a command line.  The loop body is cut into the
  groups of checks the code has, in its order: the text of the line
  (\<open>check_command_text\<close>), the binary (\<open>check_binary\<close>), the redirections
  (\<open>resolve_redirect\<close>), the arguments that are paths (\<open>scan_argv_paths\<close>,
  \<open>validate_mutating_command_targets\<close>), the arguments that are flags or program text
  (\<open>sanitize_extra_args\<close>) and the privileged tools (\<open>check_privileged\<close>).

  \<open>exec_error\<close> has a constructor per \<open>raise\<close>.  The policy comes from a \<open>policy_source\<close>: the
  environment variable and the module's cache.
\<close>

section \<open>Errors and the policy\<close>

datatype exec_error =
    PolicyLoad load_error
  | PathRefused path_error
  | ParseFailed parse_error
  | NullByte | ArgTooLong | BlockedFlag string | DangerousFlag string | ShellMetacharacter
  | AwkConstruct | SedConstruct | SqliteDotCommand
  | EmptyCommand | CommandControlChars | IfsInjection | ProcEnviron | ProcessSubstitution
  | DestructivePattern | BackgroundOperator | EmptySubcommand
  | SudoDenied | ZimmermanDenied | BinaryDenied string | BinaryNotAllowed string
  | BinaryNotFound string | BinaryInCase string
  | Heredoc | ExpansionInPath
  | GlobInArgument | MountArgs | MountNoCase | MountTarget | MountSource
  | UmountArgs | UmountNoCase | UmountTarget
  | LosetupReadOnly | LosetupTarget | DdParameters | DdSource | DdNoCase | DdTarget | FdiskFlags

definition path_res :: "path_error + 'a \<Rightarrow> exec_error + 'a" where
  "path_res r = (case r of Inl e \<Rightarrow> Inl (PathRefused e) | Inr x \<Rightarrow> Inr x)"

lemma path_res_Inr [simp]: "path_res r = Inr x \<longleftrightarrow> r = Inr x"
  by (auto simp: path_res_def split: sum.splits)

record policy_source =
  policy_env :: env_text
  policy_cache :: "policy option"

text \<open>\<open>_get_policy\<close>: the cached dictionary has no \<open>unlisted_policy\<close>, so every call reads the
  environment again for it and raises when the variable no longer parses.\<close>

definition get_policy :: "policy_source \<Rightarrow> exec_error + policy" where
  "get_policy src =
     (case load_security_policy (policy_env src) (policy_cache src) of
        Inl e \<Rightarrow> Inl (PolicyLoad e)
      | Inr (p, _) \<Rightarrow>
          (case load_policy_from_env (policy_env src) of
             Inl e \<Rightarrow> Inl (PolicyLoad e)
           | Inr None \<Rightarrow> Inr p
           | Inr (Some env_policy) \<Rightarrow> Inr (p\<lparr>unlisted_policy := unlisted_policy env_policy\<rparr>)))"

lemma get_policy_Inr:
  assumes "get_policy src = Inr pol"
  shows "\<exists>p cache. load_security_policy (policy_env src) (policy_cache src) = Inr (p, cache) \<and>
    denied_binaries pol = denied_binaries p"
  using assms by (auto simp: get_policy_def split: sum.splits option.splits)

section \<open>Patterns\<close>

definition AWK_DANGEROUS_RE :: rx where
  "AWK_DANGEROUS_RE = alts
    [cats [lit_ci ''system'', Star ws, lit ''('' ], lit_ci ''getline'',
     cats [lit [dquote], Star any_char, lit ''|''], cats [lit ''|'', Star any_char, lit [dquote]],
     cats [lit ''>'', Star ws, lit [dquote]], cats [lit ''>>'', Star ws, lit [dquote]]]"

definition digits :: rx where
  "digits = Plus (Cls isdigit)"

definition letter_ci :: "char \<Rightarrow> bool" where
  "letter_ci c = in_range 97 122 (lower_char c)"

definition SED_EXEC_RE :: rx where
  "SED_EXEC_RE = alts
    [cats [Alt LineStart (Cls (\<lambda>c. c = CHR '';'' \<or> c = newline)), Star ws,
       Opt (cats [digits, Opt (cats [lit '','', digits]), Star ws]), lit_ci ''e'', Alt ws LineEnd],
     cats [lit_ci ''s'', Group 1 (Cls (\<lambda>c. \<not> is_word_char c \<and> \<not> isspace c \<and> c \<noteq> backslash)),
       Star any_char, Backref 1, Star any_char, Backref 1, Star (Cls letter_ci), lit_ci ''e'',
       Star (Cls letter_ci), alts [ws, lit '';'', LineEnd]]]"

definition SQLITE_DOT_RE :: rx where
  "SQLITE_DOT_RE = cats [lit ''.'', alts (map lit_ci [''shell'', ''system'', ''load'', ''import'',
     ''output'', ''once'', ''excel'', ''backup'']), WordBoundary]"

definition DESTRUCTIVE_PATTERNS :: "rx list" where
  "DESTRUCTIVE_PATTERNS =
    [cats [WordBoundary, alts (map lit_ci [''drop'', ''truncate'']), Plus ws,
       alts (map lit_ci [''table'', ''database'', ''schema'']), WordBoundary],
     cats [WordBoundary, lit_ci ''delete'', Plus ws, lit_ci ''from'', Plus ws, Plus (Cls is_word_char),
       Star (Cls (\<lambda>c. c = CHR '' '' \<or> c = CHR 0x09)),
       alts [lit '';'', lit [dquote], lit [squote], lit [newline], LineEnd]]]"

definition control_char :: "char \<Rightarrow> bool" where
  "control_char c \<longleftrightarrow> in_range 0 8 c \<or> in_range 14 31 c \<or> code c = 127"

definition IFS_RE :: rx where
  "IFS_RE = cats [WordBoundary, lit ''IFS'', Star ws, lit ''='']"

definition PROC_ENVIRON_RE :: rx where
  "PROC_ENVIRON_RE = Alt (cats [lit ''/proc/'', Plus (Cls is_word_char), lit ''/environ''])
     (lit ''/proc/self/environ'')"

definition PROCESS_SUBSTITUTION_RE :: rx where
  "PROCESS_SUBSTITUTION_RE = alts
    [cats [lit ''>>'', Star ws, lit ''>'', Star ws, lit ''(''],
     cats [lit ''>'', Star ws, lit ''>'', Star ws, lit ''(''],
     cats [lit ''<'', Star ws, lit ''('']]"

section \<open>Flags and program text\<close>

definition PROGRAM_TEXT_TOOLS :: "string list" where
  "PROGRAM_TEXT_TOOLS = [''awk'', ''gawk'', ''mawk'', ''nawk'', ''sed'', ''sqlite3'']"

definition flag_matches :: "string \<Rightarrow> string list \<Rightarrow> bool" where
  "flag_matches flag blocked_flags \<longleftrightarrow>
     flag \<in> set blocked_flags \<or>
     list_ex (\<lambda>blocked. startswith blocked ''-'' \<and> \<not> startswith blocked ''--'' \<and>
        length blocked = 2 \<and> startswith flag blocked) blocked_flags"

definition flags_of :: "(string \<times> string list) list \<Rightarrow> string \<Rightarrow> string list" where
  "flags_of m tool = (case map_of m tool of None \<Rightarrow> [] | Some fs \<Rightarrow> fs)"

definition sanitize_arg :: "host \<Rightarrow> policy \<Rightarrow> string \<Rightarrow> string \<Rightarrow> exec_error + string" where
  "sanitize_arg h pol tool_key arg0 =
     res_bind (guard_res (contains arg0 [CHR 0x00]) NullByte) (\<lambda>_.
     res_bind (guard_res (length arg0 > 4096) ArgTooLong) (\<lambda>_.
       let arg = nfc h arg0; flag = before_char CHR ''='' (lower arg) in
       res_bind (guard_res (flag_matches flag (flags_of (tool_blocked_flags pol) tool_key))
         (BlockedFlag arg)) (\<lambda>_.
       res_bind (guard_res (flag \<in> set (dangerous_flags pol) \<and>
           flag \<notin> set (flags_of (tool_allowed_flags pol) tool_key)) (DangerousFlag arg)) (\<lambda>_.
       res_bind (guard_res (contains arg ''`'' \<or> contains arg ''$('') ShellMetacharacter) (\<lambda>_.
         Inr arg)))))"

definition scan_program_text :: "string \<Rightarrow> string \<Rightarrow> exec_error + unit" where
  "scan_program_text tool_key arg =
     (if startswith arg ''-'' then Inr ()
      else res_bind (guard_res (tool_key \<in> set [''awk'', ''gawk'', ''mawk'', ''nawk''] \<and>
             rx_search AWK_DANGEROUS_RE arg) AwkConstruct) (\<lambda>_.
           res_bind (guard_res (tool_key = ''sed'' \<and> rx_search SED_EXEC_RE arg) SedConstruct) (\<lambda>_.
           guard_res (tool_key = ''sqlite3'' \<and> rx_search SQLITE_DOT_RE arg) SqliteDotCommand)))"

definition sanitize_extra_args ::
  "host \<Rightarrow> policy_source \<Rightarrow> string list \<Rightarrow> string \<Rightarrow> exec_error + string list" where
  "sanitize_extra_args h src extra_args tool_name =
     (if extra_args = [] then Inr []
      else res_bind (get_policy src) (\<lambda>pol.
        let tool_key = lower tool_name in
        res_bind (map_res (sanitize_arg h pol tool_key) extra_args) (\<lambda>sanitized.
        res_bind (if tool_key \<in> set PROGRAM_TEXT_TOOLS
                  then for_each (scan_program_text tool_key) sanitized else Inr ()) (\<lambda>_.
          Inr sanitized))))"

section \<open>Binaries\<close>

definition is_denied :: "policy_source \<Rightarrow> string \<Rightarrow> exec_error + bool" where
  "is_denied src binary_name =
     res_bind (get_policy src) (\<lambda>pol. Inr (matches_denied_binary binary_name (denied_binaries pol)))"

definition classify_binary_risk :: "policy_source \<Rightarrow> string \<Rightarrow> exec_error + string" where
  "classify_binary_risk src binary_name =
     res_bind (get_policy src) (\<lambda>pol.
       if matches_allowed_binary binary_name (allowed_binaries pol) then Inr ''standard''
       else Inr ''reject'')"

definition is_allowed_by_mode :: "policy_source \<Rightarrow> string \<Rightarrow> exec_error + bool" where
  "is_allowed_by_mode src binary_name =
     res_bind (classify_binary_risk src binary_name) (\<lambda>risk. Inr (risk \<noteq> ''reject''))"

definition get_output_flags :: "policy_source \<Rightarrow> exec_error + string list" where
  "get_output_flags src = res_bind (get_policy src) (\<lambda>pol. Inr (output_flags pol))"

definition binary_of :: "string \<Rightarrow> string" where
  "binary_of argv0 = after_last slash (replace_char backslash slash argv0)"

text \<open>From the first word of a stage to the program that will run: the name, the resolved
  program and the risk tier.\<close>

definition check_binary ::
  "host \<Rightarrow> policy_source \<Rightarrow> string list \<Rightarrow> exec_error + (string \<times> string \<times> string)" where
  "check_binary h src argv =
     (let binary = binary_of (hd argv) in
      res_bind (guard_res (binary = ''sudo'') SudoDenied) (\<lambda>_.
      res_bind (guard_res (casefold binary = ''dotnet'' \<and>
          list_ex is_windows_only_zimmerman_target (tl argv)) ZimmermanDenied) (\<lambda>_.
      res_bind (is_denied src binary) (\<lambda>denied.
      res_bind (guard_res denied (BinaryDenied binary)) (\<lambda>_.
      res_bind (classify_binary_risk src binary) (\<lambda>risk_tier.
      res_bind (guard_res (risk_tier = ''reject'') (BinaryNotAllowed binary)) (\<lambda>_.
      case find_binary h binary of
        None \<Rightarrow> Inl (BinaryNotFound binary)
      | Some resolved \<Rightarrow>
          if resolved = [] then Inl (BinaryNotFound binary)
          else let case_dir_str = active_case_dir_str h in
            if case_dir_str = [] then Inr (binary, resolved, risk_tier)
            else res_bind (path_res (resolve h (parse_path case_dir_str))) (\<lambda>case_resolved.
                 res_bind (path_res (resolve h (parse_path resolved))) (\<lambda>resolved_path.
                 res_bind (guard_res (prefix case_resolved resolved_path) (BinaryInCase binary)) (\<lambda>_.
                   Inr (binary, resolved, risk_tier)))))))))))"

section \<open>Redirections\<close>

definition resolve_redirect ::
  "host \<Rightarrow> py_path option \<Rightarrow> string \<times> string \<Rightarrow> exec_error + (string \<times> string)" where
  "resolve_redirect h base = (\<lambda>(op, target).
     if op = ''2>&1'' then Inr (op, target)
     else if op = ''<<'' then Inl Heredoc
     else if contains target ''$'' \<or> contains target ''%'' then Inl ExpansionInPath
     else res_bind (if op \<in> set [''>'', ''>>'', ''2>'', ''2>>'', ''&>'', ''&>>'']
                    then path_res (validate_output_path h target base)
                    else if op = ''<'' then path_res (validate_input_path h target base)
                    else Inr target) (\<lambda>resolved_target. Inr (op, resolved_target)))"

section \<open>Path arguments\<close>

definition DEV_PATH_TOOLS :: "string list" where
  "DEV_PATH_TOOLS = [''mount'', ''umount'', ''mmls'', ''fls'', ''icat'', ''img_stat'', ''blkid'', ''fdisk'',
     ''losetup'', ''fsstat'', ''ifind'', ''istat'', ''mmcat'', ''sigfind'', ''tsk_recover'', ''sorter'', ''dd'']"

definition NON_FILE_PATH_VALUE_FLAGS :: "(string \<times> string list) list" where
  "NON_FILE_PATH_VALUE_FLAGS = [(''fls'', [''-m''])]"

definition PRIVILEGED_TARGETS :: "string list" where
  "PRIVILEGED_TARGETS = [''mount'', ''umount'', ''losetup'', ''blkid'', ''fdisk'', ''dd'', ''dc3dd'', ''dcfldd'',
     ''vol'', ''vol3'', ''palso'', ''yara'']"

definition MUTATING_POSITIONAL_TOOLS :: "string list" where
  "MUTATING_POSITIONAL_TOOLS = [''chmod'', ''chown'', ''chgrp'', ''cp'', ''install'', ''mkdir'', ''mv'', ''rm'',
     ''rmdir'', ''rsync'', ''setfacl'', ''tee'', ''touch'', ''truncate'']"

definition path_args :: "string list \<Rightarrow> string list" where
  "path_args argv = filter (\<lambda>arg. arg \<noteq> [] \<and> \<not> startswith arg ''-'') (tl argv)"

definition check_paths :: "(string \<Rightarrow> path_error + string) \<Rightarrow> string list \<Rightarrow> path_error + unit" where
  "check_paths validate ps = for_each (\<lambda>p. res_bind (validate p) (\<lambda>_. Inr ())) ps"

definition validate_mutating_command_targets ::
  "host \<Rightarrow> string \<Rightarrow> string list \<Rightarrow> py_path option \<Rightarrow> path_error + unit" where
  "validate_mutating_command_targets h binary argv base =
     (let ps = path_args argv;
          output = (\<lambda>p. validate_case_output_target h p base);
          input = (\<lambda>p. validate_input_path h p base)
      in if ps = [] then Inr ()
         else if binary = ''rm'' then validate_rm_targets h (tl argv) base
         else if binary \<in> set [''mkdir'', ''rmdir'', ''touch'', ''truncate'', ''tee''] then check_paths output ps
         else if binary = ''cp'' then
           (if length ps \<ge> 2
            then res_bind (check_paths input (butlast ps)) (\<lambda>_. check_paths output [last ps])
            else Inr ())
         else if binary = ''mv'' then
           (if length ps \<ge> 2
            then res_bind (check_paths (\<lambda>p. validate_case_mutation_target h p ''Move'' base) (butlast ps)) (\<lambda>_.
                 check_paths (\<lambda>p. validate_case_mutation_target h p ''Move'' base) [last ps])
            else Inr ())
         else if binary \<in> set [''chmod'', ''chown'', ''chgrp'', ''setfacl''] then
           check_paths (\<lambda>p. validate_case_mutation_target h p ''Metadata change'' base) ps
         else if binary \<in> set [''install'', ''rsync''] \<and> length ps \<ge> 2 then
           res_bind (check_paths input (butlast ps)) (\<lambda>_. check_paths output [last ps])
         else Inr ())"

text \<open>The validator of one path argument: nothing for a device path of a tool that reads
  devices, the output validator after an output flag, else the input validator.\<close>

definition check_path_arg ::
  "host \<Rightarrow> py_path option \<Rightarrow> string \<Rightarrow> bool \<Rightarrow> bool \<Rightarrow> string \<Rightarrow> path_error + unit" where
  "check_path_arg h base binary exempt is_output v =
     (if (startswith v ''/dev/'' \<and> binary \<in> set DEV_PATH_TOOLS) \<or> exempt then Inr ()
      else if is_output then res_bind (validate_output_path h v base) (\<lambda>_. Inr ())
      else res_bind (validate_input_path h v base) (\<lambda>_. Inr ()))"

fun scan_argv_paths ::
  "host \<Rightarrow> py_path option \<Rightarrow> string \<Rightarrow> string list \<Rightarrow> bool \<Rightarrow> bool \<Rightarrow> string list \<Rightarrow> path_error + unit" where
  "scan_argv_paths h base binary oflags prev_was_output_flag prev_was_non_file_path_flag [] = Inr ()"
| "scan_argv_paths h base binary oflags prev_was_output_flag prev_was_non_file_path_flag (arg # args) =
     (if is_flag_value arg then
        let flag_part = before_char CHR ''='' arg; value = after_char CHR ''='' arg in
        res_bind (if value \<noteq> [] \<and> looks_like_path value
                  then check_path_arg h base binary False (flag_part \<in> set oflags) value
                  else Inr ()) (\<lambda>_.
          scan_argv_paths h base binary oflags False False args)
      else if startswith arg ''-'' then
        scan_argv_paths h base binary oflags (arg \<in> set oflags)
          (arg \<in> set (flags_of NON_FILE_PATH_VALUE_FLAGS binary)) args
      else
        res_bind (if looks_like_path arg
                  then check_path_arg h base binary prev_was_non_file_path_flag prev_was_output_flag arg
                  else Inr ()) (\<lambda>_.
          scan_argv_paths h base binary oflags False False args))"

section \<open>Privileged tools\<close>

definition positional :: "string list \<Rightarrow> string list" where
  "positional argv = filter (\<lambda>arg. \<not> startswith arg ''-'') (tl argv)"

definition has_glob :: "string \<Rightarrow> bool" where
  "has_glob arg \<longleftrightarrow> list_ex (\<lambda>c. contains arg [c]) ''*?[]''"

text \<open>A source may be a device, a path of the active case or a path of the cases root.\<close>

definition in_case_or_root :: "host \<Rightarrow> py_path option \<Rightarrow> py_path option \<Rightarrow> string \<Rightarrow> bool" where
  "in_case_or_root h base case_dir s \<longleftrightarrow>
     (case case_dir of Some c \<Rightarrow> is_in_directory h s c base | None \<Rightarrow> False) \<or>
     is_in_directory h s (cases_root h) base"

definition is_device :: "host \<Rightarrow> py_path option \<Rightarrow> string \<Rightarrow> bool" where
  "is_device h base s \<longleftrightarrow> startswith s ''/dev/'' \<or> is_in_directory h s (AbsPath [''dev'']) base"

definition in_case_scratch :: "host \<Rightarrow> py_path option \<Rightarrow> py_path \<Rightarrow> string \<Rightarrow> bool" where
  "in_case_scratch h base c s \<longleftrightarrow>
     list_ex (\<lambda>d. is_in_directory h s (path_join c d) base) [''tmp'', ''extractions'', ''agent'']"

definition check_mount :: "host \<Rightarrow> py_path option \<Rightarrow> py_path option \<Rightarrow> string list \<Rightarrow> exec_error + unit" where
  "check_mount h base case_dir argv =
     (let pos = positional argv in
      if length pos < 2 then Inl MountArgs
      else let source = pos ! (length pos - 2); target = last pos in
        case case_dir of
          None \<Rightarrow> Inl MountNoCase
        | Some c \<Rightarrow>
            if \<not> in_case_scratch h base c target then Inl MountTarget
            else guard_res (\<not> (is_device h base source \<or> in_case_or_root h base case_dir source)) MountSource)"

definition check_umount :: "host \<Rightarrow> py_path option \<Rightarrow> py_path option \<Rightarrow> string list \<Rightarrow> exec_error + unit" where
  "check_umount h base case_dir argv =
     (let pos = positional argv in
      if length pos < 1 then Inl UmountArgs
      else case case_dir of
          None \<Rightarrow> Inl UmountNoCase
        | Some c \<Rightarrow> guard_res (\<not> in_case_scratch h base c (last pos)) UmountTarget)"

definition check_losetup :: "host \<Rightarrow> py_path option \<Rightarrow> py_path option \<Rightarrow> string list \<Rightarrow> exec_error + unit" where
  "check_losetup h base case_dir argv =
     (if list_ex (\<lambda>f. f \<in> set (tl argv))
          [''-a'', ''--all'', ''-l'', ''--list'', ''-j'', ''--associated'', ''-d'', ''--detach''] then Inr ()
      else res_bind (guard_res (\<not> list_ex (\<lambda>f. f \<in> set (tl argv)) [''-r'', ''--read-only'']) LosetupReadOnly) (\<lambda>_.
        let file_args = filter (\<lambda>arg. \<not> is_device h base arg) (positional argv) in
        for_each (\<lambda>farg. guard_res (\<not> in_case_or_root h base case_dir farg) LosetupTarget) file_args))"

definition last_param :: "string \<Rightarrow> string list \<Rightarrow> string option" where
  "last_param key args = map_option (after_char CHR ''='') (find (\<lambda>arg. startswith arg key) (rev args))"

definition check_dd :: "host \<Rightarrow> py_path option \<Rightarrow> py_path option \<Rightarrow> string list \<Rightarrow> exec_error + unit" where
  "check_dd h base case_dir argv =
     (case (last_param ''if='' (tl argv), last_param ''of='' (tl argv)) of
        (Some if_val, Some of_val) \<Rightarrow>
          res_bind (guard_res (\<not> (is_device h base if_val \<or> in_case_or_root h base case_dir if_val)) DdSource) (\<lambda>_.
          case case_dir of
            None \<Rightarrow> Inl DdNoCase
          | Some c \<Rightarrow>
              res_bind (path_res (resolve_user_path h of_val base)) (\<lambda>of_resolved.
              res_bind (path_res (resolve h c)) (\<lambda>case_resolved.
              res_bind (guard_res (\<not> path_is_under of_resolved case_resolved) DdTarget) (\<lambda>_.
                path_res (reject_if_protected_case_path h of_resolved ''Output'')))))
      | _ \<Rightarrow> Inl DdParameters)"

definition check_privileged ::
  "host \<Rightarrow> py_path option \<Rightarrow> string \<Rightarrow> string list \<Rightarrow> exec_error + unit" where
  "check_privileged h base binary argv =
     (if binary \<notin> set PRIVILEGED_TARGETS then Inr ()
      else res_bind (guard_res (list_ex has_glob argv) GlobInArgument) (\<lambda>_.
        let case_dir_str = active_case_dir_str h;
            case_dir = (if case_dir_str = [] then None else Some (parse_path case_dir_str))
        in if binary = ''mount'' then check_mount h base case_dir argv
           else if binary = ''umount'' then check_umount h base case_dir argv
           else if binary = ''losetup'' then check_losetup h base case_dir argv
           else if binary \<in> set [''dd'', ''dc3dd'', ''dcfldd''] then check_dd h base case_dir argv
           else if binary = ''fdisk'' then
             guard_res (\<not> list_ex (\<lambda>f. f \<in> set (tl argv)) [''-l'', ''--list'', ''-s'']) FdiskFlags
           else Inr ()))"

section \<open>A command line\<close>

definition check_command_text :: "string \<Rightarrow> exec_error + unit" where
  "check_command_text command_str =
     res_bind (guard_res (strip command_str = []) EmptyCommand) (\<lambda>_.
     res_bind (guard_res (rx_search (Cls control_char) command_str) CommandControlChars) (\<lambda>_.
     res_bind (guard_res (rx_search IFS_RE command_str) IfsInjection) (\<lambda>_.
     res_bind (guard_res (rx_search PROC_ENVIRON_RE command_str) ProcEnviron) (\<lambda>_.
     res_bind (guard_res (rx_search PROCESS_SUBSTITUTION_RE command_str) ProcessSubstitution) (\<lambda>_.
     guard_res (list_ex (\<lambda>p. rx_search p command_str) DESTRUCTIVE_PATTERNS) DestructivePattern)))))"

record stage =
  subcmd_str :: string
  operator :: string
  argv :: "string list"
  redirects :: "(string \<times> string) list"
  binary :: string
  resolved :: string
  privileged :: bool
  risk_tier :: string

definition check_arguments ::
  "host \<Rightarrow> policy_source \<Rightarrow> py_path option \<Rightarrow> string \<Rightarrow> string list \<Rightarrow> exec_error + unit" where
  "check_arguments h src base bin av =
     (if bin \<in> set MUTATING_POSITIONAL_TOOLS
      then path_res (validate_mutating_command_targets h bin av base)
      else res_bind (get_output_flags src) (\<lambda>oflags.
        path_res (scan_argv_paths h base bin oflags False False (tl av))))"

text \<open>One iteration of the loop over the stages; a blank stage gives no entry.\<close>

definition validate_stage ::
  "host \<Rightarrow> policy_source \<Rightarrow> py_path option \<Rightarrow> string \<times> string \<Rightarrow> exec_error + stage list" where
  "validate_stage h src base = (\<lambda>(subcmd, op).
     if op = ''&'' then Inl BackgroundOperator
     else if strip subcmd = [] then Inr []
     else case parse_subcommand_argv_and_redirects subcmd of
       Inl e \<Rightarrow> Inl (ParseFailed e)
     | Inr (av0, redirs) \<Rightarrow>
         if av0 = [] then Inl EmptySubcommand
         else res_bind (check_binary h src av0) (\<lambda>(bin, res, risk).
           let av = res # tl av0 in
           res_bind (map_res (resolve_redirect h base) redirs) (\<lambda>resolved_redirects.
           res_bind (check_arguments h src base bin av) (\<lambda>_.
           res_bind (sanitize_extra_args h src (tl av) bin) (\<lambda>_.
           res_bind (check_privileged h base bin av) (\<lambda>_.
             Inr [\<lparr>subcmd_str = subcmd, operator = op, argv = av, redirects = resolved_redirects,
                    binary = bin, resolved = res, privileged = bin \<in> set PRIVILEGED_TARGETS,
                    risk_tier = risk\<rparr>]))))))"

definition validate_shell_command ::
  "host \<Rightarrow> policy_source \<Rightarrow> py_path option \<Rightarrow> string \<Rightarrow> exec_error + stage list" where
  "validate_shell_command h src base command_str =
     res_bind (check_command_text command_str) (\<lambda>_.
     res_bind (map_res (validate_stage h src base) (split_command_by_operators command_str)) (\<lambda>stages.
       Inr (concat stages)))"

section \<open>What a validated stage went through\<close>

lemma validated_stage_checks:
  assumes "validate_shell_command h src base cmd = Inr stages" and "st \<in> set stages"
  shows "\<exists>av0 redirs. parse_subcommand_argv_and_redirects (subcmd_str st) = Inr (av0, redirs) \<and>
    av0 \<noteq> [] \<and> argv st = resolved st # tl av0 \<and> operator st \<noteq> ''&'' \<and>
    check_binary h src av0 = Inr (binary st, resolved st, risk_tier st) \<and>
    map_res (resolve_redirect h base) redirs = Inr (redirects st) \<and>
    check_arguments h src base (binary st) (argv st) = Inr () \<and>
    (\<exists>clean. sanitize_extra_args h src (tl (argv st)) (binary st) = Inr clean) \<and>
    check_privileged h base (binary st) (argv st) = Inr ()"
proof -
  from assms obtain parts part where "map_res (validate_stage h src base) (split_command_by_operators cmd) = Inr parts"
    and "part \<in> set parts" and st: "st \<in> set part"
    by (auto simp: validate_shell_command_def)
  then obtain subcmd op where "validate_stage h src base (subcmd, op) = Inr part"
    using map_res_member by fastforce
  with st show ?thesis
    by (auto simp: validate_stage_def Let_def split: if_splits sum.splits)
qed

lemma check_binary_Inr:
  assumes "check_binary h src av = Inr (b, r, risk)"
  shows "\<exists>pol. get_policy src = Inr pol \<and> b = binary_of (hd av) \<and>
    \<not> matches_denied_binary b (denied_binaries pol) \<and> matches_allowed_binary b (allowed_binaries pol) \<and>
    find_binary h b = Some r \<and> risk = ''standard'' \<and>
    (\<forall>c. case_dir_path h = Inr (Some c) \<longrightarrow>
       (\<exists>p. resolve h (parse_path r) = Inr p \<and> \<not> path_is_under p c))"
  using assms
  by (auto simp: check_binary_def Let_def is_denied_def classify_binary_risk_def case_dir_path_Some
      split: if_splits option.splits)

text \<open>The cache is empty or holds what an earlier load put there.\<close>

definition loaded_source :: "policy_source \<Rightarrow> bool" where
  "loaded_source src \<longleftrightarrow> (\<forall>p. policy_cache src = Some p \<longrightarrow>
     (\<exists>env. load_security_policy env None = Inr (p, Some p)))"

lemma loaded_floor:
  assumes "load_security_policy env None = Inr (pol, cache)" "matches_denied_binary b DENY_FLOOR"
  shows "matches_denied_binary b (denied_binaries pol)"
  using assms built_floor_denied [of _ _ pol b]
  by (auto simp: load_security_policy_def load_policy_from_env_def
      split: env_text.splits sum.splits option.splits)

lemma get_policy_floor:
  assumes "get_policy src = Inr pol" "loaded_source src" "matches_denied_binary b DENY_FLOOR"
  shows "matches_denied_binary b (denied_binaries pol)"
proof -
  from get_policy_Inr [OF assms(1)] obtain p cache where
    p: "load_security_policy (policy_env src) (policy_cache src) = Inr (p, cache)"
    and d: "denied_binaries pol = denied_binaries p" by blast
  have "\<exists>env c. load_security_policy env None = Inr (p, c)"
  proof (cases "policy_cache src")
    case None
    with p show ?thesis by metis
  next
    case (Some q)
    with p have "q = p" by (simp add: load_security_policy_def)
    with Some assms(2) show ?thesis by (auto simp: loaded_source_def)
  qed
  with loaded_floor assms(3) d show ?thesis by metis
qed

text \<open>C19. Only reviewed programs run.  In every stage of a command line that passes, the
  program is allowed by the loaded policy, no pattern of the deny floor matches its
  name, the word that will be executed is the program found on the search path for
  that name, and that program is not a file of the active case.\<close>

theorem validated_stage_runs_reviewed_program:
  assumes "validate_shell_command h src base cmd = Inr stages" and "st \<in> set stages"
    and "loaded_source src"
  shows "\<exists>pol. get_policy src = Inr pol \<and> matches_allowed_binary (binary st) (allowed_binaries pol) \<and>
    \<not> matches_denied_binary (binary st) DENY_FLOOR \<and>
    hd (argv st) = resolved st \<and> find_binary h (binary st) = Some (resolved st) \<and>
    (\<forall>c. case_dir_path h = Inr (Some c) \<longrightarrow>
       (\<exists>p. resolve h (parse_path (resolved st)) = Inr p \<and> \<not> path_is_under p c))"
proof -
  from validated_stage_checks [OF assms(1,2)] obtain av0 where av: "argv st = resolved st # tl av0"
    and "check_binary h src av0 = Inr (binary st, resolved st, risk_tier st)" by blast
  from check_binary_Inr [OF this(2)] get_policy_floor [OF _ assms(3)] av show ?thesis
    by (metis list.sel(1))
qed

text \<open>The boundary has no path to privileged programs: a stage that passes never is
  \<open>mount\<close>, \<open>umount\<close>, \<open>losetup\<close>, \<open>dd\<close> or a variant of \<open>dd\<close>, in any letter case, so the
  branches that restrict their arguments decide nothing.\<close>

theorem validated_stage_is_not_privileged_writer:
  assumes "validate_shell_command h src base cmd = Inr stages" and "st \<in> set stages"
    and "loaded_source src"
  shows "lower (binary st) \<notin> set [''mount'', ''umount'', ''losetup'', ''dd'', ''dc3dd'', ''dcfldd'']"
proof
  assume b: "lower (binary st) \<in> set [''mount'', ''umount'', ''losetup'', ''dd'', ''dc3dd'', ''dcfldd'']"
  from validated_stage_checks [OF assms(1,2)] obtain av0 pol where
    p: "get_policy src = Inr pol" "\<not> matches_denied_binary (binary st) (denied_binaries pol)"
    using check_binary_Inr by blast
  have "matches_denied_binary (binary st) DENY_FLOOR"
    using b unfolding matches_denied_binary_def list_ex_iff
    by (intro bexI [of _ "lower (binary st)"])
      (auto simp: DENY_FLOOR_def lower_def is_literal_pattern_def intro!: fnmatchcase_literal [THEN iffD2])
  with get_policy_floor [OF p(1) assms(3)] p(2) show False by blast
qed

section \<open>Redirections of a validated stage\<close>

lemma writable_readable: "writable_place h c p \<Longrightarrow> readable_place h c p"
  by (auto simp: writable_place_def readable_place_def protected_by_case_def)

lemma validated_output_place:
  assumes "host_ok h" "base_ok base" "case_dir_path h = Inr (Some c)" "validate_output_path h path base = Inr s"
  shows "\<exists>p. resolve_user_path h path base = Inr p \<and> s = path_str p \<and>
    (path_str p = ''/dev/null'' \<or> writable_place h c p)"
proof -
  from assms(4) obtain p where p: "resolve_user_path h path base = Inr p"
    by (auto simp: validate_output_path_def)
  with user_path_canonical [OF assms(1,2) p] validate_output_active [OF assms(3) p] assms(4)
  show ?thesis by (auto simp: writable_place_def simp del: path_is_under_prefix)
qed


section \<open>Arguments of a validated stage\<close>

lemma plain_not_flag_value: "\<not> startswith a ''-'' \<Longrightarrow> \<not> is_flag_value a"
  by (simp add: is_flag_value_def)

lemma scan_argv_member:
  assumes "scan_argv_paths h base b oflags pv n args = Inr ()"
    and "a \<in> set args" "\<not> startswith a ''-''" "looks_like_path a"
  shows "\<exists>e out. check_path_arg h base b e out a = Inr () \<and>
    (e \<longrightarrow> n \<or> (\<exists>f. f \<in> set (flags_of NON_FILE_PATH_VALUE_FLAGS b)))"
  using assms
proof (induction args arbitrary: pv n)
  case (Cons x args)
  show ?case
  proof (cases "x = a")
    case True
    with Cons.prems plain_not_flag_value have "check_path_arg h base b n pv a = Inr ()" by auto
    then show ?thesis by blast
  next
    case False
    then have a: "a \<in> set args" using Cons.prems by simp
    from Cons.prems(1) obtain pv' n' where "scan_argv_paths h base b oflags pv' n' args = Inr ()"
      and "n' \<longrightarrow> (\<exists>f. f \<in> set (flags_of NON_FILE_PATH_VALUE_FLAGS b))"
      by (auto simp: Let_def split: if_splits)
    with Cons.IH [of pv' n'] a Cons.prems(3,4) show ?thesis by blast
  qed
qed simp

lemma check_path_arg_place:
  assumes "host_ok h" "base_ok base" "case_dir_path h = Inr (Some c)" "\<not> startswith a ''-''"
    and "check_path_arg h base b False out a = Inr ()"
  shows "(startswith a ''/dev/'' \<and> b \<in> set DEV_PATH_TOOLS) \<or>
    (\<exists>p. resolve_user_path h a base = Inr p \<and> (path_str p = ''/dev/null'' \<or> readable_place h c p))"
proof -
  from assms(5) consider "startswith a ''/dev/'' \<and> b \<in> set DEV_PATH_TOOLS"
    | s where "validate_output_path h a base = Inr s" | s where "validate_input_path h a base = Inr s"
    by (auto simp: check_path_arg_def split: if_splits)
  then show ?thesis
  proof cases
    case 2
    from validated_output_place [OF assms(1-3) 2] writable_readable show ?thesis by blast
  next
    case (3 s)
    have nf: "\<not> is_flag_value a" using assms(4) by (rule plain_not_flag_value)
    from 3 nf obtain p where p: "resolve_user_path h a base = Inr p"
      by (subst (asm) validate_input_path.simps) auto
    with 3 validate_input_plain [OF assms(3) p nf] user_path_canonical [OF assms(1,2) p]
    show ?thesis by (auto simp: readable_place_def simp del: path_is_under_prefix)
  qed blast
qed



text \<open>Every argument of a stage that passes is free of command substitution and of the
  flags the policy blocks for its program.  Text in composed form is what the Unicode
  normalisation leaves unchanged.\<close>

theorem arguments_are_sanitized:
  assumes "validate_shell_command h src base cmd = Inr stages" and "st \<in> set stages"
    and "get_policy src = Inr pol" and "a \<in> set (tl (argv st))" and "nfc h a = a"
  shows "\<not> contains a ''`'' \<and> \<not> contains a ''$('' \<and> length a \<le> 4096 \<and>
    \<not> flag_matches (before_char CHR ''='' (lower a)) (flags_of (tool_blocked_flags pol) (lower (binary st)))"
proof -
  from validated_stage_checks [OF assms(1,2)] obtain clean
    where "sanitize_extra_args h src (tl (argv st)) (binary st) = Inr clean" by blast
  with assms(3,4) have "map_res (sanitize_arg h pol (lower (binary st))) (tl (argv st)) = Inr clean"
    by (auto simp: sanitize_extra_args_def Let_def split: if_splits)
  from map_res_each [OF this assms(4)] obtain r where "sanitize_arg h pol (lower (binary st)) a = Inr r"
    by blast
  with assms(5) show ?thesis by (auto simp: sanitize_arg_def Let_def)
qed

text \<open>The stages returned are the stages of the line: one entry per stage that is not
  blank, in the order of the line, with its text and its operator, and none of them
  runs in the background.\<close>

theorem stages_follow_the_line:
  assumes "validate_shell_command h src base cmd = Inr stages"
  shows "map (\<lambda>st. (subcmd_str st, operator st)) stages =
      filter (\<lambda>(piece, op). strip piece \<noteq> []) (split_command_by_operators cmd) \<and>
    (\<forall>(piece, op) \<in> set (split_command_by_operators cmd). op \<noteq> ''&'')"
proof -
  from assms obtain parts where m: "map_res (validate_stage h src base) (split_command_by_operators cmd) = Inr parts"
    and s: "stages = concat parts" by (auto simp: validate_shell_command_def)
  have one: "snd po \<noteq> ''&'' \<and> map (\<lambda>st. (subcmd_str st, operator st)) part =
      (if strip (fst po) \<noteq> [] then [po] else [])"
    if "validate_stage h src base po = Inr part" for po part
    using that by (cases po) (auto simp: validate_stage_def Let_def split: if_splits sum.splits)
  have "map (\<lambda>st. (subcmd_str st, operator st)) (concat parts) = filter (\<lambda>(piece, op). strip piece \<noteq> []) ps \<and>
      (\<forall>(piece, op) \<in> set ps. op \<noteq> ''&'')"
    if "map_res (validate_stage h src base) ps = Inr parts" for ps parts
    using that by (induction ps arbitrary: parts) (fastforce dest: one)+
  with m s show ?thesis by blast
qed

section \<open>Concrete command lines\<close>

text \<open>The default policy, on the example host with its programs under \<open>/usr/bin\<close>.\<close>

definition bin_host :: host where
  "bin_host = example_host\<lparr>which := (\<lambda>n. Some (''/usr/bin/'' @ n))\<rparr>"

definition fresh_source :: policy_source where
  "fresh_source = \<lparr>policy_env = EnvUnset, policy_cache = None\<rparr>"

lemma fresh_policy: "get_policy fresh_source = Inr default_policy" "loaded_source fresh_source"
  by (simp_all add: get_policy_def fresh_source_def load_security_policy_def load_policy_from_env_def
      build_default loaded_source_def)

lemma pwd_reviewed:
  "matches_allowed_binary ''pwd'' (allowed_binaries default_policy)"
  "\<not> matches_denied_binary ''pwd'' (denied_binaries default_policy)"
proof -
  have "''pwd'' \<in> set MVP_FORENSIC_ALLOWLIST" by (simp add: MVP_FORENSIC_ALLOWLIST_def)
  then show "matches_allowed_binary ''pwd'' (allowed_binaries default_policy)"
    "\<not> matches_denied_binary ''pwd'' (denied_binaries default_policy)"
    using mvp_matches_iff [of "''pwd''"] mvp_not_denied
    by (auto simp: matches_allowed_iff matches_denied_iff default_allowed default_denied)
qed

definition pwd_stage :: stage where
  "pwd_stage = \<lparr>subcmd_str = ''pwd'', operator = [], argv = [''/usr/bin/pwd''], redirects = [],
     binary = ''pwd'', resolved = ''/usr/bin/pwd'', privileged = False, risk_tier = ''standard''\<rparr>"

lemma pwd_binary: "check_binary bin_host fresh_source [''pwd''] = Inr (''pwd'', ''/usr/bin/pwd'', ''standard'')"
proof -
  have "find_binary bin_host ''pwd'' = Some ''/usr/bin/pwd''" by code_simp
  moreover have "resolve bin_host (parse_path (active_case_dir_str bin_host)) = Inr [''cases'', ''C1'']"
    "resolve bin_host (parse_path ''/usr/bin/pwd'') = Inr [''usr'', ''bin'', ''pwd'']" by code_simp+
  moreover have "binary_of ''pwd'' = ''pwd''" "casefold ''pwd'' \<noteq> ''dotnet''" by code_simp+
  ultimately show ?thesis
    by (simp add: check_binary_def Let_def is_denied_def classify_binary_risk_def fresh_policy
        pwd_reviewed path_res_def)
qed

lemma pwd_validates: "validate_shell_command bin_host fresh_source None ''pwd'' = Inr [pwd_stage]"
proof -
  have "check_command_text ''pwd'' = Inr ()" by code_simp
  moreover have "split_command_by_operators ''pwd'' = [(''pwd'', [])]"
    "parse_subcommand_argv_and_redirects ''pwd'' = Inr ([''pwd''], [])" "strip ''pwd'' = ''pwd''" by code_simp+
  moreover have "check_arguments bin_host fresh_source None ''pwd'' [''/usr/bin/pwd''] = Inr ()"
    by (simp add: check_arguments_def MUTATING_POSITIONAL_TOOLS_def get_output_flags_def fresh_policy path_res_def)
  ultimately show ?thesis
    by (simp add: validate_shell_command_def validate_stage_def pwd_binary Let_def sanitize_extra_args_def
        check_privileged_def PRIVILEGED_TARGETS_def pwd_stage_def)
qed

theorem validated_stage_runs_reviewed_program_witness:
  "\<not> matches_denied_binary ''pwd'' DENY_FLOOR \<and> find_binary bin_host ''pwd'' = Some ''/usr/bin/pwd''"
  using validated_stage_runs_reviewed_program [OF pwd_validates, of pwd_stage] fresh_policy(2)
  by (auto simp: pwd_stage_def)

theorem validated_stage_is_not_privileged_writer_witness:
  "lower ''pwd'' \<notin> set [''mount'', ''umount'', ''losetup'', ''dd'', ''dc3dd'', ''dcfldd'']"
  using validated_stage_is_not_privileged_writer [OF pwd_validates, of pwd_stage] fresh_policy(2)
  by (simp add: pwd_stage_def)

text \<open>An installation whose cached policy admits \<open>cat\<close> and \<open>mv\<close>.\<close>

definition small_source :: policy_source where
  "small_source = \<lparr>policy_env = EnvUnset, policy_cache = Some
     \<lparr>mode = ''allowlist'', unlisted_policy = ''reject'', allowed_binaries = [''cat'', ''mv''],
      dangerous_flags = [''-e''], tool_allowed_flags = [], tool_blocked_flags = [(''cat'', [''-x''])],
      output_flags = [''-o''], denied_binaries = [''sh'']\<rparr>\<rparr>"

definition cat_stage :: stage where
  "cat_stage = \<lparr>subcmd_str = ''cat evidence/d > tmp/o'', operator = [],
     argv = [''/usr/bin/cat'', ''evidence/d''], redirects = [(''>'', ''/cases/C1/tmp/o'')],
     binary = ''cat'', resolved = ''/usr/bin/cat'', privileged = False, risk_tier = ''standard''\<rparr>"

lemma command_text_ok:
  assumes "strip cmd \<noteq> []" "list_all (\<lambda>c. \<not> control_char c) cmd"
    and "list_all (starved cmd) (IFS_RE # PROC_ENVIRON_RE # PROCESS_SUBSTITUTION_RE # DESTRUCTIVE_PATTERNS)"
  shows "check_command_text cmd = Inr ()"
  using assms starved_no_search [of cmd]
  by (auto simp: check_command_text_def rx_search_Cls list_all_iff list_ex_iff)

lemma cat_validates:
  "validate_shell_command bin_host small_source (Some (AbsPath example_case)) ''cat evidence/d > tmp/o'' = Inr [cat_stage]"
proof -
  have "check_command_text ''cat evidence/d > tmp/o'' = Inr ()"
    by (rule command_text_ok) code_simp+
  moreover have "map_res (validate_stage bin_host small_source (Some (AbsPath example_case)))
      (split_command_by_operators ''cat evidence/d > tmp/o'') = Inr [[cat_stage]]" by code_simp
  ultimately show ?thesis by (simp add: validate_shell_command_def)
qed

lemma bin_host_ok: "host_ok bin_host" "case_dir_path bin_host = Inr (Some example_case)"
  by (simp add: host_ok_def bin_host_def example_host_def) code_simp

lemmas cat_run = bin_host_ok(1) example_ok(2) bin_host_ok(2) cat_validates



theorem arguments_are_sanitized_witness:
  "\<not> flag_matches (before_char CHR ''='' (lower ''evidence/d'')) [''-x'']"
proof -
  have p: "get_policy small_source = Inr (the (policy_cache small_source))" by code_simp
  have f: "flags_of (tool_blocked_flags (the (policy_cache small_source))) (lower ''cat'') = [''-x'']"
    by code_simp
  have n: "nfc bin_host ''evidence/d'' = ''evidence/d''" by code_simp
  show ?thesis
    using arguments_are_sanitized [OF cat_validates _ p, of cat_stage "''evidence/d''"] f n
    by (simp add: cat_stage_def)
qed

theorem stages_follow_the_line_witness:
  "filter (\<lambda>(piece, op). strip piece \<noteq> []) (split_command_by_operators ''cat evidence/d > tmp/o'') =
     [(''cat evidence/d > tmp/o'', [])]"
  using stages_follow_the_line [OF cat_validates] by (simp add: cat_stage_def)

definition mv_stage :: stage where
  "mv_stage = \<lparr>subcmd_str = ''mv agent/a tmp'', operator = [],
     argv = [''/usr/bin/mv'', ''agent/a'', ''tmp''], redirects = [],
     binary = ''mv'', resolved = ''/usr/bin/mv'', privileged = False, risk_tier = ''standard''\<rparr>"

lemma mv_validates:
  "validate_shell_command bin_host small_source (Some (AbsPath example_case)) ''mv agent/a tmp'' = Inr [mv_stage]"
proof -
  have "check_command_text ''mv agent/a tmp'' = Inr ()"
    by (rule command_text_ok) code_simp+
  moreover have "map_res (validate_stage bin_host small_source (Some (AbsPath example_case)))
      (split_command_by_operators ''mv agent/a tmp'') = Inr [[mv_stage]]" by code_simp
  ultimately show ?thesis by (simp add: validate_shell_command_def)
qed


section \<open>Limits\<close>

text \<open>Two ways an argument is not looked at: a value attached to a short flag is no path to
  the scanner, and a copy with its target in a flag has one positional argument, for
  which no validator runs.\<close>

lemma attached_flag_value_unchecked:
  "scan_argv_paths h base b oflags x y [''-f/etc/shadow''] = Inr ()"
  by (simp add: is_flag_value_def contains_iff [symmetric] del: contains.simps) (simp add: is_flag_value_def)

lemma copy_to_flag_target_unchecked:
  "validate_mutating_command_targets h ''cp'' [''/usr/bin/cp'', ''--target-directory=/etc'', ''agent/x''] base = Inr ()"
  by (simp add: validate_mutating_command_targets_def path_args_def)

text \<open>When the operator's document does not mention a tool, the blocked flags of the defaults
  keep their upper-case letters, and the flag they are compared with is in lower case: the
  script flag of \<open>tshark\<close> then passes, until the policy is read back from the environment.\<close>

lemma upper_case_blocked_flag_passes:
  "\<exists>pol. build_security_policy (PDict [(PStr ''allowed_binaries'', strs [''tshark''])]) False = Inr pol \<and>
     ''-X'' \<in> set (flags_of (tool_blocked_flags pol) ''tshark'') \<and>
     \<not> flag_matches (before_char CHR ''='' (lower ''-X'')) (flags_of (tool_blocked_flags pol) ''tshark'')"
proof -
  let ?m = "merge_maps default_tool_blocked_flags []"
  have "flags_of ?m ''tshark'' = [''-X'', ''--lua-script'', ''-z'', ''--extcap-interface'', ''-i'', ''-G'']"
    by (simp add: flags_of_def default_tool_blocked_flags_def)
  then have "''-X'' \<in> set (flags_of ?m ''tshark'')"
    "\<not> flag_matches (before_char CHR ''='' (lower ''-X'')) (flags_of ?m ''tshark'')"
    by (simp_all add: flag_matches_def before_char_def lower_def)
  then show ?thesis
    by (simp add: build_security_policy_def merge_policy_def Let_def unlisted_policy_value_def
        normalised_words dedupe_lower_Nil_iff floor_mvp_nonempty expand_token_nonempty)
qed

end
