(* ===== verification/Custody_Ledger.thy ===== *)
theory Custody_Ledger
  imports Sift_Prelude
begin

text \<open>
  The custody ledger of \<open>sift_gateway/custody/ledger.py\<close>: verification of the chain of
  custody events, the export derived from one database snapshot, and the optional
  anchoring of the ledger head.

  The database is a parameter: a query either fails (\<open>None\<close>, any exception) or returns
  rows.  The hash of a document, the re-authentication and the anchoring service are
  parameters too.  A timestamp column holds its ISO text, as \<open>_iso\<close> writes it.

  Shown here: a ledger is reported consistent exactly when its events are numbered from
  one without a gap and each names the hash of its predecessor; a break is reported at
  the first bad event, and removing, repeating or altering a link of a consistent
  ledger is always reported, except at its end; an export's verified head is the last
  of the events it embeds; anchoring never uses a digest of the caller without a
  re-authentication and records every attempt it makes.
\<close>

section \<open>Events and verification\<close>

record custody_event =
  seq :: int
  event_type :: string
  event_manifest_version :: "int option"
  prev_hash :: "string option"
  event_hash :: "string option"
  event_object_id :: "string option"
  reauth_audit_event_id :: "string option"
  event_created_at :: "string option"

record ledger_verification =
  consistent :: bool
  head_seq :: int
  head_hash :: string
  broken_at_seq :: "int option"

text \<open>\<open>str(value or "")\<close> of a nullable column.\<close>

definition column_str :: "string option \<Rightarrow> string" where
  "column_str v = (case v of None \<Rightarrow> [] | Some s \<Rightarrow> s)"

fun verify_from :: "int \<Rightarrow> string \<Rightarrow> custody_event list \<Rightarrow> ledger_verification" where
  "verify_from expected_seq previous_hash [] =
     \<lparr>consistent = True, head_seq = expected_seq - 1, head_hash = previous_hash, broken_at_seq = None\<rparr>"
| "verify_from expected_seq previous_hash (row # rows) =
     (let current_hash = column_str (event_hash row) in
      if seq row \<noteq> expected_seq \<or> column_str (prev_hash row) \<noteq> previous_hash
      then \<lparr>consistent = False, head_seq = seq row, head_hash = current_hash, broken_at_seq = Some (seq row)\<rparr>
      else verify_from (expected_seq + 1) current_hash rows)"

definition verify_chain_linkage :: "custody_event list \<Rightarrow> ledger_verification" where
  "verify_chain_linkage rows = verify_from 1 [] rows"

definition unverified :: ledger_verification where
  "unverified = \<lparr>consistent = False, head_seq = 0, head_hash = [], broken_at_seq = None\<rparr>"

text \<open>\<open>query\<close> is the database: \<open>None\<close> when the driver is missing, the connection or the query fails.\<close>

definition verify_ledger ::
  "(string \<Rightarrow> custody_event list option) \<Rightarrow> string \<Rightarrow> string option \<Rightarrow> ledger_verification" where
  "verify_ledger query case_id dsn =
     (if case_id = [] \<or> dsn = None \<or> dsn = Some [] then unverified
      else case query case_id of None \<Rightarrow> unverified | Some rows \<Rightarrow> verify_chain_linkage rows)"

section \<open>Export\<close>

record evidence_row =
  object_id :: string
  display_name :: string
  display_path :: string
  object_status :: string
  version_id :: "string option"
  sha256 :: "string option"
  num_bytes :: "int option"
  version_entry_status :: "string option"
  membership_status :: "string option"
  row_manifest_version :: "int option"

record current_version =
  cv_version_id :: "string option"
  cv_sha256 :: "string option"
  cv_bytes :: "int option"
  cv_manifest_version :: int

record export_object =
  eo_object_id :: string
  eo_display_name :: string
  eo_display_path :: string
  eo_status :: string
  eo_current_version :: "current_version option"

definition export_objects :: "evidence_row list \<Rightarrow> export_object list" where
  "export_objects rows = map (\<lambda>r.
     \<lparr>eo_object_id = object_id r, eo_display_name = display_name r, eo_display_path = display_path r,
      eo_status = object_status r,
      eo_current_version =
        (case (membership_status r, row_manifest_version r) of
           (Some s, Some mv) \<Rightarrow>
             if s = ''ACTIVE'' then Some \<lparr>cv_version_id = version_id r, cv_sha256 = sha256 r,
               cv_bytes = num_bytes r, cv_manifest_version = mv\<rparr> else None
         | _ \<Rightarrow> None)\<rparr>) rows"

record manifest_row =
  mf_version :: int
  mf_hash :: string
  mf_action :: string
  mf_created_at :: "string option"

record receipt_row =
  rr_status :: string
  rr_tx_signature :: "string option"
  rr_anchored_head_digest :: "string option"
  rr_error_category :: "string option"
  rr_created_at :: "string option"

text \<open>The rows of one repeatable-read transaction, each in the order of its query.\<close>

record snapshot =
  snap_objects :: "evidence_row list"
  snap_manifests :: "manifest_row list"
  snap_events :: "custody_event list"
  snap_receipts :: "receipt_row list"

definition EXPORT_SCHEMA_VERSION :: string where
  "EXPORT_SCHEMA_VERSION = ''custody_export_v1''"

record export_document =
  doc_schema_version :: string
  doc_case_id :: string
  doc_objects :: "export_object list"
  doc_manifest_versions :: "manifest_row list"
  doc_custody_events :: "custody_event list"
  doc_verification :: ledger_verification
  doc_solana_receipts :: "receipt_row list"

record custody_export =
  schema_version :: string
  export_digest :: string
  source_ledger_head :: string
  document :: export_document

datatype ledger_error = NoCaseOrDsn | DbFailed | PartialReauth | ReportDigestNeedsReauth | ReauthRefused

text \<open>The row \<open>app.custody_record_export\<close> is called with.\<close>

record export_record =
  rec_case_id :: string
  rec_digest :: string
  rec_head :: "string option"
  rec_manifest_version :: "int option"
  rec_actor :: string

definition generate_export ::
  "(string \<Rightarrow> snapshot option) \<Rightarrow> (export_record \<Rightarrow> bool) \<Rightarrow> (export_document \<Rightarrow> string) \<Rightarrow> string \<Rightarrow> string \<Rightarrow> string option \<Rightarrow>
   ledger_error + (custody_export \<times> export_record)" where
  "generate_export query record_ok hash_doc actor case_id dsn =
     (if case_id = [] \<or> dsn = None \<or> dsn = Some [] then Inl NoCaseOrDsn
      else case query case_id of
        None \<Rightarrow> Inl DbFailed
      | Some snap \<Rightarrow>
          (let verification = verify_chain_linkage (snap_events snap);
               manifest_version = (if snap_manifests snap = [] then 0 else mf_version (last (snap_manifests snap)));
               doc = \<lparr>doc_schema_version = EXPORT_SCHEMA_VERSION, doc_case_id = case_id,
                      doc_objects = export_objects (snap_objects snap),
                      doc_manifest_versions = snap_manifests snap, doc_custody_events = snap_events snap,
                      doc_verification = verification, doc_solana_receipts = snap_receipts snap\<rparr>;
               digest = ''sha256:'' @ hash_doc doc;
               rw = \<lparr>rec_case_id = case_id, rec_digest = digest,
                     rec_head = (if head_hash verification = [] then None else Some (head_hash verification)),
                     rec_manifest_version = (if manifest_version = 0 then None else Some manifest_version),
                     rec_actor = actor\<rparr>
           in if record_ok rw
              then Inr (\<lparr>schema_version = EXPORT_SCHEMA_VERSION, export_digest = digest,
                         source_ledger_head = head_hash verification, document = doc\<rparr>, rw)
              else Inl DbFailed))"

section \<open>Anchoring\<close>

record anchor_receipt =
  anchor_status :: string
  tx_signature :: "string option"
  anchored_head_digest :: "string option"
  error_category :: "string option"

definition failed_receipt :: anchor_receipt where
  "failed_receipt = \<lparr>anchor_status = ''failed'', tx_signature = None, anchored_head_digest = None,
     error_category = Some ''anchor_submission_failed''\<rparr>"

record reauth_request =
  session :: "string option"
  password :: "string option"
  reason :: "string option"
  idempotency_key :: "string option"

definition reauth_fields :: "reauth_request \<Rightarrow> bool list" where
  "reauth_fields r = [session r \<noteq> None, password r \<noteq> None, reason r \<noteq> None, idempotency_key r \<noteq> None]"

text \<open>The service answers with a receipt or raises (\<open>None\<close>); the re-authentication accepts or
  raises; the last step writes the receipt and raises when the database does.  The result
  is the returned value with the rows written (case, receipt, actor) and the digests submitted.
  A session is its actor.\<close>

record anchor_run =
  returned :: "anchor_receipt option"
  recorded :: "(string \<times> anchor_receipt \<times> string option) list"
  submitted :: "string list"

definition anchor_manifest_head ::
  "(string \<Rightarrow> custody_event list option) \<Rightarrow> (reauth_request \<Rightarrow> bool) \<Rightarrow> bool \<Rightarrow>
   (string \<Rightarrow> anchor_receipt option) option \<Rightarrow> reauth_request \<Rightarrow> string option \<Rightarrow>
   string \<Rightarrow> string option \<Rightarrow> ledger_error + anchor_run" where
  "anchor_manifest_head query reauth_ok record_ok anchorer req report_digest case_id dsn =
     (case anchorer of
        None \<Rightarrow> Inr \<lparr>returned = None, recorded = [], submitted = []\<rparr>
      | Some anchor_head \<Rightarrow>
          if case_id = [] \<or> dsn = None \<or> dsn = Some []
          then Inr \<lparr>returned = None, recorded = [], submitted = []\<rparr>
          else let is_manual = list_ex id (reauth_fields req) in
            if is_manual \<and> \<not> list_all id (reauth_fields req) then Inl PartialReauth
            else if \<not> is_manual \<and> report_digest \<noteq> None then Inl ReportDigestNeedsReauth
            else if is_manual \<and> \<not> reauth_ok req then Inl ReauthRefused
            else let verification = verify_ledger query case_id dsn;
                     head_digest = (case report_digest of Some d \<Rightarrow> d | None \<Rightarrow> head_hash verification);
                     receipt = (case anchor_head head_digest of Some r \<Rightarrow> r | None \<Rightarrow> failed_receipt)
                 in if record_ok
                    then Inr \<lparr>returned = Some receipt, recorded = [(case_id, receipt, session req)], submitted = [head_digest]\<rparr>
                    else Inl DbFailed)"

section \<open>Linked chains\<close>

fun linked :: "int \<Rightarrow> string \<Rightarrow> custody_event list \<Rightarrow> bool" where
  "linked n h [] = True"
| "linked n h (e # es) = (seq e = n \<and> column_str (prev_hash e) = h \<and>
     linked (n + 1) (column_str (event_hash e)) es)"

fun chain_head :: "string \<Rightarrow> custody_event list \<Rightarrow> string" where
  "chain_head h [] = h"
| "chain_head h (e # es) = chain_head (column_str (event_hash e)) es"

lemma chain_head_last: "chain_head h es = (if es = [] then h else column_str (event_hash (last es)))"
  by (induction es arbitrary: h) auto

lemma verify_linked:
  "linked n h es \<Longrightarrow> verify_from n h es =
     \<lparr>consistent = True, head_seq = n + int (length es) - 1, head_hash = chain_head h es, broken_at_seq = None\<rparr>"
  by (induction es arbitrary: n h) (auto simp: Let_def)

lemma consistent_iff_linked: "consistent (verify_from n h es) \<longleftrightarrow> linked n h es"
  by (induction es arbitrary: n h) (auto simp: Let_def)

lemma linked_appendD: "linked n h (xs @ ys) \<Longrightarrow> linked n h xs"
  by (induction xs arbitrary: n h) auto

text \<open>The condition on one event: its number is its position and it names the hash before it.\<close>

definition link_ok :: "custody_event list \<Rightarrow> nat \<Rightarrow> bool" where
  "link_ok es i \<longleftrightarrow> seq (es ! i) = int i + 1 \<and>
     column_str (prev_hash (es ! i)) = (if i = 0 then [] else column_str (event_hash (es ! (i - 1))))"

lemma linked_nth:
  "linked n h es \<longleftrightarrow> (\<forall>i < length es. seq (es ! i) = n + int i \<and>
     column_str (prev_hash (es ! i)) = (if i = 0 then h else column_str (event_hash (es ! (i - 1)))))"
proof (induction es arbitrary: n h)
  case (Cons e es)
  have hash: "(if i = 0 then column_str (event_hash e) else column_str (event_hash (es ! (i - 1)))) =
      column_str (event_hash ((e # es) ! i))" for i by (cases i) auto
  show ?case unfolding linked.simps Cons.IH length_Cons All_less_Suc2 hash
    by (simp add: add.assoc add.commute add.left_commute)
qed simp

lemma linked_link_ok: "linked 1 [] es \<longleftrightarrow> (\<forall>i < length es. link_ok es i)"
  unfolding linked_nth link_ok_def by (simp add: add.commute)

lemma verify_from_break:
  "linked n h xs \<Longrightarrow> seq e \<noteq> n + int (length xs) \<or> column_str (prev_hash e) \<noteq> chain_head h xs \<Longrightarrow>
   verify_from n h (xs @ e # ys) =
     \<lparr>consistent = False, head_seq = seq e, head_hash = column_str (event_hash e), broken_at_seq = Some (seq e)\<rparr>"
proof (induction xs arbitrary: n h)
  case (Cons x xs)
  then show ?case using Cons.IH [of "n + 1" "column_str (event_hash x)"] by (auto simp: Let_def)
qed (auto simp: Let_def)

lemma verify_reports_break:
  assumes "i < length es" "\<not> link_ok es i" "\<forall>j < i. link_ok es j"
  shows "verify_chain_linkage es =
    \<lparr>consistent = False, head_seq = seq (es ! i), head_hash = column_str (event_hash (es ! i)),
     broken_at_seq = Some (seq (es ! i))\<rparr>"
proof -
  have es: "es = take i es @ es ! i # drop (Suc i) es" using assms(1) by (rule id_take_nth_drop)
  have pre: "linked 1 [] (take i es)"
    using assms(1,3) unfolding linked_link_ok by (simp add: link_ok_def)
  have "seq (es ! i) \<noteq> 1 + int (length (take i es)) \<or>
      column_str (prev_hash (es ! i)) \<noteq> chain_head [] (take i es)"
    using assms(1,2) by (auto simp: link_ok_def chain_head_last last_conv_nth split: if_splits)
  from verify_from_break [OF pre this, of "drop (Suc i) es"] es show ?thesis
    by (simp add: verify_chain_linkage_def)
qed

text \<open>C22. Ledger verification decides the linkage of the chain.  It reports a consistent
  ledger exactly when every event carries its position as number and the hash of its
  predecessor, with the length and the hash of the last event as head; otherwise it
  reports the first event for which this fails.\<close>

theorem ledger_verification_exact:
  "if \<forall>i < length es. link_ok es i
   then verify_chain_linkage es =
     \<lparr>consistent = True, head_seq = int (length es), head_hash = chain_head [] es, broken_at_seq = None\<rparr>
   else \<exists>i < length es. \<not> link_ok es i \<and> (\<forall>j < i. link_ok es j) \<and>
     verify_chain_linkage es =
       \<lparr>consistent = False, head_seq = seq (es ! i), head_hash = column_str (event_hash (es ! i)),
        broken_at_seq = Some (seq (es ! i))\<rparr>"
proof (cases "\<forall>i < length es. link_ok es i")
  case True
  then show ?thesis
    using verify_linked [of 1 "[]" es] by (simp add: linked_link_ok verify_chain_linkage_def)
next
  case False
  then obtain k where "k < length es \<and> \<not> link_ok es k" by blast
  then obtain i where i: "i < length es \<and> \<not> link_ok es i" "\<forall>j < i. \<not> (j < length es \<and> \<not> link_ok es j)"
    using exists_least_iff [of "\<lambda>i. i < length es \<and> \<not> link_ok es i"] by blast
  then have "\<forall>j < i. link_ok es j" by auto
  with i(1) verify_reports_break [of i es] False show ?thesis by auto
qed

text \<open>Tampering inside a consistent ledger is found: deleting an event, or replacing the
  stored hash of an event, is reported at the event after it.  The last event has no
  successor that vouches for it.\<close>

theorem ledger_detects_tampering:
  assumes "consistent (verify_chain_linkage es)" and "Suc i < length es"
  shows "broken_at_seq (verify_chain_linkage (take i es @ drop (Suc i) es)) = Some (int i + 2) \<and>
    (column_str (Some h) \<noteq> column_str (event_hash (es ! i)) \<longrightarrow>
      broken_at_seq (verify_chain_linkage (es[i := (es ! i)\<lparr>event_hash := Some h\<rparr>])) = Some (int i + 2))"
proof -
  have ok: "\<forall>j < length es. link_ok es j"
    using assms(1) by (simp add: verify_chain_linkage_def consistent_iff_linked linked_link_ok)
  let ?d = "take i es @ drop (Suc i) es" and ?m = "es[i := (es ! i)\<lparr>event_hash := Some h\<rparr>]"
  have nd: "?d ! j = es ! j" if "j < i" for j using that assms(2) by (simp add: nth_append)
  have di: "?d ! i = es ! Suc i" using assms(2) by (simp add: nth_append)
  have "broken_at_seq (verify_chain_linkage ?d) = Some (seq (es ! Suc i))"
  proof (subst verify_reports_break [of i])
    show "i < length ?d" using assms(2) by simp
    show "\<not> link_ok ?d i" using ok assms(2) by (simp add: link_ok_def di)
    show "\<forall>j < i. link_ok ?d j" using ok assms(2) by (simp add: link_ok_def nd)
  qed (simp add: di)
  moreover have "broken_at_seq (verify_chain_linkage ?m) = Some (seq (es ! Suc i))"
    if "column_str (Some h) \<noteq> column_str (event_hash (es ! i))"
  proof (subst verify_reports_break [of "Suc i"])
    show "Suc i < length ?m" using assms(2) by simp
    have "link_ok es (Suc i)" using ok assms(2) by blast
    with that assms(2) show "\<not> link_ok ?m (Suc i)" by (auto simp: link_ok_def)
    show "\<forall>j < Suc i. link_ok ?m j"
    proof (intro allI impI)
      fix j assume "j < Suc i"
      with ok assms(2) have "link_ok es j" by simp
      with \<open>j < Suc i\<close> assms(2) show "link_ok ?m j" by (auto simp: link_ok_def nth_list_update)
    qed
  qed (use assms(2) in simp)
  moreover have "seq (es ! Suc i) = int i + 2" using ok assms(2) by (auto simp: link_ok_def)
  ultimately show ?thesis by simp
qed

section \<open>Exports and anchors\<close>

text \<open>An export describes one state of the ledger: the head it records, with or without a
  break, is the verification of exactly the events it embeds, and when that is
  consistent the head is the last embedded event; the digest recorded is that of the document; an object is described as sealed only
  with an active membership in a numbered manifest.\<close>

theorem export_matches_its_events:
  assumes "generate_export query record_ok hash_doc actor case_id dsn = Inr (ex, rw)"
  shows "doc_verification (document ex) = verify_chain_linkage (doc_custody_events (document ex)) \<and>
    source_ledger_head ex = head_hash (doc_verification (document ex)) \<and>
    rec_digest rw = export_digest ex \<and> export_digest ex = ''sha256:'' @ hash_doc (document ex) \<and> record_ok rw \<and>
    (consistent (doc_verification (document ex)) \<longrightarrow>
      source_ledger_head ex = chain_head [] (doc_custody_events (document ex)) \<and>
      head_seq (doc_verification (document ex)) = int (length (doc_custody_events (document ex)))) \<and>
    (\<forall>eo \<in> set (doc_objects (document ex)). eo_current_version eo \<noteq> None \<longrightarrow>
      (\<exists>snap r. query case_id = Some snap \<and> r \<in> set (snap_objects snap) \<and>
        object_id r = eo_object_id eo \<and> membership_status r = Some ''ACTIVE'' \<and> row_manifest_version r \<noteq> None))"
proof -
  from assms obtain snap where q: "query case_id = Some snap"
    and d: "document ex = \<lparr>doc_schema_version = EXPORT_SCHEMA_VERSION, doc_case_id = case_id,
        doc_objects = export_objects (snap_objects snap),
        doc_manifest_versions = snap_manifests snap, doc_custody_events = snap_events snap,
        doc_verification = verify_chain_linkage (snap_events snap), doc_solana_receipts = snap_receipts snap\<rparr>"
    and h: "source_ledger_head ex = head_hash (verify_chain_linkage (snap_events snap))"
    and r: "rec_digest rw = export_digest ex \<and> export_digest ex = ''sha256:'' @ hash_doc (document ex) \<and> record_ok rw"
    by (auto simp: generate_export_def Let_def split: if_splits option.splits)
  have sealed: "\<exists>r \<in> set rows. object_id r = eo_object_id eo \<and> membership_status r = Some ''ACTIVE'' \<and>
      row_manifest_version r \<noteq> None"
    if "eo \<in> set (export_objects rows)" "eo_current_version eo \<noteq> None" for eo rows
    using that by (auto simp: export_objects_def split: option.splits if_splits)
  have head: "head_hash (verify_chain_linkage es) = chain_head [] es \<and>
      head_seq (verify_chain_linkage es) = int (length es)" if "consistent (verify_chain_linkage es)" for es
    using that verify_linked [of 1 "[]" es] by (simp add: verify_chain_linkage_def consistent_iff_linked)
  have "\<exists>snap r. query case_id = Some snap \<and> r \<in> set (snap_objects snap) \<and>
      object_id r = eo_object_id eo \<and> membership_status r = Some ''ACTIVE'' \<and> row_manifest_version r \<noteq> None"
    if "eo \<in> set (doc_objects (document ex))" "eo_current_version eo \<noteq> None" for eo
    using sealed [of eo "snap_objects snap"] that q by (simp add: d) blast
  moreover have "doc_verification (document ex) = verify_chain_linkage (doc_custody_events (document ex))"
    by (simp add: d)
  ultimately show ?thesis using h r head [of "snap_events snap"] by (simp add: d)
qed

text \<open>The head is chosen by the server: an anchoring that submits a digest other than the
  head of the ledger has passed a re-authentication with all four fields, and so has one
  with any field; every submission is recorded with the receipt that is returned, also
  when the service raises.\<close>

theorem anchor_is_server_selected_and_recorded:
  assumes "anchor_manifest_head query reauth_ok record_ok anchorer req report_digest case_id dsn = Inr run"
  shows "length (submitted run) \<le> 1 \<and> length (recorded run) = length (submitted run) \<and>
    (\<forall>d \<in> set (submitted run). recorded run = [(case_id, the (returned run), session req)] \<and>
      (d = head_hash (verify_ledger query case_id dsn) \<or> report_digest = Some d) \<and>
      (report_digest \<noteq> None \<or> list_ex id (reauth_fields req) \<longrightarrow>
        list_all id (reauth_fields req) \<and> reauth_ok req) \<and>
      (\<exists>f. anchorer = Some f \<and> returned run = Some (case f d of Some r \<Rightarrow> r | None \<Rightarrow> failed_receipt)))"
proof (cases "anchorer = None \<or> case_id = [] \<or> dsn = None \<or> dsn = Some []")
  case True
  then have "anchor_manifest_head query reauth_ok record_ok anchorer req report_digest case_id dsn =
      Inr \<lparr>returned = None, recorded = [], submitted = []\<rparr>"
    unfolding anchor_manifest_head_def by (cases anchorer) simp_all
  with assms have "run = \<lparr>returned = None, recorded = [], submitted = []\<rparr>" by simp
  then show ?thesis by simp
next
  case False
  then obtain f where f: "anchorer = Some f" by (cases anchorer) auto
  have nocase: "(case_id = [] \<or> dsn = None \<or> dsn = Some []) = False" using False by blast
  let ?manual = "list_ex id (reauth_fields req)"
  let ?d = "case report_digest of Some d \<Rightarrow> d | None \<Rightarrow> head_hash (verify_ledger query case_id dsn)"
  let ?r = "case f ?d of Some r \<Rightarrow> r | None \<Rightarrow> failed_receipt"
  have "anchor_manifest_head query reauth_ok record_ok anchorer req report_digest case_id dsn =
     (if ?manual \<and> \<not> list_all id (reauth_fields req) then Inl PartialReauth
      else if \<not> ?manual \<and> report_digest \<noteq> None then Inl ReportDigestNeedsReauth
      else if ?manual \<and> \<not> reauth_ok req then Inl ReauthRefused
      else if record_ok then Inr \<lparr>returned = Some ?r, recorded = [(case_id, ?r, session req)], submitted = [?d]\<rparr> else Inl DbFailed)"
    unfolding anchor_manifest_head_def Let_def f option.case using nocase by (simp only: if_False)
  with assms have "?manual \<longrightarrow> list_all id (reauth_fields req) \<and> reauth_ok req"
    and "report_digest \<noteq> None \<longrightarrow> ?manual"
    and run: "run = \<lparr>returned = Some ?r, recorded = [(case_id, ?r, session req)], submitted = [?d]\<rparr>"
    by (auto split: if_splits)
  then show ?thesis using f by (cases report_digest) (simp_all add: run)
qed

definition sample_chain :: "custody_event list" where
  "sample_chain = map (\<lambda>(n, p, h). \<lparr>seq = n, event_type = ''SEAL'', event_manifest_version = None,
     prev_hash = p, event_hash = Some h, event_object_id = None, reauth_audit_event_id = None, event_created_at = None\<rparr>)
     [(1, None, ''a''), (2, Some ''a'', ''b''), (3, Some ''b'', ''c'')]"

lemma sample_consistent: "consistent (verify_chain_linkage sample_chain)"
  by code_simp

theorem ledger_verification_exact_witness:
  "head_seq (verify_chain_linkage sample_chain) = 3 \<and> head_hash (verify_chain_linkage sample_chain) = ''c''"
proof -
  have "\<forall>i < length sample_chain. link_ok sample_chain i"
    using sample_consistent by (simp add: verify_chain_linkage_def consistent_iff_linked linked_link_ok)
  with ledger_verification_exact [of sample_chain] have
    "head_seq (verify_chain_linkage sample_chain) = int (length sample_chain)"
    "head_hash (verify_chain_linkage sample_chain) = chain_head [] sample_chain" by simp_all
  then show ?thesis by (simp add: sample_chain_def column_str_def)
qed

theorem ledger_detects_tampering_witness:
  "broken_at_seq (verify_chain_linkage (take 1 sample_chain @ drop 2 sample_chain)) = Some 3"
proof -
  have "Suc 1 < length sample_chain" by (simp add: sample_chain_def)
  from ledger_detects_tampering [OF sample_consistent this] show ?thesis
    by (simp add: numeral_2_eq_2)
qed

theorem export_matches_its_events_witness:
  "\<exists>ex rw. generate_export (\<lambda>_. Some \<lparr>snap_objects = [], snap_manifests = [], snap_events = sample_chain, snap_receipts = []\<rparr>)
      (\<lambda>_. True) (\<lambda>_. ''00'') ''op'' ''case'' (Some ''dsn'') = Inr (ex, rw) \<and>
    doc_verification (document ex) = verify_chain_linkage (doc_custody_events (document ex))"
proof -
  let ?q = "\<lambda>_. Some \<lparr>snap_objects = [], snap_manifests = [], snap_events = sample_chain, snap_receipts = []\<rparr>"
  obtain ex rw where g: "generate_export ?q (\<lambda>_. True) (\<lambda>_. ''00'') ''op'' ''case'' (Some ''dsn'') = Inr (ex, rw)"
    by (simp add: generate_export_def Let_def)
  from export_matches_its_events [OF g] g show ?thesis by blast
qed

theorem anchor_is_server_selected_and_recorded_witness:
  "\<exists>run. anchor_manifest_head (\<lambda>_. Some sample_chain) (\<lambda>_. True) True (Some (\<lambda>_. None))
      \<lparr>session = None, password = None, reason = None, idempotency_key = None\<rparr> None ''case'' (Some ''dsn'') = Inr run \<and>
    recorded run = [(''case'', the (returned run), None)] \<and> submitted run = [''c'']"
proof -
  let ?run = "\<lparr>returned = Some failed_receipt, recorded = [(''case'', failed_receipt, None)], submitted = [''c'']\<rparr>"
  have r: "anchor_manifest_head (\<lambda>_. Some sample_chain) (\<lambda>_. True) True (Some (\<lambda>_. None))
      \<lparr>session = None, password = None, reason = None, idempotency_key = None\<rparr> None ''case'' (Some ''dsn'') = Inr ?run"
    by code_simp
  from anchor_is_server_selected_and_recorded [OF r] r show ?thesis by auto
qed

text \<open>The limits of verification: a ledger cut off at its end is consistent, since no hash is
  recomputed and nothing records the length; and the head of a broken ledger is anchored
  like any other.\<close>

lemma truncated_ledger_is_consistent:
  "consistent (verify_chain_linkage es) \<Longrightarrow> consistent (verify_chain_linkage (take k es))"
  unfolding verify_chain_linkage_def consistent_iff_linked by (metis append_take_drop_id linked_appendD)

lemma broken_head_is_anchored:
  "submitted (projr (anchor_manifest_head (\<lambda>_. Some (tl sample_chain)) (\<lambda>_. True) True (Some (\<lambda>_. None))
      \<lparr>session = None, password = None, reason = None, idempotency_key = None\<rparr> None ''case'' (Some ''dsn''))) = [''b''] \<and>
   \<not> consistent (verify_chain_linkage (tl sample_chain))"
  by code_simp

end
