(* ===== verification/Triage_Paths.thy ===== *)
theory Triage_Paths
  imports Py_String
begin

text \<open>
  Normal forms for baseline lookups: \<open>windows_triage_mcp/analysis/paths.py\<close> (Windows paths,
  service image paths) and \<open>windows_triage_mcp/analysis/hashes.py\<close> (file hashes).

  Shown here: the normal form of a path is in lower case, with one kind of separator and
  none at its end, and does not depend on the letter case of the input; directory and file
  name of a normal path make up the path; a valid hash has one normal form, an algorithm and
  a column, and spaces, case and a prefix do not matter.
\<close>

abbreviation bslash :: char where "bslash \<equiv> CHR 0x5C"

definition win :: "string list \<Rightarrow> string" where
  "win names = concat (map (\<lambda>n. bslash # n) names)"

section \<open>Paths\<close>

definition ENV_EXPANSIONS :: "(string \<times> string) list" where
  "ENV_EXPANSIONS =
    [(''%windir%'', win [''windows'']), (''%systemroot%'', win [''windows'']),
     (''%programfiles%'', win [''program files'']), (''%programfiles(x86)%'', win [''program files (x86)'']),
     (''%programdata%'', win [''programdata'']), (''%allusersprofile%'', win [''programdata'']),
     (''%systemdrive%'', []), (win [''systemroot'', []], win [''windows'', []])]"

fun expand_env :: "(string \<times> string) list \<Rightarrow> string \<Rightarrow> string" where
  "expand_env [] path = path"
| "expand_env ((placeholder, replacement) # items) path =
     (if startswith path placeholder then replacement @ drop (length placeholder) path
      else expand_env items path)"

definition strip_drive :: "string \<Rightarrow> string" where
  "strip_drive path = (if length path > 2 \<and> path ! 1 = CHR '':'' then drop 2 path else path)"

definition rstrip_char :: "char \<Rightarrow> string \<Rightarrow> string" where
  "rstrip_char c s = rev (dropWhile (\<lambda>x. x = c) (rev s))"

definition normalize_path :: "string \<Rightarrow> string" where
  "normalize_path path =
     (if path = [] then path
      else let p = replace_char CHR ''/'' bslash (strip_drive (expand_env ENV_EXPANSIONS (lower path)));
               stripped = rstrip_char bslash p
           in if stripped = [] then [bslash] else stripped)"

definition extract_filename :: "string \<Rightarrow> string" where
  "extract_filename path =
     (if path = [] then [] else lower (after_last bslash (replace_char CHR ''/'' bslash path)))"

text \<open>\<open>s.rfind(c)\<close> cuts the text before its last \<open>c\<close>, if there is one.\<close>

definition before_last :: "char \<Rightarrow> string \<Rightarrow> string option" where
  "before_last c s = (if c \<in> set s then Some (rev (tl (dropWhile (\<lambda>x. x \<noteq> c) (rev s)))) else None)"

definition extract_directory :: "string \<Rightarrow> string" where
  "extract_directory path =
     (if path = [] then []
      else let normalized = normalize_path path in
        if normalized = [] then []
        else case before_last bslash normalized of
          None \<Rightarrow> []
        | Some d \<Rightarrow> if d = [] then [bslash] else d)"

definition SYSTEM_DIRECTORIES :: "string list" where
  "SYSTEM_DIRECTORIES =
    [win [''windows'', ''system32''], win [''windows'', ''syswow64''], win [''windows'', ''winsxs''],
     win [''windows''], win [''program files''], win [''program files (x86)'']]"

definition is_system_path :: "string \<Rightarrow> bool" where
  "is_system_path path =
     (let normalized = normalize_path path in
      normalized \<noteq> [] \<and>
      list_ex (\<lambda>sys_dir. normalized = sys_dir \<or> startswith normalized (sys_dir @ [bslash])) SYSTEM_DIRECTORIES)"

definition SUSPICIOUS_DIRECTORIES :: "string list" where
  "SUSPICIOUS_DIRECTORIES =
    [win [''temp''], win [''tmp''], win [''appdata'', ''local'', ''temp''], win [''appdata'', ''roaming''],
     win [''users'', ''public''], win [''programdata''], win [''windows'', ''temp''], win [''downloads''],
     win [''desktop''], win [''perflogs''], win [''intel''], win [''recycler''], win [''$recycle.bin'']]"

text \<open>The findings of \<open>check_suspicious_path\<close>: the first directory found, without its separator.\<close>

definition check_suspicious_path :: "string \<Rightarrow> string list" where
  "check_suspicious_path path =
     (case find (contains (normalize_path path)) SUSPICIOUS_DIRECTORIES of
        None \<Rightarrow> []
      | Some suspicious \<Rightarrow> [dropWhile (\<lambda>c. c = bslash) suspicious])"

text \<open>The shortest beginning that ends in an executable extension and holds no quote:
  \<open>^([^"]*?\.(exe|sys|dll|ocx))\<close> without regard to case.\<close>

definition EXE_SUFFIXES :: "string list" where
  "EXE_SUFFIXES = [''.exe'', ''.sys'', ''.dll'', ''.ocx'']"

fun exe_prefix :: "string \<Rightarrow> string option" where
  "exe_prefix [] = None"
| "exe_prefix (c # s) =
     (if list_ex (\<lambda>x. startswith (lower (c # s)) x) EXE_SUFFIXES then Some (take 4 (c # s))
      else if c = CHR 0x22 then None
      else map_option (\<lambda>r. c # r) (exe_prefix s))"

definition service_path_text :: "string \<Rightarrow> string" where
  "service_path_text path =
     (if startswith path [CHR 0x22] then before_char (CHR 0x22) (tl path)
      else case exe_prefix path of
        Some p \<Rightarrow> p
      | None \<Rightarrow>
          (let head = before_char (CHR '' '') path in
           if CHR '' '' \<in> set path \<and> head \<noteq> [] then head else path))"

definition parse_service_binary_path :: "string \<Rightarrow> string" where
  "parse_service_binary_path image_path =
     (if image_path = [] then []
      else let path = service_path_text (strip image_path) in
        normalize_path (if startswith (lower path) (''system32'' @ [bslash])
                        then win [''windows'', ''system32'', []] @ drop 9 path else path))"

section \<open>Hashes\<close>

definition HASH_LENGTHS :: "(nat \<times> string) list" where
  "HASH_LENGTHS = [(32, ''md5''), (40, ''sha1''), (64, ''sha256'')]"

definition HASH_PREFIXES :: "string list" where
  "HASH_PREFIXES = [''md5:'', ''sha1:'', ''sha256:'', ''sha-1:'', ''sha-256:'']"

definition is_hex :: "char \<Rightarrow> bool" where
  "is_hex c \<longleftrightarrow> in_range 48 57 c \<or> in_range 65 70 c \<or> in_range 97 102 c"

definition drop_prefix :: "string \<Rightarrow> string" where
  "drop_prefix s = (case find (startswith s) HASH_PREFIXES of None \<Rightarrow> s | Some p \<Rightarrow> drop (length p) s)"

definition normalize_hash :: "string \<Rightarrow> string" where
  "normalize_hash hash_str = drop_prefix (lower (strip hash_str))"

definition detect_hash_algorithm :: "string option \<Rightarrow> string option" where
  "detect_hash_algorithm hash_str =
     (case hash_str of
        None \<Rightarrow> None
      | Some s \<Rightarrow>
          (let t = lower (strip s) in
           if t = [] then None else map_of HASH_LENGTHS (length (drop_prefix t))))"

text \<open>\<open>^[a-fA-F0-9]+$\<close> matches at the end or before one line break at the end.\<close>

definition hex_match :: "string \<Rightarrow> bool" where
  "hex_match s \<longleftrightarrow> (let t = (if s \<noteq> [] \<and> code (last s) = 10 then butlast s else s) in
     t \<noteq> [] \<and> list_all is_hex t)"

definition validate_hash :: "string \<Rightarrow> bool" where
  "validate_hash hash_str =
     (let s = drop_prefix (lower (strip hash_str)) in
      length s \<in> fst ` set HASH_LENGTHS \<and> hex_match s)"

datatype hash_error = UnknownAlgorithm string

definition get_hash_column :: "string \<Rightarrow> hash_error + string" where
  "get_hash_column algorithm =
     (let a = filter (\<lambda>c. c \<noteq> CHR ''-'') (lower algorithm) in
      if a \<in> set [''md5'', ''sha1'', ''sha256''] then Inr a else Inl (UnknownAlgorithm a))"

definition parse_hash_with_algorithm :: "string option \<Rightarrow> string option \<times> string option" where
  "parse_hash_with_algorithm hash_str =
     (case hash_str of
        None \<Rightarrow> (None, None)
      | Some s \<Rightarrow>
          (let normalized = normalize_hash s; algorithm = detect_hash_algorithm (Some normalized)
           in if algorithm = None then (None, None) else (Some normalized, algorithm)))"

section \<open>Normal paths\<close>

lemma rstrip_char_last: "rstrip_char c s = [] \<or> last (rstrip_char c s) \<noteq> c"
proof (cases "dropWhile (\<lambda>x. x = c) (rev s)")
  case (Cons x xs)
  then have "x \<noteq> c" using hd_dropWhile [of "\<lambda>x. x = c" "rev s"] by auto
  with Cons show ?thesis by (simp add: rstrip_char_def)
qed (simp add: rstrip_char_def)

lemma set_rstrip_char: "set (rstrip_char c s) \<subseteq> set s"
  unfolding rstrip_char_def by (auto dest: set_dropWhileD)

lemma set_expand_env:
  "set (expand_env items s) \<subseteq> set s \<union> (\<Union>(p, r) \<in> set items. set r)"
proof (induction items s rule: expand_env.induct)
  case (2 p r items s)
  then show ?case using set_drop_subset [of "length p" s] by auto
qed simp

lemma set_replace_char: "set (replace_char a b s) \<subseteq> insert b (set s - {a})"
  by (auto simp: replace_char_def)

lemma lower_id: "lower s = s \<longleftrightarrow> (\<forall>c \<in> set s. lower_char c = c)"
  by (induction s) (auto simp: lower_def)

lemma lower_chars_closed: "c \<in> set (lower s) \<Longrightarrow> lower_char c = c"
  by (auto simp: lower_def)

lemma expansions_lower:
  "c \<in> (\<Union>(p, r) \<in> set ENV_EXPANSIONS. set r) \<Longrightarrow> lower_char c = c"
  by (auto simp: ENV_EXPANSIONS_def win_def)

lemma expanded_lower: "c \<in> set (expand_env ENV_EXPANSIONS (lower s)) \<Longrightarrow> lower_char c = c"
  using set_expand_env [of ENV_EXPANSIONS "lower s"] lower_chars_closed expansions_lower by blast

lemma set_strip_drive: "set (strip_drive s) \<subseteq> set s"
  by (auto simp: strip_drive_def dest: in_set_dropD)

lemma normalize_path_nonempty:
  "path \<noteq> [] \<Longrightarrow> normalize_path path =
     (let stripped = rstrip_char bslash (replace_char CHR ''/'' bslash
        (strip_drive (expand_env ENV_EXPANSIONS (lower path))))
      in if stripped = [] then [bslash] else stripped)"
  by (simp add: normalize_path_def Let_def)

lemma path_shape:
  assumes "path \<noteq> []"
  shows "lower (normalize_path path) = normalize_path path"
    and "CHR ''/'' \<notin> set (normalize_path path)" and "normalize_path path \<noteq> []"
    and "last (normalize_path path) = bslash \<Longrightarrow> normalize_path path = [bslash]"
proof -
  let ?e = "expand_env ENV_EXPANSIONS (lower path)"
  let ?s = "rstrip_char bslash (replace_char CHR ''/'' bslash (strip_drive ?e))"
  have n: "normalize_path path = (if ?s = [] then [bslash] else ?s)"
    using assms by (simp add: normalize_path_nonempty Let_def)
  have chars: "set ?s \<subseteq> insert bslash (set ?e - {CHR ''/''})"
    using set_rstrip_char set_replace_char set_strip_drive [of ?e] by fast
  have "lower ?s = ?s" unfolding lower_id using chars expanded_lower [of _ path] by auto
  then show "lower (normalize_path path) = normalize_path path" by (simp add: n lower_def)
  show "CHR ''/'' \<notin> set (normalize_path path)" using chars by (auto simp: n)
  show "normalize_path path \<noteq> []" by (simp add: n)
  show "normalize_path path = [bslash]" if "last (normalize_path path) = bslash"
    using that rstrip_char_last [of bslash] by (auto simp: n split: if_splits)
qed

text \<open>Paths are compared in one form: the normal form of a path is in lower case, holds no
  forward slash, is never empty and ends in a separator only when it is the root; two
  paths that differ in letter case only have the same normal form.\<close>

theorem path_normal_form:
  assumes "path \<noteq> []"
  shows "lower (normalize_path path) = normalize_path path \<and> CHR ''/'' \<notin> set (normalize_path path) \<and>
    normalize_path path \<noteq> [] \<and>
    (last (normalize_path path) = bslash \<longrightarrow> normalize_path path = [bslash]) \<and>
    (lower other = lower path \<longrightarrow> normalize_path other = normalize_path path)"
proof -
  have "normalize_path other = normalize_path path" if "lower other = lower path"
  proof -
    have "other \<noteq> []" using that assms by (auto simp: lower_def)
    with that assms show ?thesis by (simp add: normalize_path_nonempty)
  qed
  with path_shape [OF assms] show ?thesis by blast
qed

text \<open>Splitting at the last separator.\<close>

lemma split_last_char:
  assumes "c \<in> set s"
  shows "\<exists>d. before_last c s = Some d \<and> s = d @ c # after_last c s"
proof -
  have "rev s = takeWhile (\<lambda>x. x \<noteq> c) (rev s) @ dropWhile (\<lambda>x. x \<noteq> c) (rev s)" by simp
  moreover obtain t where "dropWhile (\<lambda>x. x \<noteq> c) (rev s) = c # t"
    using assms hd_dropWhile [of "\<lambda>x. x \<noteq> c" "rev s"]
    by (metis (mono_tags, lifting) dropWhile_eq_Nil_conv list.exhaust_sel set_rev)
  ultimately have "s = rev t @ c # after_last c s" "before_last c s = Some (rev t)"
    using assms by (metis after_last_def append.assoc append_Cons append_Nil rev.simps(2) rev_append rev_rev_ident)
      (simp add: before_last_def \<open>dropWhile _ _ = _\<close> assms)
  then show ?thesis by blast
qed

text \<open>Directory and file name make up a normal path: the file name holds no separator, and
  with a separator and the directory before it it is the whole path; the directory of a
  path right under the root is the root.\<close>

theorem directory_and_filename_partition:
  assumes "path \<noteq> []" and "bslash \<in> set (normalize_path path)"
  shows "\<exists>d. normalize_path path = d @ bslash # extract_filename (normalize_path path) \<and>
    extract_directory path = (if d = [] then [bslash] else d) \<and>
    bslash \<notin> set (extract_filename (normalize_path path))"
proof -
  let ?n = "normalize_path path"
  note nf = path_shape [OF assms(1)]
  have "replace_char CHR ''/'' bslash ?n = ?n"
    unfolding replace_char_def using nf(2) by (auto intro!: map_idI)
  moreover have "lower (after_last bslash ?n) = after_last bslash ?n"
    using nf(1) unfolding lower_id after_last_def by (auto dest: set_takeWhileD)
  ultimately have f: "extract_filename ?n = after_last bslash ?n"
    using nf(3) by (simp add: extract_filename_def)
  from split_last_char [OF assms(2)] obtain d where
    d: "before_last bslash ?n = Some d" "?n = d @ bslash # after_last bslash ?n" by blast
  have "extract_directory path = (if d = [] then [bslash] else d)"
    using assms(1) nf(3) d(1) by (simp add: extract_directory_def Let_def)
  with d(2) f after_last_notin [of bslash ?n] show ?thesis by metis
qed

definition sample_path :: string where
  "sample_path = ''C:'' @ win [''Windows'', ''System32''] @ ''/CMD.exe''"

lemma sample_path_normal: "sample_path \<noteq> []" "normalize_path sample_path = win [''windows'', ''system32'', ''cmd.exe'']"
  by code_simp+

theorem path_normal_form_witness:
  "normalize_path (lower sample_path) = win [''windows'', ''system32'', ''cmd.exe'']"
  using path_normal_form [OF sample_path_normal(1), of "lower sample_path"]
  by (simp add: sample_path_normal(2))

theorem directory_and_filename_partition_witness:
  "\<exists>d. win [''windows'', ''system32'', ''cmd.exe''] = d @ bslash # extract_filename (win [''windows'', ''system32'', ''cmd.exe'']) \<and>
     extract_directory sample_path = (if d = [] then [bslash] else d)"
proof -
  have "bslash \<in> set (normalize_path sample_path)" by code_simp
  from directory_and_filename_partition [OF sample_path_normal(1) this] show ?thesis
    unfolding sample_path_normal(2) by blast
qed

section \<open>Hashes in normal form\<close>

lemma strip_last: "strip s \<noteq> [] \<Longrightarrow> \<not> isspace (last (strip s))"
  unfolding strip_def strip_by_def using hd_dropWhile [of isspace "rev (dropWhile isspace s)"]
  by (simp add: last_rev)

lemma dropWhile_hd: "s \<noteq> [] \<Longrightarrow> \<not> P (hd s) \<Longrightarrow> dropWhile P s = s"
  by (cases s) auto

lemma strip_id: "s \<noteq> [] \<Longrightarrow> \<not> isspace (hd s) \<Longrightarrow> \<not> isspace (last s) \<Longrightarrow> strip s = s"
  by (simp add: strip_def strip_by_def dropWhile_hd hd_rev)

lemma lower_space: "isspace (lower_char c) = isspace c"
  using lower_char_code [of c] by (auto simp: isspace_def in_range_def split: if_splits)

lemma lower_hex: "is_hex c \<Longrightarrow> lower_char c = c \<Longrightarrow> in_range 48 57 c \<or> in_range 97 102 c"
  using lower_char_code [of c] by (auto simp: is_hex_def in_range_def split: if_splits)

lemma drop_prefix_suffix: "\<exists>p. s = p @ drop_prefix s"
  unfolding drop_prefix_def
  by (cases "find (startswith s) HASH_PREFIXES") (auto, metis append_take_drop_id)

lemma normalize_hash_last:
  "normalize_hash s \<noteq> [] \<Longrightarrow> \<not> isspace (last (normalize_hash s))"
proof -
  assume n: "normalize_hash s \<noteq> []"
  obtain p where p: "lower (strip s) = p @ normalize_hash s"
    using drop_prefix_suffix unfolding normalize_hash_def by blast
  then have "strip s \<noteq> []" "last (normalize_hash s) = last (lower (strip s))" using n by auto
  then show ?thesis using strip_last [of s] by (simp add: lower_def last_map lower_space)
qed

lemma normalize_hash_lower: "c \<in> set (normalize_hash s) \<Longrightarrow> lower_char c = c"
proof -
  assume c: "c \<in> set (normalize_hash s)"
  obtain p where "lower (strip s) = p @ normalize_hash s"
    using drop_prefix_suffix unfolding normalize_hash_def by blast
  with c have "c \<in> set (lower (strip s))" by simp
  then show ?thesis by (rule lower_chars_closed)
qed

definition hex_digits :: "string \<Rightarrow> bool" where
  "hex_digits s \<longleftrightarrow> list_all (\<lambda>c. in_range 48 57 c \<or> in_range 97 102 c) s"

lemma validate_hash_digits:
  assumes "validate_hash s"
  shows "hex_digits (normalize_hash s)" and "length (normalize_hash s) \<in> fst ` set HASH_LENGTHS"
proof -
  let ?n = "normalize_hash s"
  from assms have l: "length ?n \<in> fst ` set HASH_LENGTHS" and h: "hex_match ?n"
    by (simp_all add: validate_hash_def normalize_hash_def Let_def)
  then have "?n \<noteq> []" by (auto simp: HASH_LENGTHS_def)
  from normalize_hash_last [OF this] have "code (last ?n) \<noteq> 10"
    by (auto simp: isspace_def in_range_def)
  with h have "list_all is_hex ?n" by (simp add: hex_match_def Let_def)
  then show "hex_digits ?n"
    using lower_hex normalize_hash_lower by (auto simp: hex_digits_def list_all_iff)
  show "length ?n \<in> fst ` set HASH_LENGTHS" by (rule l)
qed

lemma hex_digits_fixed:
  assumes "hex_digits n" "n \<noteq> []"
  shows "lower (strip n) = n" and "drop_prefix n = n"
proof -
  have d: "in_range 48 57 c \<or> in_range 97 102 c" if "c \<in> set n" for c
    using assms(1) that by (auto simp: hex_digits_def list_all_iff)
  have ns: "\<not> isspace c" if "c \<in> set n" for c using d [OF that] by (auto simp: isspace_def in_range_def)
  have "lower_char c = c" if "c \<in> set n" for c
    using d [OF that] by (auto simp: lower_char_def in_range_def)
  then have "lower n = n" by (simp add: lower_id)
  moreover have "strip n = n" using assms(2) by (intro strip_id ns) auto
  ultimately show "lower (strip n) = n" by simp
  have "hd n \<noteq> CHR ''m''" "hd n \<noteq> CHR ''s''"
    using d [of "hd n"] assms(2) by (auto simp: in_range_def)
  then show "drop_prefix n = n" using assms(2)
    by (cases n) (simp_all add: drop_prefix_def HASH_PREFIXES_def)
qed

lemma valid_hash_detected:
  assumes "validate_hash s"
  shows "\<exists>a. detect_hash_algorithm (Some (normalize_hash s)) = Some a \<and> a \<in> set [''md5'', ''sha1'', ''sha256''] \<and>
    (length (normalize_hash s), a) \<in> set HASH_LENGTHS \<and> get_hash_column a = Inr a"
proof -
  let ?n = "normalize_hash s"
  note v = validate_hash_digits [OF assms]
  then have n: "?n \<noteq> []" by (auto simp: HASH_LENGTHS_def)
  from v(2) obtain a where a: "map_of HASH_LENGTHS (length ?n) = Some a"
    by (auto simp: HASH_LENGTHS_def)
  then have "(length ?n, a) \<in> set HASH_LENGTHS" by (rule map_of_SomeD)
  moreover from this have "a \<in> set [''md5'', ''sha1'', ''sha256'']" by (auto simp: HASH_LENGTHS_def)
  moreover from this have "get_hash_column a = Inr a" by (auto simp: get_hash_column_def Let_def lower_def)
  moreover have "detect_hash_algorithm (Some ?n) = Some a"
    using hex_digits_fixed [OF v(1) n] a n by (simp add: detect_hash_algorithm_def Let_def)
  ultimately show ?thesis by blast
qed

text \<open>A valid hash has one normal form.  Whatever white space, letter case and prefix it came
  with, parsing it gives hexadecimal digits in lower case and the algorithm of their
  number; that algorithm has a column of the same name, and parsing the result again
  changes nothing.\<close>

theorem valid_hash_normal_form:
  assumes "validate_hash s"
  shows "\<exists>n a. parse_hash_with_algorithm (Some s) = (Some n, Some a) \<and> hex_digits n \<and>
    (length n, a) \<in> set HASH_LENGTHS \<and> get_hash_column a = Inr a \<and>
    parse_hash_with_algorithm (Some n) = (Some n, Some a) \<and> validate_hash n"
proof -
  let ?n = "normalize_hash s"
  note v = validate_hash_digits [OF assms]
  then have "?n \<noteq> []" by (auto simp: HASH_LENGTHS_def)
  note fix_n = hex_digits_fixed [OF v(1) this]
  from valid_hash_detected [OF assms] obtain a where "(length ?n, a) \<in> set HASH_LENGTHS"
    "get_hash_column a = Inr a" "detect_hash_algorithm (Some ?n) = Some a" by blast
  moreover have norm: "normalize_hash ?n = ?n" using fix_n by (simp add: normalize_hash_def)
  moreover have "validate_hash ?n"
    using assms norm by (simp add: validate_hash_def normalize_hash_def [symmetric])
  ultimately show ?thesis using v(1)
    by (intro exI [of _ ?n] exI [of _ a]) (simp add: parse_hash_with_algorithm_def Let_def)
qed

theorem valid_hash_normal_form_witness:
  "\<exists>a. parse_hash_with_algorithm (Some (''SHA-1:'' @ replicate 40 (CHR ''A''))) = (Some (replicate 40 (CHR ''a'')), Some a)"
proof -
  let ?s = "''SHA-1:'' @ replicate 40 (CHR ''A'')"
  have v: "validate_hash ?s" and p: "fst (parse_hash_with_algorithm (Some ?s)) = Some (replicate 40 (CHR ''a''))"
    by code_simp+
  from valid_hash_normal_form [OF v] p show ?thesis by auto
qed

section \<open>Limits\<close>

text \<open>The parser of a hash looks at the length only; a directory is found suspicious when its
  name merely begins like a suspicious one; the variable \<open>\\SystemRoot\<close> is expanded with
  backward separators only.\<close>

lemma parse_accepts_any_text:
  "parse_hash_with_algorithm (Some (replicate 32 (CHR ''z''))) = (Some (replicate 32 (CHR ''z'')), Some ''md5'') \<and>
   \<not> validate_hash (replicate 32 (CHR ''z''))"
  by code_simp

lemma prefix_length_mismatch_accepted:
  "validate_hash (''md5:'' @ replicate 64 (CHR ''a'')) \<and>
   parse_hash_with_algorithm (Some (''md5:'' @ replicate 64 (CHR ''a''))) = (Some (replicate 64 (CHR ''a'')), Some ''sha256'')"
  by code_simp

lemma template_directory_is_suspicious:
  "check_suspicious_path (''C:'' @ win [''templates'', ''a.exe'']) = [''temp'']"
  by code_simp

lemma separator_decides_expansion:
  "normalize_path (win [''SystemRoot'', ''a'']) = win [''windows'', ''a''] \<and>
   normalize_path ''/SystemRoot/a'' = win [''systemroot'', ''a'']"
  by code_simp

end
