(* ===== verification/Triage_Unicode.thy ===== *)
theory Triage_Unicode
  imports Sift_Prelude "HOL-Library.List_Lexorder" "HOL-Library.Product_Lexorder" "HOL-Library.Char_ord"
begin

text \<open>
  Disguised names: \<open>windows_triage_mcp/analysis/unicode.py\<close>.

  A text is the list of its Unicode code points.  What the code asks of the Unicode tables of
  the standard library is a parameter: \<open>u_lower\<close> is \<open>str.lower\<close>, \<open>u_script\<close> is the first word of
  the name of an alphabetic character.  A finding keeps its type, severity, description,
  position, target and distance; keys that only repeat the input are left out.

  Shown here: the row-by-row computation of the edit distance returns the least number of
  single-character edits; the length test before it loses no match, and the name reported is
  a closest one; a name passes exactly when it holds no invisible, reversing or lookalike
  character, mixes no scripts, and is no leet, lookalike or near spelling of a protected name.
\<close>

section \<open>Texts and findings\<close>

type_synonym utext = "nat list"

abbreviation u :: "string \<Rightarrow> utext" where
  "u s \<equiv> map of_char s"

record ucd =
  u_lower :: "utext \<Rightarrow> utext"
  u_script :: "nat \<Rightarrow> string option"

text \<open>A key of a finding is missing, holds \<open>None\<close>, or holds a text.\<close>

datatype field = Missing | Null | Text utext

record finding =
  f_type :: string
  f_severity :: string
  f_description :: "utext option"
  f_tool_name :: field
  f_category :: field
  f_position :: "nat option"
  f_target :: "utext option"
  f_distance :: "nat option"

definition new_finding :: "string \<Rightarrow> string \<Rightarrow> utext \<Rightarrow> finding" where
  "new_finding ty sev desc = \<lparr>f_type = ty, f_severity = sev, f_description = Some desc, f_tool_name = Missing,
     f_category = Missing, f_position = None, f_target = None, f_distance = None\<rparr>"

text \<open>\<open>str\<close> of a number, as a text.\<close>

fun str_nat :: "nat \<Rightarrow> utext" where
  "str_nat n = (if n < 10 then [48 + n] else str_nat (n div 10) @ [48 + n mod 10])"

declare str_nat.simps [simp del]

section \<open>Tables\<close>

definition BIDI_OVERRIDES :: "(nat \<times> string) list" where
  "BIDI_OVERRIDES =
    [(0x202E, ''Right-to-Left Override (RLO)''),
     (0x202D, ''Left-to-Right Override (LRO)''),
     (0x202C, ''Pop Directional Formatting''),
     (0x202B, ''Right-to-Left Embedding''),
     (0x202A, ''Left-to-Right Embedding''),
     (0x2066, ''Left-to-Right Isolate''),
     (0x2067, ''Right-to-Left Isolate''),
     (0x2068, ''First Strong Isolate''),
     (0x2069, ''Pop Directional Isolate'')]"

definition ZERO_WIDTH_CHARS :: "(nat \<times> string) list" where
  "ZERO_WIDTH_CHARS =
    [(0x200B, ''Zero Width Space''),
     (0x200C, ''Zero Width Non-Joiner''),
     (0x200D, ''Zero Width Joiner''),
     (0xFEFF, ''Byte Order Mark / Zero Width No-Break Space''),
     (0x00AD, ''Soft Hyphen''),
     (0x2060, ''Word Joiner'')]"

definition HOMOGLYPHS :: "(nat \<times> char \<times> string) list" where
  "HOMOGLYPHS =
    [(0x0430, CHR ''a'', ''CYRILLIC SMALL LETTER A''),
     (0x0435, CHR ''e'', ''CYRILLIC SMALL LETTER IE''),
     (0x043E, CHR ''o'', ''CYRILLIC SMALL LETTER O''),
     (0x0440, CHR ''p'', ''CYRILLIC SMALL LETTER ER''),
     (0x0441, CHR ''c'', ''CYRILLIC SMALL LETTER ES''),
     (0x0443, CHR ''y'', ''CYRILLIC SMALL LETTER U''),
     (0x0445, CHR ''x'', ''CYRILLIC SMALL LETTER HA''),
     (0x0456, CHR ''i'', ''CYRILLIC SMALL LETTER BYELORUSSIAN-UKRAINIAN I''),
     (0x0458, CHR ''j'', ''CYRILLIC SMALL LETTER JE''),
     (0x04BB, CHR ''h'', ''CYRILLIC SMALL LETTER SHHA''),
     (0x0455, CHR ''s'', ''CYRILLIC SMALL LETTER DZE''),
     (0x0501, CHR ''d'', ''CYRILLIC SMALL LETTER KOMI DE''),
     (0x0410, CHR ''A'', ''CYRILLIC CAPITAL LETTER A''),
     (0x0412, CHR ''B'', ''CYRILLIC CAPITAL LETTER VE''),
     (0x0415, CHR ''E'', ''CYRILLIC CAPITAL LETTER IE''),
     (0x041D, CHR ''H'', ''CYRILLIC CAPITAL LETTER EN''),
     (0x041E, CHR ''O'', ''CYRILLIC CAPITAL LETTER O''),
     (0x0420, CHR ''P'', ''CYRILLIC CAPITAL LETTER ER''),
     (0x0421, CHR ''C'', ''CYRILLIC CAPITAL LETTER ES''),
     (0x0422, CHR ''T'', ''CYRILLIC CAPITAL LETTER TE''),
     (0x0425, CHR ''X'', ''CYRILLIC CAPITAL LETTER HA''),
     (0x041C, CHR ''M'', ''CYRILLIC CAPITAL LETTER EM''),
     (0x041A, CHR ''K'', ''CYRILLIC CAPITAL LETTER KA''),
     (0x03B1, CHR ''a'', ''GREEK SMALL LETTER ALPHA''),
     (0x03B5, CHR ''e'', ''GREEK SMALL LETTER EPSILON''),
     (0x03BF, CHR ''o'', ''GREEK SMALL LETTER OMICRON''),
     (0x03C1, CHR ''p'', ''GREEK SMALL LETTER RHO''),
     (0x03C5, CHR ''u'', ''GREEK SMALL LETTER UPSILON''),
     (0x03B9, CHR ''i'', ''GREEK SMALL LETTER IOTA''),
     (0x03BD, CHR ''v'', ''GREEK SMALL LETTER NU''),
     (0x0391, CHR ''A'', ''GREEK CAPITAL LETTER ALPHA''),
     (0x0392, CHR ''B'', ''GREEK CAPITAL LETTER BETA''),
     (0x0395, CHR ''E'', ''GREEK CAPITAL LETTER EPSILON''),
     (0x0397, CHR ''H'', ''GREEK CAPITAL LETTER ETA''),
     (0x0399, CHR ''I'', ''GREEK CAPITAL LETTER IOTA''),
     (0x039A, CHR ''K'', ''GREEK CAPITAL LETTER KAPPA''),
     (0x039C, CHR ''M'', ''GREEK CAPITAL LETTER MU''),
     (0x039D, CHR ''N'', ''GREEK CAPITAL LETTER NU''),
     (0x039F, CHR ''O'', ''GREEK CAPITAL LETTER OMICRON''),
     (0x03A1, CHR ''P'', ''GREEK CAPITAL LETTER RHO''),
     (0x03A4, CHR ''T'', ''GREEK CAPITAL LETTER TAU''),
     (0x03A7, CHR ''X'', ''GREEK CAPITAL LETTER CHI''),
     (0x0396, CHR ''Z'', ''GREEK CAPITAL LETTER ZETA'')]"

definition LEET_SUBSTITUTIONS :: "(char \<times> string) list" where
  "LEET_SUBSTITUTIONS =
    [(CHR ''0'', ''o''),
     (CHR ''1'', ''il''),
     (CHR ''3'', ''e''),
     (CHR ''4'', ''a''),
     (CHR ''5'', ''s''),
     (CHR ''7'', ''t''),
     (CHR ''8'', ''b''),
     (CHR ''@'', ''a''),
     (CHR ''$'', ''s''),
     (CHR ''!'', ''i'')]"

section \<open>Unicode evasion\<close>

definition SCRIPTS :: "string list" where
  "SCRIPTS = [''LATIN'', ''CYRILLIC'', ''GREEK'', ''ARMENIAN'', ''HEBREW'', ''ARABIC'']"

text \<open>The distinct scripts of a text, sorted.\<close>

definition scripts_of :: "ucd \<Rightarrow> utext \<Rightarrow> string list" where
  "scripts_of U text = sort (remdups (filter (\<lambda>s. s \<in> set SCRIPTS) (List.map_filter (u_script U) text)))"

fun join_with :: "string \<Rightarrow> string list \<Rightarrow> string" where
  "join_with sep [] = []"
| "join_with sep [x] = x"
| "join_with sep (x # xs) = x @ sep @ join_with sep xs"

definition table_findings :: "(nat \<Rightarrow> finding option) \<Rightarrow> utext \<Rightarrow> finding list" where
  "table_findings look text =
     List.map_filter (\<lambda>(i, c). map_option (\<lambda>f. f\<lparr>f_position := Some i\<rparr>) (look c)) (enumerate 0 text)"

definition detect_unicode_evasion :: "ucd \<Rightarrow> utext \<Rightarrow> finding list" where
  "detect_unicode_evasion U text =
     table_findings (\<lambda>c. map_option (\<lambda>_. new_finding ''bidi_override'' ''critical''
       (u ''Bidirectional text override detected - possible RLO attack'')) (map_of BIDI_OVERRIDES c)) text @
     table_findings (\<lambda>c. map_option (\<lambda>_. new_finding ''zero_width'' ''high''
       (u ''Zero-width character detected - may hide true content'')) (map_of ZERO_WIDTH_CHARS c)) text @
     table_findings (\<lambda>c. map_option (\<lambda>(looks_like, _). new_finding ''homoglyph'' ''high''
       (u (''Non-Latin character that looks like '' @ [CHR 0x22, looks_like, CHR 0x22]))) (map_of HOMOGLYPHS c)) text @
     (let scripts = scripts_of U text in
      if length scripts > 1
      then [new_finding ''mixed_scripts'' ''medium'' (u (''Mixed Unicode scripts detected: '' @ join_with '', '' scripts))]
      else [])"

definition normalize_homoglyphs :: "utext \<Rightarrow> utext" where
  "normalize_homoglyphs text =
     map (\<lambda>c. case map_of HOMOGLYPHS c of Some (looks_like, _) \<Rightarrow> of_char looks_like | None \<Rightarrow> c) text"

definition invisible :: "nat \<Rightarrow> bool" where
  "invisible c \<longleftrightarrow> c \<in> fst ` set ZERO_WIDTH_CHARS \<or> c \<in> fst ` set BIDI_OVERRIDES"

definition strip_invisible_chars :: "utext \<Rightarrow> utext" where
  "strip_invisible_chars text = filter (\<lambda>c. \<not> invisible c) text"

section \<open>Leet spelling\<close>

text \<open>The replacements of a code point, primary one first.\<close>

definition leet_of :: "nat \<Rightarrow> utext option" where
  "leet_of c = map_option u (map_of (map (\<lambda>(k, v). (of_char k, v)) LEET_SUBSTITUTIONS) c)"

definition normalize_leet :: "utext \<Rightarrow> utext" where
  "normalize_leet text = map (\<lambda>c. case leet_of c of Some v \<Rightarrow> hd v | None \<Rightarrow> c) text"

definition leet_options :: "nat \<Rightarrow> utext" where
  "leet_options c = (case leet_of c of Some v \<Rightarrow> v | None \<Rightarrow> [c])"

definition get_leet_variations :: "utext \<Rightarrow> utext list" where
  "get_leet_variations text = product_lists (map leet_options text)"

definition detect_leet_speak :: "ucd \<Rightarrow> utext \<Rightarrow> utext list \<Rightarrow> finding list" where
  "detect_leet_speak U text protected_names =
     (if \<not> list_ex (\<lambda>c. leet_of c \<noteq> None) text then []
      else let text_lower = u_lower U text; variations = get_leet_variations text_lower in
        case find (\<lambda>protected_name. list_ex (\<lambda>normalized. normalized = u_lower U protected_name \<and>
               text_lower \<noteq> u_lower U protected_name) variations) protected_names of
          None \<Rightarrow> []
        | Some p \<Rightarrow> [(new_finding ''leet_speak'' ''high'' (u ''Leet speak impersonation of '' @ p))\<lparr>f_target := Some p\<rparr>])"

section \<open>Edit distance\<close>

text \<open>One row of the table from the previous one; \<open>left\<close> is the cell just computed.\<close>

fun row_cells :: "'a \<Rightarrow> nat list \<Rightarrow> 'a list \<Rightarrow> nat \<Rightarrow> nat list" where
  "row_cells c1 (p0 # p1 # ps) (c2 # s2) left =
     (let insertions = p1 + 1; deletions = left + 1; substitutions = p0 + (if c1 \<noteq> c2 then 1 else 0);
          v = min (min insertions deletions) substitutions
      in v # row_cells c1 (p1 # ps) s2 v)"
| "row_cells c1 _ _ left = []"

fun lev_rows :: "nat \<Rightarrow> nat list \<Rightarrow> 'a list \<Rightarrow> 'a list \<Rightarrow> nat list" where
  "lev_rows i previous_row [] s2 = previous_row"
| "lev_rows i previous_row (c1 # s1) s2 =
     lev_rows (i + 1) ((i + 1) # row_cells c1 previous_row s2 (i + 1)) s1 s2"

definition lev_table :: "'a list \<Rightarrow> 'a list \<Rightarrow> nat" where
  "lev_table s1 s2 = (if s2 = [] then length s1 else last (lev_rows 0 [0..<length s2 + 1] s1 s2))"

definition levenshtein_distance :: "'a list \<Rightarrow> 'a list \<Rightarrow> nat" where
  "levenshtein_distance s1 s2 = (if length s1 < length s2 then lev_table s2 s1 else lev_table s1 s2)"

section \<open>Near spellings\<close>

definition stem :: "utext \<Rightarrow> utext" where
  "stem t = takeWhile (\<lambda>c. c \<noteq> 46) t"

definition effective_max :: "utext \<Rightarrow> utext \<Rightarrow> nat \<Rightarrow> nat" where
  "effective_max text_lower protected_lower max_distance =
     (if min (length (stem text_lower)) (length (stem protected_lower)) \<le> 4 then 1 else max_distance)"

definition len_diff :: "'a list \<Rightarrow> 'a list \<Rightarrow> nat" where
  "len_diff a b = (length a - length b) + (length b - length a)"

definition typo_matches :: "ucd \<Rightarrow> utext \<Rightarrow> nat \<Rightarrow> utext list \<Rightarrow> (nat \<times> nat \<times> utext) list" where
  "typo_matches U text_lower max_distance protected_names =
     List.map_filter (\<lambda>p.
       let protected_lower = u_lower U p in
       if len_diff text_lower protected_lower > max_distance then None
       else let distance = levenshtein_distance text_lower protected_lower in
         if 0 < distance \<and> distance \<le> effective_max text_lower protected_lower max_distance
         then Some (distance, len_diff text_lower protected_lower, p) else None) protected_names"

definition detect_typosquatting :: "ucd \<Rightarrow> utext \<Rightarrow> utext list \<Rightarrow> nat \<Rightarrow> finding list" where
  "detect_typosquatting U text protected_names max_distance =
     (let text_lower = u_lower U text in
      if text_lower \<in> set (map (u_lower U) protected_names) then []
      else case sort (typo_matches U text_lower max_distance protected_names) of
        [] \<Rightarrow> []
      | (best_dist, _, best_name) # _ \<Rightarrow>
          [(new_finding ''typosquatting'' ''high''
             (u ''Possible typosquatting of '' @ best_name @ u '' (edit distance: '' @ str_nat best_dist @ u '')''))
           \<lparr>f_target := Some best_name, f_distance := Some best_dist\<rparr>])"

section \<open>Spoofing of protected names\<close>

definition get_canonical_form :: "ucd \<Rightarrow> utext \<Rightarrow> utext" where
  "get_canonical_form U text = u_lower U (normalize_leet (normalize_homoglyphs (strip_invisible_chars text)))"

definition canonical_findings :: "ucd \<Rightarrow> utext \<Rightarrow> utext list \<Rightarrow> finding list \<Rightarrow> finding list" where
  "canonical_findings U process_name protected_names findings =
     (case find (\<lambda>p. get_canonical_form U process_name = u_lower U p \<and> u_lower U process_name \<noteq> u_lower U p)
             protected_names of
        None \<Rightarrow> []
      | Some p \<Rightarrow>
          if list_ex (\<lambda>f. f_type f = ''leet_speak'') findings then []
          else [(new_finding ''process_spoofing'' ''critical''
             (u ''Possible spoofing of '' @ p @ u '' using lookalike characters''))\<lparr>f_target := Some p\<rparr>])"

definition check_process_name_spoofing :: "ucd \<Rightarrow> utext \<Rightarrow> utext list \<Rightarrow> finding list" where
  "check_process_name_spoofing U process_name protected_names =
     (let evasion = detect_unicode_evasion U process_name @ detect_leet_speak U process_name protected_names;
          findings = evasion @ canonical_findings U process_name protected_names evasion
      in if findings = [] then detect_typosquatting U process_name protected_names 2 else findings)"

section \<open>The table computes the edit distance\<close>

text \<open>The recursive distance, read from the ends of the texts.\<close>

fun lev :: "'a list \<Rightarrow> 'a list \<Rightarrow> nat" where
  "lev [] ys = length ys"
| "lev xs [] = length xs"
| "lev (x # xs) (y # ys) =
     min (min (lev xs (y # ys) + 1) (lev (x # xs) ys + 1)) (lev xs ys + (if x \<noteq> y then 1 else 0))"

lemma lev_Nil [simp]: "lev xs [] = length xs"
  by (cases xs) auto

lemma lev_sym: "lev xs ys = lev ys xs"
  by (induction xs ys rule: lev.induct) (auto simp: min.commute min.left_commute)

text \<open>The row for the prefix \<open>rev r\<close> of the first text, from the prefix \<open>rev p\<close> of the second on.\<close>

fun row_from :: "'a list \<Rightarrow> 'a list \<Rightarrow> 'a list \<Rightarrow> nat list" where
  "row_from r p [] = [lev r p]"
| "row_from r p (c # t) = lev r p # row_from r (c # p) t"

lemma row_from_Cons: "row_from r p t = lev r p # tl (row_from r p t)"
  by (cases t) auto

lemma last_row_from: "last (row_from r p t) = lev r (rev t @ p)"
proof (induction t arbitrary: p)
  case (Cons c t)
  have "row_from r (c # p) t \<noteq> []" by (cases t) auto
  with Cons show ?case by simp
qed simp

lemma row_cells_row: "row_cells c (row_from r p t) t (lev (c # r) p) = tl (row_from (c # r) p t)"
proof (induction t arbitrary: p)
  case (Cons d t)
  obtain ps where ps: "row_from r (d # p) t = lev r (d # p) # ps" using row_from_Cons by blast
  have "row_cells c (row_from r p (d # t)) (d # t) (lev (c # r) p) =
      lev (c # r) (d # p) # row_cells c (row_from r (d # p) t) t (lev (c # r) (d # p))"
    by (simp add: ps Let_def)
  also have "\<dots> = row_from (c # r) (d # p) t" using Cons row_from_Cons [of "c # r" "d # p" t] by (simp del: lev.simps)
  finally show ?case by simp
qed simp

lemma lev_rows_row: "lev_rows (length r) (row_from r [] t) s t = row_from (rev s @ r) [] t"
proof (induction s arbitrary: r)
  case (Cons c s)
  have "(length r + 1) # row_cells c (row_from r [] t) t (length r + 1) = row_from (c # r) [] t"
    using row_cells_row [of c r "[]" t] row_from_Cons [of "c # r" "[]" t] by simp
  with Cons [of "c # r"] show ?case by simp
qed simp

lemma first_row: "[length p..<length p + length t + 1] = row_from [] p t"
proof (induction t arbitrary: p)
  case (Cons c t)
  have "[length p..<length p + length (c # t) + 1] = length p # [length (c # p)..<length (c # p) + length t + 1]"
    by (subst upt_conv_Cons) simp_all
  with Cons [of "c # p"] show ?case by simp
qed simp

lemma lev_table_lev: "lev_table s t = lev (rev s) (rev t)"
  using lev_rows_row [of "[]" t s] first_row [of "[]" t]
  by (simp add: lev_table_def last_row_from)

lemma levenshtein_lev: "levenshtein_distance s t = lev (rev s) (rev t)"
  using lev_sym [of "rev t" "rev s"] by (simp add: levenshtein_distance_def lev_table_lev)

text \<open>One single-character edit, anywhere.\<close>

inductive edit1 :: "'a list \<Rightarrow> 'a list \<Rightarrow> bool" where
  ins: "edit1 (a @ b) (a @ x # b)"
| del: "edit1 (a @ x # b) (a @ b)"
| sub: "edit1 (a @ x # b) (a @ y # b)"

lemma edit1_Cons: "edit1 s t \<Longrightarrow> edit1 (c # s) (c # t)"
  by (induction rule: edit1.induct) (metis append_Cons edit1.intros)+

lemma edit1_rev: "edit1 s t \<Longrightarrow> edit1 (rev s) (rev t)"
proof (induction rule: edit1.induct)
  case (ins a b x)
  show ?case using edit1.ins [of "rev b" "rev a" x] by simp
next
  case (del a x b)
  show ?case using edit1.del [of "rev b" x "rev a"] by simp
next
  case (sub a x b y)
  show ?case using edit1.sub [of "rev b" x "rev a" y] by simp
qed

lemma edits_map:
  assumes "\<And>s t. edit1 s t \<Longrightarrow> edit1 (f s) (f t)"
  shows "(edit1 ^^ n) s t \<Longrightarrow> (edit1 ^^ n) (f s) (f t)"
  by (induction n arbitrary: t) (auto intro: assms relcomppI)

lemma edits_rev: "(edit1 ^^ n) (rev s) (rev t) \<longleftrightarrow> (edit1 ^^ n) s t"
  using edits_map [of rev n, OF edit1_rev] by (metis rev_rev_ident)

text \<open>An edit changes the distance to any text by at most one.\<close>

lemma lev_Cons_le: "lev (x # s) w \<le> Suc (lev s w)"
  by (cases w) auto

lemma lev_Cons_le2: "lev s (y # w) \<le> Suc (lev s w)"
  using lev_Cons_le [of y w s] by (simp add: lev_sym)

lemma lev_le_Cons: "lev s w \<le> Suc (lev (x # s) w)"
proof (induction w)
  case (Cons y w)
  with lev_Cons_le2 [of s y w] show ?case by auto
qed simp

lemma lev_subst_le: "lev (x # s) w \<le> Suc (lev (y # s) w)"
proof (induction w)
  case (Cons z w)
  with lev_Cons_le [of x s "z # w"] lev_Cons_le2 [of "x # s" z w] show ?case by auto
qed simp

lemma lev_Cons_mono:
  assumes "\<And>w. lev s w \<le> Suc (lev t w)"
  shows "lev (x # s) w \<le> Suc (lev (x # t) w)"
proof (induction w)
  case Nil
  then show ?case using assms [of "[]"] by simp
next
  case (Cons y w)
  with assms [of w] assms [of "y # w"] show ?case by auto
qed

lemma lev_edit1: "edit1 s t \<Longrightarrow> lev s w \<le> Suc (lev t w)"
proof (induction arbitrary: w rule: edit1.induct)
  case (ins a b x)
  show ?case by (induction a arbitrary: w) (simp_all add: lev_le_Cons lev_Cons_mono del: lev.simps(3))
next
  case (del a x b)
  show ?case by (induction a arbitrary: w) (simp_all add: lev_Cons_le lev_Cons_mono del: lev.simps(3))
next
  case (sub a x b y)
  show ?case by (induction a arbitrary: w) (simp_all add: lev_subst_le lev_Cons_mono del: lev.simps(3))
qed

lemma lev_self [simp]: "lev s s = 0"
  by (induction s) auto

lemma lev_least: "(edit1 ^^ n) s t \<Longrightarrow> lev s t \<le> n"
proof (induction n arbitrary: s)
  case (Suc n)
  then obtain s' where "edit1 s s'" "(edit1 ^^ n) s' t" by (metis relpowp_Suc_D2)
  with Suc.IH [of s'] lev_edit1 [of s s' t] show ?case by linarith
qed simp

lemma edits_Suc: "edit1 s r \<Longrightarrow> (edit1 ^^ n) r t \<Longrightarrow> (edit1 ^^ Suc n) s t"
  by (metis relpowp_Suc_I2)

lemma edit1_hd: "edit1 t (y # t)" "edit1 (x # s) s" "edit1 (x # s) (y # s)"
  using edit1.ins [of "[]" t y] edit1.del [of "[]" x s] edit1.sub [of "[]" x s y] by simp_all

lemma lev_reached: "(edit1 ^^ lev s t) s t"
proof (induction s t rule: lev.induct)
  case (1 ys)
  show ?case
  proof (induction ys)
    case (Cons y ys)
    then show ?case using edit1_hd(1) [of ys y] by (auto intro: relcomppI)
  qed simp
next
  case (2 x xs)
  have "(edit1 ^^ length zs) zs []" for zs :: "'a list"
  proof (induction zs)
    case (Cons z zs)
    then show ?case using edits_Suc [OF edit1_hd(2)] by simp
  qed simp
  from this [of "x # xs"] show ?case by simp
next
  case (3 x xs y ys)
  have under: "(edit1 ^^ n) (c # s) (c # t)" if "(edit1 ^^ n) s t" for n c and s t :: "'a list"
    using edits_map [of "\<lambda>z. c # z", OF edit1_Cons that] .
  have "lev (x # xs) (y # ys) = Suc (lev xs (y # ys)) \<or> lev (x # xs) (y # ys) = Suc (lev (x # xs) ys) \<or>
      lev (x # xs) (y # ys) = lev xs ys + (if x \<noteq> y then 1 else 0)"
    unfolding lev.simps min_def by simp
  then consider "lev (x # xs) (y # ys) = Suc (lev xs (y # ys))" | "lev (x # xs) (y # ys) = Suc (lev (x # xs) ys)"
    | "x = y" "lev (x # xs) (y # ys) = lev xs ys" | "lev (x # xs) (y # ys) = Suc (lev xs ys)"
    by (cases "x = y") auto
  then show ?case
  proof cases
    case 1
    then show ?thesis using edits_Suc [OF edit1_hd(2) "3.IH"(1)] by simp
  next
    case 2
    have "(edit1 ^^ Suc (lev (x # xs) ys)) (x # xs) (y # ys)"
      using "3.IH"(2) edit1_hd(1) [of ys y] by (auto intro: relcomppI)
    then show ?thesis by (simp only: 2)
  next
    case 3
    then show ?thesis using under [OF "3.IH"(3)] by simp
  next
    case 4
    then show ?thesis using edits_Suc [OF edit1_hd(3) under [OF "3.IH"(3)]] by simp
  qed
qed

lemma levenshtein_least:
  "levenshtein_distance s t = (LEAST n. (edit1 ^^ n) s t)"
proof -
  have "(edit1 ^^ lev (rev s) (rev t)) s t" using lev_reached edits_rev by blast
  moreover have "lev (rev s) (rev t) \<le> n" if "(edit1 ^^ n) s t" for n
    using that lev_least edits_rev by blast
  ultimately show ?thesis unfolding levenshtein_lev by (metis (no_types, lifting) Least_equality)
qed

text \<open>C32. The edit distance is the edit distance: the routine that keeps one row of the table
  returns the least number of insertions, deletions and replacements of single characters
  that turn one text into the other.\<close>

theorem levenshtein_is_least_edits:
  "levenshtein_distance s t = (LEAST n. (edit1 ^^ n) s t)"
  by (rule levenshtein_least)

section \<open>Near spellings are found\<close>

lemma lev_length: "len_diff s t \<le> lev s t"
  by (induction s t rule: lev.induct) (auto simp: len_diff_def)

lemma levenshtein_length: "len_diff s t \<le> levenshtein_distance s t"
  using lev_length [of "rev s" "rev t"] by (simp add: levenshtein_lev len_diff_def)

lemma effective_max_le: "0 < m \<Longrightarrow> effective_max s t m \<le> m"
  by (simp add: effective_max_def)

lemma set_map_filter: "set (List.map_filter f xs) = {y. \<exists>x \<in> set xs. f x = Some y}"
  by (induction xs) (auto split: option.splits)

lemma map_filter_Nil: "List.map_filter f xs = [] \<longleftrightarrow> (\<forall>x \<in> set xs. f x = None)"
  by (induction xs) (auto split: option.splits)

text \<open>What the matches are without the length test.\<close>

definition near :: "ucd \<Rightarrow> nat \<Rightarrow> utext \<Rightarrow> utext \<Rightarrow> bool" where
  "near U max_distance text p \<longleftrightarrow>
     (let d = LEAST n. (edit1 ^^ n) (u_lower U text) (u_lower U p)
      in 0 < d \<and> d \<le> effective_max (u_lower U text) (u_lower U p) max_distance)"

lemma typo_matches_near:
  assumes "0 < m"
  shows "set (typo_matches U (u_lower U text) m ps) =
    (\<lambda>p. (levenshtein_distance (u_lower U text) (u_lower U p), len_diff (u_lower U text) (u_lower U p), p)) `
      {p \<in> set ps. near U m text p}"
proof -
  have skip: "\<not> near U m text p" if "len_diff (u_lower U text) (u_lower U p) > m" for p
    using that levenshtein_length [of "u_lower U text" "u_lower U p"] effective_max_le [OF assms]
    by (fastforce simp: near_def Let_def levenshtein_least dest: order_trans)
  have "typo_matches U (u_lower U text) m ps = List.map_filter (\<lambda>p. if near U m text p
      then Some (levenshtein_distance (u_lower U text) (u_lower U p), len_diff (u_lower U text) (u_lower U p), p)
      else None) ps"
    unfolding typo_matches_def using skip
    by (intro arg_cong [of _ _ "\<lambda>g. List.map_filter g ps"] ext) (auto simp: near_def Let_def levenshtein_least)
  then show ?thesis by (auto simp: set_map_filter split: if_splits)
qed

lemma typosquatting_spec:
  assumes "0 < m"
  shows "(detect_typosquatting U text ps m \<noteq> [] \<longleftrightarrow>
      u_lower U text \<notin> u_lower U ` set ps \<and> (\<exists>p \<in> set ps. near U m text p)) \<and>
    (\<forall>f \<in> set (detect_typosquatting U text ps m). \<exists>p \<in> set ps. near U m text p \<and> f_target f = Some p \<and>
      f_distance f = Some (LEAST n. (edit1 ^^ n) (u_lower U text) (u_lower U p)) \<and>
      (\<forall>q \<in> set ps. near U m text q \<longrightarrow>
        (LEAST n. (edit1 ^^ n) (u_lower U text) (u_lower U p)) \<le>
        (LEAST n. (edit1 ^^ n) (u_lower U text) (u_lower U q))))"
proof (cases "u_lower U text \<in> u_lower U ` set ps")
  case True
  then show ?thesis by (simp add: detect_typosquatting_def Let_def)
next
  case False
  let ?ms = "typo_matches U (u_lower U text) m ps"
  let ?d = "\<lambda>p. levenshtein_distance (u_lower U text) (u_lower U p)"
  note ms = typo_matches_near [OF assms, of U "text" ps]
  show ?thesis
  proof (cases "sort ?ms")
    case Nil
    then have "set ?ms = {}" by (metis set_empty2 set_sort list.set(1))
    with ms have "\<not> (\<exists>p \<in> set ps. near U m text p)" by auto
    with Nil False show ?thesis by (simp add: detect_typosquatting_def Let_def)
  next
    case (Cons x xs)
    obtain d l p where x: "x = (d, l, p)" by (cases x) auto
    have "x \<in> set ?ms" using Cons by (metis list.set_intros(1) set_sort)
    with ms x have p: "p \<in> set ps" "near U m text p" "d = ?d p" by auto
    have "?d p \<le> ?d q" if "q \<in> set ps" "near U m text q" for q
    proof -
      have "(?d q, len_diff (u_lower U text) (u_lower U q), q) \<in> set (sort ?ms)"
        using that ms by (auto simp: image_iff)
      moreover have "sorted (x # xs)" using Cons sorted_sort by metis
      ultimately have "x \<le> (?d q, len_diff (u_lower U text) (u_lower U q), q)"
        unfolding Cons by auto
      then show ?thesis using x p(3) by (auto simp: less_eq_prod_def)
    qed
    from this p False Cons x show ?thesis
      by (auto simp: detect_typosquatting_def Let_def levenshtein_least)
  qed
qed

lemmas typosquatting_nonempty = typosquatting_spec [THEN conjunct1]

text \<open>Near spellings are found, and the nearest is named.  For a positive bound, a name is
  reported as a misspelling exactly when it is not itself protected and some protected name
  is within the bound for its length, and the name reported is a protected one that no
  other is closer than.  The test of the lengths that comes first loses nothing.\<close>

theorem typosquatting_exact:
  assumes "0 < m"
  shows "(detect_typosquatting U text ps m \<noteq> [] \<longleftrightarrow>
      u_lower U text \<notin> u_lower U ` set ps \<and> (\<exists>p \<in> set ps. near U m text p)) \<and>
    (\<forall>f \<in> set (detect_typosquatting U text ps m). \<exists>p \<in> set ps. near U m text p \<and> f_target f = Some p \<and>
      f_distance f = Some (LEAST n. (edit1 ^^ n) (u_lower U text) (u_lower U p)) \<and>
      (\<forall>q \<in> set ps. near U m text q \<longrightarrow>
        (LEAST n. (edit1 ^^ n) (u_lower U text) (u_lower U p)) \<le>
        (LEAST n. (edit1 ^^ n) (u_lower U text) (u_lower U q))))"
  using assms by (rule typosquatting_spec)

section \<open>Disguised names are found\<close>

definition leet_spelling :: "ucd \<Rightarrow> utext \<Rightarrow> utext \<Rightarrow> bool" where
  "leet_spelling U name p \<longleftrightarrow> (\<exists>c \<in> set name. leet_of c \<noteq> None) \<and>
     list_all2 (\<lambda>v c. v \<in> set (leet_options c)) (u_lower U p) (u_lower U name)"

lemma variations_iff:
  "v \<in> set (get_leet_variations t) \<longleftrightarrow> list_all2 (\<lambda>v c. v \<in> set (leet_options c)) v t"
  by (simp add: get_leet_variations_def product_lists_set list_all2_map2)

lemma detect_leet_Nil:
  "detect_leet_speak U name ps = [] \<longleftrightarrow> (\<forall>p \<in> set ps. u_lower U name \<noteq> u_lower U p \<longrightarrow> \<not> leet_spelling U name p)"
proof (cases "list_ex (\<lambda>c. leet_of c \<noteq> None) name")
  case True
  then have "leet_spelling U name p \<longleftrightarrow> u_lower U p \<in> set (get_leet_variations (u_lower U name))" for p
    by (simp add: leet_spelling_def variations_iff list_ex_iff)
  with True show ?thesis
    by (auto simp: detect_leet_speak_def Let_def find_None_iff find_Some_iff list_ex_iff split: option.splits)
next
  case False
  then show ?thesis by (auto simp: detect_leet_speak_def leet_spelling_def list_ex_iff)
qed

lemma table_findings_Nil: "table_findings look t = [] \<longleftrightarrow> (\<forall>c \<in> set t. look c = None)"
proof -
  have "set t = snd ` set (enumerate 0 t)" by (metis list.set_map map_snd_enumerate)
  then show ?thesis by (auto simp: table_findings_def map_filter_Nil)
qed

lemma map_of_None_keys: "map_of xs k = None \<longleftrightarrow> k \<notin> fst ` set xs"
  by (simp add: map_of_eq_None_iff)

lemma detect_unicode_Nil:
  "detect_unicode_evasion U t = [] \<longleftrightarrow>
     (\<forall>c \<in> set t. \<not> invisible c \<and> c \<notin> fst ` set HOMOGLYPHS) \<and> length (scripts_of U t) \<le> 1"
  unfolding detect_unicode_evasion_def Let_def append_is_Nil_conv table_findings_Nil option.map_disc_iff
    map_of_None_keys invisible_def
  by (auto split: if_splits)

lemma canonical_findings_Nil:
  "canonical_findings U name ps fs = [] \<longleftrightarrow>
     (\<exists>f \<in> set fs. f_type f = ''leet_speak'') \<or>
     (\<forall>p \<in> set ps. u_lower U name \<noteq> u_lower U p \<longrightarrow> get_canonical_form U name \<noteq> u_lower U p)"
proof (cases "find (\<lambda>p. get_canonical_form U name = u_lower U p \<and> u_lower U name \<noteq> u_lower U p) ps")
  case None
  then have "canonical_findings U name ps fs = []" by (simp add: canonical_findings_def)
  with None show ?thesis unfolding find_None_iff by auto
next
  case (Some p)
  then have "p \<in> set ps" "get_canonical_form U name = u_lower U p" "u_lower U name \<noteq> u_lower U p"
    by (auto simp: find_Some_iff)
  with Some show ?thesis unfolding canonical_findings_def by (auto simp: list_ex_iff)
qed

lemma spoofing_Nil:
  "check_process_name_spoofing U name ps = [] \<longleftrightarrow>
     (\<forall>c \<in> set name. \<not> invisible c \<and> c \<notin> fst ` set HOMOGLYPHS) \<and> length (scripts_of U name) \<le> 1 \<and>
     (\<forall>p \<in> set ps. u_lower U name \<noteq> u_lower U p \<longrightarrow>
        \<not> leet_spelling U name p \<and> get_canonical_form U name \<noteq> u_lower U p) \<and>
     (u_lower U name \<in> u_lower U ` set ps \<or> \<not> (\<exists>p \<in> set ps. near U 2 name p))"
proof -
  let ?e = "detect_unicode_evasion U name @ detect_leet_speak U name ps"
  have c: "canonical_findings U name ps ?e = [] \<longleftrightarrow>
      (\<forall>p \<in> set ps. u_lower U name \<noteq> u_lower U p \<longrightarrow> get_canonical_form U name \<noteq> u_lower U p)" if "?e = []"
    using canonical_findings_Nil [of U name ps ?e] that by simp
  have t: "detect_typosquatting U name ps 2 = [] \<longleftrightarrow>
      u_lower U name \<in> u_lower U ` set ps \<or> \<not> (\<exists>p \<in> set ps. near U 2 name p)"
    using typosquatting_nonempty [of 2 U name ps] by auto
  have "check_process_name_spoofing U name ps = [] \<longleftrightarrow>
      ?e = [] \<and> canonical_findings U name ps ?e = [] \<and> detect_typosquatting U name ps 2 = []"
    by (auto simp: check_process_name_spoofing_def Let_def)
  also have "\<dots> \<longleftrightarrow> detect_unicode_evasion U name = [] \<and> detect_leet_speak U name ps = [] \<and>
      (\<forall>p \<in> set ps. u_lower U name \<noteq> u_lower U p \<longrightarrow> get_canonical_form U name \<noteq> u_lower U p) \<and>
      detect_typosquatting U name ps 2 = []"
    using c by auto
  finally show ?thesis unfolding t detect_unicode_Nil detect_leet_Nil by blast
qed

text \<open>A name passes the spoofing check exactly when nothing disguises it: it holds no
  invisible, reversing or lookalike character and mixes no scripts; no protected name that
  differs from it is one of its leet readings or its canonical form; and it is itself
  protected or no protected name is within the edit distance for its length.\<close>

theorem clean_name_exact:
  "check_process_name_spoofing U name ps = [] \<longleftrightarrow>
     (\<forall>c \<in> set name. \<not> invisible c \<and> c \<notin> fst ` set HOMOGLYPHS) \<and> length (scripts_of U name) \<le> 1 \<and>
     (\<forall>p \<in> set ps. u_lower U name \<noteq> u_lower U p \<longrightarrow>
        \<not> leet_spelling U name p \<and> get_canonical_form U name \<noteq> u_lower U p) \<and>
     (u_lower U name \<in> u_lower U ` set ps \<or> \<not> (\<exists>p \<in> set ps. near U 2 name p))"
  by (rule spoofing_Nil)

section \<open>A concrete table and the witnesses\<close>

text \<open>The tables restricted to ASCII.\<close>

definition ascii_ucd :: ucd where
  "ascii_ucd = \<lparr>u_lower = map (\<lambda>c. if 65 \<le> c \<and> c \<le> 90 then c + 32 else c),
     u_script = (\<lambda>c. if (65 \<le> c \<and> c \<le> 90) \<or> (97 \<le> c \<and> c \<le> 122) then Some ''LATIN'' else None)\<rparr>"

theorem clean_name_exact_witness:
  "check_process_name_spoofing ascii_ucd (u ''Svch0st.exe'') [u ''lsass.exe'', u ''svchost.exe''] \<noteq> []"
proof -
  have "leet_spelling ascii_ucd (u ''Svch0st.exe'') (u ''svchost.exe'')"
    and "u_lower ascii_ucd (u ''Svch0st.exe'') \<noteq> u_lower ascii_ucd (u ''svchost.exe'')" by code_simp+
  with clean_name_exact [of ascii_ucd "u ''Svch0st.exe''" "[u ''lsass.exe'', u ''svchost.exe'']"]
  show ?thesis by auto
qed

theorem typosquatting_exact_witness:
  "detect_typosquatting ascii_ucd (u ''scvhost.exe'') [u ''svchost.exe''] 2 \<noteq> []"
proof -
  have "levenshtein_distance (u_lower ascii_ucd (u ''scvhost.exe'')) (u_lower ascii_ucd (u ''svchost.exe'')) = 2"
    and "effective_max (u_lower ascii_ucd (u ''scvhost.exe'')) (u_lower ascii_ucd (u ''svchost.exe'')) 2 = 2"
    and no: "u_lower ascii_ucd (u ''scvhost.exe'') \<notin> u_lower ascii_ucd ` set [u ''svchost.exe'']"
    by code_simp+
  then have "near ascii_ucd 2 (u ''scvhost.exe'') (u ''svchost.exe'')"
    by (simp add: near_def levenshtein_least)
  with no typosquatting_exact [of 2 ascii_ucd "u ''scvhost.exe''" "[u ''svchost.exe'']"] show ?thesis by simp
qed

end
