(* ===== verification/Triage_Verdicts.thy ===== *)
theory Triage_Verdicts
  imports Complex_Main Py_String Triage_Unicode
begin

text \<open>
  Judging names and verdicts: \<open>windows_triage_mcp/analysis/filename.py\<close> and
  \<open>windows_triage_mcp/analysis/verdicts.py\<close>.

  The entropy of a name is a real number; the code computes it in floating point and reports it
  rounded to two digits.  File names are Latin-1 texts here.  A dictionary of the database
  (\<open>lolbin_info\<close>, \<open>driver_info\<close>) is a record of the keys the code reads; it is never empty.

  Shown here: the entropy of a name is at most the logarithm of the number of its distinct
  characters, so that only names with at least 23 of them can be found random, and the
  comparison with 4.5 is a comparison of whole numbers; each verdict is exactly what the
  conditions of its kind say; more findings never lower a verdict.
\<close>

section \<open>File names\<close>

definition count_in :: "'a list \<Rightarrow> 'a \<Rightarrow> nat" where
  "count_in s c = count_list s c"

definition calculate_entropy :: "'a list \<Rightarrow> real" where
  "calculate_entropy s =
     (if s = [] then 0
      else - (\<Sum>c \<in> set s. (real (count_in s c) / real (length s)) * log 2 (real (count_in s c) / real (length s))))"

definition EXECUTABLE_EXTENSIONS :: "string list" where
  "EXECUTABLE_EXTENSIONS =
    [''exe'', ''dll'', ''sys'', ''scr'', ''com'', ''bat'', ''cmd'', ''ps1'', ''psm1'', ''psd1'',
     ''vbs'', ''vbe'', ''js'', ''jse'', ''wsf'', ''wsh'', ''msc'', ''hta'', ''cpl'', ''msi'',
     ''msp'', ''drv'', ''ocx'', ''ax'', ''jar'']"

definition DOCUMENT_EXTENSIONS :: "string list" where
  "DOCUMENT_EXTENSIONS =
    [''doc'', ''docx'', ''pdf'', ''jpg'', ''jpeg'', ''png'', ''gif'', ''txt'', ''xls'', ''xlsx'', ''ppt'', ''pptx'',
     ''mp3'', ''mp4'', ''avi'', ''mov'']"

definition RUNNABLE_EXTENSIONS :: "string list" where
  "RUNNABLE_EXTENSIONS = [''exe'', ''scr'', ''com'', ''bat'', ''cmd'', ''ps1'', ''vbs'', ''js'', ''hta'', ''pif'', ''msi'']"

text \<open>\<open>DOUBLE_EXTENSION_PATTERN.search\<close>: the pattern ends in \<open>$\<close>, which also matches before a line
  break at the end.\<close>

definition double_extension :: "string \<Rightarrow> bool" where
  "double_extension filename \<longleftrightarrow>
     (let t = lower filename in
      list_ex (\<lambda>d. list_ex (\<lambda>x. endswith t (''.'' @ d @ ''.'' @ x) \<or>
        endswith t (''.'' @ d @ ''.'' @ x @ [CHR 0x0A])) RUNNABLE_EXTENSIONS) DOCUMENT_EXTENSIONS)"

text \<open>\<open>filename.rsplit(".", 1)\<close>.\<close>

definition name_part :: "string \<Rightarrow> string" where
  "name_part filename =
     (if CHR ''.'' \<in> set filename then rev (tl (dropWhile (\<lambda>c. c \<noteq> CHR ''.'') (rev filename))) else filename)"

definition extension_of :: "string \<Rightarrow> string option" where
  "extension_of filename = (if CHR ''.'' \<in> set filename then Some (lower (after_last (CHR ''.'') filename)) else None)"

definition control_char :: "char \<Rightarrow> bool" where
  "control_char c \<longleftrightarrow> code c \<le> 31 \<or> code c = 127"

record filename_analysis =
  fa_filename :: string
  fa_entropy :: real
  fa_findings :: "finding list"
  fa_is_suspicious :: bool

definition executable_findings :: "string \<Rightarrow> finding list" where
  "executable_findings filename =
     (if (case extension_of filename of None \<Rightarrow> False | Some e \<Rightarrow> e \<in> set EXECUTABLE_EXTENSIONS) then
        (if length (name_part filename) \<le> 2
         then [new_finding ''short_name'' ''medium''
           (u (''Very short filename for executable: '' @ [CHR 0x22] @ filename @ [CHR 0x22]))] else []) @
        (if calculate_entropy (name_part filename) > 9 / 2 \<and> length (name_part filename) > 6
         then [new_finding ''high_entropy'' ''medium'' (u ''High entropy suggests random/generated name'')] else [])
      else [])"

definition shape_findings :: "string \<Rightarrow> finding list" where
  "shape_findings filename =
     (if double_extension filename
      then [new_finding ''double_extension'' ''critical''
        (u ''Double extension detected - common masquerading technique'')] else []) @
     (if contains filename ''        ''
      then [new_finding ''space_padding'' ''high''
        (u ''Excessive spaces in filename - may hide true extension'')] else []) @
     (if endswith (name_part filename) ''   ''
      then [new_finding ''trailing_spaces'' ''high''
        (u ''Trailing spaces before extension - may hide content'')] else []) @
     (if list_ex control_char filename
      then [new_finding ''control_chars'' ''critical'' (u ''Control characters in filename'')] else [])"

text \<open>The description of \<open>high_entropy\<close> also quotes the number.\<close>

definition analyze_filename :: "string \<Rightarrow> filename_analysis" where
  "analyze_filename filename =
     (let findings = executable_findings filename @ shape_findings filename
      in \<lparr>fa_filename = filename, fa_entropy = calculate_entropy (name_part filename), fa_findings = findings,
          fa_is_suspicious = findings \<noteq> []\<rparr>)"

text \<open>A row of the table of known tools; \<open>re_match\<close> is \<open>re.match\<close> on a pattern of the database.\<close>

record tool_pattern =
  is_regex :: bool
  filename_pattern :: string
  tool_name :: field
  tool_category :: field
  risk_level :: field

definition check_known_tool_filename ::
  "(string \<Rightarrow> string \<Rightarrow> bool) \<Rightarrow> string \<Rightarrow> tool_pattern list \<Rightarrow> tool_pattern option" where
  "check_known_tool_filename re_match filename known_patterns =
     find (\<lambda>p. if is_regex p then re_match (filename_pattern p) (lower filename)
               else lower filename = lower (filename_pattern p)) known_patterns"

section \<open>Verdicts\<close>

definition MASQUERADE_TARGETS :: "string list" where
  "MASQUERADE_TARGETS =
    [''atbroker.exe'', ''audiodg.exe'', ''bcdedit.exe'', ''bitsadmin.exe'', ''certreq.exe'',
     ''certutil.exe'', ''cmstp.exe'', ''conhost.exe'', ''csrss.exe'', ''dashost.exe'',
     ''dfrgui.exe'', ''dllhost.exe'', ''dwm.exe'', ''eventvwr.exe'', ''explorer.exe'',
     ''fsquirt.exe'', ''lsaiso.exe'', ''lsass.exe'', ''lsm.exe'', ''msiexec.exe'',
     ''powershell.exe'', ''pwsh.exe'', ''regsvr32.exe'', ''rundll32.exe'', ''runtimebroker.exe'',
     ''schtasks.exe'', ''services.exe'', ''sihost.exe'', ''smartscreen.exe'', ''smss.exe'',
     ''spoolsv.exe'', ''svchost.exe'', ''taskhost.exe'', ''taskhostw.exe'', ''taskmgr.exe'',
     ''werfault.exe'', ''werfaultsecure.exe'', ''wininit.exe'', ''winlogon.exe'', ''wlanext.exe'',
     ''wscript.exe'', ''wsmprovhost.exe'', ''consent.exe'', ''cscript.exe'', ''defrag.exe'',
     ''dism.exe'', ''dllhst3g.exe'', ''finger.exe'', ''logonui.exe'', ''ntoskrnl.exe'',
     ''powershell_ise.exe'', ''runonce.exe'', ''winver.exe'', ''wsl.exe'',
     ''backgroundtaskhost.exe'', ''cmdl32.exe'', ''eventcreate.exe'', ''extrac32.exe'',
     ''fontdrvhost.exe'', ''ipconfig.exe'', ''iscsicli.exe'', ''iscsicpl.exe'', ''logman.exe'',
     ''msinfo32.exe'', ''mstsc.exe'', ''nbtstat.exe'', ''odbcconf.exe'', ''regini.exe'',
     ''searchfilterhost.exe'', ''searchindexer.exe'', ''searchprotocolhost.exe'',
     ''securityhealthservice.exe'', ''securityhealthsystray.exe'', ''shellappruntime.exe'',
     ''systemsettingsbroker.exe'', ''tiworker.exe'', ''vssadmin.exe'', ''w32tm.exe'',
     ''wermgr.exe'', ''wevtutil.exe'', ''winrshost.exe'', ''winrtnetmuahostserver.exe'',
     ''wlrmdr.exe'', ''wmiprvse.exe'', ''wslhost.exe'', ''wsreset.exe'', ''wudfhost.exe'',
     ''wwahost.exe'', ''cmd.exe'', ''sethc.exe'']"

datatype verdict = SUSPICIOUS | EXPECTED_LOLBIN | EXPECTED | UNKNOWN

record verdict_result =
  verdict :: verdict
  reasons :: "utext list"
  confidence :: string

definition result :: "verdict \<Rightarrow> utext list \<Rightarrow> string \<Rightarrow> verdict_result" where
  "result v rs c = \<lparr>verdict = v, reasons = rs, confidence = c\<rparr>"

text \<open>\<open>finding.get("description", finding.get("type"))\<close>.\<close>

definition reason_of :: "finding \<Rightarrow> utext" where
  "reason_of f = (case f_description f of Some d \<Rightarrow> d | None \<Rightarrow> u (f_type f))"

definition severe :: "string \<Rightarrow> finding list \<Rightarrow> finding list" where
  "severe level findings = filter (\<lambda>f. f_severity f = level) findings"

definition field_text :: "field \<Rightarrow> utext" where
  "field_text x = (case x of Missing \<Rightarrow> u ''unknown'' | Null \<Rightarrow> u ''None'' | Text t \<Rightarrow> t)"

record lolbin =
  lb_name :: field
  lb_functions :: "utext list option"

fun join_utexts :: "utext list \<Rightarrow> utext" where
  "join_utexts [] = []"
| "join_utexts [x] = x"
| "join_utexts (x # xs) = x @ u '', '' @ join_utexts xs"

definition lolbin_reason :: "lolbin \<Rightarrow> utext" where
  "lolbin_reason info = u ''LOLBin: can be abused for '' @
     join_utexts (take 2 (case lb_functions info of Some fs \<Rightarrow> fs | None \<Rightarrow> []))"

definition baseline_result :: "string \<Rightarrow> lolbin option \<Rightarrow> string \<Rightarrow> verdict_result" where
  "baseline_result why lolbin_info conf =
     (case lolbin_info of
        Some info \<Rightarrow> result EXPECTED_LOLBIN [u why, lolbin_reason info] conf
      | None \<Rightarrow> result EXPECTED [u why] conf)"

definition calculate_file_verdict ::
  "bool \<Rightarrow> bool \<Rightarrow> bool \<Rightarrow> finding list \<Rightarrow> lolbin option \<Rightarrow> bool \<Rightarrow> bool \<Rightarrow> string \<Rightarrow> string \<Rightarrow> verdict_result" where
  "calculate_file_verdict path_in_baseline filename_in_baseline is_system_path filename_findings lolbin_info
     is_protected_process directory_known_for_file dir_normalized filename =
     (let critical_findings = severe ''critical'' filename_findings;
          tool_findings = filter (\<lambda>f. f_type f = ''known_tool'') filename_findings;
          high_findings = severe ''high'' filename_findings
      in if critical_findings \<noteq> []
         then result SUSPICIOUS (u ''Critical filename issues detected'' # map reason_of (take 2 critical_findings)) ''high''
         else if tool_findings \<noteq> []
         then result SUSPICIOUS
           [u ''Known tool: '' @ field_text (f_tool_name (hd tool_findings)),
            u ''Category: '' @ field_text (f_category (hd tool_findings))] ''high''
         else if path_in_baseline then baseline_result ''Path matches Windows baseline'' lolbin_info ''high''
         else if filename_in_baseline \<and> \<not> path_in_baseline then
           (if directory_known_for_file
            then baseline_result ''Filename matches baseline in known directory'' lolbin_info ''medium''
            else if lower filename \<in> set MASQUERADE_TARGETS then
              (if is_protected_process
               then result SUSPICIOUS [u ''System binary in unexpected directory (masquerade indicator)'',
                 u ''Protected system process -- high masquerading risk''] ''high''
               else result SUSPICIOUS [u ''System binary in unexpected directory (masquerade indicator)''] ''medium'')
            else result UNKNOWN [u (''Filename in baseline but not a masquerade target -- '' @
              ''verify with hash if needed'')] ''low'')
         else if high_findings \<noteq> [] then result SUSPICIOUS (map reason_of (take 2 high_findings)) ''medium''
         else result UNKNOWN [u ''Not in baseline (neutral - may be legitimate third-party software)''] ''low'')"

definition calculate_process_verdict ::
  "bool \<Rightarrow> bool \<Rightarrow> bool option \<Rightarrow> bool option \<Rightarrow> finding list \<Rightarrow> verdict_result" where
  "calculate_process_verdict process_known parent_valid path_valid user_valid findings =
     (let critical_findings = severe ''critical'' findings; high_findings = severe ''high'' findings
      in if critical_findings \<noteq> [] then result SUSPICIOUS (map reason_of critical_findings) ''high''
         else if \<not> process_known then
           (if high_findings \<noteq> [] then result SUSPICIOUS (map reason_of (take 2 high_findings)) ''medium''
            else result UNKNOWN [u ''Process not in expectations database (neutral)''] ''low'')
         else if \<not> parent_valid then result SUSPICIOUS [u ''Unexpected parent process''] ''high''
         else if path_valid = Some False then result SUSPICIOUS [u ''Unexpected executable path''] ''high''
         else if user_valid = Some False then result SUSPICIOUS [u ''Unexpected user context''] ''medium''
         else result EXPECTED [u ''Process relationship matches expectations''] ''high'')"

definition calculate_service_verdict :: "bool \<Rightarrow> bool option \<Rightarrow> finding list \<Rightarrow> verdict_result" where
  "calculate_service_verdict service_in_baseline binary_path_matches binary_findings =
     (let critical_findings = severe ''critical'' binary_findings; high_findings = severe ''high'' binary_findings
      in if critical_findings \<noteq> [] then result SUSPICIOUS (map reason_of (take 2 critical_findings)) ''high''
         else if service_in_baseline then
           (if binary_path_matches = Some False
            then result SUSPICIOUS [u ''Service name in baseline but binary path differs'',
              u ''May indicate hijacked service''] ''medium''
            else result EXPECTED [u ''Service matches Windows baseline''] ''high'')
         else if high_findings \<noteq> [] then result SUSPICIOUS (map reason_of (take 2 high_findings)) ''medium''
         else result UNKNOWN [u (''Service not in baseline (neutral - may be third-party '' @
           ''or enterprise software)'')] ''low'')"

record driver =
  dr_product :: field
  dr_cve :: field
  dr_vulnerability_type :: field

definition truthy_reason :: "string \<Rightarrow> field \<Rightarrow> utext list" where
  "truthy_reason label x = (case x of Text (c # t) \<Rightarrow> [u label @ c # t] | _ \<Rightarrow> [])"

definition calculate_hash_verdict :: "bool \<Rightarrow> driver option \<Rightarrow> bool \<Rightarrow> lolbin option \<Rightarrow> verdict_result" where
  "calculate_hash_verdict is_vulnerable_driver driver_info is_lolbin lolbin_info =
     (case (is_vulnerable_driver, driver_info) of
        (True, Some d) \<Rightarrow> result SUSPICIOUS
          ((u ''Vulnerable driver: '' @ field_text (dr_product d)) # truthy_reason ''CVE: '' (dr_cve d) @
           truthy_reason ''Vulnerability: '' (dr_vulnerability_type d)) ''high''
      | _ \<Rightarrow>
          (case (is_lolbin, lolbin_info) of
             (True, Some info) \<Rightarrow> result EXPECTED_LOLBIN [u ''LOLBin: '' @ field_text (lb_name info)] ''medium''
           | _ \<Rightarrow> result UNKNOWN [u ''Hash not found in local databases (neutral)'',
               u ''For threat intel, query opencti-mcp''] ''low''))"

section \<open>Entropy\<close>

lemma count_in_pos: "c \<in> set s \<Longrightarrow> 0 < count_in s c"
  by (metis count_in_def count_list_0_iff gr0I)

lemma sum_count_in: "(\<Sum>c \<in> set s. count_in s c) = length s"
  unfolding count_in_def by (rule sum_count_set) auto

lemma sum_share: "s \<noteq> [] \<Longrightarrow> (\<Sum>c \<in> set s. real (count_in s c) / real (length s)) = 1"
  using sum_count_in [of s] by (simp flip: sum_divide_distrib of_nat_sum)

lemma log2_le: "0 < x \<Longrightarrow> log 2 x \<le> (x - 1) / ln 2"
  using ln_le_minus_one [of x] by (simp add: log_def divide_right_mono)

lemma gibbs_term: "0 < p \<Longrightarrow> 0 < m \<Longrightarrow> p * log 2 (1 / (p * m)) \<le> (1 / m - p) / ln 2"
proof -
  assume p: "0 < p" and m: "0 < m"
  have "p * log 2 (1 / (p * m)) \<le> p * ((1 / (p * m) - 1) / ln 2)"
    using p m by (intro mult_left_mono log2_le) auto
  also have "\<dots> = (1 / m - p) / ln 2" using p m by (simp add: field_simps)
  finally show ?thesis .
qed

lemma gibbs_split: "0 < p \<Longrightarrow> 0 < m \<Longrightarrow> p * log 2 (1 / (p * m)) = - (p * log 2 p) - p * log 2 m"
proof -
  assume p: "0 < p" and m: "0 < m"
  have "log 2 (1 / (p * m)) = - log 2 (p * m)"
    using log_inverse [of 2 "p * m"] by (simp add: inverse_eq_divide)
  moreover have "log 2 (p * m) = log 2 p + log 2 m" using p m by (simp add: log_mult)
  ultimately have "log 2 (1 / (p * m)) = - log 2 p - log 2 m" by simp
  then show ?thesis by (simp only: right_diff_distrib mult_minus_right)
qed

lemma entropy_le_log_card:
  assumes "s \<noteq> []"
  shows "calculate_entropy s \<le> log 2 (real (card (set s)))"
proof -
  let ?p = "\<lambda>c. real (count_in s c) / real (length s)" and ?m = "real (card (set s))"
  have m: "0 < ?m" using assms by (simp add: card_gt_0_iff)
  have p: "0 < ?p c" if "c \<in> set s" for c using count_in_pos [OF that] assms by simp
  have "?p c * log 2 (1 / (?p c * ?m)) \<le> (1 / ?m - ?p c) / ln 2" if "c \<in> set s" for c
    using p [OF that] m by (rule gibbs_term)
  then have "(\<Sum>c \<in> set s. ?p c * log 2 (1 / (?p c * ?m))) \<le> (\<Sum>c \<in> set s. (1 / ?m - ?p c) / ln 2)"
    by (rule sum_mono)
  also have "\<dots> = 0"
  proof -
    have "(\<Sum>c \<in> set s. 1 / ?m - ?p c) = (\<Sum>c \<in> set s. 1 / ?m) - (\<Sum>c \<in> set s. ?p c)" by (rule sum_subtractf)
    also have "\<dots> = 0" unfolding sum_share [OF assms] using m assms by simp
    finally show ?thesis by (simp only: sum_divide_distrib [symmetric])
  qed
  finally have le: "(\<Sum>c \<in> set s. ?p c * log 2 (1 / (?p c * ?m))) \<le> 0" .
  have "?p c * log 2 (1 / (?p c * ?m)) = - (?p c * log 2 (?p c)) - ?p c * log 2 ?m" if "c \<in> set s" for c
    using p [OF that] m by (rule gibbs_split)
  with le have "(\<Sum>c \<in> set s. - (?p c * log 2 (?p c))) - (\<Sum>c \<in> set s. ?p c * log 2 ?m) \<le> 0"
    by (simp add: sum_subtractf)
  moreover have "(\<Sum>c \<in> set s. ?p c * log 2 ?m) = log 2 ?m"
    unfolding sum_distrib_right [symmetric] sum_share [OF assms] by simp
  ultimately show ?thesis using assms by (simp add: calculate_entropy_def sum_negf)
qed

text \<open>The comparison with 4.5 on whole numbers.\<close>

definition exceeds_threshold :: "'a list \<Rightarrow> bool" where
  "exceeds_threshold s \<longleftrightarrow>
     2 ^ (9 * length s) * (\<Prod>c \<in> set s. count_in s c ^ (2 * count_in s c)) < length s ^ (2 * length s)"

lemma entropy_counts:
  assumes "s \<noteq> []"
  shows "real (length s) * calculate_entropy s =
    real (length s) * log 2 (real (length s)) - (\<Sum>c \<in> set s. real (count_in s c) * log 2 (real (count_in s c)))"
proof -
  let ?n = "real (length s)"
  have n: "0 < ?n" using assms by simp
  have "?n * (real (count_in s c) / ?n * log 2 (real (count_in s c) / ?n)) =
      real (count_in s c) * log 2 (real (count_in s c)) - real (count_in s c) * log 2 ?n" if "c \<in> set s" for c
    using count_in_pos [OF that] n by (simp add: log_divide field_simps)
  then have "?n * calculate_entropy s = - (\<Sum>c \<in> set s. real (count_in s c) * log 2 (real (count_in s c)) -
      real (count_in s c) * log 2 ?n)"
    using assms by (simp add: calculate_entropy_def sum_distrib_left)
  moreover have "(\<Sum>c \<in> set s. real (count_in s c) * log 2 ?n) = ?n * log 2 ?n"
    using sum_count_in [of s] by (simp flip: sum_distrib_right of_nat_sum)
  ultimately show ?thesis by (simp add: sum_subtractf)
qed

lemma log_prod_counts:
  "log 2 (real (\<Prod>c \<in> A. f c ^ (2 * f c))) = (\<Sum>c \<in> A. 2 * (real (f c) * log 2 (real (f c))))"
  if "finite A" "\<And>c. c \<in> A \<Longrightarrow> 0 < f c" for A and f :: "'a \<Rightarrow> nat"
  using that
proof (induction A rule: finite_induct)
  case (insert x A)
  have "0 < real (f x ^ (2 * f x))" "0 < real (\<Prod>c \<in> A. f c ^ (2 * f c))"
    using insert.prems by (auto intro!: prod_pos)
  then have "log 2 (real (\<Prod>c \<in> insert x A. f c ^ (2 * f c))) =
      log 2 (real (f x ^ (2 * f x))) + log 2 (real (\<Prod>c \<in> A. f c ^ (2 * f c)))"
    using insert.hyps by (simp add: log_mult del: of_nat_power of_nat_prod)
  moreover have "log 2 (real (f x ^ (2 * f x))) = 2 * (real (f x) * log 2 (real (f x)))"
    using insert.prems by (simp add: log_nat_power)
  ultimately show ?case using insert by simp
qed simp

lemma entropy_threshold: "calculate_entropy s > 9 / 2 \<longleftrightarrow> exceeds_threshold s"
proof (cases "s = []")
  case True
  then show ?thesis by (simp add: calculate_entropy_def exceeds_threshold_def)
next
  case False
  let ?n = "real (length s)" and ?S = "\<Sum>c \<in> set s. real (count_in s c) * log 2 (real (count_in s c))"
  let ?P = "\<Prod>c \<in> set s. count_in s c ^ (2 * count_in s c)"
  have n: "0 < ?n" using False by simp
  have P: "0 < ?P" using count_in_pos by (intro prod_pos) auto
  have lP: "log 2 (real ?P) = 2 * ?S"
    using log_prod_counts [of "set s" "count_in s"] count_in_pos [of _ s] by (simp add: sum_distrib_left)
  have "calculate_entropy s > 9 / 2 \<longleftrightarrow> ?n * calculate_entropy s > ?n * (9 / 2)" using n by simp
  also have "\<dots> \<longleftrightarrow> 9 * ?n + 2 * ?S < 2 * ?n * log 2 ?n" unfolding entropy_counts [OF False] by auto
  also have "9 * ?n + 2 * ?S = log 2 (real (2 ^ (9 * length s) * ?P))"
    using P lP by (simp add: log_mult log_nat_power del: of_nat_prod)
  also have "2 * ?n * log 2 ?n = log 2 (real (length s ^ (2 * length s)))"
    using n by (simp add: log_nat_power)
  also have "log 2 (real (2 ^ (9 * length s) * ?P)) < log 2 (real (length s ^ (2 * length s))) \<longleftrightarrow>
      real (2 ^ (9 * length s) * ?P) < real (length s ^ (2 * length s))"
    using P n by (intro log_less_cancel_iff) (simp_all del: of_nat_prod)
  finally show ?thesis unfolding exceeds_threshold_def of_nat_less_iff .
qed

lemma few_characters_not_random: "card (set s) \<le> 22 \<Longrightarrow> calculate_entropy s \<le> 9 / 2"
proof (cases "s = []")
  case False
  assume c: "card (set s) \<le> 22"
  have "calculate_entropy s \<le> log 2 (real (card (set s)))" by (rule entropy_le_log_card [OF False])
  also have "\<dots> \<le> log 2 22" using c False by (simp add: card_gt_0_iff)
  also have "\<dots> \<le> 9 / 2"
  proof -
    have "2 * log 2 22 = log 2 (22 ^ 2)" by (subst log_nat_power) simp_all
    also have "\<dots> \<le> log 2 (2 ^ 9)" by (intro log_mono) simp_all
    also have "\<dots> = 9" by (subst log_nat_power) simp_all
    finally show ?thesis by simp
  qed
  finally show ?thesis .
qed (simp add: calculate_entropy_def)

lemma high_entropy_finding:
  "(\<exists>f \<in> set (fa_findings (analyze_filename filename)). f_type f = ''high_entropy'') \<longleftrightarrow>
     (\<exists>e. extension_of filename = Some e \<and> e \<in> set EXECUTABLE_EXTENSIONS) \<and>
     calculate_entropy (name_part filename) > 9 / 2 \<and> length (name_part filename) > 6"
  by (auto simp: analyze_filename_def executable_findings_def shape_findings_def new_finding_def Let_def
      split: option.splits)

text \<open>When a name is called random.  A file name is found to be of high entropy exactly when
  it has an executable extension and the name before it passes a test on whole numbers,
  and then that name holds at least 23 different characters, so the lower limit of seven
  characters in the code never decides.\<close>

theorem random_name_exact:
  "((\<exists>f \<in> set (fa_findings (analyze_filename filename)). f_type f = ''high_entropy'') \<longleftrightarrow>
     (\<exists>e. extension_of filename = Some e \<and> e \<in> set EXECUTABLE_EXTENSIONS) \<and>
     exceeds_threshold (name_part filename)) \<and>
   (exceeds_threshold (name_part filename) \<longrightarrow> 23 \<le> card (set (name_part filename)))"
proof -
  have many: "23 \<le> card (set (name_part filename))" if "exceeds_threshold (name_part filename)"
  proof (rule ccontr)
    assume "\<not> 23 \<le> card (set (name_part filename))"
    then have "calculate_entropy (name_part filename) \<le> 9 / 2" by (intro few_characters_not_random) simp
    with that show False using entropy_threshold [of "name_part filename"] by linarith
  qed
  then have "length (name_part filename) > 6" if "exceeds_threshold (name_part filename)"
    using that card_length [of "name_part filename"] by fastforce
  with many show ?thesis unfolding high_entropy_finding entropy_threshold by blast
qed

theorem random_name_exact_witness:
  "\<exists>f \<in> set (fa_findings (analyze_filename ''abcdefghijklmnopqrstuvw.exe'')). f_type f = ''high_entropy''"
proof -
  have n: "name_part ''abcdefghijklmnopqrstuvw.exe'' = ''abcdefghijklmnopqrstuvw''"
    and e: "extension_of ''abcdefghijklmnopqrstuvw.exe'' = Some ''exe''" "''exe'' \<in> set EXECUTABLE_EXTENSIONS"
    by code_simp+
  have l: "length ''abcdefghijklmnopqrstuvw'' = 23" by simp
  have "exceeds_threshold ''abcdefghijklmnopqrstuvw''"
    unfolding exceeds_threshold_def l by (simp add: count_in_def)
  with n e random_name_exact [of "''abcdefghijklmnopqrstuvw.exe''"] show ?thesis by simp
qed

text \<open>The name the documentation gives as an example is not found random.\<close>

lemma documented_example_passes: "fa_findings (analyze_filename ''aX7kL9mQ.exe'') = []"
proof -
  have n: "name_part ''aX7kL9mQ.exe'' = ''aX7kL9mQ''" by code_simp
  have l: "length ''aX7kL9mQ'' = 8" by simp
  have "\<not> exceeds_threshold ''aX7kL9mQ''" unfolding exceeds_threshold_def l by (simp add: count_in_def)
  then have "\<not> calculate_entropy ''aX7kL9mQ'' > 9 / 2" unfolding entropy_threshold .
  then have "executable_findings ''aX7kL9mQ.exe'' = []"
    by (simp add: executable_findings_def n split: option.split)
  moreover have "shape_findings ''aX7kL9mQ.exe'' = []" by code_simp
  ultimately show ?thesis by (simp add: analyze_filename_def)
qed

section \<open>Verdicts\<close>

text \<open>The documented order of the verdicts.\<close>

fun risk :: "verdict \<Rightarrow> nat" where
  "risk UNKNOWN = 0"
| "risk EXPECTED = 1"
| "risk EXPECTED_LOLBIN = 2"
| "risk SUSPICIOUS = 3"

instantiation verdict :: linorder
begin

definition less_eq_verdict :: "verdict \<Rightarrow> verdict \<Rightarrow> bool" where
  "less_eq_verdict a b \<longleftrightarrow> risk a \<le> risk b"

definition less_verdict :: "verdict \<Rightarrow> verdict \<Rightarrow> bool" where
  "less_verdict a b \<longleftrightarrow> risk a < risk b"

instance
proof
  fix x y z :: verdict
  show "(x < y) = (x \<le> y \<and> \<not> y \<le> x)" by (auto simp: less_eq_verdict_def less_verdict_def)
  show "x \<le> x" by (simp add: less_eq_verdict_def)
  show "x \<le> y \<Longrightarrow> y \<le> z \<Longrightarrow> x \<le> z" by (simp add: less_eq_verdict_def)
  show "x \<le> y \<Longrightarrow> y \<le> x \<Longrightarrow> x = y" by (cases x; cases y) (simp_all add: less_eq_verdict_def)
  show "x \<le> y \<or> y \<le> x" by (auto simp: less_eq_verdict_def)
qed

end

lemma severe_mono: "set fs \<subseteq> set gs \<Longrightarrow> severe l gs = [] \<Longrightarrow> severe l fs = []"
  by (auto simp: severe_def filter_empty_conv)

lemma result_sel [simp]: "verdict (result v rs c) = v" "reasons (result v rs c) = rs" "confidence (result v rs c) = c"
  by (simp_all add: result_def)

lemma baseline_sel [simp]:
  "verdict (baseline_result w l c) = (if l = None then EXPECTED else EXPECTED_LOLBIN)"
  "confidence (baseline_result w l c) = c" "reasons (baseline_result w l c) \<noteq> []"
  by (cases l; simp add: baseline_result_def)+

lemma le_SUSPICIOUS [simp]: "v \<le> SUSPICIOUS"
  by (cases v) (simp_all add: less_eq_verdict_def)

lemma file_verdict:
  "verdict (calculate_file_verdict in_path in_name sys fs lol prot dir_known dir filename) =
     (if (\<exists>f \<in> set fs. f_severity f = ''critical'' \<or> f_type f = ''known_tool'') \<or>
         (\<not> in_path \<and> in_name \<and> \<not> dir_known \<and> lower filename \<in> set MASQUERADE_TARGETS) \<or>
         (\<not> in_path \<and> \<not> in_name \<and> (\<exists>f \<in> set fs. f_severity f = ''high''))
      then SUSPICIOUS
      else if in_path \<or> (in_name \<and> dir_known) then (if lol = None then EXPECTED else EXPECTED_LOLBIN)
      else UNKNOWN) \<and>
   reasons (calculate_file_verdict in_path in_name sys fs lol prot dir_known dir filename) \<noteq> []"
proof -
  have sev: "severe l fs \<noteq> [] \<longleftrightarrow> (\<exists>f \<in> set fs. f_severity f = l)" for l
    by (auto simp: severe_def filter_empty_conv)
  have tool: "filter (\<lambda>f. f_type f = ''known_tool'') fs \<noteq> [] \<longleftrightarrow> (\<exists>f \<in> set fs. f_type f = ''known_tool'')"
    by (auto simp: filter_empty_conv)
  show ?thesis
  proof (cases "\<exists>f \<in> set fs. f_severity f = ''critical'' \<or> f_type f = ''known_tool''")
    case True
    then show ?thesis unfolding calculate_file_verdict_def Let_def sev tool
      by (auto split: if_splits)
  next
    case False
    then have "severe ''critical'' fs = []" "filter (\<lambda>f. f_type f = ''known_tool'') fs = []"
      by (auto simp: severe_def filter_empty_conv)
    with False show ?thesis unfolding calculate_file_verdict_def Let_def
      using sev [of "''high''"] by (cases in_path; cases in_name; cases dir_known) (auto split: if_splits)
  qed
qed

text \<open>A file verdict, condition by condition.  It is suspicious exactly when a finding is
  critical or names a known tool, or the file is not in the baseline and either bears the
  name of a system binary outside its known directories or has a finding of high severity
  and a name the baseline does not know; otherwise a file in its place is expected, with
  the remark that it can be abused if it is such a binary, and anything else is unknown.\<close>

theorem file_verdict_exact:
  "verdict (calculate_file_verdict in_path in_name sys fs lol prot dir_known dir filename) =
     (if (\<exists>f \<in> set fs. f_severity f = ''critical'' \<or> f_type f = ''known_tool'') \<or>
         (\<not> in_path \<and> in_name \<and> \<not> dir_known \<and> lower filename \<in> set MASQUERADE_TARGETS) \<or>
         (\<not> in_path \<and> \<not> in_name \<and> (\<exists>f \<in> set fs. f_severity f = ''high''))
      then SUSPICIOUS
      else if in_path \<or> (in_name \<and> dir_known) then (if lol = None then EXPECTED else EXPECTED_LOLBIN)
      else UNKNOWN) \<and>
   reasons (calculate_file_verdict in_path in_name sys fs lol prot dir_known dir filename) \<noteq> []"
  by (rule file_verdict)

text \<open>More findings never lower a verdict: when every finding of one check is also a finding of
  another that is alike in all else, the verdict of the second is at least as grave, for
  files, processes and services; so order and repetition of findings do not matter.\<close>

theorem verdicts_grow_with_findings:
  assumes "set fs \<subseteq> set gs"
  shows "verdict (calculate_file_verdict in_path in_name sys fs lol prot dir_known dir filename)
      \<le> verdict (calculate_file_verdict in_path in_name sys gs lol prot dir_known dir filename) \<and>
    verdict (calculate_process_verdict known parent_ok path_ok user_ok fs)
      \<le> verdict (calculate_process_verdict known parent_ok path_ok user_ok gs) \<and>
    verdict (calculate_service_verdict in_base path_matches fs)
      \<le> verdict (calculate_service_verdict in_base path_matches gs)"
proof -
  have sub: "\<exists>g \<in> set gs. P g" if "\<exists>f \<in> set fs. P f" for P using that assms by blast
  have "verdict (calculate_file_verdict in_path in_name sys fs lol prot dir_known dir filename)
      \<le> verdict (calculate_file_verdict in_path in_name sys gs lol prot dir_known dir filename)"
    unfolding file_verdict [THEN conjunct1]
    using sub [of "\<lambda>f. f_severity f = ''critical'' \<or> f_type f = ''known_tool''"] sub [of "\<lambda>f. f_severity f = ''high''"]
    by (simp split: if_split) blast
  moreover note mono = severe_mono [OF assms]
  have "verdict (calculate_process_verdict known parent_ok path_ok user_ok fs)
      \<le> verdict (calculate_process_verdict known parent_ok path_ok user_ok gs)"
    using mono [of "''critical''"] mono [of "''high''"]
    by (cases "severe ''critical'' gs = []"; cases "severe ''high'' gs = []")
      (simp_all add: calculate_process_verdict_def Let_def)
  moreover have "verdict (calculate_service_verdict in_base path_matches fs)
      \<le> verdict (calculate_service_verdict in_base path_matches gs)"
    using mono [of "''critical''"] mono [of "''high''"]
    by (cases "severe ''critical'' gs = []"; cases "severe ''high'' gs = []")
      (simp_all add: calculate_service_verdict_def Let_def)
  ultimately show ?thesis by blast
qed

definition padded :: finding where
  "padded = new_finding ''space_padding'' ''high'' (u ''Excessive spaces in filename - may hide true extension'')"

theorem verdicts_grow_with_findings_witness:
  "EXPECTED \<le> verdict (calculate_service_verdict True None [padded])"
proof -
  have "set [] \<subseteq> set [padded]" by simp
  from verdicts_grow_with_findings [OF this] have
    "verdict (calculate_service_verdict True None []) \<le> verdict (calculate_service_verdict True None [padded])" by blast
  moreover have "verdict (calculate_service_verdict True None []) = EXPECTED" by code_simp
  ultimately show ?thesis by simp
qed

text \<open>Two places where the documented priorities do not hold: a finding of high severity is
  dropped for a name the baseline knows in other directories, and a protected process that
  the baseline does not list is unknown wherever it lies.\<close>

lemma baseline_name_hides_high_finding:
  "verdict (calculate_file_verdict False True False [padded] None False False [] ''setup.exe'') = UNKNOWN \<and>
   verdict (calculate_file_verdict False False False [padded] None False False [] ''setup.exe'') = SUSPICIOUS"
  by code_simp

lemma protected_process_off_baseline_unknown:
  "verdict (calculate_file_verdict False False False [] None True False [] ''lsass.exe'') = UNKNOWN"
  by code_simp

end
