(* ===== verification/Triage_Check.thy ===== *)
theory Triage_Check
  imports Triage_Paths Triage_Verdicts Py_Text
begin

text \<open>
  The triage tools: \<open>_check_file\<close>, \<open>_check_process_tree\<close>, \<open>_check_service\<close> and \<open>_check_hash\<close> of
  \<open>windows_triage_mcp/server.py\<close>, with the lookups of \<open>windows_triage_mcp/db/context.py\<close> they
  make.

  The context database is the list of rows of each table, with JSON columns parsed and an
  absent list empty; the baseline database is a parameter, the answers of its lookups.
  \<open>re_fullmatch\<close> is \<open>re.fullmatch\<close> on a pattern of the database, false for a pattern that does
  not compile.  Names are Latin-1 texts, and \<open>latin_ucd\<close> is the Unicode table on them.

  Shown here: what an expected file, an expected process and an expected service have passed;
  a hash check refuses what is no hash and is suspicious exactly for a vulnerable driver.
\<close>

section \<open>Latin-1 texts\<close>

definition latin_ucd :: ucd where
  "latin_ucd = \<lparr>u_lower = map (\<lambda>n. of_char (lower_char (char_of n))),
     u_script = (\<lambda>n. if isalpha (char_of n) \<and> n \<notin> {170, 181, 186} then Some ''LATIN'' else None)\<rparr>"

text \<open>Latin-1 text is in one script.\<close>

lemma latin_scripts: "length (scripts_of latin_ucd t) \<le> 1"
proof -
  have "set (scripts_of latin_ucd t) \<subseteq> {''LATIN''}"
    by (auto simp: scripts_of_def latin_ucd_def set_map_filter split: if_splits)
  moreover have "distinct (scripts_of latin_ucd t)" by (simp add: scripts_of_def)
  ultimately have "length (scripts_of latin_ucd t) \<le> card {''LATIN''}"
    by (metis card_mono distinct_card finite.emptyI finite.insertI)
  then show ?thesis by simp
qed

section \<open>Context database\<close>

record vulnerable_driver =
  vd_md5 :: "string option"
  vd_sha1 :: "string option"
  vd_sha256 :: "string option"
  vd_auth_md5 :: "string option"
  vd_auth_sha1 :: "string option"
  vd_auth_sha256 :: "string option"
  vd_info :: driver

record expected_process =
  process_name_lower :: string
  valid_parents :: "string list"
  suspicious_parents :: "string list"
  never_spawns_children :: bool
  valid_paths :: "string list"
  user_type :: "string option"

record context_db =
  context_available :: bool
  lolbins :: "(string \<times> lolbin) list"
  vulnerable_drivers :: "vulnerable_driver list"
  expected_processes :: "expected_process list"
  suspicious_filenames :: "tool_pattern list"
  protected_process_names :: "string list"

definition check_lolbin :: "context_db \<Rightarrow> string \<Rightarrow> lolbin option" where
  "check_lolbin db filename = map_of (lolbins db) (lower filename)"

definition file_column :: "string \<Rightarrow> vulnerable_driver \<Rightarrow> string option" where
  "file_column col r = (if col = ''md5'' then vd_md5 r else if col = ''sha1'' then vd_sha1 r else vd_sha256 r)"

definition auth_column :: "string \<Rightarrow> vulnerable_driver \<Rightarrow> string option" where
  "auth_column col r = (if col = ''md5'' then vd_auth_md5 r else if col = ''sha1'' then vd_auth_sha1 r else vd_auth_sha256 r)"

definition check_vulnerable_driver :: "context_db \<Rightarrow> string \<Rightarrow> string \<Rightarrow> hash_error + (driver \<times> string) option" where
  "check_vulnerable_driver db hash_value algorithm =
     res_bind (get_hash_column algorithm) (\<lambda>col.
       case find (\<lambda>r. file_column col r = Some (lower hash_value)) (vulnerable_drivers db) of
         Some r \<Rightarrow> Inr (Some (vd_info r, ''file_hash''))
       | None \<Rightarrow> Inr (map_option (\<lambda>r. (vd_info r, ''authentihash''))
           (find (\<lambda>r. auth_column col r = Some (lower hash_value)) (vulnerable_drivers db))))"

definition get_expected_process :: "context_db \<Rightarrow> string \<Rightarrow> expected_process option" where
  "get_expected_process db process_name =
     find (\<lambda>r. process_name_lower r = lower process_name) (expected_processes db)"

definition check_suspicious_filename ::
  "(string \<Rightarrow> string \<Rightarrow> bool) \<Rightarrow> context_db \<Rightarrow> string \<Rightarrow> tool_pattern option" where
  "check_suspicious_filename re_fullmatch db filename =
     (case find (\<lambda>r. \<not> is_regex r \<and> filename_pattern r = lower filename) (suspicious_filenames db) of
        Some r \<Rightarrow> Some r
      | None \<Rightarrow> find (\<lambda>r. is_regex r \<and> re_fullmatch (filename_pattern r) (lower filename)) (suspicious_filenames db))"

section \<open>Baseline database and limits\<close>

record baseline_entry =
  be_md5 :: "string option"
  be_sha1 :: "string option"
  be_sha256 :: "string option"

record service_entry =
  se_display_name :: "string option"
  se_binary_path_pattern :: "string option"
  se_os_versions :: "string list"

record known_good_db =
  kg_available :: bool
  lookup_by_path :: "string \<Rightarrow> string option \<Rightarrow> baseline_entry list"
  lookup_by_filename :: "string \<Rightarrow> baseline_entry list"
  is_directory_known_for_file :: "string \<Rightarrow> string \<Rightarrow> bool"
  lookup_service :: "string \<Rightarrow> string \<Rightarrow> service_entry list"

record limits =
  max_path_length :: nat
  max_hash_length :: nat
  max_service_name_length :: nat

datatype triage_error = TooLong string | BadAlgorithm

definition validate_input_length :: "string option \<Rightarrow> nat \<Rightarrow> string \<Rightarrow> triage_error + unit" where
  "validate_input_length value max_length field_name =
     (case value of
        Some v \<Rightarrow> if length v > max_length then Inl (TooLong field_name) else Inr ()
      | None \<Rightarrow> Inr ())"

section \<open>Files\<close>

record file_check =
  fc_result :: verdict_result
  fc_path_in_baseline :: bool
  fc_filename_in_baseline :: bool
  fc_is_system_path :: bool
  fc_findings :: "finding list"
  fc_lolbin :: "lolbin option"

text \<open>\<open>tool_match.get("risk_level", "critical")\<close>: the column is always there, possibly \<open>None\<close>.\<close>

definition severity_text :: "field \<Rightarrow> string" where
  "severity_text x = (case x of Missing \<Rightarrow> ''critical'' | Null \<Rightarrow> ''None'' | Text t \<Rightarrow> map char_of t)"

definition tool_finding :: "tool_pattern \<Rightarrow> finding" where
  "tool_finding t = (new_finding ''known_tool'' (severity_text (risk_level t)) (u ''Known tool: '' @ field_text (tool_name t)))
     \<lparr>f_tool_name := (case tool_name t of Missing \<Rightarrow> Null | x \<Rightarrow> x),
      f_category := (case tool_category t of Missing \<Rightarrow> Null | x \<Rightarrow> x)\<rparr>"

definition path_matches :: "string \<Rightarrow> string \<Rightarrow> bool" where
  "path_matches normalized_path valid_path =
     (if CHR ''*'' \<in> set valid_path then fnmatchcase normalized_path valid_path else normalized_path = valid_path)"

definition is_protected :: "context_db \<Rightarrow> string \<Rightarrow> bool" where
  "is_protected db filename \<longleftrightarrow> lower filename \<in> set (map lower (protected_process_names db))"

definition protected_path_findings :: "context_db \<Rightarrow> string \<Rightarrow> string \<Rightarrow> finding list" where
  "protected_path_findings db filename normalized_path =
     (if is_protected db filename then
        (case get_expected_process db filename of
           None \<Rightarrow> []
         | Some proc_info \<Rightarrow>
             if valid_paths proc_info = [] \<or> list_ex (path_matches normalized_path) (valid_paths proc_info) then []
             else [new_finding ''protected_process_wrong_path'' ''critical''
               (u ''Protected process '' @ u filename @ u '' in unexpected path'')])
      else [])"

definition entry_hash :: "string \<Rightarrow> baseline_entry \<Rightarrow> string option" where
  "entry_hash algorithm e =
     (if algorithm = ''md5'' then be_md5 e else if algorithm = ''sha1'' then be_sha1 e else be_sha256 e)"

definition baseline_hashes :: "string \<Rightarrow> baseline_entry list \<Rightarrow> string list" where
  "baseline_hashes algorithm es =
     List.map_filter (\<lambda>e. case entry_hash algorithm e of Some h \<Rightarrow> if h = [] then None else Some (lower h) | None \<Rightarrow> None) es"

definition hash_findings :: "string option \<Rightarrow> baseline_entry list \<Rightarrow> finding list" where
  "hash_findings hash_value baseline_matches =
     (case hash_value of
        None \<Rightarrow> []
      | Some h \<Rightarrow>
          if h = [] \<or> \<not> validate_hash h then []
          else let hash_normalized = normalize_hash h in
            case detect_hash_algorithm (Some hash_normalized) of
              None \<Rightarrow> []
            | Some algorithm \<Rightarrow>
                (let hashes = baseline_hashes algorithm baseline_matches in
                 if hashes \<noteq> [] \<and> lower hash_normalized \<notin> set hashes
                 then [new_finding ''hash_mismatch'' ''critical''
                   (u ''Hash does not match baseline - possible trojanized binary'')] else []))"

definition file_findings ::
  "(string \<Rightarrow> string \<Rightarrow> bool) \<Rightarrow> context_db \<Rightarrow> string \<Rightarrow> string \<Rightarrow> string option \<Rightarrow> baseline_entry list \<Rightarrow> finding list" where
  "file_findings re_fullmatch db filename normalized_path hash_value baseline_matches =
     fa_findings (analyze_filename filename) @
     check_process_name_spoofing latin_ucd (u filename) (map u (protected_process_names db)) @
     (case check_suspicious_filename re_fullmatch db filename of Some t \<Rightarrow> [tool_finding t] | None \<Rightarrow> []) @
     protected_path_findings db filename normalized_path @
     hash_findings hash_value baseline_matches"

definition check_file ::
  "(string \<Rightarrow> string \<Rightarrow> bool) \<Rightarrow> limits \<Rightarrow> known_good_db \<Rightarrow> context_db \<Rightarrow> string \<Rightarrow> string option \<Rightarrow> string option \<Rightarrow>
   triage_error + file_check" where
  "check_file re_fullmatch cfg kg db path hash_value os_version =
     res_bind (validate_input_length (Some path) (max_path_length cfg) ''path'') (\<lambda>_.
     res_bind (validate_input_length hash_value (max_hash_length cfg) ''hash'') (\<lambda>_.
       let normalized_path = normalize_path path;
           filename = extract_filename path;
           sys_path = is_system_path path
       in if \<not> kg_available kg \<or> \<not> context_available db
          then Inr \<lparr>fc_result = result UNKNOWN [u ''Database not available''] ''low'',
            fc_path_in_baseline = False, fc_filename_in_baseline = False, fc_is_system_path = sys_path,
            fc_findings = [], fc_lolbin = None\<rparr>
          else let baseline_matches = lookup_by_path kg normalized_path os_version;
                   path_in_baseline = (baseline_matches \<noteq> []);
                   filename_in_baseline = (lookup_by_filename kg filename \<noteq> []);
                   dir_path = extract_directory path;
                   dir_known = (filename_in_baseline \<and> \<not> path_in_baseline \<and> dir_path \<noteq> [] \<and>
                     is_directory_known_for_file kg filename dir_path);
                   lolbin_info = check_lolbin db filename;
                   findings = file_findings re_fullmatch db filename normalized_path hash_value baseline_matches
               in Inr \<lparr>fc_result = calculate_file_verdict path_in_baseline filename_in_baseline sys_path findings
                     lolbin_info (is_protected db filename) dir_known dir_path filename,
                   fc_path_in_baseline = path_in_baseline, fc_filename_in_baseline = filename_in_baseline,
                   fc_is_system_path = sys_path, fc_findings = findings, fc_lolbin = lolbin_info\<rparr>))"

section \<open>Processes\<close>

text \<open>The em dash of the texts is the code point 2014.\<close>

definition SUSPICIOUS_PARENT_CONTEXT :: "(string \<times> utext) list" where
  "SUSPICIOUS_PARENT_CONTEXT =
    [(''winword.exe'', u ''Office macro execution '' @ [0x2014] @ u ('' Office applications should not spawn command interpreters under normal'' @
      '' operation. Check for VBA macros, DDE links, or exploit-based code execution.'')),
     (''excel.exe'', u ''Office macro execution '' @ [0x2014] @ u ('' spreadsheet macros spawning shells indicates malicious macro executing'' @
      '' commands.'')),
     (''powerpnt.exe'', u ''Office macro execution '' @ [0x2014] @ u '' presentation macros spawning shells indicates malicious content.''),
     (''outlook.exe'', u ''Email client exploitation '' @ [0x2014] @ u ('' Outlook spawning shells suggests embedded exploit or malicious attachment'' @
      '' handler.'')),
     (''chrome.exe'', u ''Browser exploitation '' @ [0x2014] @ u ('' browser spawning shells suggests drive-by download, browser exploit, or'' @
      '' malicious extension.'')),
     (''firefox.exe'', u ''Browser exploitation '' @ [0x2014] @ u '' browser spawning shells suggests drive-by download or exploit.''),
     (''msedge.exe'', u ''Browser exploitation '' @ [0x2014] @ u '' browser spawning shells suggests drive-by download or exploit.''),
     (''iexplore.exe'', u ''Browser exploitation '' @ [0x2014] @ u '' IE spawning shells suggests ActiveX exploit or drive-by download.''),
     (''acrord32.exe'', u ''PDF exploitation '' @ [0x2014] @ u ('' PDF reader spawning shells suggests malicious PDF with embedded JavaScript or'' @
      '' exploit.'')),
     (''foxitreader.exe'', u ''PDF exploitation '' @ [0x2014] @ u '' PDF reader spawning shells suggests malicious PDF content.''),
     (''mshta.exe'', u ''HTA abuse '' @ [0x2014] @ u '' mshta.exe is commonly abused for script execution via .hta files.''),
     (''wscript.exe'', u ''Script execution '' @ [0x2014] @ u '' Windows Script Host spawning shells indicates script-based malware.''),
     (''cscript.exe'', u ''Script execution '' @ [0x2014] @ u '' Console Script Host spawning shells indicates script-based malware.'')]"

text \<open>\<open>repr\<close> of a list of names without quotes or escapes.\<close>

definition repr_list :: "string list \<Rightarrow> string" where
  "repr_list xs = ''['' @ join_with '', '' (map (\<lambda>x. [CHR 0x27] @ x @ [CHR 0x27]) xs) @ '']''"

definition user_ok :: "string option \<Rightarrow> string \<Rightarrow> bool" where
  "user_ok ty user =
     (if ty = Some ''SYSTEM'' then upper user \<in> set [''SYSTEM'', ''LOCAL SERVICE'', ''NETWORK SERVICE'',
        ''NT AUTHORITY'' @ [bslash] @ ''SYSTEM'']
      else if ty = Some ''USER'' then upper user \<notin> set [''SYSTEM'', ''LOCAL SERVICE'', ''NETWORK SERVICE'']
      else True)"

text \<open>A text argument that is absent or empty.\<close>

definition given :: "string option \<Rightarrow> bool" where
  "given v \<longleftrightarrow> v \<noteq> None \<and> v \<noteq> Some []"

definition parent_blacklisted :: "expected_process \<Rightarrow> string \<Rightarrow> bool" where
  "parent_blacklisted p parent_name \<longleftrightarrow> lower parent_name \<in> set (map lower (suspicious_parents p))"

definition parent_whitelisted :: "expected_process \<Rightarrow> string \<Rightarrow> bool" where
  "parent_whitelisted p parent_name \<longleftrightarrow>
     valid_parents p = [] \<or> lower parent_name \<in> set (map lower (valid_parents p))"

definition process_path_valid :: "expected_process \<Rightarrow> string option \<Rightarrow> bool option" where
  "process_path_valid p path =
     (if given path \<and> valid_paths p \<noteq> []
      then Some (list_ex (\<lambda>v. normalize_path (the path) = normalize_path v) (valid_paths p)) else None)"

definition process_user_valid :: "expected_process \<Rightarrow> string option \<Rightarrow> bool option" where
  "process_user_valid p user = (if given user then Some (user_ok (user_type p) (the user)) else None)"

definition parent_description :: "string \<Rightarrow> string \<Rightarrow> utext" where
  "parent_description parent_name process_name =
     u (''Suspicious parent process: '' @ parent_name @ '' spawning '' @ process_name @ '' is a common attack pattern'') @
     (case map_of SUSPICIOUS_PARENT_CONTEXT (lower parent_name) of Some c \<Rightarrow> u ''. '' @ c | None \<Rightarrow> [])"

definition name_findings :: "context_db \<Rightarrow> string \<Rightarrow> finding list" where
  "name_findings db process_name = fa_findings (analyze_filename process_name) @
     check_process_name_spoofing latin_ucd (u process_name) (map u (protected_process_names db))"

definition injection_findings :: "context_db \<Rightarrow> string \<Rightarrow> finding list" where
  "injection_findings db parent_name =
     (case get_expected_process db parent_name of
        Some p \<Rightarrow> if never_spawns_children p
          then [new_finding ''injection_detected'' ''critical''
            (u (''CRITICAL: '' @ parent_name @ '' should NEVER spawn child processes. '' @
                ''This indicates process injection (e.g., credential theft, implant).''))] else []
      | None \<Rightarrow> [])"

definition relation_findings ::
  "expected_process \<Rightarrow> string \<Rightarrow> string \<Rightarrow> string option \<Rightarrow> string option \<Rightarrow> finding list" where
  "relation_findings p process_name parent_name path user =
     (if parent_blacklisted p parent_name
      then [new_finding ''suspicious_parent'' ''critical'' (parent_description parent_name process_name)] else []) @
     (if parent_whitelisted p parent_name then []
      else [new_finding ''unexpected_parent'' ''high''
        (u (''Unexpected parent: expected '' @ repr_list (valid_parents p) @ '', got '' @ parent_name))]) @
     (if process_path_valid p path = Some False
      then [new_finding ''unexpected_path'' ''high'' (u ''Unexpected executable path'')] else []) @
     (if process_user_valid p user = Some False
      then [new_finding ''unexpected_user'' ''medium''
        (u (''Unexpected user context: expected '' @ (case user_type p of Some ty \<Rightarrow> ty | None \<Rightarrow> ''None'')))] else [])"

record process_check =
  pc_result :: verdict_result
  pc_in_expectations_db :: bool
  pc_findings :: "finding list"
  pc_expected_parents :: "string list"
  pc_suspicious_parents :: "string list"
  pc_user_context :: "(string \<times> string option \<times> bool) option"

text \<open>Keys that are left out of the answer when empty are empty lists and \<open>None\<close>.\<close>

definition check_process_tree ::
  "limits \<Rightarrow> context_db \<Rightarrow> string \<Rightarrow> string \<Rightarrow> string option \<Rightarrow> string option \<Rightarrow> triage_error + process_check" where
  "check_process_tree cfg db process_name parent_name path user =
     res_bind (validate_input_length (Some process_name) (max_path_length cfg) ''process_name'') (\<lambda>_.
     res_bind (validate_input_length (Some parent_name) (max_path_length cfg) ''parent_name'') (\<lambda>_.
     res_bind (validate_input_length path (max_path_length cfg) ''path'') (\<lambda>_.
     res_bind (validate_input_length user (max_service_name_length cfg) ''user'') (\<lambda>_.
       let findings = name_findings db process_name @ injection_findings db parent_name in
       case get_expected_process db process_name of
         None \<Rightarrow> Inr \<lparr>pc_result = calculate_process_verdict False True None None findings,
           pc_in_expectations_db = False, pc_findings = findings, pc_expected_parents = [],
           pc_suspicious_parents = [], pc_user_context = None\<rparr>
       | Some p \<Rightarrow>
           (let all_findings = findings @ relation_findings p process_name parent_name path user
            in Inr \<lparr>pc_result = calculate_process_verdict True
                  (parent_whitelisted p parent_name \<and> \<not> parent_blacklisted p parent_name)
                  (process_path_valid p path) (process_user_valid p user) all_findings,
                pc_in_expectations_db = True, pc_findings = all_findings,
                pc_expected_parents = valid_parents p, pc_suspicious_parents = suspicious_parents p,
                pc_user_context = map_option (\<lambda>ok. (the user, user_type p, ok)) (process_user_valid p user)\<rparr>)))))"

section \<open>Services and hashes\<close>

datatype service_check =
  OsVersionRequired
| ServiceChecked verdict_result bool "(string option \<times> string list) option"

definition check_service ::
  "limits \<Rightarrow> known_good_db \<Rightarrow> string \<Rightarrow> string option \<Rightarrow> string option \<Rightarrow> triage_error + service_check" where
  "check_service cfg kg service_name binary_path os_version =
     res_bind (validate_input_length (Some service_name) (max_service_name_length cfg) ''service_name'') (\<lambda>_.
     res_bind (validate_input_length binary_path (max_path_length cfg) ''binary_path'') (\<lambda>_.
     res_bind (validate_input_length os_version (max_service_name_length cfg) ''os_version'') (\<lambda>_.
       if \<not> given os_version then Inr OsVersionRequired
       else let baseline_matches = lookup_service kg service_name (the os_version);
                in_baseline = (baseline_matches \<noteq> []);
                analysed = (given binary_path \<and> in_baseline);
                binary_path_matches =
                  (if analysed \<and> given (se_binary_path_pattern (hd baseline_matches))
                   then Some (normalize_path (the binary_path) =
                     normalize_path (the (se_binary_path_pattern (hd baseline_matches)))) else None);
                binary_findings =
                  (if analysed then fa_findings (analyze_filename (extract_filename (the binary_path))) else [])
            in Inr (ServiceChecked (calculate_service_verdict in_baseline binary_path_matches binary_findings) in_baseline
                 (if in_baseline then Some (se_display_name (hd baseline_matches), se_os_versions (hd baseline_matches))
                  else None)))))"

datatype hash_check =
  InvalidHash
| HashChecked verdict_result string "string option" "(driver \<times> string) option"

definition check_hash :: "limits \<Rightarrow> context_db \<Rightarrow> string \<Rightarrow> triage_error + hash_check" where
  "check_hash cfg db hash_value =
     res_bind (validate_input_length (Some hash_value) (max_hash_length cfg) ''hash'') (\<lambda>_.
       if \<not> validate_hash hash_value then Inr InvalidHash
       else let hash_normalized = normalize_hash hash_value;
                algorithm = detect_hash_algorithm (Some hash_normalized)
            in res_bind (case algorithm of
                 None \<Rightarrow> Inr None
               | Some a \<Rightarrow> (case check_vulnerable_driver db hash_normalized a of
                   Inl _ \<Rightarrow> Inl BadAlgorithm | Inr d \<Rightarrow> Inr d)) (\<lambda>driver_info.
               Inr (HashChecked (calculate_hash_verdict (driver_info \<noteq> None) (map_option fst driver_info) False None)
                 hash_normalized algorithm driver_info)))"

section \<open>What an expected file has passed\<close>

lemma new_finding_sel [simp]:
  "f_type (new_finding ty sev d) = ty" "f_severity (new_finding ty sev d) = sev"
  by (simp_all add: new_finding_def)

lemma analyze_critical:
  "double_extension filename \<or> list_ex control_char filename \<longleftrightarrow>
     (\<exists>f \<in> set (fa_findings (analyze_filename filename)). f_severity f = ''critical'')"
  by (auto simp: analyze_filename_def executable_findings_def shape_findings_def Let_def)

lemma protected_critical:
  "f \<in> set (protected_path_findings db filename n) \<Longrightarrow> f_severity f = ''critical''"
  by (cases "get_expected_process db filename"; cases "is_protected db filename")
    (simp_all add: protected_path_findings_def split: if_split_asm)

lemma hash_critical: "f \<in> set (hash_findings h es) \<Longrightarrow> f_severity f = ''critical''"
  by (auto simp: hash_findings_def Let_def split: option.splits if_splits)

lemma empty_hash_invalid: "\<not> validate_hash []"
  by code_simp

lemma tool_finding_type [simp]: "f_type (tool_finding t) = ''known_tool''"
  by (simp add: tool_finding_def new_finding_def)

text \<open>With both databases the result is the verdict of the findings.\<close>

lemma check_file_available:
  assumes "kg_available kg" "context_available db"
    and "validate_input_length (Some path) (max_path_length cfg) ''path'' = Inr ()"
    and "validate_input_length h (max_hash_length cfg) ''hash'' = Inr ()"
  shows "\<exists>fc dk. check_file rx cfg kg db path h os = Inr fc \<and>
    fc_result fc = calculate_file_verdict (lookup_by_path kg (normalize_path path) os \<noteq> [])
        (lookup_by_filename kg (extract_filename path) \<noteq> []) (is_system_path path)
        (file_findings rx db (extract_filename path) (normalize_path path) h
          (lookup_by_path kg (normalize_path path) os))
        (check_lolbin db (extract_filename path)) (is_protected db (extract_filename path)) dk
        (extract_directory path) (extract_filename path) \<and>
    (dk \<longrightarrow> is_directory_known_for_file kg (extract_filename path) (extract_directory path))"
  using assms unfolding check_file_def Let_def by auto

lemma check_file_cases:
  assumes "check_file rx cfg kg db path h os = Inr fc"
    and "verdict (fc_result fc) \<noteq> UNKNOWN" and "verdict (fc_result fc) \<noteq> SUSPICIOUS"
  shows "\<not> (\<exists>f \<in> set (file_findings rx db (extract_filename path) (normalize_path path) h
      (lookup_by_path kg (normalize_path path) os)). f_severity f = ''critical'' \<or> f_type f = ''known_tool'')"
    and "lookup_by_path kg (normalize_path path) os \<noteq> [] \<or>
      (lookup_by_filename kg (extract_filename path) \<noteq> [] \<and>
       is_directory_known_for_file kg (extract_filename path) (extract_directory path))"
proof -
  have up: "kg_available kg" "context_available db"
    using assms by (auto simp: check_file_def Let_def split: if_splits)
  have "validate_input_length (Some path) (max_path_length cfg) ''path'' = Inr ()"
    "validate_input_length h (max_hash_length cfg) ''hash'' = Inr ()"
    using assms(1) by (auto simp: check_file_def)
  from check_file_available [OF up this, of rx os] assms(1) obtain dk where
    fc: "fc_result fc = calculate_file_verdict (lookup_by_path kg (normalize_path path) os \<noteq> [])
        (lookup_by_filename kg (extract_filename path) \<noteq> []) (is_system_path path)
        (file_findings rx db (extract_filename path) (normalize_path path) h
          (lookup_by_path kg (normalize_path path) os))
        (check_lolbin db (extract_filename path)) (is_protected db (extract_filename path)) dk
        (extract_directory path) (extract_filename path)"
      "dk \<longrightarrow> is_directory_known_for_file kg (extract_filename path) (extract_directory path)"
    by auto
  note v = assms(2,3) [unfolded fc(1) file_verdict [THEN conjunct1]]
  show "\<not> (\<exists>f \<in> set (file_findings rx db (extract_filename path) (normalize_path path) h
      (lookup_by_path kg (normalize_path path) os)). f_severity f = ''critical'' \<or> f_type f = ''known_tool'')"
    using v by (auto split: if_splits)
  show "lookup_by_path kg (normalize_path path) os \<noteq> [] \<or>
      (lookup_by_filename kg (extract_filename path) \<noteq> [] \<and>
       is_directory_known_for_file kg (extract_filename path) (extract_directory path))"
    using v fc(2) by (auto split: if_splits)
qed

text \<open>What an expected file has passed.  A file reported as expected, abusable or not, lies at a
  path of the baseline or in a known directory of its name; its name has no double
  extension and no control character and is no known tool; if it bears the name of a
  protected process with known paths, it lies at one of them; and if a valid hash was
  given and the baseline holds hashes of that kind for the path, it is one of them.\<close>

theorem expected_file_is_clean:
  assumes "check_file rx cfg kg db path h os = Inr fc"
    and "verdict (fc_result fc) = EXPECTED \<or> verdict (fc_result fc) = EXPECTED_LOLBIN"
  shows "(lookup_by_path kg (normalize_path path) os \<noteq> [] \<or>
      (lookup_by_filename kg (extract_filename path) \<noteq> [] \<and>
       is_directory_known_for_file kg (extract_filename path) (extract_directory path))) \<and>
    \<not> double_extension (extract_filename path) \<and> \<not> list_ex control_char (extract_filename path) \<and>
    check_suspicious_filename rx db (extract_filename path) = None \<and>
    (\<forall>p. is_protected db (extract_filename path) \<and> get_expected_process db (extract_filename path) = Some p \<and>
       valid_paths p \<noteq> [] \<longrightarrow> list_ex (path_matches (normalize_path path)) (valid_paths p)) \<and>
    (\<forall>d a. h = Some d \<and> validate_hash d \<and> detect_hash_algorithm (Some (normalize_hash d)) = Some a \<and>
       baseline_hashes a (lookup_by_path kg (normalize_path path) os) \<noteq> [] \<longrightarrow>
       lower (normalize_hash d) \<in> set (baseline_hashes a (lookup_by_path kg (normalize_path path) os)))"
proof -
  let ?f = "extract_filename path" and ?n = "normalize_path path"
  let ?es = "lookup_by_path kg ?n os"
  have v: "verdict (fc_result fc) \<noteq> UNKNOWN" "verdict (fc_result fc) \<noteq> SUSPICIOUS" using assms(2) by auto
  note clean = check_file_cases [OF assms(1) v]
  let ?fs = "file_findings rx db ?f ?n h ?es"
  have no: "f_severity f \<noteq> ''critical''" "f_type f \<noteq> ''known_tool''" if "f \<in> set ?fs" for f
    using clean(1) that by blast+
  have parts: "set (fa_findings (analyze_filename ?f)) \<subseteq> set ?fs" "set (protected_path_findings db ?f ?n) \<subseteq> set ?fs"
    "set (hash_findings h ?es) \<subseteq> set ?fs"
    "check_suspicious_filename rx db ?f = Some t \<Longrightarrow> tool_finding t \<in> set ?fs" for t
    unfolding file_findings_def by auto
  have fs: "\<not> (\<exists>f \<in> set (fa_findings (analyze_filename ?f)). f_severity f = ''critical'')"
    using no(1) parts(1) by blast
  have fs2: "set (protected_path_findings db ?f ?n) = {}" using no(1) parts(2) protected_critical by (meson equals0I subsetD)
  have fs3: "set (hash_findings h ?es) = {}" using no(1) parts(3) hash_critical by (meson equals0I subsetD)
  have fs4: "check_suspicious_filename rx db ?f = None"
    using no(2) parts(4) tool_finding_type by (cases "check_suspicious_filename rx db ?f") blast+
  have "list_ex (path_matches ?n) (valid_paths p)"
    if "is_protected db ?f \<and> get_expected_process db ?f = Some p \<and> valid_paths p \<noteq> []" for p
    using fs2 that by (auto simp: protected_path_findings_def split: if_splits)
  moreover have "lower (normalize_hash d) \<in> set (baseline_hashes a ?es)"
    if "h = Some d \<and> validate_hash d \<and> detect_hash_algorithm (Some (normalize_hash d)) = Some a \<and>
       baseline_hashes a ?es \<noteq> []" for d a
  proof -
    have "d \<noteq> []" using that empty_hash_invalid by blast
    with fs3 that show ?thesis by (auto simp: hash_findings_def Let_def split: if_splits)
  qed
  ultimately show ?thesis using clean(2) fs fs4 analyze_critical [of ?f] by blast
qed

section \<open>What an expected process has passed\<close>

lemma process_verdict_EXPECTED:
  "verdict (calculate_process_verdict known parent_ok pt_ok us_ok fs) = EXPECTED \<longleftrightarrow>
     (\<forall>f \<in> set fs. f_severity f \<noteq> ''critical'') \<and> known \<and> parent_ok \<and> pt_ok \<noteq> Some False \<and> us_ok \<noteq> Some False"
proof -
  have "severe ''critical'' fs = [] \<longleftrightarrow> (\<forall>f \<in> set fs. f_severity f \<noteq> ''critical'')"
    by (simp add: severe_def filter_empty_conv)
  then show ?thesis by (auto simp: calculate_process_verdict_def Let_def)
qed

lemma relation_critical:
  "(\<exists>f \<in> set (relation_findings p n pn path user). f_severity f = ''critical'') \<longleftrightarrow> parent_blacklisted p pn"
  unfolding relation_findings_def by auto

lemma injection_critical:
  "(\<exists>f \<in> set (injection_findings db pn). f_severity f = ''critical'') \<longleftrightarrow>
     (\<exists>q. get_expected_process db pn = Some q \<and> never_spawns_children q)"
  by (cases "get_expected_process db pn") (simp_all add: injection_findings_def)

text \<open>A process is reported as expected exactly when it is in the table of expectations, its
  name shows no critical sign, its parent is one that may have children, is not among the
  suspicious parents and is among the valid ones where these are listed, and the path and
  the user fit where they were given and are constrained.\<close>

theorem process_expected_iff:
  assumes "check_process_tree cfg db process_name parent_name path user = Inr pc"
  shows "verdict (pc_result pc) = EXPECTED \<longleftrightarrow>
    (\<exists>p. get_expected_process db process_name = Some p \<and>
      (\<forall>f \<in> set (name_findings db process_name). f_severity f \<noteq> ''critical'') \<and>
      (\<forall>q. get_expected_process db parent_name = Some q \<longrightarrow> \<not> never_spawns_children q) \<and>
      \<not> parent_blacklisted p parent_name \<and> parent_whitelisted p parent_name \<and>
      process_path_valid p path \<noteq> Some False \<and> process_user_valid p user \<noteq> Some False)"
proof (cases "get_expected_process db process_name")
  case None
  with assms have "pc_result pc = calculate_process_verdict False True None None
      (name_findings db process_name @ injection_findings db parent_name)"
    by (auto simp: check_process_tree_def Let_def)
  with None show ?thesis by (simp add: process_verdict_EXPECTED)
next
  case (Some p)
  let ?fs = "name_findings db process_name @ injection_findings db parent_name @
      relation_findings p process_name parent_name path user"
  from assms Some have "pc_result pc = calculate_process_verdict True
      (parent_whitelisted p parent_name \<and> \<not> parent_blacklisted p parent_name)
      (process_path_valid p path) (process_user_valid p user) ?fs"
    by (auto simp: check_process_tree_def Let_def)
  then have "verdict (pc_result pc) = EXPECTED \<longleftrightarrow> (\<forall>f \<in> set ?fs. f_severity f \<noteq> ''critical'') \<and>
      parent_whitelisted p parent_name \<and> \<not> parent_blacklisted p parent_name \<and>
      process_path_valid p path \<noteq> Some False \<and> process_user_valid p user \<noteq> Some False"
    by (simp only: process_verdict_EXPECTED) simp
  also have "(\<forall>f \<in> set ?fs. f_severity f \<noteq> ''critical'') \<longleftrightarrow>
      (\<forall>f \<in> set (name_findings db process_name). f_severity f \<noteq> ''critical'') \<and>
      (\<forall>q. get_expected_process db parent_name = Some q \<longrightarrow> \<not> never_spawns_children q) \<and>
      \<not> parent_blacklisted p parent_name"
    using relation_critical [of p process_name parent_name path user] injection_critical [of db parent_name]
    unfolding set_append ball_Un by blast
  finally show ?thesis using Some by auto
qed

section \<open>Hash checks\<close>

lemma find_Some_iff_ex: "find P xs \<noteq> None \<longleftrightarrow> (\<exists>x \<in> set xs. P x)"
  by (auto simp: find_None_iff)

text \<open>A hash check within the length limit refuses exactly what is no hash; a hash is looked up
  in normal form under the algorithm of its length, the lookup never fails, and the verdict
  is suspicious exactly when a vulnerable driver has it as hash of the file or of its signed
  content, and unknown otherwise.\<close>

theorem hash_check_exact:
  assumes "length h \<le> max_hash_length cfg"
  shows "if validate_hash h then \<exists>a r d. a \<in> set [''md5'', ''sha1'', ''sha256''] \<and>
      check_hash cfg db h = Inr (HashChecked r (normalize_hash h) (Some a) d) \<and> (d \<noteq> None \<longleftrightarrow> verdict r = SUSPICIOUS) \<and>
      verdict r = (if \<exists>v \<in> set (vulnerable_drivers db). file_column a v = Some (normalize_hash h) \<or>
        auth_column a v = Some (normalize_hash h) then SUSPICIOUS else UNKNOWN)
    else check_hash cfg db h = Inr InvalidHash"
proof (cases "validate_hash h")
  case False
  with assms show ?thesis by (simp add: check_hash_def validate_input_length_def)
next
  case True
  let ?n = "normalize_hash h"
  obtain a where p: "detect_hash_algorithm (Some ?n) = Some a" and a: "a \<in> set [''md5'', ''sha1'', ''sha256'']"
    and c: "get_hash_column a = Inr a" using valid_hash_detected [OF True] by blast
  have low: "lower ?n = ?n" unfolding lower_id using normalize_hash_lower by blast
  let ?F = "find (\<lambda>r. file_column a r = Some ?n) (vulnerable_drivers db)"
  let ?A = "find (\<lambda>r. auth_column a r = Some ?n) (vulnerable_drivers db)"
  let ?d = "case ?F of Some r \<Rightarrow> Some (vd_info r, ''file_hash'')
    | None \<Rightarrow> map_option (\<lambda>r. (vd_info r, ''authentihash'')) ?A"
  have d: "check_vulnerable_driver db ?n a = Inr ?d"
    by (simp add: check_vulnerable_driver_def c low split: option.split)
  have hit: "?d \<noteq> None \<longleftrightarrow> (\<exists>v \<in> set (vulnerable_drivers db). file_column a v = Some ?n \<or> auth_column a v = Some ?n)"
    using find_Some_iff_ex [of "\<lambda>r. file_column a r = Some ?n" "vulnerable_drivers db"]
      find_Some_iff_ex [of "\<lambda>r. auth_column a r = Some ?n" "vulnerable_drivers db"]
    by (cases ?F; cases ?A) auto
  have "verdict (calculate_hash_verdict (?d \<noteq> None) (map_option fst ?d) False None) = (if ?d \<noteq> None then SUSPICIOUS else UNKNOWN)"
    by (cases ?d) (simp_all add: calculate_hash_verdict_def)
  moreover have "check_hash cfg db h =
      Inr (HashChecked (calculate_hash_verdict (?d \<noteq> None) (map_option fst ?d) False None) ?n (Some a) ?d)"
    using assms True p d by (simp add: check_hash_def validate_input_length_def Let_def)
  ultimately have "a \<in> set [''md5'', ''sha1'', ''sha256''] \<and>
      check_hash cfg db h = Inr (HashChecked (calculate_hash_verdict (?d \<noteq> None) (map_option fst ?d) False None) ?n (Some a) ?d) \<and>
      (?d \<noteq> None \<longleftrightarrow> verdict (calculate_hash_verdict (?d \<noteq> None) (map_option fst ?d) False None) = SUSPICIOUS) \<and>
      verdict (calculate_hash_verdict (?d \<noteq> None) (map_option fst ?d) False None) =
        (if \<exists>v \<in> set (vulnerable_drivers db). file_column a v = Some ?n \<or> auth_column a v = Some ?n
         then SUSPICIOUS else UNKNOWN)"
    unfolding hit [symmetric] using a by simp
  then show ?thesis using True by (simp only: if_True) blast
qed

section \<open>A small database and the witnesses\<close>

definition sample_cfg :: limits where
  "sample_cfg = \<lparr>max_path_length = 260, max_hash_length = 100, max_service_name_length = 100\<rparr>"

definition sample_process :: expected_process where
  "sample_process = \<lparr>process_name_lower = ''lsass.exe'', valid_parents = [''wininit.exe''], suspicious_parents = [],
     never_spawns_children = True, valid_paths = [win [''windows'', ''system32'', ''lsass.exe'']],
     user_type = Some ''SYSTEM''\<rparr>"

definition sample_driver :: vulnerable_driver where
  "sample_driver = \<lparr>vd_md5 = Some (replicate 32 (CHR ''a'')), vd_sha1 = None, vd_sha256 = None, vd_auth_md5 = None,
     vd_auth_sha1 = None, vd_auth_sha256 = None,
     vd_info = \<lparr>dr_product = Text (u ''drv''), dr_cve = Null, dr_vulnerability_type = Null\<rparr>\<rparr>"

definition sample_db :: context_db where
  "sample_db = \<lparr>context_available = True, lolbins = [], vulnerable_drivers = [sample_driver],
     expected_processes = [sample_process], suspicious_filenames = [], protected_process_names = [''lsass.exe'']\<rparr>"

definition sample_kg :: known_good_db where
  "sample_kg = \<lparr>kg_available = True,
     lookup_by_path = (\<lambda>p _. if p = win [''windows'', ''system32'', ''lsass.exe'']
       then [\<lparr>be_md5 = Some (replicate 32 (CHR ''B'')), be_sha1 = None, be_sha256 = None\<rparr>] else []),
     lookup_by_filename = (\<lambda>n. if n = ''lsass.exe''
       then [\<lparr>be_md5 = None, be_sha1 = None, be_sha256 = None\<rparr>] else []),
     is_directory_known_for_file = (\<lambda>_ _. False),
     lookup_service = (\<lambda>_ _. [])\<rparr>"

definition lsass_path :: string where
  "lsass_path = ''C:'' @ win [''Windows'', ''System32'', ''lsass.exe'']"

lemma lsass_clean_name: "fa_findings (analyze_filename ''lsass.exe'') = []"
proof -
  have "name_part ''lsass.exe'' = ''lsass''" by code_simp
  moreover have "\<not> calculate_entropy ''lsass'' > 9 / 2"
    using few_characters_not_random [of "''lsass''"] card_length [of "''lsass''"] by simp
  ultimately have "executable_findings ''lsass.exe'' = []"
    by (simp add: executable_findings_def split: option.split)
  moreover have "shape_findings ''lsass.exe'' = []" by code_simp
  ultimately show ?thesis by (simp add: analyze_filename_def)
qed

lemma lsass_not_spoofed: "check_process_name_spoofing latin_ucd (u ''lsass.exe'') (map u (protected_process_names sample_db)) = []"
proof -
  have "\<forall>c \<in> set (u ''lsass.exe''). \<not> invisible c \<and> c \<notin> fst ` set HOMOGLYPHS"
    by (simp add: invisible_def ZERO_WIDTH_CHARS_def BIDI_OVERRIDES_def HOMOGLYPHS_def)
  moreover note latin_scripts [of "u ''lsass.exe''"]
  moreover have "map u (protected_process_names sample_db) = [u ''lsass.exe'']" by (simp add: sample_db_def)
  ultimately show ?thesis unfolding spoofing_Nil by simp
qed

lemma lsass_names:
  "extract_filename lsass_path = ''lsass.exe''" "normalize_path lsass_path = win [''windows'', ''system32'', ''lsass.exe'']"
  by code_simp+

lemma lsass_findings:
  "file_findings (\<lambda>_ _. False) sample_db ''lsass.exe'' (win [''windows'', ''system32'', ''lsass.exe''])
     (Some (replicate 32 (CHR ''b''))) (lookup_by_path sample_kg (win [''windows'', ''system32'', ''lsass.exe'']) None) = []"
proof -
  have "check_suspicious_filename (\<lambda>_ _. False) sample_db ''lsass.exe'' = None"
    "protected_path_findings sample_db ''lsass.exe'' (win [''windows'', ''system32'', ''lsass.exe'']) = []"
    "hash_findings (Some (replicate 32 (CHR ''b'')))
      (lookup_by_path sample_kg (win [''windows'', ''system32'', ''lsass.exe'']) None) = []" by code_simp+
  then show ?thesis unfolding file_findings_def lsass_clean_name lsass_not_spoofed by simp
qed

theorem expected_file_is_clean_witness:
  "\<exists>fc. check_file (\<lambda>_ _. False) sample_cfg sample_kg sample_db lsass_path (Some (replicate 32 (CHR ''b''))) None = Inr fc \<and>
     \<not> double_extension (extract_filename lsass_path)"
proof -
  let ?c = "check_file (\<lambda>_ _. False) sample_cfg sample_kg sample_db lsass_path (Some (replicate 32 (CHR ''b''))) None"
  have "validate_input_length (Some lsass_path) (max_path_length sample_cfg) ''path'' = Inr ()"
    "validate_input_length (Some (replicate 32 (CHR ''b''))) (max_hash_length sample_cfg) ''hash'' = Inr ()"
    "kg_available sample_kg" "context_available sample_db" by code_simp+
  from check_file_available [OF this(3,4,1,2), of "\<lambda>_ _. False" None] obtain fc dk where c: "?c = Inr fc"
    and fc: "fc_result fc = calculate_file_verdict
      (lookup_by_path sample_kg (win [''windows'', ''system32'', ''lsass.exe'']) None \<noteq> [])
      (lookup_by_filename sample_kg ''lsass.exe'' \<noteq> []) (is_system_path lsass_path) [] (check_lolbin sample_db ''lsass.exe'')
      (is_protected sample_db ''lsass.exe'') dk (extract_directory lsass_path) ''lsass.exe''"
    unfolding lsass_names lsass_findings by blast
  have "lookup_by_path sample_kg (win [''windows'', ''system32'', ''lsass.exe'']) None \<noteq> []"
    "check_lolbin sample_db ''lsass.exe'' = None" by code_simp+
  then have "verdict (fc_result fc) = EXPECTED" by (simp add: fc file_verdict)
  with expected_file_is_clean [OF c] c show ?thesis by auto
qed

theorem process_expected_iff_witness:
  "\<exists>pc. check_process_tree sample_cfg sample_db ''lsass.exe'' ''wininit.exe'' None (Some ''system'') = Inr pc \<and>
     verdict (pc_result pc) = EXPECTED"
proof -
  let ?c = "check_process_tree sample_cfg sample_db ''lsass.exe'' ''wininit.exe'' None (Some ''system'')"
  have "name_findings sample_db ''lsass.exe'' = []"
    unfolding name_findings_def lsass_clean_name lsass_not_spoofed by simp
  moreover have p: "get_expected_process sample_db ''lsass.exe'' = Some sample_process" by code_simp
  moreover have "get_expected_process sample_db ''wininit.exe'' = None"
    "\<not> parent_blacklisted sample_process ''wininit.exe''" "parent_whitelisted sample_process ''wininit.exe''"
    "process_path_valid sample_process None \<noteq> Some False"
    "process_user_valid sample_process (Some ''system'') \<noteq> Some False" by code_simp+
  moreover obtain pc where c: "?c = Inr pc"
    by (simp add: check_process_tree_def Let_def validate_input_length_def sample_cfg_def p)
  ultimately show ?thesis using process_expected_iff [OF c] c by simp
qed

theorem hash_check_exact_witness:
  "\<exists>a r d. check_hash sample_cfg sample_db (''MD5:'' @ replicate 32 (CHR ''A'')) =
     Inr (HashChecked r (replicate 32 (CHR ''a'')) (Some a) d)"
proof -
  let ?h = "''MD5:'' @ replicate 32 (CHR ''A'')"
  have l: "length ?h \<le> max_hash_length sample_cfg" and v: "validate_hash ?h"
    and n: "normalize_hash ?h = replicate 32 (CHR ''a'')" by code_simp+
  from hash_check_exact [OF l, of sample_db] v show ?thesis unfolding n by (simp only: if_True) blast
qed

text \<open>Two limits of the tools: the name of the binary of a service outside the baseline is not
  looked at; a path with a wildcard in the table of expectations is honoured for files and
  never matches for processes.\<close>

lemma unknown_service_binary_ignored:
  "check_service sample_cfg sample_kg ''Updater'' (Some ''report.pdf.exe'') (Some ''W11'') =
     Inr (ServiceChecked (calculate_service_verdict False None []) False None) \<and>
   verdict (calculate_service_verdict False None []) = UNKNOWN \<and> double_extension ''report.pdf.exe''"
proof -
  have "validate_input_length (Some ''Updater'') (max_service_name_length sample_cfg) ''service_name'' = Inr ()"
    "validate_input_length (Some ''report.pdf.exe'') (max_path_length sample_cfg) ''binary_path'' = Inr ()"
    "validate_input_length (Some ''W11'') (max_service_name_length sample_cfg) ''os_version'' = Inr ()"
    "given (Some ''W11'')" "lookup_service sample_kg ''Updater'' ''W11'' = []"
    "verdict (calculate_service_verdict False None []) = UNKNOWN" "double_extension ''report.pdf.exe''" by code_simp+
  then show ?thesis by (simp add: check_service_def Let_def)
qed

definition wildcard_process :: expected_process where
  "wildcard_process = sample_process\<lparr>valid_paths := [win [''programdata'', ''*'', ''a.exe'']]\<rparr>"

lemma wildcard_honoured_for_files_only:
  "list_ex (path_matches (normalize_path (''C:'' @ win [''ProgramData'', ''v1'', ''a.exe'']))) (valid_paths wildcard_process) \<and>
   process_path_valid wildcard_process (Some (''C:'' @ win [''ProgramData'', ''v1'', ''a.exe''])) = Some False"
  by code_simp

end
