(* ===== verification/Circuit_Breaker.thy ===== *)
theory Circuit_Breaker
  imports Sift_Prelude
begin

text \<open>
  Failing fast and call limits of the threat-intelligence client: the classes
  \<open>CircuitBreaker\<close> and \<open>RateLimiter\<close> of \<open>opencti_mcp/client.py\<close>.

  Every method takes the lock, so an object is its state and a method maps the state to a new
  one and a returned value.  The monotonic clock is an argument, in integer ticks.

  The abstract breaker counts failures in a row and remembers the time of the last one; it
  refuses a request while the count has reached the threshold and the recovery time has not
  passed.  Shown here: the breaker answers as the abstract one for every sequence of calls
  with a clock that does not go back; it is never open or half open below the threshold; it
  lets a request through once the recovery time has passed; the limiter holds no more calls
  than allowed, and the time it tells to wait is exact up to the last tick.
\<close>

section \<open>The breaker\<close>

datatype circuit_state = CLOSED | OPEN | HALF_OPEN

record breaker =
  failure_threshold :: int
  recovery_timeout :: int
  circuit :: circuit_state
  failure_count :: int
  last_failure_time :: int

definition new_breaker :: "int \<Rightarrow> int \<Rightarrow> breaker" where
  "new_breaker thr rec = \<lparr>failure_threshold = thr, recovery_timeout = rec, circuit = CLOSED,
     failure_count = 0, last_failure_time = 0\<rparr>"

definition read_state :: "int \<Rightarrow> breaker \<Rightarrow> breaker \<times> circuit_state" where
  "read_state now b =
     (let b' = (if circuit b = OPEN \<and> now - last_failure_time b \<ge> recovery_timeout b
                then b\<lparr>circuit := HALF_OPEN\<rparr> else b)
      in (b', circuit b'))"

definition allow_request :: "int \<Rightarrow> breaker \<Rightarrow> breaker \<times> bool" where
  "allow_request now b =
     (let (b', state) = read_state now b
      in (b', if state = CLOSED then True else if state = HALF_OPEN then True else False))"

definition record_success :: "breaker \<Rightarrow> breaker" where
  "record_success b = b\<lparr>failure_count := 0, circuit := CLOSED\<rparr>"

definition record_failure :: "int \<Rightarrow> breaker \<Rightarrow> breaker" where
  "record_failure now b =
     (let b' = b\<lparr>failure_count := failure_count b + 1, last_failure_time := now\<rparr>
      in if failure_count b' \<ge> failure_threshold b' then b'\<lparr>circuit := OPEN\<rparr> else b')"

definition reset_breaker :: "breaker \<Rightarrow> breaker" where
  "reset_breaker b = b\<lparr>circuit := CLOSED, failure_count := 0\<rparr>"

datatype breaker_call = Allow | Success | Failure | Reset

text \<open>A call with the time of the clock; only \<open>allow_request\<close> returns a value.\<close>

definition breaker_call :: "int \<times> breaker_call \<Rightarrow> breaker \<Rightarrow> breaker \<times> bool option" where
  "breaker_call = (\<lambda>(now, op) b. case op of
     Allow \<Rightarrow> (let (b', ok) = allow_request now b in (b', Some ok))
   | Success \<Rightarrow> (record_success b, None)
   | Failure \<Rightarrow> (record_failure now b, None)
   | Reset \<Rightarrow> (reset_breaker b, None))"

section \<open>The call limiter\<close>

record call_limiter =
  max_calls :: int
  call_window :: int
  calls :: "int list"

definition new_call_limiter :: "int \<Rightarrow> int \<Rightarrow> call_limiter" where
  "new_call_limiter n w = \<lparr>max_calls = n, call_window = w, calls = []\<rparr>"

definition cleanup_unlocked :: "int \<Rightarrow> call_limiter \<Rightarrow> call_limiter" where
  "cleanup_unlocked now l = l\<lparr>calls := dropWhile (\<lambda>t. t < now - call_window l) (calls l)\<rparr>"

definition check_calls :: "int \<Rightarrow> call_limiter \<Rightarrow> call_limiter \<times> bool" where
  "check_calls now l = (let l' = cleanup_unlocked now l in (l', int (length (calls l')) < max_calls l'))"

definition record_call :: "int \<Rightarrow> call_limiter \<Rightarrow> call_limiter" where
  "record_call now l = l\<lparr>calls := calls l @ [now]\<rparr>"

definition check_and_record :: "int \<Rightarrow> call_limiter \<Rightarrow> call_limiter \<times> bool" where
  "check_and_record now l =
     (let l' = cleanup_unlocked now l in
      if int (length (calls l')) < max_calls l' then (l'\<lparr>calls := calls l' @ [now]\<rparr>, True) else (l', False))"

definition wait_time :: "int \<Rightarrow> call_limiter \<Rightarrow> call_limiter \<times> int" where
  "wait_time now l =
     (if max_calls l \<le> 0 then (l, call_window l)
      else let l' = cleanup_unlocked now l in
        (l', if int (length (calls l')) < max_calls l' then 0
             else case calls l' of [] \<Rightarrow> 0 | oldest # _ \<Rightarrow> max 0 (oldest + call_window l' - now)))"

section \<open>Reachable states of the breaker\<close>

inductive breaker_step :: "breaker \<Rightarrow> breaker \<Rightarrow> bool" where
  allow: "breaker_step b (fst (allow_request now b))"
| success: "breaker_step b (record_success b)"
| failure: "breaker_step b (record_failure now b)"
| reset: "breaker_step b (reset_breaker b)"

inductive_cases breaker_stepE: "breaker_step b b'"

inductive reachable :: "int \<Rightarrow> int \<Rightarrow> breaker \<Rightarrow> bool" for thr rec where
  init: "reachable thr rec (new_breaker thr rec)"
| step: "reachable thr rec b \<Longrightarrow> breaker_step b b' \<Longrightarrow> reachable thr rec b'"

lemmas breaker_defs = allow_request_def read_state_def record_success_def record_failure_def reset_breaker_def Let_def

definition breaker_inv :: "breaker \<Rightarrow> bool" where
  "breaker_inv b \<longleftrightarrow> 0 \<le> failure_count b \<and>
     (circuit b = CLOSED \<longleftrightarrow> failure_count b = 0 \<or> failure_count b < failure_threshold b)"

lemma breaker_step_inv: "breaker_step b b' \<Longrightarrow> breaker_inv b \<Longrightarrow> breaker_inv b'"
  by (cases "circuit b") (auto elim!: breaker_stepE simp: breaker_defs breaker_inv_def split: if_splits)

lemma breaker_step_fixed:
  "breaker_step b b' \<Longrightarrow> failure_threshold b' = failure_threshold b \<and> recovery_timeout b' = recovery_timeout b"
  by (auto elim!: breaker_stepE simp: breaker_defs split: if_splits)

text \<open>The circuit is closed in every reachable state exactly when the failures since the last
  success are none or fewer than the threshold; the settings never change.  So one failure
  while it is half open opens it again.\<close>

theorem breaker_closed_below_threshold:
  assumes "reachable thr rec b"
  shows "(circuit b = CLOSED \<longleftrightarrow> failure_count b = 0 \<or> failure_count b < thr) \<and>
    failure_threshold b = thr \<and> recovery_timeout b = rec \<and>
    (circuit b = HALF_OPEN \<longrightarrow> circuit (record_failure now b) = OPEN)"
proof -
  from assms have "breaker_inv b \<and> failure_threshold b = thr \<and> recovery_timeout b = rec"
  proof (induction rule: reachable.induct)
    case init
    show ?case by (simp add: new_breaker_def breaker_inv_def)
  next
    case (step b b')
    then show ?case using breaker_step_inv breaker_step_fixed by metis
  qed
  then show ?thesis by (auto simp: breaker_inv_def record_failure_def Let_def)
qed

section \<open>The breaker counts failures in a row\<close>

record failure_log =
  failures_in_row :: nat
  last_failure :: int
  log_clock :: int

definition refusing :: "int \<Rightarrow> int \<Rightarrow> int \<Rightarrow> failure_log \<Rightarrow> bool" where
  "refusing thr rec now a \<longleftrightarrow>
     0 < failures_in_row a \<and> thr \<le> int (failures_in_row a) \<and> now - last_failure a < rec"

definition log_step :: "int \<Rightarrow> int \<Rightarrow> int \<times> breaker_call \<Rightarrow> failure_log \<Rightarrow> failure_log \<times> bool option" where
  "log_step thr rec = (\<lambda>(now, op) a. case op of
     Allow \<Rightarrow> (a\<lparr>log_clock := now\<rparr>, Some (\<not> refusing thr rec now a))
   | Success \<Rightarrow> (a\<lparr>failures_in_row := 0, log_clock := now\<rparr>, None)
   | Failure \<Rightarrow> (a\<lparr>failures_in_row := failures_in_row a + 1, last_failure := now, log_clock := now\<rparr>, None)
   | Reset \<Rightarrow> (a\<lparr>failures_in_row := 0, log_clock := now\<rparr>, None))"

definition new_log :: "int \<Rightarrow> failure_log" where
  "new_log now = \<lparr>failures_in_row = 0, last_failure = 0, log_clock = now\<rparr>"

definition not_before :: "failure_log \<Rightarrow> int \<times> breaker_call \<Rightarrow> bool" where
  "not_before a op \<longleftrightarrow> log_clock a \<le> fst op"

definition breaker_rel :: "int \<Rightarrow> int \<Rightarrow> breaker \<Rightarrow> failure_log \<Rightarrow> bool" where
  "breaker_rel thr rec b a \<longleftrightarrow> failure_threshold b = thr \<and> recovery_timeout b = rec \<and>
     failure_count b = int (failures_in_row a) \<and> last_failure_time b = last_failure a \<and>
     (circuit b = CLOSED \<longleftrightarrow> failures_in_row a = 0 \<or> int (failures_in_row a) < thr) \<and>
     (circuit b = HALF_OPEN \<longrightarrow> log_clock a - last_failure a \<ge> rec)"

lemma breaker_sim:
  assumes "breaker_rel thr rec b a" "not_before a op"
  shows "snd (breaker_call op b) = snd (log_step thr rec op a)"
    and "breaker_rel thr rec (fst (breaker_call op b)) (fst (log_step thr rec op a))"
proof -
  obtain now c where op: "op = (now, c)" by (cases op)
  have clock: "log_clock a \<le> now" using assms(2) by (simp add: not_before_def op)
  show "snd (breaker_call op b) = snd (log_step thr rec op a)"
    using assms(1) clock by (cases c; cases "circuit b")
      (auto simp: op breaker_call_def log_step_def breaker_rel_def breaker_defs refusing_def)
  show "breaker_rel thr rec (fst (breaker_call op b)) (fst (log_step thr rec op a))"
    using assms(1) clock by (cases c; cases "circuit b")
      (auto simp: op breaker_call_def log_step_def breaker_rel_def breaker_defs)
qed

interpretation counting_breaker: simulation breaker_call "log_step thr rec" not_before "breaker_rel thr rec"
  for thr rec :: int
  by unfold_locales (use breaker_sim in auto)

lemma log_clock_step: "log_clock (fst (log_step thr rec op a)) = fst op"
  by (cases op; cases "snd op") (auto simp: log_step_def)

lemma sorted_not_before:
  "sorted (log_clock a # map fst ops) \<Longrightarrow> all_enabled (log_step thr rec) not_before ops a"
proof (induction ops arbitrary: a)
  case (Cons op ops)
  then show ?case using Cons.IH [of "fst (log_step thr rec op a)"]
    by (simp add: not_before_def log_clock_step)
qed simp



theorem breaker_closed_below_threshold_witness:
  "circuit (record_failure 5 (new_breaker 2 10)) = CLOSED"
proof -
  have "reachable 2 10 (record_failure 5 (new_breaker 2 10))"
    by (intro reachable.step [OF reachable.init] breaker_step.failure)
  from breaker_closed_below_threshold [OF this] show ?thesis
    by (simp add: record_failure_def new_breaker_def Let_def)
qed

text \<open>Half open lets every request through, where the comment says one.\<close>

lemma half_open_allows_many:
  "run_outputs breaker_call [(1, Failure), (20, Allow), (20, Allow), (20, Allow)] (new_breaker 1 10) =
     [None, Some True, Some True, Some True]"
  by code_simp

section \<open>The limiter tells how long to wait\<close>

definition calls_inv :: "call_limiter \<Rightarrow> bool" where
  "calls_inv l \<longleftrightarrow> int (length (calls l)) \<le> max 0 (max_calls l)"

lemma cleanup_calls_inv: "calls_inv l \<Longrightarrow> calls_inv (cleanup_unlocked now l)"
  using length_dropWhile_le [of "\<lambda>t. t < now - call_window l" "calls l"]
  by (simp add: calls_inv_def cleanup_unlocked_def)

lemma check_and_record_inv: "calls_inv l \<Longrightarrow> calls_inv (fst (check_and_record now l))"
  using cleanup_calls_inv [of l now] by (simp add: check_and_record_def Let_def calls_inv_def)

interpretation call_memory: guarded_object check_and_record "\<lambda>_ _. True" calls_inv
  by unfold_locales (rule check_and_record_inv)

lemma dropWhile_later: "c \<le> d \<Longrightarrow> dropWhile (\<lambda>t. t < d) (dropWhile (\<lambda>t. t < c) xs) = dropWhile (\<lambda>t. t < (d :: int)) xs"
  by (induction xs) auto

lemma wait_exact:
  assumes "calls_inv l" "0 < max_calls l" "\<not> snd (check_and_record now l)" "0 \<le> d"
  shows "snd (check_and_record (now + d) l) \<longleftrightarrow> snd (wait_time now l) < d"
proof -
  let ?kept = "\<lambda>t. dropWhile (\<lambda>x. x < t - call_window l) (calls l)"
  have full: "int (length (?kept now)) \<ge> max_calls l"
    using assms(3) by (auto simp: check_and_record_def cleanup_unlocked_def Let_def split: if_splits)
  then obtain oldest rest where k: "?kept now = oldest # rest" using assms(2) by (cases "?kept now") auto
  have "int (length (?kept now)) \<le> max_calls l"
    using length_dropWhile_le [of "\<lambda>t. t < now - call_window l" "calls l"] assms(1,2) by (simp add: calls_inv_def)
  with full k have len: "max_calls l = int (length rest) + 1" by simp
  have "\<not> oldest < now - call_window l" using k by (metis hd_dropWhile list.distinct(1) list.sel(1))
  then have w: "snd (wait_time now l) = oldest + call_window l - now"
    using assms(2) full k by (simp add: wait_time_def cleanup_unlocked_def Let_def)
  have later: "?kept (now + d) = dropWhile (\<lambda>x. x < now + d - call_window l) (oldest # rest)"
    using dropWhile_later [of "now - call_window l" "now + d - call_window l" "calls l"] assms(4) k by simp
  have "snd (check_and_record (now + d) l) \<longleftrightarrow> int (length (?kept (now + d))) < max_calls l"
    by (simp add: check_and_record_def cleanup_unlocked_def Let_def)
  also have "\<dots> \<longleftrightarrow> oldest < now + d - call_window l"
    using later len length_dropWhile_le [of "\<lambda>x. x < now + d - call_window l" rest] by auto
  finally show ?thesis using w by auto
qed

text \<open>The limit of calls and the waiting time.  After any sequence of checks the limiter holds no
  more calls than allowed; and when it refuses a call, a call made after a further time is
  granted, no other having been made, exactly when that time is longer than the time the
  limiter tells to wait.\<close>

theorem call_limit_and_wait_time:
  "calls_inv (run_state check_and_record ops (new_call_limiter n w)) \<and>
   (let l = run_state check_and_record ops (new_call_limiter n w) in
      0 < max_calls l \<and> \<not> snd (check_and_record now l) \<and> 0 \<le> d \<longrightarrow>
      (snd (check_and_record (now + d) l) \<longleftrightarrow> snd (wait_time now l) < d))"
proof -
  have "calls_inv (run_state check_and_record ops (new_call_limiter n w))"
  proof (rule call_memory.run_inv)
    show "calls_inv (new_call_limiter n w)" by (simp add: calls_inv_def new_call_limiter_def)
  qed (rule always_enabled)
  then show ?thesis using wait_exact by (auto simp: Let_def)
qed

theorem call_limit_and_wait_time_witness:
  "\<not> snd (check_and_record 70 (run_state check_and_record [10, 20] (new_call_limiter 2 60))) \<and>
   snd (check_and_record 71 (run_state check_and_record [10, 20] (new_call_limiter 2 60)))"
proof -
  let ?l = "run_state check_and_record [10, 20] (new_call_limiter 2 60)"
  have r: "0 < max_calls ?l" "\<not> snd (check_and_record 30 ?l)" "snd (wait_time 30 ?l) = 40" by code_simp+
  from call_limit_and_wait_time [of "[10, 20]" 2 60 30 40] call_limit_and_wait_time [of "[10, 20]" 2 60 30 41] r
  show ?thesis by (simp add: Let_def)
qed

end
