(* ===== verification/Adaptive_Metrics.thy ===== *)
theory Adaptive_Metrics
  imports Complex_Main Sift_Prelude
begin

text \<open>
  Network metrics of the threat-intelligence client: \<open>opencti_mcp/adaptive.py\<close>.

  Latencies are real numbers where the code has floats.  The object is its state, every method
  takes the lock.  The background thread that probes the server is left out; what it does
  with one result is \<open>record_probe\<close>.

  Shown here: a percentile lies between the smallest and the largest sample; whatever was
  recorded, the windows keep their size and every recommendation stays in its range.
\<close>

section \<open>Constants\<close>

definition MIN_PROBE_INTERVAL :: real where "MIN_PROBE_INTERVAL = 10"
definition MAX_PROBE_INTERVAL :: real where "MAX_PROBE_INTERVAL = 300"
definition LATENCY_WINDOW_SIZE :: nat where "LATENCY_WINDOW_SIZE = 100"
definition SUCCESS_WINDOW_SIZE :: nat where "SUCCESS_WINDOW_SIZE = 50"
definition MIN_TIMEOUT :: int where "MIN_TIMEOUT = 5"
definition MAX_TIMEOUT :: int where "MAX_TIMEOUT = 300"
definition TIMEOUT_BUFFER_MULTIPLIER :: real where "TIMEOUT_BUFFER_MULTIPLIER = 2"
definition MIN_RETRY_DELAY :: real where "MIN_RETRY_DELAY = 1 / 2"
definition MAX_RETRY_DELAY :: real where "MAX_RETRY_DELAY = 60"

section \<open>Windows\<close>

text \<open>\<open>deque.append\<close> with a maximal length.\<close>

definition push :: "nat \<Rightarrow> 'a list \<Rightarrow> 'a \<Rightarrow> 'a list" where
  "push maxlen xs x = (let ys = xs @ [x] in drop (length ys - maxlen) ys)"

definition percentile :: "real \<Rightarrow> real list \<Rightarrow> real option" where
  "percentile p samples =
     (if samples = [] then None
      else let sorted_samples = sort samples;
               index = (p / 100) * (real (length sorted_samples) - 1);
               lo = nat \<lfloor>index\<rfloor>;
               hi = min (lo + 1) (length sorted_samples - 1);
               weight = index - real lo
           in Some (sorted_samples ! lo * (1 - weight) + sorted_samples ! hi * weight))"

record latency_stats =
  sample_count :: nat
  min_ms :: real
  max_ms :: real
  mean_ms :: real
  median_ms :: real
  p95_ms :: real
  p99_ms :: real
  stddev_ms :: real

definition mean :: "real list \<Rightarrow> real" where
  "mean xs = sum_list xs / real (length xs)"

definition median :: "real list \<Rightarrow> real" where
  "median xs = (let s = sort xs; n = length xs in
     if n mod 2 = 1 then s ! (n div 2) else (s ! (n div 2 - 1) + s ! (n div 2)) / 2)"

definition stdev :: "real list \<Rightarrow> real" where
  "stdev xs = sqrt (sum_list (map (\<lambda>x. (x - mean xs)\<^sup>2) xs) / (real (length xs) - 1))"

definition or_zero :: "real option \<Rightarrow> real" where
  "or_zero v = (case v of Some x \<Rightarrow> x | None \<Rightarrow> 0)"

definition statistics :: "real list \<Rightarrow> latency_stats option" where
  "statistics samples =
     (if length samples < 2 then None
      else Some \<lparr>sample_count = length samples, min_ms = Min (set samples), max_ms = Max (set samples),
        mean_ms = mean samples, median_ms = median samples, p95_ms = or_zero (percentile 95 samples),
        p99_ms = or_zero (percentile 99 samples), stddev_ms = stdev samples\<rparr>)"

definition classification :: "latency_stats \<Rightarrow> string" where
  "classification st =
     (if p95_ms st < 100 then ''excellent''
      else if p95_ms st < 300 then ''good''
      else if p95_ms st < 1000 then ''acceptable''
      else if p95_ms st < 3000 then ''poor''
      else ''critical'')"

definition success_rate_of :: "bool list \<Rightarrow> real" where
  "success_rate_of results = (if results = [] then 1 else real (length (filter id results)) / real (length results))"

section \<open>The metrics object\<close>

record probe_result =
  timestamp :: real
  latency_ms :: real
  probe_success :: bool
  error_type :: "string option"

record metrics =
  probe_interval :: real
  latency_window :: nat
  success_window :: nat
  samples :: "real list"
  results :: "bool list"
  recent_probes :: "probe_result list"
  last_probe_time :: "real option"

definition new_metrics :: "real \<Rightarrow> nat \<Rightarrow> nat \<Rightarrow> metrics" where
  "new_metrics interval lw sw = \<lparr>probe_interval = max MIN_PROBE_INTERVAL (min interval MAX_PROBE_INTERVAL),
     latency_window = lw, success_window = sw, samples = [], results = [], recent_probes = [], last_probe_time = None\<rparr>"

definition record_latency :: "real \<Rightarrow> bool \<Rightarrow> metrics \<Rightarrow> metrics" where
  "record_latency ms success m = m\<lparr>samples := push (latency_window m) (samples m) ms,
     results := push (success_window m) (results m) success\<rparr>"

definition record_request :: "real \<Rightarrow> real \<Rightarrow> bool \<Rightarrow> string option \<Rightarrow> metrics \<Rightarrow> metrics" where
  "record_request now start_time success err m =
     (let ms = (now - start_time) * 1000; m' = record_latency ms success m
      in m'\<lparr>recent_probes := push 10 (recent_probes m')
           \<lparr>timestamp = now, latency_ms = ms, probe_success = success, error_type = err\<rparr>\<rparr>)"

definition record_probe :: "probe_result \<Rightarrow> metrics \<Rightarrow> metrics" where
  "record_probe r m =
     (let m' = record_latency (latency_ms r) (probe_success r) (m\<lparr>last_probe_time := Some (timestamp r)\<rparr>)
      in m'\<lparr>recent_probes := push 10 (recent_probes m') r\<rparr>)"

record adaptive_config =
  recommended_timeout :: int
  recommended_retry_delay :: real
  recommended_max_retries :: nat
  recommended_circuit_threshold :: nat
  latency_class :: string
  ac_success_rate :: real
  probe_count :: nat
  ac_latency_stats :: "latency_stats option"
  ac_last_probe_time :: "real option"

text \<open>\<open>int\<close> of a float cuts towards zero; \<open>round(x, 2)\<close> rounds to hundredths, a half to the even one.\<close>

definition truncate :: "real \<Rightarrow> int" where
  "truncate x = (if 0 \<le> x then \<lfloor>x\<rfloor> else \<lceil>x\<rceil>)"

definition round_even :: "real \<Rightarrow> int" where
  "round_even x = (let d = x - \<lfloor>x\<rfloor> in
     if d < 1 / 2 \<or> (d = 1 / 2 \<and> even \<lfloor>x\<rfloor>) then \<lfloor>x\<rfloor> else \<lfloor>x\<rfloor> + 1)"

definition round2 :: "real \<Rightarrow> real" where
  "round2 x = real_of_int (round_even (x * 100)) / 100"

definition retries_for :: "real \<Rightarrow> nat" where
  "retries_for rate = (if rate \<ge> 99 / 100 then 2 else if rate \<ge> 95 / 100 then 3 else if rate \<ge> 90 / 100 then 4 else 5)"

definition threshold_for :: "real \<Rightarrow> nat" where
  "threshold_for rate = (if rate \<ge> 99 / 100 then 10 else if rate \<ge> 95 / 100 then 5 else if rate \<ge> 90 / 100 then 3 else 2)"

definition get_adaptive_config :: "metrics \<Rightarrow> adaptive_config" where
  "get_adaptive_config m =
     (let rate = success_rate_of (results m);
          default = \<lparr>recommended_timeout = 60, recommended_retry_delay = 2, recommended_max_retries = 3,
            recommended_circuit_threshold = 5, latency_class = ''unknown'', ac_success_rate = rate,
            probe_count = length (samples m), ac_latency_stats = statistics (samples m),
            ac_last_probe_time = last_probe_time m\<rparr>
      in case statistics (samples m) of
           None \<Rightarrow> default
         | Some st \<Rightarrow>
             if sample_count st < 5 then default
             else let timeout = max MIN_TIMEOUT (min (truncate (p95_ms st / 1000 * TIMEOUT_BUFFER_MULTIPLIER)) MAX_TIMEOUT);
                      retry_delay = max MIN_RETRY_DELAY (min (p95_ms st / 1000 * (1 / 2)) MAX_RETRY_DELAY)
                  in \<lparr>recommended_timeout = timeout, recommended_retry_delay = round2 retry_delay,
                      recommended_max_retries = retries_for rate, recommended_circuit_threshold = threshold_for rate,
                      latency_class = classification st, ac_success_rate = rate, probe_count = sample_count st,
                      ac_latency_stats = Some st, ac_last_probe_time = last_probe_time m\<rparr>)"

definition reset_metrics :: "metrics \<Rightarrow> metrics" where
  "reset_metrics m = m\<lparr>latency_window := (if latency_window m = 0 then LATENCY_WINDOW_SIZE else latency_window m),
     success_window := (if success_window m = 0 then SUCCESS_WINDOW_SIZE else success_window m),
     samples := [], results := [], recent_probes := [], last_probe_time := None\<rparr>"

definition clear_metrics :: "metrics \<Rightarrow> metrics" where
  "clear_metrics m = m\<lparr>samples := [], results := [], recent_probes := []\<rparr>"

section \<open>Percentiles\<close>

lemma convex_between:
  fixes a b w :: real
  assumes "lo \<le> a" "a \<le> hi" "lo \<le> b" "b \<le> hi" "0 \<le> w" "w \<le> 1"
  shows "lo \<le> a * (1 - w) + b * w \<and> a * (1 - w) + b * w \<le> hi"
proof -
  have "lo * (1 - w) + lo * w \<le> a * (1 - w) + b * w" "a * (1 - w) + b * w \<le> hi * (1 - w) + hi * w"
    using assms by (intro add_mono mult_right_mono; simp)+
  then show ?thesis by (simp add: algebra_simps)
qed

lemma percentile_between:
  assumes "xs \<noteq> []" "0 \<le> p" "p \<le> 100"
  shows "\<exists>x. percentile p xs = Some x \<and> Min (set xs) \<le> x \<and> x \<le> Max (set xs)"
proof -
  let ?s = "sort xs" and ?n = "length xs"
  let ?i = "(p / 100) * (real ?n - 1)"
  let ?lo = "nat \<lfloor>?i\<rfloor>" and ?hi = "min (nat \<lfloor>?i\<rfloor> + 1) (?n - 1)"
  have n: "1 \<le> real ?n" using assms(1) by (cases xs) auto
  have i: "0 \<le> ?i" "?i \<le> real ?n - 1"
    using assms(2,3) n mult_right_mono [of "p / 100" 1 "real ?n - 1"] by auto
  have lo: "?lo < ?n" using i n by linarith
  have "?hi < ?n" using lo by linarith
  have mem: "Min (set xs) \<le> ?s ! k" "?s ! k \<le> Max (set xs)" if "k < ?n" for k
    using that nth_mem [of k ?s] by auto
  have "0 \<le> ?i - real ?lo" "?i - real ?lo \<le> 1" using i by linarith+
  from convex_between [OF mem [OF lo] mem [OF \<open>?hi < ?n\<close>] this] assms(1) show ?thesis
    by (simp add: percentile_def Let_def)
qed

section \<open>Ranges\<close>

lemma length_push: "length (push n xs x) \<le> n"
  by (simp add: push_def Let_def)

lemma success_rate_range: "0 \<le> success_rate_of rs \<and> success_rate_of rs \<le> 1"
  by (simp add: success_rate_of_def divide_le_eq)

lemma round_even_range:
  assumes "of_int a \<le> x" and "x \<le> of_int b"
  shows "a \<le> round_even x" and "round_even x \<le> b"
proof -
  have "a \<le> \<lfloor>x\<rfloor>" using assms(1) by (simp add: le_floor_iff)
  then show "a \<le> round_even x" by (simp add: round_even_def Let_def)
  have "\<lfloor>x\<rfloor> \<le> b" "x - \<lfloor>x\<rfloor> \<noteq> 0 \<Longrightarrow> \<lfloor>x\<rfloor> < b" using assms(2) by linarith+
  then show "round_even x \<le> b" by (auto simp: round_even_def Let_def)
qed

lemma round2_range: "1 / 2 \<le> x \<Longrightarrow> x \<le> 60 \<Longrightarrow> 1 / 2 \<le> round2 x \<and> round2 x \<le> 60"
  using round_even_range [of 50 "x * 100" 6000] by (simp add: round2_def)

definition metrics_inv :: "metrics \<Rightarrow> bool" where
  "metrics_inv m \<longleftrightarrow> length (samples m) \<le> latency_window m \<and> length (results m) \<le> success_window m \<and>
     length (recent_probes m) \<le> 10 \<and> MIN_PROBE_INTERVAL \<le> probe_interval m \<and> probe_interval m \<le> MAX_PROBE_INTERVAL"

datatype metrics_call = Latency real bool | Request real real bool "string option" | Probe probe_result | ResetAll | ClearAll

definition metrics_call :: "metrics_call \<Rightarrow> metrics \<Rightarrow> metrics \<times> adaptive_config" where
  "metrics_call op m =
     (let m' = (case op of Latency ms ok \<Rightarrow> record_latency ms ok m | Request now start ok err \<Rightarrow> record_request now start ok err m
        | Probe r \<Rightarrow> record_probe r m | ResetAll \<Rightarrow> reset_metrics m | ClearAll \<Rightarrow> clear_metrics m)
      in (m', get_adaptive_config m'))"

lemma metrics_call_inv: "metrics_inv m \<Longrightarrow> metrics_inv (fst (metrics_call op m))"
  by (cases op) (auto simp: metrics_call_def metrics_inv_def record_latency_def record_request_def record_probe_def
      reset_metrics_def clear_metrics_def length_push Let_def)

interpretation bounded: guarded_object metrics_call "\<lambda>_ _. True" metrics_inv
  by unfold_locales (rule metrics_call_inv)

lemma config_ranges:
  "let c = get_adaptive_config m in
     MIN_TIMEOUT \<le> recommended_timeout c \<and> recommended_timeout c \<le> MAX_TIMEOUT \<and>
     MIN_RETRY_DELAY \<le> recommended_retry_delay c \<and> recommended_retry_delay c \<le> MAX_RETRY_DELAY \<and>
     recommended_max_retries c \<in> {2..5} \<and> recommended_circuit_threshold c \<in> {2..10} \<and>
     0 \<le> ac_success_rate c \<and> ac_success_rate c \<le> 1 \<and> probe_count c = length (samples m)"
proof -
  have delay: "1 / 2 \<le> round2 (max (1 / 2) (min x 60)) \<and> round2 (max (1 / 2) (min x 60)) \<le> 60" for x
    by (rule round2_range) auto
  have st: "sample_count st = length (samples m)" if "statistics (samples m) = Some st" for st
    using that by (auto simp: statistics_def split: if_splits)
  show ?thesis
    using success_rate_range [of "results m"] delay st
    by (auto simp: get_adaptive_config_def Let_def MIN_TIMEOUT_def MAX_TIMEOUT_def MIN_RETRY_DELAY_def MAX_RETRY_DELAY_def
        retries_for_def threshold_for_def split: option.split)
qed

text \<open>Recommendations stay in range: after any sequence of measurements, probes and resets, with
  any latencies, the recommended timeout is between 5 and 300 seconds, the delay between
  0.5 and 60, the retries between 2 and 5 and the threshold of the breaker between 2 and
  10, the success rate is a share, and the windows hold no more than their size.\<close>

theorem recommendations_in_range:
  "let m = run_state metrics_call ops (new_metrics interval lw sw); c = get_adaptive_config m in
     metrics_inv m \<and>
     MIN_TIMEOUT \<le> recommended_timeout c \<and> recommended_timeout c \<le> MAX_TIMEOUT \<and>
     MIN_RETRY_DELAY \<le> recommended_retry_delay c \<and> recommended_retry_delay c \<le> MAX_RETRY_DELAY \<and>
     recommended_max_retries c \<in> {2..5} \<and> recommended_circuit_threshold c \<in> {2..10} \<and>
     0 \<le> ac_success_rate c \<and> ac_success_rate c \<le> 1 \<and> probe_count c \<le> latency_window m"
proof -
  have "metrics_inv (run_state metrics_call ops (new_metrics interval lw sw))"
  proof (rule bounded.run_inv)
    show "metrics_inv (new_metrics interval lw sw)"
      by (auto simp: metrics_inv_def new_metrics_def MIN_PROBE_INTERVAL_def MAX_PROBE_INTERVAL_def)
  qed (rule always_enabled)
  then show ?thesis
    using config_ranges [of "run_state metrics_call ops (new_metrics interval lw sw)"]
    by (simp add: Let_def metrics_inv_def)
qed

end
