(* ===== verification/Opencti_Retry.thy ===== *)
theory Opencti_Retry
  imports Py_String Circuit_Breaker Adaptive_Metrics
begin

text \<open>
  Calls of the threat-intelligence server with retries: the methods \<open>_is_transient_error\<close>,
  \<open>_is_auth_error\<close>, \<open>_calculate_backoff\<close>, \<open>_maybe_adapt_timeout\<close>, \<open>_execute_with_retry\<close> and
  \<open>is_available\<close> of \<open>OpenCTIClient\<close> in \<open>opencti_mcp/client.py\<close>, over the breaker and the metrics.

  The server is a parameter: for each attempt, given whether a connection is kept, it returns a
  value or raises, and leaves a connection or not.  The clocks and the random jitter are
  parameters too; the monotonic clock counts seconds.  A run returns the new state of the client, the value or the error, and the
  delays slept.

  Shown here: a run makes at most one attempt more than the retries configured, waits a bounded
  time, raises a transient error only when the retries are used up, and tells the breaker
  once what happened, except for errors of authorisation; a server that recovers within the
  retries is reached.
\<close>

section \<open>Errors\<close>

record py_error =
  err_name :: string
  err_status :: "int option"
  err_cause :: "string option"
  err_text :: string

definition TRANSIENT_ERRORS :: "string list" where
  "TRANSIENT_ERRORS =
    [''ConnectionError'', ''TimeoutError'', ''OSError'', ''RequestException'', ''HTTPError'', ''ConnectionResetError'',
     ''BrokenPipeError'', ''ConnectionRefusedError'', ''ConnectionAbortedError'', ''SSLError'', ''ProxyError'',
     ''ChunkedEncodingError'', ''ContentDecodingError'']"

definition TRANSIENT_HTTP_CODES :: "int list" where
  "TRANSIENT_HTTP_CODES = [408, 429, 500, 502, 503, 504]"

definition is_transient_error :: "py_error \<Rightarrow> bool" where
  "is_transient_error e \<longleftrightarrow> err_name e \<in> set TRANSIENT_ERRORS \<or>
     (case err_status e of Some s \<Rightarrow> s \<in> set TRANSIENT_HTTP_CODES | None \<Rightarrow> False) \<or>
     (case err_cause e of Some n \<Rightarrow> n \<in> set TRANSIENT_ERRORS | None \<Rightarrow> False)"

definition is_auth_error :: "py_error \<Rightarrow> bool" where
  "is_auth_error e \<longleftrightarrow> (case err_status e of Some s \<Rightarrow> s = 401 \<or> s = 403 | None \<Rightarrow> False) \<or>
     err_name e \<in> set [''AuthenticationError'', ''AuthorizationError''] \<or>
     list_ex (contains (lower (err_text e))) [''unauthorized'', ''forbidden'', ''authentication'', ''invalid token'']"

definition circuit_open_error :: py_error where
  "circuit_open_error = \<lparr>err_name = ''ConnectionError'', err_status = None, err_cause = None,
     err_text = ''OpenCTI unavailable (circuit breaker open)''\<rparr>"

section \<open>The client\<close>

record retry_config =
  max_retries :: nat
  retry_base_delay :: real
  retry_max_delay :: real

record client =
  cl_breaker :: breaker
  cl_metrics :: metrics
  cl_connected :: bool
  cl_adapt_count :: nat
  cl_timeout :: int
  cl_health :: "(bool \<times> int) option"

record 'a server =
  sv_attempt :: "nat \<Rightarrow> bool \<Rightarrow> (py_error + 'a) \<times> bool"
  sv_start :: "nat \<Rightarrow> real"
  sv_end :: "nat \<Rightarrow> real"
  sv_mono :: "nat \<Rightarrow> int"
  sv_jitter :: "nat \<Rightarrow> real"

definition capped_delay :: "retry_config \<Rightarrow> nat \<Rightarrow> real" where
  "capped_delay cfg attempt = min (retry_base_delay cfg * 2 ^ attempt) (retry_max_delay cfg)"

definition calculate_backoff :: "retry_config \<Rightarrow> real \<Rightarrow> nat \<Rightarrow> real" where
  "calculate_backoff cfg jitter attempt =
     (let delay = capped_delay cfg attempt in delay + delay * jitter)"

definition maybe_adapt_timeout :: "client \<Rightarrow> client" where
  "maybe_adapt_timeout c0 =
     (let c = c0\<lparr>cl_adapt_count := cl_adapt_count c0 + 1\<rparr> in
      if cl_adapt_count c mod 5 \<noteq> 0 then c
      else let adaptive = get_adaptive_config (cl_metrics c) in
        if probe_count adaptive < 10 then c
        else let recommended = recommended_timeout adaptive; current = cl_timeout c in
          if current > 0 \<and> real_of_int \<bar>recommended - current\<bar> / real_of_int current > 1 / 4
          then c\<lparr>cl_timeout := max 10 (min recommended 300)\<rparr> else c)"

definition note_failure :: "int \<Rightarrow> client \<Rightarrow> client" where
  "note_failure now c = c\<lparr>cl_breaker := record_failure now (cl_breaker c)\<rparr>"

text \<open>The loop, by the retries that are left.\<close>

fun retry_loop :: "retry_config \<Rightarrow> 'a server \<Rightarrow> nat \<Rightarrow> nat \<Rightarrow> client \<Rightarrow> client \<times> (py_error + 'a) \<times> real list" where
  "retry_loop cfg sv left attempt c =
     (let (out, conn) = sv_attempt sv attempt (cl_connected c); c1 = c\<lparr>cl_connected := conn\<rparr> in
      case out of
        Inr v \<Rightarrow>
          (maybe_adapt_timeout (c1\<lparr>cl_breaker := record_success (cl_breaker c1),
             cl_metrics := record_request (sv_end sv attempt) (sv_start sv attempt) True None (cl_metrics c1)\<rparr>), Inr v, [])
      | Inl e \<Rightarrow>
          (let c2 = c1\<lparr>cl_metrics := record_request (sv_end sv attempt) (sv_start sv attempt) False (Some (err_name e)) (cl_metrics c1)\<rparr>
           in if \<not> is_transient_error e
              then (if is_auth_error e then c2 else note_failure (sv_mono sv attempt) c2, Inl e, [])
              else case left of
                0 \<Rightarrow> (note_failure (sv_mono sv attempt) c2, Inl e, [])
              | Suc left' \<Rightarrow>
                  (let delay = calculate_backoff cfg (sv_jitter sv attempt) attempt;
                       c3 = (if is_auth_error e then c2 else c2\<lparr>cl_connected := False\<rparr>);
                       (c4, r, delays) = retry_loop cfg sv left' (attempt + 1) c3
                   in (c4, r, delay # delays))))"

declare retry_loop.simps [simp del]

definition execute_with_retry ::
  "retry_config \<Rightarrow> 'a server \<Rightarrow> int \<Rightarrow> client \<Rightarrow> client \<times> (py_error + 'a) \<times> real list" where
  "execute_with_retry cfg sv now c =
     (let (b, allowed) = allow_request now (cl_breaker c); c' = c\<lparr>cl_breaker := b\<rparr>
      in if \<not> allowed then (c', Inl circuit_open_error, []) else retry_loop cfg sv (max_retries cfg) 0 c')"

definition HEALTH_CHECK_TTL :: int where "HEALTH_CHECK_TTL = 30"

text \<open>\<open>probe\<close> is whether the query of \<open>is_available\<close> succeeds and a connection is kept then; \<open>later\<close> is the
  clock after it.\<close>

definition is_available :: "int \<Rightarrow> int \<Rightarrow> (bool \<Rightarrow> bool \<times> bool) \<Rightarrow> client \<Rightarrow> client \<times> bool" where
  "is_available now later probe c =
     (let (b, allowed) = allow_request now (cl_breaker c); c1 = c\<lparr>cl_breaker := b\<rparr> in
      if \<not> allowed then (c1, False)
      else case (case cl_health c1 of Some (r, t) \<Rightarrow> if now - t < HEALTH_CHECK_TTL then Some r else None | None \<Rightarrow> None) of
        Some r \<Rightarrow> (c1, r)
      | None \<Rightarrow>
          (let (ok, conn) = probe (cl_connected c1); c2 = c1\<lparr>cl_connected := conn\<rparr>
           in if ok then (c2\<lparr>cl_breaker := record_success (cl_breaker c2), cl_health := Some (True, later)\<rparr>, True)
              else (note_failure later c2, False)))"

definition clear_health_cache :: "client \<Rightarrow> client" where
  "clear_health_cache c = c\<lparr>cl_health := None\<rparr>"

definition reset_circuit_breaker :: "client \<Rightarrow> client" where
  "reset_circuit_breaker c = clear_health_cache (c\<lparr>cl_breaker := reset_breaker (cl_breaker c)\<rparr>)"

definition force_reconnect :: "client \<Rightarrow> client" where
  "force_reconnect c = (clear_health_cache c)\<lparr>cl_breaker := reset_breaker (cl_breaker c),
     cl_metrics := reset_metrics (cl_metrics c), cl_connected := False\<rparr>"

section \<open>Runs\<close>

lemma maybe_adapt_breaker [simp]: "cl_breaker (maybe_adapt_timeout c) = cl_breaker c"
  by (simp add: maybe_adapt_timeout_def Let_def)

text \<open>What one run does to the breaker.\<close>

definition accounted :: "'a server \<Rightarrow> breaker \<Rightarrow> (py_error + 'a) \<Rightarrow> nat \<Rightarrow> breaker" where
  "accounted sv b r attempts =
     (case r of Inr _ \<Rightarrow> record_success b
      | Inl e \<Rightarrow> if \<not> is_transient_error e \<and> is_auth_error e then b else record_failure (sv_mono sv attempts) b)"

lemma retry_loop_transient:
  assumes "sv_attempt sv attempt (cl_connected c) = (Inl e, conn)" "is_transient_error e"
  obtains c3 c4 r ds where "cl_breaker c3 = cl_breaker c" "retry_loop cfg sv left (attempt + 1) c3 = (c4, r, ds)"
    "retry_loop cfg sv (Suc left) attempt c = (c4, r, calculate_backoff cfg (sv_jitter sv attempt) attempt # ds)"
proof -
  let ?c2 = "c\<lparr>cl_connected := conn, cl_metrics := record_request (sv_end sv attempt) (sv_start sv attempt)
      False (Some (err_name e)) (cl_metrics c)\<rparr>"
  let ?c3 = "if is_auth_error e then ?c2 else ?c2\<lparr>cl_connected := False\<rparr>"
  obtain c4 r ds where l: "retry_loop cfg sv left (attempt + 1) ?c3 = (c4, r, ds)" by (metis prod_cases3)
  have "retry_loop cfg sv (Suc left) attempt c = (c4, r, calculate_backoff cfg (sv_jitter sv attempt) attempt # ds)"
    using assms l by (subst retry_loop.simps) (simp add: Let_def split: if_split_asm)
  moreover have "cl_breaker ?c3 = cl_breaker c" by simp
  ultimately show ?thesis using l that by blast
qed

lemma retry_loop_run:
  assumes "retry_loop cfg sv left attempt c = (c', r, ds)"
  shows "length ds \<le> left \<and> (\<forall>e. r = Inl e \<and> is_transient_error e \<longrightarrow> length ds = left) \<and>
    cl_breaker c' = accounted sv (cl_breaker c) r (attempt + length ds) \<and>
    (\<forall>k < length ds. ds ! k = calculate_backoff cfg (sv_jitter sv (attempt + k)) (attempt + k))"
  using assms
proof (induction left arbitrary: attempt c c' r ds)
  case 0
  then show ?case
    by (subst (asm) retry_loop.simps)
      (auto simp: Let_def accounted_def note_failure_def split: prod.splits sum.splits if_splits)
next
  case (Suc left)
  obtain out conn where a: "sv_attempt sv attempt (cl_connected c) = (out, conn)" by (cases "sv_attempt sv attempt (cl_connected c)")
  show ?case
  proof (cases "\<exists>e. out = Inl e \<and> is_transient_error e")
    case False
    then show ?thesis using Suc.prems a
      by (subst (asm) retry_loop.simps)
        (auto simp: Let_def accounted_def note_failure_def split: sum.splits if_splits)
  next
    case True
    then obtain e where e: "out = Inl e" "is_transient_error e" by blast
    let ?d = "calculate_backoff cfg (sv_jitter sv attempt) attempt"
    from a e have "sv_attempt sv attempt (cl_connected c) = (Inl e, conn)" by simp
    from retry_loop_transient [OF this e(2), of cfg left] Suc.prems obtain c3 ds' where
      l: "retry_loop cfg sv left (attempt + 1) c3 = (c', r, ds')"
      and b: "cl_breaker c3 = cl_breaker c" and ds: "ds = ?d # ds'"
      by (metis prod.inject)
    from Suc.IH [OF l] b show ?thesis unfolding ds
      by (auto simp: nth_Cons split: nat.split)
  qed
qed

lemma backoff_range:
  assumes "0 \<le> retry_base_delay cfg" "0 \<le> retry_max_delay cfg" "1 / 10 \<le> j" "j \<le> 1 / 5"
  shows "11 / 10 * capped_delay cfg k \<le> calculate_backoff cfg j k \<and>
    calculate_backoff cfg j k \<le> 6 / 5 * retry_max_delay cfg"
proof -
  let ?d = "capped_delay cfg k"
  have d: "0 \<le> ?d" "?d \<le> retry_max_delay cfg" using assms(1,2) by (simp_all add: capped_delay_def)
  have "?d * (1 / 10) \<le> ?d * j" "?d * j \<le> ?d * (1 / 5)" using d(1) assms(3,4) by (intro mult_left_mono; simp)+
  then show ?thesis using d by (simp add: calculate_backoff_def Let_def)
qed


lemma retry_loop_recovers:
  assumes "\<forall>i < k. \<forall>conn. \<exists>e conn'. sv_attempt sv (attempt + i) conn = (Inl e, conn') \<and> is_transient_error e"
    and "\<forall>conn. \<exists>conn'. sv_attempt sv (attempt + k) conn = (Inr v, conn')" and "k \<le> left"
  shows "\<exists>c' ds. retry_loop cfg sv left attempt c = (c', Inr v, ds) \<and> length ds = k"
  using assms
proof (induction k arbitrary: attempt left c)
  case 0
  then obtain conn where "sv_attempt sv attempt (cl_connected c) = (Inr v, conn)" by fastforce
  then show ?case by (subst retry_loop.simps) (simp add: Let_def)
next
  case (Suc k)
  from Suc.prems(1) obtain e conn where a: "sv_attempt sv attempt (cl_connected c) = (Inl e, conn)" "is_transient_error e"
    by (metis add_0_right zero_less_Suc)
  from Suc.prems(3) obtain left' where left: "left = Suc left'" "k \<le> left'" by (cases left) auto
  have "\<exists>c' ds. retry_loop cfg sv left' (attempt + 1) c3 = (c', Inr v, ds) \<and> length ds = k" for c3
  proof (rule Suc.IH)
    show "\<forall>i < k. \<forall>conn. \<exists>e conn'. sv_attempt sv (attempt + 1 + i) conn = (Inl e, conn') \<and> is_transient_error e"
    proof (intro allI impI)
      fix i conn assume "i < k"
      with Suc.prems(1) [rule_format, of "Suc i" conn]
      show "\<exists>e conn'. sv_attempt sv (attempt + 1 + i) conn = (Inl e, conn') \<and> is_transient_error e" by simp
    qed
    show "\<forall>conn. \<exists>conn'. sv_attempt sv (attempt + 1 + k) conn = (Inr v, conn')" using Suc.prems(2) by simp
  qed (rule left(2))
  then show ?case using retry_loop_transient [OF a, of cfg left'] left(1) by (metis length_Cons prod.inject)
qed

text \<open>C35. A server that recovers is reached.  If the breaker lets the call pass, as it does once the
  recovery time is over, and the server fails with transient errors at most as often as
  retries are configured and then answers, the call returns the answer after exactly that
  many waits, and the circuit is closed.\<close>

theorem recovered_server_is_reached:
  assumes "circuit (cl_breaker c) \<noteq> OPEN \<or> recovery_timeout (cl_breaker c) \<le> now - last_failure_time (cl_breaker c)"
    and "k \<le> max_retries cfg"
    and "\<forall>i < k. \<forall>conn. \<exists>e conn'. sv_attempt sv i conn = (Inl e, conn') \<and> is_transient_error e"
    and "\<forall>conn. \<exists>conn'. sv_attempt sv k conn = (Inr v, conn')"
  shows "\<exists>c' ds. execute_with_retry cfg sv now c = (c', Inr v, ds) \<and> length ds = k \<and>
    circuit (cl_breaker c') = CLOSED \<and> failure_count (cl_breaker c') = 0"
proof -
  obtain b where b: "allow_request now (cl_breaker c) = (b, True)"
    using assms(1) by (cases "circuit (cl_breaker c)") (auto simp: breaker_defs)
  obtain c' ds where l: "retry_loop cfg sv (max_retries cfg) 0 (c\<lparr>cl_breaker := b\<rparr>) = (c', Inr v, ds)" "length ds = k"
    using retry_loop_recovers [of k sv 0 v "max_retries cfg" cfg "c\<lparr>cl_breaker := b\<rparr>"] assms(2-4) by auto
  with retry_loop_run [OF l(1)] have "cl_breaker c' = record_success b" by (simp add: accounted_def)
  with b l show ?thesis by (simp add: execute_with_retry_def record_success_def Let_def)
qed

section \<open>A server and the witnesses\<close>

text \<open>A server that times out twice and then answers.\<close>

definition slow_server :: "nat server" where
  "slow_server = \<lparr>sv_attempt = (\<lambda>k _. if k < 2 then (Inl \<lparr>err_name = ''TimeoutError'', err_status = None, err_cause = None,
       err_text = []\<rparr>, True) else (Inr 7, True)),
     sv_start = (\<lambda>k. real k), sv_end = (\<lambda>k. real k + 1), sv_mono = (\<lambda>k. int k), sv_jitter = (\<lambda>_. 1 / 10)\<rparr>"

definition fresh_client :: client where
  "fresh_client = \<lparr>cl_breaker = new_breaker 5 60, cl_metrics = new_metrics 60 100 50, cl_connected = False,
     cl_adapt_count = 0, cl_timeout = 60, cl_health = None\<rparr>"

definition three_retries :: retry_config where
  "three_retries = \<lparr>max_retries = 3, retry_base_delay = 1, retry_max_delay = 30\<rparr>"

theorem recovered_server_is_reached_witness:
  "\<exists>c' ds. execute_with_retry three_retries slow_server 0 fresh_client = (c', Inr 7, ds) \<and> length ds = 2 \<and>
     circuit (cl_breaker c') = CLOSED"
proof -
  have "circuit (cl_breaker fresh_client) \<noteq> OPEN \<or>
      recovery_timeout (cl_breaker fresh_client) \<le> 0 - last_failure_time (cl_breaker fresh_client)"
    by (simp add: fresh_client_def new_breaker_def)
  moreover have "2 \<le> max_retries three_retries" by (simp add: three_retries_def)
  moreover have "\<forall>i < 2. \<forall>conn. \<exists>e conn'. sv_attempt slow_server i conn = (Inl e, conn') \<and> is_transient_error e"
    by (auto simp: slow_server_def is_transient_error_def TRANSIENT_ERRORS_def)
  moreover have "\<forall>conn. \<exists>conn'. sv_attempt slow_server 2 conn = (Inr 7, conn')"
    by (auto simp: slow_server_def)
  ultimately show ?thesis using recovered_server_is_reached [of fresh_client 0 2 three_retries slow_server 7] by blast
qed


text \<open>A refusal for lack of rights that comes as \<open>HTTPError\<close> is retried and counted as a failure of
  the server.\<close>

lemma auth_failure_counted:
  "is_auth_error \<lparr>err_name = ''HTTPError'', err_status = Some 401, err_cause = None, err_text = []\<rparr> \<and>
   is_transient_error \<lparr>err_name = ''HTTPError'', err_status = Some 401, err_cause = None, err_text = []\<rparr>"
  by code_simp

end
