(* ===== verification/Opencti_Ioc.thy ===== *)
theory Opencti_Ioc
  imports Py_Text Py_Regex
begin

text \<open>
  Indicators of compromise: the first half of \<open>opencti_mcp/validation.py\<close>, which checks the length of
  an indicator and detects its type from its form.  \<open>raise ValidationError(message)\<close> is
  \<open>Invalid message\<close>; \<open>BadInt\<close> is an error of \<open>int(...)\<close> that is not caught.

  Shown here: the addresses recognised as IPv4 are exactly the dotted numerals of four bytes, all
  texts of IPv6 addresses are recognised and what is recognised has their alphabet and size,
  names are recognised exactly by their labels, a network is an address with a prefix within
  its width, and a validated identifier is in normal form.
\<close>

section \<open>Limits\<close>

definition MAX_QUERY_LENGTH :: nat where "MAX_QUERY_LENGTH = 1000"
definition MAX_IOC_LENGTH :: nat where "MAX_IOC_LENGTH = 2048"
definition MAX_HASH_LENGTH :: nat where "MAX_HASH_LENGTH = 128"
definition MAX_LIMIT :: int where "MAX_LIMIT = 100"
definition MAX_DAYS :: int where "MAX_DAYS = 365"
definition MAX_OFFSET :: int where "MAX_OFFSET = 500"
definition MAX_LABEL_LENGTH :: nat where "MAX_LABEL_LENGTH = 63"
definition MAX_DOMAIN_LENGTH :: nat where "MAX_DOMAIN_LENGTH = 253"
definition MAX_IPV6_LENGTH :: nat where "MAX_IPV6_LENGTH = 45"
definition HASH_LENGTHS :: "nat list" where "HASH_LENGTHS = [32, 40, 64]"

datatype validation_error = Invalid string | BadInt

abbreviation nul :: char where "nul \<equiv> CHR 0x00"

definition validate_no_null_bytes :: "string \<Rightarrow> string \<Rightarrow> validation_error + unit" where
  "validate_no_null_bytes value field =
     guard_res (nul \<in> set value) (Invalid (field @ '' contains invalid null byte''))"

definition validate_length :: "string option \<Rightarrow> nat \<Rightarrow> string \<Rightarrow> validation_error + unit" where
  "validate_length value max_length field =
     (case value of
        None \<Rightarrow> Inr ()
      | Some v \<Rightarrow>
          res_bind (guard_res (length v > max_length)
            (Invalid (field @ '' exceeds maximum length of '' @ dec_digits max_length @ '' characters''))) (\<lambda>_.
          guard_res (nul \<in> set v) (Invalid (field @ '' contains invalid null byte''))))"

text \<open>A numeric argument: absent, one that \<open>int(...)\<close> gives a number for, one it refuses with
  \<open>TypeError\<close> or \<open>ValueError\<close>, which are caught, or an infinite float, for which it raises
  \<open>OverflowError\<close>, which is not.\<close>

datatype number_arg = NoNumber | Number int | NotInt | Infinite

definition clamped :: "int \<Rightarrow> int \<Rightarrow> int \<Rightarrow> number_arg \<Rightarrow> validation_error + int" where
  "clamped dflt lo hi value =
     (case value of NoNumber \<Rightarrow> Inr dflt | NotInt \<Rightarrow> Inr dflt | Infinite \<Rightarrow> Inl BadInt
      | Number n \<Rightarrow> Inr (max lo (min n hi)))"

definition validate_limit :: "number_arg \<Rightarrow> int \<Rightarrow> validation_error + int" where
  "validate_limit value max_value = clamped 10 1 max_value value"

definition validate_days :: "number_arg \<Rightarrow> int \<Rightarrow> validation_error + int" where
  "validate_days value max_value = clamped 7 1 max_value value"

definition validate_offset :: "number_arg \<Rightarrow> int \<Rightarrow> validation_error + int" where
  "validate_offset value max_value = clamped 0 0 max_value value"

section \<open>Addresses\<close>

fun ipv4_parts :: "string list \<Rightarrow> validation_error + bool" where
  "ipv4_parts [] = Inr True"
| "ipv4_parts (part # parts) =
     (if part = [] then Inr False
      else if \<not> str_isdigit part then Inr False
      else case int_text part of
        None \<Rightarrow> Inl BadInt
      | Some num \<Rightarrow>
          if num > 255 then Inr False
          else if length part > 1 \<and> hd part = CHR ''0'' then Inr False
          else ipv4_parts parts)"

definition is_ipv4 :: "string \<Rightarrow> validation_error + bool" where
  "is_ipv4 value = (let parts = split_char (CHR ''.'') value in if length parts \<noteq> 4 then Inr False else ipv4_parts parts)"

definition hex_char :: "char \<Rightarrow> bool" where
  "hex_char c \<longleftrightarrow> in_range 48 57 c \<or> in_range 97 102 c \<or> in_range 65 70 c"

definition ipv6_group :: "string \<Rightarrow> bool" where
  "ipv6_group g \<longleftrightarrow> g = [] \<or> (length g \<le> 4 \<and> list_all hex_char g)"

text \<open>\<open>value.split("::")\<close>: the pieces between the separators, found from the left without overlap.\<close>

fun split_colons :: "string \<Rightarrow> string list" where
  "split_colons (a # b # s) =
     (if a = CHR '':'' \<and> b = CHR '':'' then [] # split_colons s
      else case split_colons (b # s) of [] \<Rightarrow> [[a]] | p # ps \<Rightarrow> (a # p) # ps)"
| "split_colons s = [s]"

definition groups_of :: "string \<Rightarrow> string list" where
  "groups_of s = (if s = [] then [] else split_char (CHR '':'') s)"

definition ipv6_groups :: "string \<Rightarrow> string list option" where
  "ipv6_groups value =
     (if contains value ''::'' then
        (case split_colons value of
           [l, r] \<Rightarrow>
             (let left = groups_of l; right = groups_of r in
              if length left + length right > 7 then None else Some (left @ right))
         | _ \<Rightarrow> None)
      else let all_groups = split_char (CHR '':'') value in
        if length all_groups \<noteq> 8 then None else Some all_groups)"

definition is_ipv6 :: "string \<Rightarrow> bool" where
  "is_ipv6 value =
     (if length value > MAX_IPV6_LENGTH then False
      else if CHR '':'' \<notin> set value then False
      else case ipv6_groups value of None \<Rightarrow> False | Some gs \<Rightarrow> list_all ipv6_group gs)"

text \<open>\<open>value.rsplit("/", 1)\<close> of a text with a slash.\<close>

definition before_last_slash :: "string \<Rightarrow> string" where
  "before_last_slash value = rev (tl (dropWhile (\<lambda>c. c \<noteq> CHR ''/'') (rev value)))"

definition is_cidr :: "string \<Rightarrow> validation_error + bool" where
  "is_cidr value =
     (if CHR ''/'' \<notin> set value then Inr False
      else let network = before_last_slash value; prefix = after_last (CHR ''/'') value in
        if \<not> str_isdigit prefix then Inr False
        else case int_text prefix of
          None \<Rightarrow> Inl BadInt
        | Some prefix_num \<Rightarrow>
            res_bind (is_ipv4 network) (\<lambda>v4.
              if v4 then Inr (prefix_num \<le> 32)
              else if is_ipv6 network then Inr (prefix_num \<le> 128) else Inr False))"

section \<open>Hashes and names\<close>

definition HASH_PREFIXES :: "string list" where
  "HASH_PREFIXES = [''md5:'', ''sha1:'', ''sha256:'', ''sha-1:'', ''sha-256:'']"

definition normalize_hash :: "string \<Rightarrow> string" where
  "normalize_hash value =
     (let v = lower (strip value)
      in strip (case find (startswith v) HASH_PREFIXES of None \<Rightarrow> v | Some p \<Rightarrow> drop (length p) v))"

definition is_hash :: "string \<Rightarrow> bool" where
  "is_hash value =
     (let normalized = normalize_hash value
      in if length normalized \<notin> set HASH_LENGTHS then False else list_all hex_char normalized)"

definition detect_hash_type :: "string \<Rightarrow> string" where
  "detect_hash_type value =
     (case map_of [(32, ''md5''), (40, ''sha1''), (64, ''sha256'')] (length (normalize_hash value)) of
        Some t \<Rightarrow> t | None \<Rightarrow> ''hash'')"

definition ascii_alpha :: "char \<Rightarrow> bool" where
  "ascii_alpha c \<longleftrightarrow> in_range 97 122 c \<or> in_range 65 90 c"

definition ascii_alnum :: "char \<Rightarrow> bool" where
  "ascii_alnum c \<longleftrightarrow> ascii_alpha c \<or> ascii_digit c"

definition domain_label :: "string \<Rightarrow> bool" where
  "domain_label l =
     (if l = [] then False
      else if length l > MAX_LABEL_LENGTH then False
      else if \<not> list_all (\<lambda>c. ascii_alnum c \<or> c = CHR ''-'') l then False
      else \<not> (startswith l ''-'' \<or> endswith l ''-''))"

definition is_domain :: "string \<Rightarrow> bool" where
  "is_domain value =
     (if length value > MAX_DOMAIN_LENGTH then False
      else if CHR ''.'' \<notin> set value then False
      else if startswith value ''.'' \<or> endswith value ''.'' then False
      else if contains value ''..'' then False
      else let labels = split_char (CHR ''.'') value in
        if \<not> list_all domain_label labels then False
        else let tld = last labels in \<not> (length tld < 2 \<or> \<not> list_all ascii_alpha tld))"

definition is_cve :: "string \<Rightarrow> bool" where
  "is_cve value =
     (let up = upper value in
      if \<not> startswith up ''CVE-'' then False
      else case split_char (CHR ''-'') (drop 4 up) of
        [year, num] \<Rightarrow>
          if length year \<noteq> 4 \<or> \<not> str_isdigit year then False
          else \<not> (\<not> str_isdigit num \<or> length num < 4)
      | _ \<Rightarrow> False)"

abbreviation digit_rx :: rx where "digit_rx \<equiv> Cls ascii_digit"

definition TECHNIQUE_RE :: rx where
  "TECHNIQUE_RE = cats ([LineStart, lit ''T''] @ replicate 4 digit_rx @ [LineEnd])"

definition SUBTECHNIQUE_RE :: rx where
  "SUBTECHNIQUE_RE = cats ([LineStart, lit ''T''] @ replicate 4 digit_rx @ [lit ''.''] @ replicate 3 digit_rx @ [LineEnd])"

definition is_mitre_id :: "string \<Rightarrow> bool" where
  "is_mitre_id value =
     (let up = upper value in
      if rx_match up TECHNIQUE_RE 0 no_groups \<noteq> [] then True
      else rx_match up SUBTECHNIQUE_RE 0 no_groups \<noteq> [])"

section \<open>Indicators\<close>

definition validate_ioc :: "string \<Rightarrow> validation_error + (bool \<times> string)" where
  "validate_ioc raw =
     res_bind (validate_length (Some raw) MAX_IOC_LENGTH ''IOC'') (\<lambda>_.
     let ioc = strip raw in
     res_bind (guard_res (ioc = []) (Invalid ''IOC cannot be empty'')) (\<lambda>_.
     res_bind (guard_res (nul \<in> set ioc) (Invalid ''IOC contains invalid characters'')) (\<lambda>_.
     res_bind (is_ipv4 ioc) (\<lambda>v4.
     if v4 then Inr (True, ''ipv4'')
     else if is_ipv6 ioc then Inr (True, ''ipv6'')
     else res_bind (is_cidr ioc) (\<lambda>cidr.
       if cidr then Inr (True, ''cidr'')
       else if is_hash ioc then Inr (True, detect_hash_type ioc)
       else if startswith ioc ''http://'' \<or> startswith ioc ''https://'' \<or> startswith ioc ''ftp://'' then Inr (True, ''url'')
       else if is_domain ioc then Inr (True, ''domain'')
       else if is_cve ioc then Inr (True, ''cve'')
       else if is_mitre_id ioc then Inr (True, ''mitre'')
       else Inr (True, ''unknown''))))))"

definition validate_hash :: "string \<Rightarrow> validation_error + bool" where
  "validate_hash value =
     res_bind (validate_length (Some value) MAX_HASH_LENGTH ''hash'') (\<lambda>_.
     let normalized = normalize_hash value in
     if length normalized \<notin> set [32, 40, 64] then Inr False else Inr (list_all hex_char normalized))"

section \<open>IPv4\<close>

lemma ascii_digit_isdigit: "ascii_digit c \<Longrightarrow> isdigit c"
  by (auto simp: ascii_digit_def isdigit_def)

lemma ipv4_part:
  "(\<exists>n. int_text p = Some n \<and> n \<le> 255 \<and> \<not> (length p > 1 \<and> hd p = CHR ''0'')) \<longleftrightarrow> (\<exists>n < 256. p = dec_digits n)"
proof
  assume "\<exists>n. int_text p = Some n \<and> n \<le> 255 \<and> \<not> (length p > 1 \<and> hd p = CHR ''0'')"
  then have p: "p \<noteq> []" "list_all ascii_digit p" "int_digits p \<le> 255" "length p = 1 \<or> hd p \<noteq> CHR ''0''"
    by (auto simp: int_text_def split: if_splits) (metis One_nat_def length_greater_0_conv nat_neq_iff less_one)
  then have "dec_digits (int_digits p) = p" using numeral_iff [of p] by simp
  with p(3) show "\<exists>n < 256. p = dec_digits n" by (intro exI [of _ "int_digits p"]) simp
next
  assume "\<exists>n < 256. p = dec_digits n"
  then obtain n where n: "n < 256" "p = dec_digits n" by blast
  with numeral_iff [of p] dec_digits_ascii [of n]
  show "\<exists>n. int_text p = Some n \<and> n \<le> 255 \<and> \<not> (length p > 1 \<and> hd p = CHR ''0'')"
    by (auto simp: int_text_def)
qed

lemma int_text_isdigit: "int_text p = Some n \<Longrightarrow> p \<noteq> [] \<and> str_isdigit p"
  by (auto simp: int_text_def str_isdigit_def list_all_iff ascii_digit_isdigit split: if_splits)

lemma ipv4_parts_True: "ipv4_parts ps = Inr True \<longleftrightarrow> (\<forall>p \<in> set ps. \<exists>n < 256. p = dec_digits n)"
proof (induction ps)
  case (Cons p ps)
  have "ipv4_parts (p # ps) = Inr True \<longleftrightarrow>
      (\<exists>n. int_text p = Some n \<and> n \<le> 255 \<and> \<not> (length p > 1 \<and> hd p = CHR ''0'')) \<and> ipv4_parts ps = Inr True"
    using int_text_isdigit [of p] by (auto split: option.split)
  then show ?case unfolding ipv4_part Cons.IH by simp
qed simp

text \<open>The texts recognised as IPv4 addresses are exactly the dotted numerals of four bytes, without
  leading zeros, and each text is that of one address only.\<close>

theorem ipv4_exact:
  "is_ipv4 s = Inr True \<longleftrightarrow>
     (\<exists>!bs. length bs = 4 \<and> list_all (\<lambda>b. b < 256) bs \<and> s = join_char (CHR ''.'') (map dec_digits bs))"
proof -
  have nodot: "CHR ''.'' \<notin> set (dec_digits n)" for n
    using dec_digits_ascii [of n] by (auto simp: list_all_iff ascii_digit_def in_range_def)
  have inj: "bs = cs" if "join_char (CHR ''.'') (map dec_digits bs) = join_char (CHR ''.'') (map dec_digits cs)"
    "length bs = 4" "length cs = 4" for bs cs
  proof -
    have "split_char (CHR ''.'') (join_char (CHR ''.'') (map dec_digits xs)) = map dec_digits xs" if "length xs = 4" for xs
      using that nodot by (intro split_join_char) auto
    then have "map dec_digits bs = map dec_digits cs" using that by metis
    then have "map int_digits (map dec_digits bs) = map int_digits (map dec_digits cs)" by simp
    then show ?thesis by (simp add: comp_def)
  qed
  have "is_ipv4 s = Inr True \<longleftrightarrow> (\<exists>bs. length bs = 4 \<and> list_all (\<lambda>b. b < 256) bs \<and> split_char (CHR ''.'') s = map dec_digits bs)"
  proof
    assume "is_ipv4 s = Inr True"
    then have l: "length (split_char (CHR ''.'') s) = 4" and "ipv4_parts (split_char (CHR ''.'') s) = Inr True"
      by (auto simp: is_ipv4_def Let_def split: if_splits)
    then have "\<forall>p \<in> set (split_char (CHR ''.'') s). int_digits p < 256 \<and> dec_digits (int_digits p) = p"
      unfolding ipv4_parts_True by auto
    with l show "\<exists>bs. length bs = 4 \<and> list_all (\<lambda>b. b < 256) bs \<and> split_char (CHR ''.'') s = map dec_digits bs"
      by (intro exI [of _ "map int_digits (split_char (CHR ''.'') s)"]) (auto simp: list_all_iff comp_def map_idI)
  qed (auto simp: is_ipv4_def Let_def ipv4_parts_True list_all_iff, blast)
  also have "\<dots> \<longleftrightarrow> (\<exists>bs. length bs = 4 \<and> list_all (\<lambda>b. b < 256) bs \<and> s = join_char (CHR ''.'') (map dec_digits bs))"
  proof -
    have "split_char (CHR ''.'') s = map dec_digits bs \<longleftrightarrow> s = join_char (CHR ''.'') (map dec_digits bs)"
      if "length bs = 4" for bs unfolding split_char_eq_iff using that nodot by auto
    then show ?thesis by blast
  qed
  also have "\<dots> \<longleftrightarrow> (\<exists>!bs. length bs = 4 \<and> list_all (\<lambda>b. b < 256) bs \<and> s = join_char (CHR ''.'') (map dec_digits bs))"
    using inj by blast
  finally show ?thesis .
qed

section \<open>IPv6\<close>

lemma split_colons_none: "\<not> contains s ''::'' \<Longrightarrow> split_colons s = [s]"
  by (induction s rule: split_colons.induct) auto

lemma split_colons_one:
  assumes "\<not> contains l ''::''" and "l = [] \<or> last l \<noteq> CHR '':''" and "\<not> contains r ''::''"
  shows "split_colons (l @ ''::'' @ r) = [l, r]"
  using assms(1,2)
proof (induction l)
  case Nil
  show ?case using split_colons_none [OF assms(3)] by simp
next
  case (Cons a l)
  have IH: "split_colons (l @ ''::'' @ r) = [l, r]" using Cons by (auto split: if_splits)
  show ?case
  proof (cases l)
    case Nil
    then show ?thesis using Cons.prems IH by simp
  next
    case (Cons b l')
    then show ?thesis using Cons.prems IH by auto
  qed
qed

lemma joined_no_double:
  "list_all (\<lambda>g. g \<noteq> [] \<and> c \<notin> set g) gs \<Longrightarrow>
     \<not> contains (join_char c gs) [c, c] \<and> (gs \<noteq> [] \<longrightarrow> join_char c gs \<noteq> [] \<and> hd (join_char c gs) \<noteq> c \<and> last (join_char c gs) \<noteq> c)"
proof (induction gs)
  case (Cons g gs)
  have g: "\<not> contains g [c, c]" "g \<noteq> []" "hd g \<noteq> c" "last g \<noteq> c"
    using Cons.prems by (auto simp: contains_iff)
  show ?case
  proof (cases gs)
    case Nil
    with g show ?thesis by simp
  next
    case (Cons h hs)
    then have IH: "\<not> contains (join_char c gs) [c, c]" "join_char c gs \<noteq> []" "hd (join_char c gs) \<noteq> c" "last (join_char c gs) \<noteq> c"
      using Cons.IH Cons.prems by auto
    have j: "join_char c (g # gs) = g @ c # join_char c gs" using Cons by simp
    have "\<not> contains (w @ c # t) [c, c]" if "\<not> contains t [c, c]" "t = [] \<or> hd t \<noteq> c" "c \<notin> set w" for w t
      using that by (induction w) (cases t; auto)+
    then have "\<not> contains (join_char c (g # gs)) [c, c]" using IH Cons.prems unfolding j by auto
    with IH g show ?thesis unfolding j by simp
  qed
qed simp

definition ipv6_word :: "string \<Rightarrow> bool" where
  "ipv6_word g \<longleftrightarrow> g \<noteq> [] \<and> length g \<le> 4 \<and> list_all hex_char g"

lemma hex_no_colon: "list_all hex_char g \<Longrightarrow> CHR '':'' \<notin> set g"
  by (auto simp: list_all_iff hex_char_def in_range_def)

lemma groups_of_join: "list_all ipv6_word gs \<Longrightarrow> groups_of (join_char (CHR '':'') gs) = gs"
  using joined_no_double [of "CHR '':''" gs] split_join_char [of gs "CHR '':''"]
  by (cases "gs = []") (auto simp: groups_of_def ipv6_word_def list_all_iff hex_no_colon)

lemma words_length: "list_all ipv6_word gs \<Longrightarrow> length (join_char (CHR '':'') gs) \<le> 5 * length gs"
proof (cases "gs = []")
  case False
  assume "list_all ipv6_word gs"
  then have "sum_list (map length gs) \<le> 4 * length gs" by (induction gs) (auto simp: ipv6_word_def)
  with length_join_char [OF False, of "CHR '':''"] show ?thesis by linarith
qed simp

lemma word_group: "list_all ipv6_word gs \<Longrightarrow> list_all ipv6_group gs"
  by (auto simp: list_all_iff ipv6_word_def ipv6_group_def)

lemma set_split_colons: "w \<in> set (split_colons s) \<Longrightarrow> set w \<subseteq> set s"
  by (induction s arbitrary: w rule: split_colons.induct) (fastforce split: if_splits list.splits)+

lemma colons_pieces: "set s \<subseteq> insert (CHR '':'') (\<Union>(set ` set (split_colons s)))"
  by (induction s rule: split_colons.induct) (fastforce split: if_splits list.splits)+

lemma groups_chars: "set s \<subseteq> insert (CHR '':'') (\<Union>(set ` set (groups_of s)))"
  using set_join_char [of "CHR '':''" "split_char (CHR '':'') s"] by (auto simp: groups_of_def join_split_char)

lemma ipv6_groups_chars:
  assumes "ipv6_groups s = Some gs"
  shows "set s \<subseteq> insert (CHR '':'') (\<Union>(set ` set gs))" and "length gs \<le> 8"
proof -
  show "set s \<subseteq> insert (CHR '':'') (\<Union>(set ` set gs))"
  proof (cases "contains s ''::''")
    case True
    with assms obtain l r where "split_colons s = [l, r]" "gs = groups_of l @ groups_of r"
      by (auto simp: ipv6_groups_def Let_def split: list.splits if_splits)
    then show ?thesis using colons_pieces [of s] groups_chars [of l] groups_chars [of r] by auto
  next
    case False
    with assms have "gs = split_char (CHR '':'') s" by (auto simp: ipv6_groups_def Let_def split: if_splits)
    then show ?thesis using set_join_char [of "CHR '':''" gs] by (simp add: join_split_char)
  qed
  show "length gs \<le> 8" using assms by (auto simp: ipv6_groups_def Let_def split: list.splits if_splits)
qed

lemma ipv6_chars:
  assumes "is_ipv6 s"
  shows "CHR '':'' \<in> set s" and "list_all (\<lambda>c. hex_char c \<or> c = CHR '':'') s"
proof -
  from assms obtain hs where hs: "ipv6_groups s = Some hs" "list_all ipv6_group hs" and c: "CHR '':'' \<in> set s"
    by (auto simp: is_ipv6_def split: if_splits option.splits)
  show "CHR '':'' \<in> set s" by (rule c)
  show "list_all (\<lambda>c. hex_char c \<or> c = CHR '':'') s"
    using ipv6_groups_chars(1) [OF hs(1)] hs(2) by (fastforce simp: list_all_iff ipv6_group_def)
qed

text \<open>IPv6 addresses.  Eight groups of one to four hexadecimal digits between colons are recognised, and so
  are up to seven with a double colon in the place of the missing ones.  What is recognised
  holds hexadecimal digits and colons only, a colon among them, and at most eight groups of at most four
  digits.\<close>

theorem ipv6_recognised:
  "(list_all ipv6_word gs \<longrightarrow> length gs = 8 \<longrightarrow> is_ipv6 (join_char (CHR '':'') gs)) \<and>
   (list_all ipv6_word ls \<longrightarrow> list_all ipv6_word rs \<longrightarrow> length ls + length rs \<le> 7 \<longrightarrow>
      is_ipv6 (join_char (CHR '':'') ls @ ''::'' @ join_char (CHR '':'') rs)) \<and>
   (is_ipv6 s \<longrightarrow> CHR '':'' \<in> set s \<and> list_all (\<lambda>c. hex_char c \<or> c = CHR '':'') s \<and>
      (\<exists>hs. ipv6_groups s = Some hs \<and> length hs \<le> 8 \<and> list_all (\<lambda>h. length h \<le> 4) hs))"
proof (intro conjI impI)
  assume gs: "list_all ipv6_word gs" "length gs = 8"
  have "list_all (\<lambda>g. g \<noteq> [] \<and> CHR '':'' \<notin> set g) gs"
    using gs by (auto simp: list_all_iff ipv6_word_def hex_no_colon)
  from joined_no_double [OF this] have "\<not> contains (join_char (CHR '':'') gs) ''::''" by simp
  moreover have "split_char (CHR '':'') (join_char (CHR '':'') gs) = gs"
    using gs by (intro split_join_char) (auto simp: list_all_iff ipv6_word_def hex_no_colon)
  moreover have "CHR '':'' \<in> set (join_char (CHR '':'') gs)"
    using gs(2) by (cases gs; cases "tl gs") auto
  ultimately show "is_ipv6 (join_char (CHR '':'') gs)"
    using words_length [OF gs(1)] word_group [OF gs(1)] gs(2)
    by (simp add: is_ipv6_def ipv6_groups_def Let_def MAX_IPV6_LENGTH_def)
next
  let ?l = "join_char (CHR '':'') ls" and ?r = "join_char (CHR '':'') rs"
  assume w: "list_all ipv6_word ls" "list_all ipv6_word rs" and len: "length ls + length rs \<le> 7"
  have "list_all (\<lambda>g. g \<noteq> [] \<and> CHR '':'' \<notin> set g) ls" "list_all (\<lambda>g. g \<noteq> [] \<and> CHR '':'' \<notin> set g) rs"
    using w by (auto simp: list_all_iff ipv6_word_def hex_no_colon)
  note joined_no_double [OF this(1)] joined_no_double [OF this(2)]
  then have "split_colons (?l @ ''::'' @ ?r) = [?l, ?r]" by (intro split_colons_one) (cases ls; auto)+
  moreover have "contains (?l @ ''::'' @ ?r) ''::''" unfolding contains_iff by blast
  ultimately have "ipv6_groups (?l @ ''::'' @ ?r) = Some (ls @ rs)"
    using len w by (simp add: ipv6_groups_def Let_def groups_of_join)
  moreover have "length (?l @ ''::'' @ ?r) \<le> MAX_IPV6_LENGTH"
    using words_length [OF w(1)] words_length [OF w(2)] len by (simp add: MAX_IPV6_LENGTH_def)
  ultimately show "is_ipv6 (?l @ ''::'' @ ?r)"
    using word_group [OF w(1)] word_group [OF w(2)] by (simp add: is_ipv6_def)
next
  assume v6: "is_ipv6 s"
  show "CHR '':'' \<in> set s" "list_all (\<lambda>c. hex_char c \<or> c = CHR '':'') s" using ipv6_chars [OF v6] by blast+
  from v6 obtain hs where "ipv6_groups s = Some hs" "list_all ipv6_group hs"
    by (auto simp: is_ipv6_def split: if_splits option.splits)
  then show "\<exists>hs. ipv6_groups s = Some hs \<and> length hs \<le> 8 \<and> list_all (\<lambda>h. length h \<le> 4) hs"
    using ipv6_groups_chars(2) [of s hs] by (auto simp: list_all_iff ipv6_group_def)
qed

section \<open>Domains\<close>

lemma domain_label_iff:
  "domain_label l \<longleftrightarrow> l \<noteq> [] \<and> length l \<le> 63 \<and> list_all (\<lambda>c. ascii_alnum c \<or> c = CHR ''-'') l \<and>
     hd l \<noteq> CHR ''-'' \<and> last l \<noteq> CHR ''-''"
  by (auto simp: domain_label_def startswith_char endswith_char MAX_LABEL_LENGTH_def)

lemma label_no_dot: "domain_label l \<Longrightarrow> CHR ''.'' \<notin> set l"
  by (auto simp: domain_label_iff list_all_iff ascii_alnum_def ascii_alpha_def ascii_digit_def in_range_def)

text \<open>Domain names.  A text is recognised exactly when it is at most 253 characters long and consists of two
  or more labels between dots, each of 1 to 63 letters, digits and inner hyphens, the last of
  two or more letters; the separate tests for dots at the ends and in a row never decide.\<close>

theorem domain_exact:
  "is_domain s \<longleftrightarrow> length s \<le> 253 \<and>
     (\<exists>ls tld. ls \<noteq> [] \<and> s = join_char (CHR ''.'') (ls @ [tld]) \<and> list_all domain_label (ls @ [tld]) \<and>
        length tld \<ge> 2 \<and> list_all ascii_alpha tld)"
proof
  assume "is_domain s"
  then have s: "length s \<le> 253" "CHR ''.'' \<in> set s" "list_all domain_label (split_char (CHR ''.'') s)"
    "length (last (split_char (CHR ''.'') s)) \<ge> 2" "list_all ascii_alpha (last (split_char (CHR ''.'') s))"
    by (auto simp: is_domain_def Let_def MAX_DOMAIN_LENGTH_def split: if_splits)
  let ?p = "split_char (CHR ''.'') s"
  have "butlast ?p \<noteq> []"
  proof
    assume "butlast ?p = []"
    then have "length ?p \<le> 1" by (metis One_nat_def length_butlast list.size(3) diff_is_0_eq)
    then have "filter (\<lambda>x. x = CHR ''.'') s = []" using length_split_char [of "CHR ''.''" s] by simp
    with s(2) show False by (auto simp: filter_empty_conv)
  qed
  moreover have "?p = butlast ?p @ [last ?p]" by simp
  ultimately show "length s \<le> 253 \<and> (\<exists>ls tld. ls \<noteq> [] \<and> s = join_char (CHR ''.'') (ls @ [tld]) \<and>
      list_all domain_label (ls @ [tld]) \<and> length tld \<ge> 2 \<and> list_all ascii_alpha tld)"
    using s join_split_char [of "CHR ''.''" s] by metis
next
  assume "length s \<le> 253 \<and> (\<exists>ls tld. ls \<noteq> [] \<and> s = join_char (CHR ''.'') (ls @ [tld]) \<and>
      list_all domain_label (ls @ [tld]) \<and> length tld \<ge> 2 \<and> list_all ascii_alpha tld)"
  then obtain ls tld where s: "length s \<le> 253" "ls \<noteq> []" "s = join_char (CHR ''.'') (ls @ [tld])"
    "list_all domain_label (ls @ [tld])" "length tld \<ge> 2" "list_all ascii_alpha tld" by blast
  have p: "split_char (CHR ''.'') s = ls @ [tld]"
    unfolding s(3) using s(4) by (intro split_join_char) (auto simp: list_all_iff label_no_dot)
  have "list_all (\<lambda>g. g \<noteq> [] \<and> CHR ''.'' \<notin> set g) (ls @ [tld])"
    using s(4) label_no_dot by (auto simp: list_all_iff domain_label_iff)
  from joined_no_double [OF this] have j: "\<not> contains s ''..''" "s \<noteq> []" "hd s \<noteq> CHR ''.''" "last s \<noteq> CHR ''.''"
    by (simp_all add: s(3))
  have "CHR ''.'' \<in> set s" using s(2) unfolding s(3) by (cases ls; cases "tl ls") auto
  moreover have "\<not> startswith s ''.''" "\<not> endswith s ''.''"
    using j by (simp_all add: startswith_char endswith_char)
  ultimately show "is_domain s"
    using s(1,4,5,6) j p by (auto simp: is_domain_def Let_def MAX_DOMAIN_LENGTH_def)
qed

section \<open>The forms exclude each other\<close>

definition is_url :: "string \<Rightarrow> bool" where
  "is_url s \<longleftrightarrow> startswith s ''http://'' \<or> startswith s ''https://'' \<or> startswith s ''ftp://''"

lemma ipv4_chars:
  assumes "is_ipv4 s = Inr True"
  shows "CHR ''.'' \<in> set s" and "list_all (\<lambda>c. ascii_digit c \<or> c = CHR ''.'') s"
proof -
  let ?p = "split_char (CHR ''.'') s"
  have p: "length ?p = 4" "\<forall>p \<in> set ?p. \<exists>n < 256. p = dec_digits n"
    using assms by (auto simp: is_ipv4_def Let_def ipv4_parts_True split: if_splits)
  then have "length (filter (\<lambda>x. x = CHR ''.'') s) = 3" using length_split_char [of "CHR ''.''" s] by simp
  then have "filter (\<lambda>x. x = CHR ''.'') s \<noteq> []" by auto
  then show "CHR ''.'' \<in> set s" by (auto simp: filter_empty_conv)
  have "\<forall>p \<in> set ?p. list_all ascii_digit p" using p(2) dec_digits_ascii by auto
  then show "list_all (\<lambda>c. ascii_digit c \<or> c = CHR ''.'') s"
    using set_join_char [of "CHR ''.''" ?p] by (fastforce simp: list_all_iff join_split_char)
qed

lemma rsplit_slash: "CHR ''/'' \<in> set s \<Longrightarrow> s = before_last_slash s @ CHR ''/'' # after_last (CHR ''/'') s"
proof -
  assume "CHR ''/'' \<in> set s"
  then have r: "rev s = before_char (CHR ''/'') (rev s) @ CHR ''/'' # after_char (CHR ''/'') (rev s)"
    by (intro split_at_char) simp
  have "s = rev (rev s)" by simp
  also have "\<dots> = rev (after_char (CHR ''/'') (rev s)) @ CHR ''/'' # rev (before_char (CHR ''/'') (rev s))"
    by (subst r) simp
  finally show ?thesis by (simp add: before_last_slash_def after_last_def after_char_def before_char_def)
qed

lemma cidr_chars:
  assumes "is_cidr s = Inr True"
  shows "CHR ''/'' \<in> set s" and "list_all (\<lambda>c. hex_char c \<or> c \<in> set '':./'') s"
proof -
  show sl: "CHR ''/'' \<in> set s" using assms by (auto simp: is_cidr_def split: if_splits)
  let ?n = "before_last_slash s" and ?p = "after_last (CHR ''/'') s"
  have "int_text ?p \<noteq> None" "is_ipv4 ?n = Inr True \<or> is_ipv6 ?n"
    using assms by (auto simp: is_cidr_def Let_def split: if_splits option.splits)
  then have "list_all ascii_digit ?p" "list_all (\<lambda>c. hex_char c \<or> c \<in> set '':.'') ?n"
    using ipv4_chars(2) [of ?n] ipv6_chars(2) [of ?n]
    by (auto simp: int_text_def list_all_iff hex_char_def ascii_digit_def split: if_splits)
  then have "list_all (\<lambda>c. hex_char c \<or> c \<in> set '':./'') (?n @ CHR ''/'' # ?p)"
    by (auto simp: list_all_iff hex_char_def ascii_digit_def)
  then show "list_all (\<lambda>c. hex_char c \<or> c \<in> set '':./'') s" using rsplit_slash [OF sl] by simp
qed

lemma nonspace_strip: "c \<in> set s \<Longrightarrow> \<not> isspace c \<Longrightarrow> c \<in> set (strip s)"
proof -
  assume "c \<in> set s" "\<not> isspace c"
  then have "c \<in> set (filter (\<lambda>c. \<not> isspace c) (strip s))" unfolding strip_filter by simp
  then show ?thesis by simp
qed

lemma hash_chars:
  assumes "is_hash s" and "c \<in> set s" and "\<not> isspace c" and "\<not> isspace (lower_char c)"
  shows "hex_char (lower_char c) \<or> lower_char c \<in> set ''mdsha:-''"
    and "c = CHR '':'' \<Longrightarrow> \<exists>d \<in> set s. lower_char d \<in> set ''ms''"
proof -
  let ?v = "lower (strip s)"
  have v: "lower_char c \<in> set ?v" using nonspace_strip [OF assms(2,3)] by (simp add: lower_def)
  have hex: "list_all hex_char (normalize_hash s)" using assms(1) by (simp add: is_hash_def Let_def split: if_splits)
  consider "normalize_hash s = strip ?v" | p where "p \<in> set HASH_PREFIXES" "startswith ?v p" "normalize_hash s = strip (drop (length p) ?v)"
    by (cases "find (startswith ?v) HASH_PREFIXES") (auto simp: normalize_hash_def Let_def find_Some_iff in_set_conv_nth)
  then have "hex_char (lower_char c) \<or> (\<exists>p \<in> set HASH_PREFIXES. lower_char c \<in> set p \<and> set p \<subseteq> set ?v)"
  proof cases
    case 1
    then show ?thesis using nonspace_strip [OF v assms(4)] hex by (simp add: list_all_iff)
  next
    case (2 p)
    then have vp: "?v = p @ drop (length p) ?v" by (metis append_take_drop_id startswith_def)
    show ?thesis
    proof (cases "lower_char c \<in> set p")
      case True
      with 2 vp show ?thesis by (metis set_append Un_upper1)
    next
      case False
      then have "lower_char c \<in> set (drop (length p) ?v)" using v vp by (metis Un_iff set_append)
      with nonspace_strip [OF this assms(4)] 2 hex show ?thesis by (simp add: list_all_iff)
    qed
  qed
  then consider "hex_char (lower_char c)" | p where "p \<in> set HASH_PREFIXES" "lower_char c \<in> set p" "set p \<subseteq> set ?v" by blast
  note cases_c = this
  have digit: "hex_char d" if "d \<in> set ''0123456''" for d using that by (auto simp: hex_char_def in_range_def)
  show "hex_char (lower_char c) \<or> lower_char c \<in> set ''mdsha:-''"
    using cases_c by cases (auto simp: HASH_PREFIXES_def digit)
  show "\<exists>d \<in> set s. lower_char d \<in> set ''ms''" if "c = CHR '':''"
    using cases_c
  proof cases
    case 1
    with that show ?thesis by (simp add: hex_char_def in_range_def)
  next
    case (2 p)
    then have "CHR ''m'' \<in> set ?v \<or> CHR ''s'' \<in> set ?v" by (auto simp: HASH_PREFIXES_def)
    then show ?thesis using set_strip [of s] by (auto simp: lower_def)
  qed
qed

lemma url_chars: "is_url s \<Longrightarrow> {CHR '':'', CHR ''/'', CHR ''p''} \<subseteq> set s"
  by (auto simp: is_url_def startswith_prefix prefix_def)

lemma last_join_char:
  "ls \<noteq> [] \<Longrightarrow> last ls \<noteq> [] \<Longrightarrow> join_char c ls \<noteq> [] \<and> last (join_char c ls) = last (last ls)"
  by (induction c ls rule: join_char.induct) (auto simp: last_append)

lemma domain_chars:
  assumes "is_domain s"
  shows "CHR ''.'' \<in> set s" and "list_all (\<lambda>c. ascii_alnum c \<or> c \<in> set ''-.'') s" and "ascii_alpha (last s)"
proof -
  let ?p = "split_char (CHR ''.'') s"
  have p: "list_all domain_label ?p" "2 \<le> length (last ?p)" "list_all ascii_alpha (last ?p)"
    using assms by (auto simp: is_domain_def Let_def split: if_splits)
  show "CHR ''.'' \<in> set s" using assms by (auto simp: is_domain_def split: if_splits)
  show "list_all (\<lambda>c. ascii_alnum c \<or> c \<in> set ''-.'') s"
    using p(1) set_join_char [of "CHR ''.''" ?p] by (fastforce simp: list_all_iff domain_label_iff join_split_char)
  have "last ?p \<noteq> []" using p(2) by auto
  then have "last s = last (last ?p)" using last_join_char [of ?p "CHR ''.''"] by (simp add: join_split_char)
  with p(3) \<open>last ?p \<noteq> []\<close> show "ascii_alpha (last s)" by (simp add: list_all_iff)
qed

lemma upper_char_fixed: "c \<in> set ''./:'' \<Longrightarrow> upper_char c = [c]"
  by (auto simp: upper_char_def in_range_def)

lemma upper_fixed: "c \<in> set ''./:'' \<Longrightarrow> c \<in> set s \<Longrightarrow> c \<in> set (upper s)"
  unfolding upper_def by (auto simp: upper_char_fixed intro!: bexI [of _ c])

lemma upper_char_code:
  "upper_char c = (if code c = 223 then ''SS'' else [if in_range 97 122 c \<or> (in_range 224 254 c \<and> code c \<noteq> 247) then char_of (code c - 32) else c])"
  by (auto simp: upper_char_def in_range_def)

lemma upper_source:
  assumes "x \<in> set (upper s)" and "code x < 128" and "x \<noteq> CHR ''S''"
  shows "\<exists>c \<in> set s. lower_char c = lower_char x"
proof -
  from assms(1) obtain c where c: "c \<in> set s" "x \<in> set (upper_char c)" by (auto simp: upper_def)
  with assms(3) have x: "x = (if in_range 97 122 c \<or> (in_range 224 254 c \<and> code c \<noteq> 247) then char_of (code c - 32) else c)"
    by (auto simp: upper_char_code split: if_splits)
  have "lower_char c = lower_char x"
  proof (cases "in_range 97 122 c \<or> (in_range 224 254 c \<and> code c \<noteq> 247)")
    case True
    have "code c - 32 < 256" using of_char_bound [of c] by linarith
    with True x have "code x = code c - 32" by (simp add: take_bit_eq_mod)
    with True assms(2) have "in_range 97 122 c" "in_range 65 90 x" by (auto simp: in_range_def)
    then have "code (lower_char x) = code (lower_char c)"
      using \<open>code x = code c - 32\<close> by (simp add: lower_char_code in_range_def)
    then show ?thesis by (metis char_of_char)
  next
    case False
    then show ?thesis unfolding x by (simp only: if_False)
  qed
  with c(1) show ?thesis by blast
qed

lemma cve_chars:
  assumes "is_cve s"
  shows "set s \<inter> set ''./:'' = {}" and "\<exists>c \<in> set s. lower_char c = CHR ''v''"
proof -
  from assms obtain year num where v: "startswith (upper s) ''CVE-''" "split_char (CHR ''-'') (drop 4 (upper s)) = [year, num]"
    "str_isdigit year" "str_isdigit num"
    by (auto simp: is_cve_def Let_def split: if_splits list.splits)
  from v(1) obtain t where t: "upper s = ''CVE-'' @ t" by (auto simp: startswith_prefix prefix_def)
  with v(2) have u: "upper s = ''CVE-'' @ year @ CHR ''-'' # num" by (auto simp: split_char_eq_iff)
  have "set (upper s) \<inter> set ''./:'' = {}"
    unfolding u using v(3,4) by (auto simp: str_isdigit_def list_all_iff isdigit_def in_range_def)
  then show "set s \<inter> set ''./:'' = {}" using upper_fixed [of _ s] by blast
  have "CHR ''V'' \<in> set (upper s)" unfolding u by simp
  from upper_source [OF this] show "\<exists>c \<in> set s. lower_char c = CHR ''v''" by simp
qed

lemma technique_rx: "TECHNIQUE_RE = cats (LineStart # map Cls ((\<lambda>x. x = CHR ''T'') # replicate 4 ascii_digit) @ [LineEnd])"
  by (simp add: TECHNIQUE_RE_def lit_def map_replicate)

lemma subtechnique_rx:
  "SUBTECHNIQUE_RE = cats (LineStart # map Cls ((\<lambda>x. x = CHR ''T'') # replicate 4 ascii_digit @ (\<lambda>x. x = CHR ''.'') # replicate 3 ascii_digit) @ [LineEnd])"
  by (simp add: SUBTECHNIQUE_RE_def lit_def map_replicate)

text \<open>What follows a match of fixed classes at the end of the text is one line break at most.\<close>

lemma list_all2_source: "list_all2 R xs ys \<Longrightarrow> y \<in> set ys \<Longrightarrow> \<exists>x \<in> set xs. R x y"
  by (induction rule: list_all2_induct) auto

lemma list_all2_last: "list_all2 R xs ys \<Longrightarrow> xs \<noteq> [] \<Longrightarrow> R (last xs) (last ys)"
  by (induction rule: list_all2_induct) auto

lemma anchored_chars:
  assumes "rx_match u (cats (LineStart # map Cls Ps @ [LineEnd])) 0 no_groups \<noteq> []" and "Ps \<noteq> []"
  shows "u \<noteq> []" and "hd Ps (hd u)" and "last Ps (last u) \<or> code (last u) = 10"
    and "\<And>c. c \<in> set u \<Longrightarrow> (\<exists>P \<in> set Ps. P c) \<or> code c = 10"
proof -
  let ?n = "length Ps"
  from assms have m: "list_all2 (\<lambda>P c. P c) Ps (take ?n u)" "?n \<le> length u"
    and e: "length u = ?n \<or> (length u = Suc ?n \<and> code (last u) = 10)" unfolding rx_match_anchored by auto
  show ne: "u \<noteq> []" using m(2) assms(2) by auto
  show "hd Ps (hd u)" using m(1) ne assms(2) by (cases Ps; cases u) auto
  have set_u: "set u = set (take ?n u) \<union> set (drop ?n u)" by (metis append_take_drop_id set_append)
  have tail: "drop ?n u = [] \<or> (drop ?n u = [last u] \<and> code (last u) = 10)"
  proof (cases "length u = ?n")
    case False
    with e have "length u = Suc ?n" "code (last u) = 10" by auto
    then have "length (drop ?n u) = 1" "last (drop ?n u) = last u" by simp_all
    then show ?thesis using \<open>code (last u) = 10\<close> by (cases "drop ?n u") auto
  qed simp
  have all: "\<exists>P \<in> set Ps. P c" if "c \<in> set (take ?n u)" for c
    using m(1) that by (rule list_all2_source)
  show "(\<exists>P \<in> set Ps. P c) \<or> code c = 10" if "c \<in> set u" for c
  proof (cases "c \<in> set (take ?n u)")
    case True
    then show ?thesis using all by blast
  next
    case False
    have "c \<in> set (take ?n u) \<union> set (drop ?n u)" unfolding set_u [symmetric] by (rule that)
    with False have "c \<in> set (drop ?n u)" by blast
    with tail have "code c = 10" by (elim disjE conjE) simp_all
    then show ?thesis ..
  qed
  have "last Ps (last (take ?n u))"
    using list_all2_last [OF m(1) assms(2)] .
  moreover have "take ?n u = u" if "drop ?n u = []" using that by simp
  ultimately show "last Ps (last u) \<or> code (last u) = 10" using tail by auto
qed

lemma mitre_chars:
  assumes "is_mitre_id s"
  shows "\<exists>c \<in> set s. lower_char c = CHR ''t''" and "set s \<inter> {CHR '':'', CHR ''/'', CHR ''v'', CHR ''V''} = {}"
    and "\<not> ascii_alpha (last s)"
proof -
  let ?u = "upper s"
  let ?P = "(\<lambda>x. x = CHR ''T'') # replicate 4 ascii_digit"
  let ?Q = "?P @ (\<lambda>x. x = CHR ''.'') # replicate 3 ascii_digit"
  have "rx_match ?u (cats (LineStart # map Cls ?P @ [LineEnd])) 0 no_groups \<noteq> [] \<or>
      rx_match ?u (cats (LineStart # map Cls ?Q @ [LineEnd])) 0 no_groups \<noteq> []"
    using assms unfolding is_mitre_id_def Let_def technique_rx subtechnique_rx by (metis append_Cons)
  then obtain Ps where Ps: "rx_match ?u (cats (LineStart # map Cls Ps @ [LineEnd])) 0 no_groups \<noteq> []" "Ps \<noteq> []"
    and hd: "hd Ps = (\<lambda>x. x = CHR ''T'')" and last: "last Ps = ascii_digit"
    and set: "set Ps \<subseteq> {(\<lambda>x. x = CHR ''T''), (\<lambda>x. x = CHR ''.''), ascii_digit}"
  proof
    assume p: "rx_match ?u (cats (LineStart # map Cls ?P @ [LineEnd])) 0 no_groups \<noteq> []"
    show thesis by (rule that [OF p]) auto
  next
    assume q: "rx_match ?u (cats (LineStart # map Cls ?Q @ [LineEnd])) 0 no_groups \<noteq> []"
    show thesis by (rule that [OF q]) (auto simp: last_append)
  qed
  note m = anchored_chars [OF Ps]
  have T: "CHR ''T'' \<in> set ?u" using m(1,2) by (simp add: hd) (metis hd_in_set)
  from upper_source [OF this] show "\<exists>c \<in> set s. lower_char c = CHR ''t''" by simp
  have chars: "c = CHR ''T'' \<or> c = CHR ''.'' \<or> ascii_digit c \<or> code c = 10" if "c \<in> set ?u" for c
    using m(4) [OF that] set by auto
  have up: "upper_char (CHR ''v'') = ''V''" "upper_char (CHR ''V'') = ''V''" by (simp_all add: upper_char_def in_range_def char_of_def bit_0)
  have "CHR ''V'' \<notin> set ?u" "CHR '':'' \<notin> set ?u" "CHR ''/'' \<notin> set ?u"
    using chars [of "CHR ''V''"] chars [of "CHR '':''"] chars [of "CHR ''/''"] by (auto simp: ascii_digit_def in_range_def)
  moreover have "CHR ''V'' \<in> set ?u" if "c \<in> set s" "c = CHR ''v'' \<or> c = CHR ''V''" for c
    using that up unfolding upper_def by (auto intro!: bexI [of _ c])
  ultimately show "set s \<inter> {CHR '':'', CHR ''/'', CHR ''v'', CHR ''V''} = {}"
    using upper_fixed [of "CHR '':''" s] upper_fixed [of "CHR ''/''" s] by auto
  have ne: "s \<noteq> []" using m(1) by (auto simp: upper_def)
  have "upper_char (last s) \<noteq> []" by (simp add: upper_char_def)
  moreover have "upper (butlast s @ [last s]) = upper (butlast s) @ upper_char (last s)" by (simp add: upper_def)
  ultimately have "last ?u = last (upper_char (last s))" using ne by simp
  then have "ascii_digit (last (upper_char (last s))) \<or> code (last (upper_char (last s))) = 10" using m(3) last by simp
  then show "\<not> ascii_alpha (last s)"
    by (auto simp: upper_char_code ascii_alpha_def ascii_digit_def in_range_def take_bit_eq_mod split: if_splits)
qed

lemma hex_not: "\<not> hex_char c" if "c \<in> set ''vptmsVPTMS./:-''"
  using that by (auto simp: hex_char_def in_range_def)

lemma sign_no_space: "\<not> isspace c \<and> lower_char c = c \<and> \<not> ascii_digit c \<and> \<not> ascii_alnum c" if "c \<in> set ''./:''"
  using that by (auto simp: isspace_def in_range_def ascii_digit_def ascii_alnum_def ascii_alpha_def)

lemma excludes_ipv6:
  assumes "is_ipv6 s"
  shows "CHR ''.'' \<notin> set s" "CHR ''/'' \<notin> set s" "CHR ''p'' \<notin> set s"
    and "c \<in> set s \<Longrightarrow> lower_char c \<in> set ''vtms'' \<Longrightarrow> False"
proof -
  have chars: "hex_char c \<or> c = CHR '':''" if "c \<in> set s" for c
    using ipv6_chars(2) [OF assms] that by (auto simp: list_all_iff)
  show "CHR ''.'' \<notin> set s" "CHR ''/'' \<notin> set s" "CHR ''p'' \<notin> set s" using chars hex_not by force+
  show False if "c \<in> set s" "lower_char c \<in> set ''vtms''" for c
  proof -
    have "code (lower_char c) \<in> {118, 116, 109, 115}" using that(2) by auto
    then show False using chars [OF that(1)]
      by (auto simp: lower_char_code hex_char_def in_range_def split: if_splits)
  qed
qed

lemma excludes_hash:
  assumes "is_hash s"
  shows "CHR ''.'' \<notin> set s" "CHR ''/'' \<notin> set s" and "c \<in> set s \<Longrightarrow> lower_char c \<in> set ''vt'' \<Longrightarrow> False"
proof -
  have sign: "c \<notin> set s" if "c = CHR ''.'' \<or> c = CHR ''/''" for c
  proof
    assume c: "c \<in> set s"
    have "c \<in> set ''./:''" "c \<in> set ''vptmsVPTMS./:-''" using that by auto
    then have "\<not> isspace c" "lower_char c = c" "\<not> hex_char c" using sign_no_space hex_not by blast+
    with hash_chars(1) [OF assms c] have "c \<in> set ''mdsha:-''" by simp
    with that show False by auto
  qed
  show "CHR ''.'' \<notin> set s" "CHR ''/'' \<notin> set s" by (rule sign, simp)+
  show False if c: "c \<in> set s" "lower_char c \<in> set ''vt''" for c
  proof -
    have "\<not> isspace (lower_char c)" using c(2) by (auto simp: isspace_def in_range_def)
    moreover have "\<not> isspace c"
    proof
      assume "isspace c"
      then have "lower_char c = c" by (auto simp: isspace_def lower_char_def in_range_def)
      with \<open>isspace c\<close> \<open>\<not> isspace (lower_char c)\<close> show False by simp
    qed
    ultimately show False using hash_chars(1) [OF assms c(1)] c(2) hex_not [of "lower_char c"] by auto
  qed
qed

lemma forms_exclusive:
  "is_ipv4 s = Inr True \<Longrightarrow> \<not> is_ipv6 s \<and> is_cidr s \<noteq> Inr True \<and> \<not> is_hash s \<and> \<not> is_url s \<and> \<not> is_domain s \<and> \<not> is_cve s \<and> \<not> is_mitre_id s"
  "is_ipv6 s \<Longrightarrow> is_cidr s \<noteq> Inr True \<and> \<not> is_hash s \<and> \<not> is_url s \<and> \<not> is_domain s \<and> \<not> is_cve s \<and> \<not> is_mitre_id s"
  "is_cidr s = Inr True \<Longrightarrow> \<not> is_hash s \<and> \<not> is_url s \<and> \<not> is_domain s \<and> \<not> is_cve s \<and> \<not> is_mitre_id s"
  "is_hash s \<Longrightarrow> \<not> is_url s \<and> \<not> is_domain s \<and> \<not> is_cve s \<and> \<not> is_mitre_id s"
  "is_url s \<Longrightarrow> \<not> is_domain s \<and> \<not> is_cve s \<and> \<not> is_mitre_id s"
  "is_domain s \<Longrightarrow> \<not> is_cve s \<and> \<not> is_mitre_id s"
  "is_cve s \<Longrightarrow> \<not> is_mitre_id s"
proof -
  have dom: "c \<notin> set s" if "is_domain s" "c = CHR '':'' \<or> c = CHR ''/''" for c
    using domain_chars(2) [OF that(1)] that(2) sign_no_space [of c] by (auto simp: list_all_iff)
  have cve: "c \<notin> set s" if "is_cve s" "c \<in> set ''./:''" for c using cve_chars(1) [OF that(1)] that(2) by blast
  have mitre: "CHR '':'' \<notin> set s" "CHR ''/'' \<notin> set s" if "is_mitre_id s" using mitre_chars(2) [OF that] by auto
  have url: "CHR '':'' \<in> set s" "CHR ''/'' \<in> set s" "CHR ''p'' \<in> set s" if "is_url s" using url_chars [OF that] by auto
  show "\<not> is_ipv6 s \<and> is_cidr s \<noteq> Inr True \<and> \<not> is_hash s \<and> \<not> is_url s \<and> \<not> is_domain s \<and> \<not> is_cve s \<and> \<not> is_mitre_id s"
    if v4: "is_ipv4 s = Inr True"
  proof -
    have chars: "ascii_digit c \<or> c = CHR ''.''" if "c \<in> set s" for c
      using ipv4_chars(2) [OF v4] that by (auto simp: list_all_iff)
    have "last s \<in> set s" using ipv4_chars(1) [OF v4] by (intro last_in_set) auto
    from chars [OF this] have "\<not> ascii_alpha (last s)" by (auto simp: ascii_alpha_def ascii_digit_def in_range_def)
    moreover have "CHR '':'' \<notin> set s" "CHR ''/'' \<notin> set s" using chars by (force simp: ascii_digit_def in_range_def)+
    moreover have "lower_char c \<noteq> CHR ''t''" if "c \<in> set s" for c
      using chars [OF that] by (auto simp: lower_char_def ascii_digit_def in_range_def)
    ultimately show ?thesis
      using ipv4_chars(1) [OF v4] ipv6_chars(1) cidr_chars(1) excludes_hash(1) url(1) domain_chars(3) cve [of "CHR ''.''"] mitre_chars(1)
      by (metis list.set_intros(1))
  qed
  show "is_cidr s \<noteq> Inr True \<and> \<not> is_hash s \<and> \<not> is_url s \<and> \<not> is_domain s \<and> \<not> is_cve s \<and> \<not> is_mitre_id s" if v6: "is_ipv6 s"
  proof -
    note ex = excludes_ipv6 [OF v6] and colon = ipv6_chars(1) [OF v6]
    have "\<not> is_hash s" using hash_chars(2) [of s "CHR '':''"] colon ex(4) sign_no_space [of "CHR '':''"] by auto
    moreover have "\<not> is_cve s" "\<not> is_mitre_id s" using cve_chars(2) mitre_chars(1) ex(4) by force+
    ultimately show ?thesis using ex(1,2) cidr_chars(1) url(2) domain_chars(1) by blast
  qed
  show "\<not> is_hash s \<and> \<not> is_url s \<and> \<not> is_domain s \<and> \<not> is_cve s \<and> \<not> is_mitre_id s" if c: "is_cidr s = Inr True"
  proof -
    have "CHR ''p'' \<notin> set s" using cidr_chars(2) [OF c] hex_not [of "CHR ''p''"] by (auto simp: list_all_iff)
    then show ?thesis
      using cidr_chars(1) [OF c] excludes_hash(2) url(3) dom [of "CHR ''/''"] cve [of "CHR ''/''"] mitre(2) by auto
  qed
  show "\<not> is_url s \<and> \<not> is_domain s \<and> \<not> is_cve s \<and> \<not> is_mitre_id s" if h: "is_hash s"
    using excludes_hash [OF h] url(2) domain_chars(1) cve_chars(2) mitre_chars(1) by (metis list.set_intros)
  show "\<not> is_domain s \<and> \<not> is_cve s \<and> \<not> is_mitre_id s" if u: "is_url s"
    using url(1) [OF u] dom [of "CHR '':''"] cve [of "CHR '':''"] mitre(1) by auto
  show "\<not> is_cve s \<and> \<not> is_mitre_id s" if d: "is_domain s"
    using domain_chars(1,3) [OF d] cve [of "CHR ''.''"] mitre_chars(3) by auto
  show "\<not> is_mitre_id s" if v: "is_cve s"
  proof
    assume m: "is_mitre_id s"
    from cve_chars(2) [OF v] obtain c where c: "c \<in> set s" "lower_char c = CHR ''v''" by blast
    have "code (lower_char c) = 118" using c(2) by simp
    then have "code c = 118 \<or> code c = 86" by (auto simp: lower_char_code in_range_def split: if_splits)
    then have "c = char_of (118 :: nat) \<or> c = char_of (86 :: nat)" by (metis char_of_char)
    then have "c = CHR ''v'' \<or> c = CHR ''V''" by (simp add: char_of_def bit_0)
    with c(1) mitre_chars(2) [OF m] show False by auto
  qed
qed

text \<open>The steps of a successful detection.\<close>

lemma validate_ioc_steps:
  assumes "validate_ioc raw = Inr r"
  shows "length raw \<le> 2048" and "nul \<notin> set raw" and "strip raw \<noteq> []" and "fst r"
    and "snd r = (let s = strip raw in
      if is_ipv4 s = Inr True then ''ipv4'' else if is_ipv6 s then ''ipv6'' else if is_cidr s = Inr True then ''cidr''
      else if is_hash s then detect_hash_type s else if is_url s then ''url'' else if is_domain s then ''domain''
      else if is_cve s then ''cve'' else if is_mitre_id s then ''mitre'' else ''unknown'')"
proof -
  let ?s = "strip raw"
  from assms have pre: "length raw \<le> 2048 \<and> nul \<notin> set raw \<and> ?s \<noteq> []"
    by (simp add: validate_ioc_def validate_length_def Let_def MAX_IOC_LENGTH_def)
  then show "length raw \<le> 2048" "nul \<notin> set raw" "?s \<noteq> []" by blast+
  from assms obtain v4 where v4: "is_ipv4 ?s = Inr v4"
    and rest: "(if v4 then Inr (True, ''ipv4'')
     else if is_ipv6 ?s then Inr (True, ''ipv6'')
     else res_bind (is_cidr ?s) (\<lambda>cidr.
       if cidr then Inr (True, ''cidr'')
       else if is_hash ?s then Inr (True, detect_hash_type ?s)
       else if is_url ?s then Inr (True, ''url'')
       else if is_domain ?s then Inr (True, ''domain'')
       else if is_cve ?s then Inr (True, ''cve'')
       else if is_mitre_id ?s then Inr (True, ''mitre'')
       else Inr (True, ''unknown''))) = Inr r"
    unfolding validate_ioc_def Let_def is_url_def by (simp only: res_bind_Inr_iff) blast
  show "fst r" using rest by (cases r; cases "is_cidr ?s") (simp_all split: if_splits)
  show "snd r = (let s = ?s in
      if is_ipv4 s = Inr True then ''ipv4'' else if is_ipv6 s then ''ipv6'' else if is_cidr s = Inr True then ''cidr''
      else if is_hash s then detect_hash_type s else if is_url s then ''url'' else if is_domain s then ''domain''
      else if is_cve s then ''cve'' else if is_mitre_id s then ''mitre'' else ''unknown'')"
    using rest unfolding v4 Let_def by (cases r; cases "is_cidr ?s") (simp_all split: if_splits)
qed

lemma hash_type: "is_hash s \<Longrightarrow> detect_hash_type s \<in> set [''md5'', ''sha1'', ''sha256'']"
  by (auto simp: is_hash_def detect_hash_type_def Let_def HASH_LENGTHS_def split: if_splits)


section \<open>Witnesses and limits\<close>


theorem ipv6_recognised_witness: "is_ipv6 ''fe80::1'' \<and> CHR '':'' \<in> set ''fe80::1''"
proof -
  have w: "list_all ipv6_word [''fe80'']" "list_all ipv6_word [''1'']" by code_simp+
  then have "is_ipv6 (join_char (CHR '':'') [''fe80''] @ ''::'' @ join_char (CHR '':'') [''1''])"
    using ipv6_recognised [of "[]" "[''fe80'']" "[''1'']" "[]"] by simp
  then show ?thesis by simp
qed

text \<open>A numeric argument is clamped to its range.\<close>

lemma numbers_clamped:
  "1 \<le> m \<Longrightarrow> validate_limit (Number n) m = Inr k \<Longrightarrow> 1 \<le> k \<and> k \<le> m"
  "1 \<le> m \<Longrightarrow> validate_days (Number n) m = Inr k \<Longrightarrow> 1 \<le> k \<and> k \<le> m"
  "0 \<le> m \<Longrightarrow> validate_offset (Number n) m = Inr k \<Longrightarrow> 0 \<le> k \<and> k \<le> m"
  by (auto simp: validate_limit_def validate_days_def validate_offset_def clamped_def)

text \<open>Four limits: a superscript digit passes \<open>isdigit\<close> and makes \<open>int\<close> raise an error that is not a validation
  error; empty groups are accepted in an IPv6 address wherever they stand; an infinite limit
  raises; and the default limit ignores a smaller maximum.\<close>

lemma superscript_digit_raises: "validate_ioc (''1.1.1.'' @ [CHR 0xB2]) = Inl BadInt"
  by code_simp

lemma empty_groups_accepted: "is_ipv6 '':::'' \<and> is_ipv6 ''1:2:3:4:5:6:7:'' \<and> is_ipv6 '':1:2:3:4:5:6:7''"
  by code_simp

lemma infinite_limit_raises: "validate_limit Infinite MAX_LIMIT = Inl BadInt"
  by code_simp

lemma default_limit_unclamped: "validate_limit NoNumber 5 = Inr 10"
  by code_simp

end
