(* ===== verification/Opencti_Validation.thy ===== *)
theory Opencti_Validation
  imports Opencti_Ioc "HOL-Library.AList" "HOL-Library.List_Lexorder" "HOL-Library.Char_ord"
begin

text \<open>
  The second half of \<open>opencti_mcp/validation.py\<close>: identifiers, labels, closed vocabularies, dates and
  STIX patterns of requests, truncation of responses and cleaning of log records.  Documents
  are JSON values with texts as keys, in the order of insertion; the length of a serialised
  document is a parameter.

  Shown here: an accepted identifier is in normal form and is accepted again; accepted dates are
  dates as far as the code tests them; truncated responses keep their limits, truncating
  again changes nothing, and every cut is reported; a logged text is printable, bounded and can
  be read back; no value under a sensitive name is logged where the filter goes.
\<close>

datatype jval =
    JNull
  | JBool bool
  | JNum int
  | JStr string
  | JList "jval list"
  | JDict "(string \<times> jval) list"

fun jtruthy :: "jval \<Rightarrow> bool" where
  "jtruthy JNull = False"
| "jtruthy (JBool b) = b"
| "jtruthy (JNum i) = (i \<noteq> 0)"
| "jtruthy (JStr s) = (s \<noteq> [])"
| "jtruthy (JList xs) = (xs \<noteq> [])"
| "jtruthy (JDict kvs) = (kvs \<noteq> [])"

fun comma_list :: "string list \<Rightarrow> string" where
  "comma_list [] = []"
| "comma_list [x] = x"
| "comma_list (x # xs) = x @ '', '' @ comma_list xs"

section \<open>Identifiers and labels\<close>

definition uuid_char :: "char \<Rightarrow> bool" where
  "uuid_char c \<longleftrightarrow> hex_char c \<or> c = CHR ''-''"

definition validate_uuid :: "string \<Rightarrow> string \<Rightarrow> validation_error + string" where
  "validate_uuid value field =
     (if value = [] then Inl (Invalid (field @ '' cannot be empty''))
      else if length value \<noteq> 36 then Inl (Invalid (field @ '' must be a valid UUID (36 characters)''))
      else if \<not> list_all uuid_char value then Inl (Invalid (field @ '' contains invalid characters''))
      else let parts = split_char (CHR ''-'') value in
        if length parts \<noteq> 5 then Inl (Invalid (field @ '' must be a valid UUID format''))
        else if list_ex (\<lambda>(part, expected_len). length part \<noteq> expected_len) (zip parts [8, 4, 4, 4, 12])
        then Inl (Invalid (field @ '' must be a valid UUID format''))
        else Inr (lower value))"

definition validate_uuid_list :: "string list option \<Rightarrow> string \<Rightarrow> nat \<Rightarrow> validation_error + string list" where
  "validate_uuid_list values field max_items =
     (case values of
        None \<Rightarrow> Inr []
      | Some vs \<Rightarrow>
          if vs = [] then Inr []
          else if length vs > max_items
          then Inl (Invalid (field @ '' cannot contain more than '' @ dec_digits max_items @ '' items''))
          else map_res (\<lambda>(i, v). validate_uuid v (field @ ''['' @ dec_digits i @ '']'')) (enumerate 0 vs))"

definition label_char :: "char \<Rightarrow> bool" where
  "label_char c \<longleftrightarrow> ascii_alnum c \<or> c \<in> set ''-_:. ''"

definition validate_label :: "string \<Rightarrow> validation_error + string" where
  "validate_label raw =
     (if raw = [] \<or> strip raw = [] then Inl (Invalid ''Label cannot be empty'')
      else let value = strip raw in
        if length value > 100 then Inl (Invalid ''Label exceeds maximum length of 100 characters'')
        else if nul \<in> set value then Inl (Invalid ''Label contains invalid characters'')
        else if \<not> list_all label_char value then Inl (Invalid ''Label contains invalid characters'')
        else Inr value)"

definition validate_labels :: "string list option \<Rightarrow> nat \<Rightarrow> validation_error + string list" where
  "validate_labels values max_items =
     (case values of
        None \<Rightarrow> Inr []
      | Some vs \<Rightarrow>
          if vs = [] then Inr []
          else if length vs > max_items
          then Inl (Invalid (''Cannot specify more than '' @ dec_digits max_items @ '' labels''))
          else map_res validate_label vs)"

section \<open>Closed vocabularies\<close>

definition VALID_OBSERVABLE_TYPES :: "string list" where
  "VALID_OBSERVABLE_TYPES =
    [''Artifact'', ''Autonomous-System'', ''Directory'', ''Domain-Name'', ''Email-Addr'', ''Email-Message'',
     ''Email-Mime-Part-Type'', ''File'', ''StixFile'', ''IPv4-Addr'', ''IPv6-Addr'', ''Mac-Addr'', ''Mutex'',
     ''Network-Traffic'', ''Process'', ''Software'', ''Url'', ''URL'', ''User-Account'', ''Windows-Registry-Key'',
     ''Windows-Registry-Value-Type'', ''X509-Certificate'', ''Cryptocurrency-Wallet'', ''Hostname'', ''Text'',
     ''User-Agent'', ''Bank-Account'', ''Phone-Number'', ''Payment-Card'', ''Media-Content'', ''Tracking-Number'',
     ''Credential'']"

definition VALID_NOTE_TYPES :: "string list" where
  "VALID_NOTE_TYPES =
    [''analysis'', ''assessment'', ''external'', ''internal'', ''threat-report'', ''hypothesis'', ''observation'', ''conclusion'']"

definition VALID_PATTERN_TYPES :: "string list" where
  "VALID_PATTERN_TYPES =
    [''stix'', ''pcre'', ''sigma'', ''snort'', ''suricata'', ''yara'', ''tanium-signal'', ''spl'', ''eql'']"

definition VALID_RELATIONSHIP_TYPES :: "string list" where
  "VALID_RELATIONSHIP_TYPES =
    [''indicates'', ''uses'', ''targets'', ''attributed-to'', ''related-to'', ''mitigates'', ''derived-from'', ''duplicate-of'',
     ''variant-of'', ''impersonates'', ''located-at'', ''based-on'', ''delivers'', ''drops'', ''exploits'', ''compromises'',
     ''originates-from'', ''investigates'', ''authored-by'', ''beacons-to'', ''exfiltrates-to'', ''downloads'',
     ''communicates-with'', ''consists-of'', ''controls'', ''has'', ''hosts'', ''owns'', ''part-of'', ''resides-in'', ''resolves-to'',
     ''belongs-to'', ''participates-in'', ''cooperates-with'', ''employed-by'', ''citizen-of'', ''national-of'']"

text \<open>The loop the three list validators share: items that are empty or no texts are skipped.\<close>

fun collect_types :: "(string \<Rightarrow> validation_error + string) \<Rightarrow> jval list \<Rightarrow> validation_error + string list" where
  "collect_types check [] = Inr []"
| "collect_types check (JStr s # vs) =
     (if s = [] then collect_types check vs
      else res_bind (check s) (\<lambda>t. res_bind (collect_types check vs) (\<lambda>ts. Inr (t # ts))))"
| "collect_types check (v # vs) = collect_types check vs"

definition none_if_empty :: "string list \<Rightarrow> string list option" where
  "none_if_empty ts = (if ts = [] then None else Some ts)"

definition check_observable :: "string list \<Rightarrow> string \<Rightarrow> validation_error + string" where
  "check_observable allowed_types raw =
     (let v = strip raw in
      if v \<notin> set allowed_types
      then Inl (Invalid (''Unknown observable type: '' @ [CHR 0x27] @ v @ [CHR 0x27] @
        ''. Valid types include: IPv4-Addr, Domain-Name, StixFile, URL, etc.''))
      else Inr v)"

definition validate_observable_types :: "jval \<Rightarrow> nat \<Rightarrow> string list option \<Rightarrow> validation_error + string list option" where
  "validate_observable_types values max_items extra_types =
     (if \<not> jtruthy values then Inr None
      else case values of
        JList vs \<Rightarrow>
          if length vs > max_items
          then Inl (Invalid (''Cannot specify more than '' @ dec_digits max_items @ '' observable types''))
          else res_bind (collect_types (check_observable
                 (VALID_OBSERVABLE_TYPES @ (case extra_types of None \<Rightarrow> [] | Some e \<Rightarrow> e))) vs)
               (\<lambda>validated. Inr (none_if_empty validated))
      | _ \<Rightarrow> Inl (Invalid ''observable_types must be a list''))"

definition check_word :: "string \<Rightarrow> string \<Rightarrow> string list \<Rightarrow> string \<Rightarrow> validation_error + string" where
  "check_word kind unknown valid raw =
     (let v = lower (strip raw) in
      if length v > 50 then Inl (Invalid (kind @ '' '' @ [CHR 0x27] @ take 20 v @ ''...'' @ [CHR 0x27] @ '' is too long''))
      else if \<not> list_all (\<lambda>c. ascii_alnum c \<or> c = CHR ''-'') v
      then Inl (Invalid (kind @ '' '' @ [CHR 0x27] @ v @ [CHR 0x27] @ '' contains invalid characters''))
      else if v \<notin> set valid
      then Inl (Invalid (unknown @ '' '' @ [CHR 0x27] @ v @ [CHR 0x27] @ ''. Valid: '' @ comma_list (sort valid)))
      else Inr v)"

definition validate_note_types :: "jval \<Rightarrow> nat \<Rightarrow> validation_error + string list option" where
  "validate_note_types values max_items =
     (if \<not> jtruthy values then Inr None
      else case values of
        JList vs \<Rightarrow>
          if length vs > max_items
          then Inl (Invalid (''Cannot specify more than '' @ dec_digits max_items @ '' note types''))
          else res_bind (collect_types (check_word ''Note type'' ''Unknown note type'' VALID_NOTE_TYPES) vs)
               (\<lambda>validated. Inr (none_if_empty validated))
      | _ \<Rightarrow> Inl (Invalid ''note_types must be a list''))"

definition validate_relationship_types :: "jval list option \<Rightarrow> validation_error + string list option" where
  "validate_relationship_types values =
     (case values of
        None \<Rightarrow> Inr None
      | Some vs \<Rightarrow>
          if vs = [] then Inr None
          else if length vs > 20 then Inl (Invalid ''Cannot specify more than 20 relationship types'')
          else res_bind (collect_types (check_word ''Relationship type'' ''Unknown relationship type'' VALID_RELATIONSHIP_TYPES) vs)
               (\<lambda>validated. Inr (none_if_empty validated)))"

definition validate_pattern_type :: "jval \<Rightarrow> string list option \<Rightarrow> validation_error + string" where
  "validate_pattern_type value extra_types =
     (case value of
        JNull \<Rightarrow> Inr ''stix''
      | JStr s \<Rightarrow>
          (let v = lower (strip s);
               allowed_types = VALID_PATTERN_TYPES @ (case extra_types of None \<Rightarrow> [] | Some e \<Rightarrow> map lower e)
           in if v = [] then Inr ''stix''
              else if v \<notin> set allowed_types
              then Inl (Invalid (''Invalid pattern_type: '' @ [CHR 0x27] @ v @ [CHR 0x27] @ ''. Valid types: '' @
                     comma_list (sort (remdups allowed_types))))
              else Inr v)
      | _ \<Rightarrow> Inl (Invalid ''pattern_type must be a string''))"

section \<open>Dates\<close>

definition digits_rx :: "nat \<Rightarrow> rx" where
  "digits_rx n = cats (map Cls (replicate n ascii_digit))"

definition time_rx :: rx where
  "time_rx = Opt (Group 4 (cats
     [lit ''T'', Group 5 (digits_rx 2), lit '':'', Group 6 (digits_rx 2), lit '':'', Group 7 (digits_rx 2),
      Opt (Group 8 (Cat (lit ''.'') (Plus (Cls ascii_digit)))),
      Opt (Group 9 (Alt (lit ''Z'') (cats [Cls (\<lambda>c. c = CHR ''+'' \<or> c = CHR ''-''), digits_rx 2, lit '':'', digits_rx 2])))]))"

definition ISO_DATE_PATTERN :: rx where
  "ISO_DATE_PATTERN = cats
     [LineStart, Group 1 (digits_rx 4), lit ''-'', Group 2 (digits_rx 2), lit ''-'', Group 3 (digits_rx 2),
      time_rx, LineEnd]"

definition group_int :: "groups \<Rightarrow> nat \<Rightarrow> nat" where
  "group_int g k = (case g k of None \<Rightarrow> 0 | Some w \<Rightarrow> int_digits w)"

definition validate_date_filter :: "jval \<Rightarrow> string \<Rightarrow> validation_error + string option" where
  "validate_date_filter raw field =
     (case raw of
        JNull \<Rightarrow> Inr None
      | JStr s \<Rightarrow>
          (let value = strip s in
           if value = [] then Inr None
           else if length value > 50 then Inl (Invalid (field @ '' is too long''))
           else if nul \<in> set value then Inl (Invalid (field @ '' contains invalid characters''))
           else case rx_match value ISO_DATE_PATTERN 0 no_groups of
             [] \<Rightarrow> Inl (Invalid (field @ '' must be ISO8601 format (YYYY-MM-DD or YYYY-MM-DDTHH:MM:SSZ)''))
           | (_, g) # _ \<Rightarrow>
               if \<not> (1970 \<le> group_int g 1 \<and> group_int g 1 \<le> 2100)
               then Inl (Invalid (field @ '' year must be between 1970 and 2100''))
               else if \<not> (1 \<le> group_int g 2 \<and> group_int g 2 \<le> 12)
               then Inl (Invalid (field @ '' month must be between 1 and 12''))
               else if \<not> (1 \<le> group_int g 3 \<and> group_int g 3 \<le> 31)
               then Inl (Invalid (field @ '' day must be between 1 and 31''))
               else if g 4 \<noteq> None \<and> g 4 \<noteq> Some [] then
                 (if \<not> group_int g 5 \<le> 23 then Inl (Invalid (field @ '' hour must be between 0 and 23''))
                  else if \<not> group_int g 6 \<le> 59 then Inl (Invalid (field @ '' minute must be between 0 and 59''))
                  else if \<not> group_int g 7 \<le> 59 then Inl (Invalid (field @ '' second must be between 0 and 59''))
                  else Inr (Some value))
               else Inr (Some value))
      | _ \<Rightarrow> Inl (Invalid (field @ '' must be a string'')))"

section \<open>STIX patterns\<close>

definition STIX_PREFIXES :: "string list" where
  "STIX_PREFIXES =
    [''ipv4-addr:'', ''ipv6-addr:'', ''domain-name:'', ''url:'', ''file:'', ''email-addr:'', ''mac-addr:'', ''windows-registry-key:'',
     ''process:'', ''network-traffic:'', ''artifact:'', ''autonomous-system:'', ''directory:'', ''mutex:'', ''software:'',
     ''user-account:'', ''x509-certificate:'']"

definition validate_stix_pattern :: "string \<Rightarrow> validation_error + unit" where
  "validate_stix_pattern raw =
     (if raw = [] \<or> strip raw = [] then Inl (Invalid ''STIX pattern cannot be empty'')
      else let pattern = strip raw in
        if length pattern > 2048 then Inl (Invalid ''STIX pattern exceeds maximum length'')
        else if \<not> startswith pattern ''['' \<or> \<not> endswith pattern '']''
        then Inl (Invalid ''STIX pattern must be enclosed in brackets []'')
        else if nul \<in> set pattern then Inl (Invalid ''STIX pattern contains invalid characters'')
        else if length (filter (\<lambda>c. c = CHR ''['') pattern) \<noteq> length (filter (\<lambda>c. c = CHR '']'') pattern)
        then Inl (Invalid ''STIX pattern has unbalanced brackets'')
        else let inner = strip (butlast (tl pattern)) in
          if \<not> list_ex (contains (lower inner)) STIX_PREFIXES \<and> CHR '':'' \<notin> set inner
          then Inl (Invalid ''STIX pattern must reference an observable type'')
          else Inr ())"

section \<open>Truncation of responses\<close>

definition MAX_RESPONSE_SIZE :: nat where "MAX_RESPONSE_SIZE = 1000000"
definition MAX_DESCRIPTION_LENGTH :: nat where "MAX_DESCRIPTION_LENGTH = 500"
definition MAX_PATTERN_LENGTH :: nat where "MAX_PATTERN_LENGTH = 200"

text \<open>A slice with a negative bound drops from the end.\<close>

definition truncate_string :: "string option \<Rightarrow> nat \<Rightarrow> string option" where
  "truncate_string value max_length =
     (case value of
        None \<Rightarrow> None
      | Some v \<Rightarrow>
          if length v \<le> max_length then Some v
          else Some ((if 3 \<le> max_length then take (max_length - 3) v else take (length v - (3 - max_length)) v) @ ''...''))"

definition field_limit :: "string \<Rightarrow> nat" where
  "field_limit key = (if key = ''description'' then MAX_DESCRIPTION_LENGTH
     else if key = ''pattern'' then MAX_PATTERN_LENGTH else 1000)"

definition sub_path :: "string \<Rightarrow> string \<Rightarrow> string" where
  "sub_path path key = (if path = [] then key else path @ ''.'' @ key)"

definition item_path :: "string \<Rightarrow> nat \<Rightarrow> string" where
  "item_path path i = path @ ''['' @ dec_digits i @ '']''"

text \<open>\<open>_truncate_dict_fields\<close>: the new fields, and the paths it appends to \<open>truncated_fields\<close>.  A list is cut
  after 100 items; its items are entered where they are objects.\<close>

lemma size_take_jval [termination_simp]: "size_list size (take n xs) \<le> size_list size xs" for xs :: "jval list"
proof (induction xs arbitrary: n)
  case (Cons x xs)
  then show ?case by (cases n) (auto simp: add.commute intro: add_mono)
qed simp

lemma size_member_take [termination_simp]: "x \<in> set (take n xs) \<Longrightarrow> size x < Suc (size_list size xs)" for xs :: "jval list"
  using size_list_estimation' [of x xs "size x" size] by (auto dest: in_set_takeD)

fun truncate_fields :: "string \<Rightarrow> (string \<times> jval) list \<Rightarrow> (string \<times> jval) list \<times> string list"
  and truncate_items :: "string \<Rightarrow> nat \<Rightarrow> jval list \<Rightarrow> jval list \<times> string list" where
  "truncate_fields path [] = ([], [])"
| "truncate_fields path ((key, value) # rest) =
     (let field_path = sub_path path key;
          (v, cut) = (case value of
             JStr s \<Rightarrow> (JStr (the (truncate_string (Some s) (field_limit key))),
                         if length s > field_limit key then [field_path] else [])
           | JDict d \<Rightarrow> (let (d', cut) = truncate_fields field_path d in (JDict d', cut))
           | JList xs \<Rightarrow> (let (ys, cut) = truncate_items field_path 0 (take 100 xs)
                         in (JList ys, (if length xs > 100 then [field_path @ ''[100+]''] else []) @ cut))
           | _ \<Rightarrow> (value, []));
          (rest', cut') = truncate_fields path rest
      in ((key, v) # rest', cut @ cut'))"
| "truncate_items path i [] = ([], [])"
| "truncate_items path i (x # xs) =
     (let (y, cut) = (case x of
             JDict d \<Rightarrow> (let (d', cut) = truncate_fields (item_path path i) d in (JDict d', cut))
           | _ \<Rightarrow> (x, []));
          (ys, cut') = truncate_items path (Suc i) xs
      in (y # ys, cut @ cut'))"

text \<open>\<open>json_length\<close> is the length of \<open>json.dumps(result, default=str)\<close>.\<close>

definition truncate_response :: "((string \<times> jval) list \<Rightarrow> nat) \<Rightarrow> (string \<times> jval) list \<Rightarrow> nat \<Rightarrow> (string \<times> jval) list" where
  "truncate_response json_length result max_size =
     (let (r, truncated_fields) = truncate_fields [] result;
          serialized = json_length r;
          r1 = (if serialized > max_size
                then AList.update ''_original_size'' (JNum (int serialized)) (AList.update ''_truncated'' (JBool True) r) else r)
      in if truncated_fields \<noteq> [] then AList.update ''_truncated_fields'' (JList (map JStr truncated_fields)) r1 else r1)"

section \<open>Log records\<close>

definition SENSITIVE_FIELDS :: "string list" where
  "SENSITIVE_FIELDS = [''token'', ''password'', ''secret'', ''key'', ''auth'', ''credential'', ''api_key'']"

definition hex_digit :: "nat \<Rightarrow> char" where
  "hex_digit n = char_of (if n < 10 then 48 + n else 87 + n)"

text \<open>\<open>value.encode("unicode_escape").decode("ascii")\<close>.\<close>

definition escape_char :: "char \<Rightarrow> string" where
  "escape_char c =
     (if c = CHR 0x5C then [CHR 0x5C, CHR 0x5C]
      else if code c = 9 then [CHR 0x5C, CHR ''t'']
      else if code c = 10 then [CHR 0x5C, CHR ''n'']
      else if code c = 13 then [CHR 0x5C, CHR ''r'']
      else if in_range 32 126 c then [c]
      else [CHR 0x5C, CHR ''x'', hex_digit (code c div 16), hex_digit (code c mod 16)])"

definition unicode_escape :: "string \<Rightarrow> string" where
  "unicode_escape s = concat (map escape_char s)"

definition log_text :: "string \<Rightarrow> string" where
  "log_text value =
     (let sanitized = unicode_escape value
      in if length sanitized > 500 then take 500 sanitized @ ''...[truncated]'' else sanitized)"

definition sensitive_key :: "string \<Rightarrow> bool" where
  "sensitive_key key \<longleftrightarrow> list_ex (contains (lower key)) SENSITIVE_FIELDS"

fun filter_sensitive :: "(string \<times> jval) list \<Rightarrow> (string \<times> jval) list" where
  "filter_sensitive [] = []"
| "filter_sensitive ((key, value) # rest) =
     (key, if sensitive_key key then JStr ''***REDACTED***''
           else case value of JDict d \<Rightarrow> JDict (filter_sensitive d) | JStr s \<Rightarrow> JStr (log_text s) | _ \<Rightarrow> value)
     # filter_sensitive rest"

fun sanitize_for_log :: "jval \<Rightarrow> jval" where
  "sanitize_for_log (JStr s) = JStr (log_text s)"
| "sanitize_for_log (JDict d) = JDict (filter_sensitive d)"
| "sanitize_for_log (JList xs) = JList (map sanitize_for_log (take 10 xs))"
| "sanitize_for_log v = v"

section \<open>Identifiers in normal form\<close>

lemma lower_char_hex: "hex_char (lower_char c) \<longleftrightarrow> hex_char c"
proof -
  have "code (lower_char c) = (if in_range 65 90 c \<or> (in_range 192 222 c \<and> code c \<noteq> 215) then code c + 32 else code c)"
    by (rule lower_char_code)
  then show ?thesis unfolding hex_char_def in_range_def by (auto split: if_splits)
qed

lemma hex_not_hyphen: "hex_char c \<Longrightarrow> c \<noteq> CHR ''-''"
  by (auto simp: hex_char_def in_range_def)

definition uuid_parts :: "string list \<Rightarrow> bool" where
  "uuid_parts ps \<longleftrightarrow> map length ps = [8, 4, 4, 4, 12] \<and> list_all (list_all hex_char) ps"

lemma length_five: "length ps = 5 \<Longrightarrow> list_ex (\<lambda>(p, n). length p \<noteq> n) (zip ps [8, 4, 4, 4, 12]) \<longleftrightarrow> map length ps \<noteq> [8, 4, 4, 4, 12]"
  by (auto simp: numeral_eq_Suc length_Suc_conv)

lemma validate_uuid_iff:
  "validate_uuid v field = Inr w \<longleftrightarrow> (\<exists>ps. uuid_parts ps \<and> v = join_char (CHR ''-'') ps \<and> w = lower v)"
proof
  assume a: "validate_uuid v field = Inr w"
  let ?ps = "split_char (CHR ''-'') v"
  from a have ps: "length ?ps = 5" "list_all uuid_char v" and w: "w = lower v"
    and n: "\<not> list_ex (\<lambda>(p, n). length p \<noteq> n) (zip ?ps [8, 4, 4, 4, 12])"
    by (auto simp: validate_uuid_def Let_def split: if_splits)
  have "list_all hex_char p" if "p \<in> set ?ps" for p
    using ps(2) set_split_char [OF that] split_char_no_sep [OF that] by (auto simp: list_all_iff uuid_char_def)
  then have "uuid_parts ?ps" using n length_five [OF ps(1)] by (simp add: uuid_parts_def list_all_iff)
  then show "\<exists>ps. uuid_parts ps \<and> v = join_char (CHR ''-'') ps \<and> w = lower v"
    using w by (intro exI [of _ ?ps]) (simp add: join_split_char)
next
  assume "\<exists>ps. uuid_parts ps \<and> v = join_char (CHR ''-'') ps \<and> w = lower v"
  then obtain ps where ps: "uuid_parts ps" and v: "v = join_char (CHR ''-'') ps" and w: "w = lower v" by blast
  have len: "length ps = 5" using ps by (auto simp: uuid_parts_def dest: arg_cong [where f = length])
  then have "ps \<noteq> []" by auto
  have hex: "list_all hex_char p" if "p \<in> set ps" for p using ps that by (auto simp: uuid_parts_def list_all_iff)
  then have s: "split_char (CHR ''-'') v = ps"
    unfolding v using \<open>ps \<noteq> []\<close> hex_not_hyphen by (intro split_join_char) (auto simp: list_all_iff)
  have "sum_list (map length ps) = 32" using ps by (simp add: uuid_parts_def)
  then have "length v = 36" using length_join_char [OF \<open>ps \<noteq> []\<close>, of "CHR ''-''"] len by (simp add: v)
  moreover have "list_all uuid_char v"
    using set_join_char [of "CHR ''-''" ps] hex unfolding v by (fastforce simp: list_all_iff uuid_char_def)
  ultimately show "validate_uuid v field = Inr w"
    using s len length_five [OF len] ps w by (auto simp: validate_uuid_def uuid_parts_def)
qed

lemma lower_join: "lower (join_char (CHR ''-'') ps) = join_char (CHR ''-'') (map lower ps)"
  by (induction "CHR ''-''" ps rule: join_char.induct) (simp_all add: lower_def)

text \<open>Identifiers.  Exactly the texts of 8, 4, 4, 4 and 12 hexadecimal digits between hyphens are accepted;
  the result is the text in lower case, and it is accepted again under any field name and
  returned unchanged.\<close>

theorem uuid_normal_form:
  "(validate_uuid v field = Inr w \<longleftrightarrow> (\<exists>ps. map length ps = [8, 4, 4, 4, 12] \<and> list_all (list_all hex_char) ps \<and>
      v = join_char (CHR ''-'') ps \<and> w = lower v)) \<and>
   (validate_uuid v field = Inr w \<longrightarrow> lower w = w \<and> validate_uuid w field' = Inr w)"
proof -
  have "validate_uuid w field' = Inr w" if "validate_uuid v field = Inr w"
  proof -
    from that obtain ps where ps: "uuid_parts ps" "v = join_char (CHR ''-'') ps" "w = lower v"
      unfolding validate_uuid_iff by blast
    have "uuid_parts (map lower ps)"
      using ps(1) by (auto simp: uuid_parts_def list_all_iff lower_def lower_char_hex comp_def)
    moreover have "w = join_char (CHR ''-'') (map lower ps)" using ps by (simp add: lower_join)
    moreover have "lower w = w" using ps(3) by simp
    ultimately show ?thesis unfolding validate_uuid_iff by metis
  qed
  moreover have "lower w = w" if "validate_uuid v field = Inr w" using that unfolding validate_uuid_iff by auto
  ultimately show ?thesis using validate_uuid_iff [of v field w] by (simp add: uuid_parts_def)
qed

theorem uuid_normal_form_witness:
  "validate_uuid ''0123ABCD-0123-4567-89ab-00000000000F'' ''id'' = Inr ''0123abcd-0123-4567-89ab-00000000000f'' \<and>
   validate_uuid ''0123abcd-0123-4567-89ab-00000000000f'' ''other'' = Inr ''0123abcd-0123-4567-89ab-00000000000f''"
proof -
  have "validate_uuid ''0123ABCD-0123-4567-89ab-00000000000F'' ''id'' = Inr ''0123abcd-0123-4567-89ab-00000000000f''"
    by code_simp
  with uuid_normal_form [of "''0123ABCD-0123-4567-89ab-00000000000F''" "''id''"
      "''0123abcd-0123-4567-89ab-00000000000f''" "''other''"]
  show ?thesis by blast
qed

section \<open>Vocabularies\<close>

lemma collect_types_each:
  "collect_types check vs = Inr ts \<Longrightarrow> length ts \<le> length vs \<and> (\<forall>t \<in> set ts. \<exists>s. check s = Inr t)"
proof (induction check vs arbitrary: ts rule: collect_types.induct)
  case (2 check s vs)
  show ?case
  proof (cases "s = []")
    case True
    with 2 show ?thesis by fastforce
  next
    case False
    with 2 show ?thesis by fastforce
  qed
qed fastforce+

lemma check_word_valid: "check_word kind unknown valid raw = Inr v \<Longrightarrow> v \<in> set valid"
  by (auto simp: check_word_def Let_def split: if_splits)

lemma check_observable_valid: "check_observable allowed raw = Inr v \<Longrightarrow> v \<in> set allowed"
  by (auto simp: check_observable_def Let_def split: if_splits)

text \<open>C37. What passes a vocabulary check is a non-empty list of words of the vocabulary, no longer than the
  limit, and a pattern type is one of the vocabulary or of the configured ones in lower
  case; no text of the caller's own reaches the server this way.\<close>

theorem vocabulary_typed:
  "(validate_observable_types values n extra = Inr (Some ts) \<longrightarrow>
      ts \<noteq> [] \<and> length ts \<le> n \<and> set ts \<subseteq> set VALID_OBSERVABLE_TYPES \<union> set (case extra of None \<Rightarrow> [] | Some e \<Rightarrow> e)) \<and>
   (validate_note_types values n = Inr (Some ns) \<longrightarrow> ns \<noteq> [] \<and> length ns \<le> n \<and> set ns \<subseteq> set VALID_NOTE_TYPES) \<and>
   (validate_relationship_types rels = Inr (Some rs) \<longrightarrow> rs \<noteq> [] \<and> length rs \<le> 20 \<and> set rs \<subseteq> set VALID_RELATIONSHIP_TYPES) \<and>
   (validate_pattern_type p extra = Inr w \<longrightarrow>
      w \<in> set VALID_PATTERN_TYPES \<union> set (map lower (case extra of None \<Rightarrow> [] | Some e \<Rightarrow> e)))"
proof (intro conjI impI)
  assume "validate_observable_types values n extra = Inr (Some ts)"
  then obtain vs where "length vs \<le> n" "ts \<noteq> []"
    "collect_types (check_observable (VALID_OBSERVABLE_TYPES @ (case extra of None \<Rightarrow> [] | Some e \<Rightarrow> e))) vs = Inr ts"
    by (auto simp: validate_observable_types_def none_if_empty_def not_less split: if_splits jval.splits)
  with collect_types_each [OF this(3)]
  show "ts \<noteq> []" "length ts \<le> n" "set ts \<subseteq> set VALID_OBSERVABLE_TYPES \<union> set (case extra of None \<Rightarrow> [] | Some e \<Rightarrow> e)"
    by (auto dest!: check_observable_valid)
next
  assume "validate_note_types values n = Inr (Some ns)"
  then obtain vs where "length vs \<le> n" "ns \<noteq> []"
    "collect_types (check_word ''Note type'' ''Unknown note type'' VALID_NOTE_TYPES) vs = Inr ns"
    by (auto simp: validate_note_types_def none_if_empty_def not_less split: if_splits jval.splits)
  with collect_types_each [OF this(3)]
  show "ns \<noteq> []" "length ns \<le> n" "set ns \<subseteq> set VALID_NOTE_TYPES" by (auto dest!: check_word_valid)
next
  assume "validate_relationship_types rels = Inr (Some rs)"
  then obtain vs where "length vs \<le> 20" "rs \<noteq> []"
    "collect_types (check_word ''Relationship type'' ''Unknown relationship type'' VALID_RELATIONSHIP_TYPES) vs = Inr rs"
    by (auto simp: validate_relationship_types_def none_if_empty_def not_less split: if_splits option.splits)
  with collect_types_each [OF this(3)]
  show "rs \<noteq> []" "length rs \<le> 20" "set rs \<subseteq> set VALID_RELATIONSHIP_TYPES" by (auto dest!: check_word_valid)
next
  assume "validate_pattern_type p extra = Inr w"
  then show "w \<in> set VALID_PATTERN_TYPES \<union> set (map lower (case extra of None \<Rightarrow> [] | Some e \<Rightarrow> e))"
    by (auto simp: validate_pattern_type_def Let_def VALID_PATTERN_TYPES_def split: if_splits jval.splits)
qed

theorem vocabulary_typed_witness:
  "set [''Domain-Name'', ''IPv4-Addr''] \<subseteq> set VALID_OBSERVABLE_TYPES \<union> {''Custom''} \<and> ''stix'' \<in> set VALID_PATTERN_TYPES \<union> set (map lower [''Custom''])"
proof -
  have "validate_observable_types (JList [JStr '' Domain-Name'', JNull, JStr ''IPv4-Addr'']) 3 (Some [''Custom'']) = Inr (Some [''Domain-Name'', ''IPv4-Addr''])"
    "validate_pattern_type (JStr '' STIX'') (Some [''Custom'']) = Inr ''stix''" by code_simp+
  with vocabulary_typed [of "JList [JStr '' Domain-Name'', JNull, JStr ''IPv4-Addr'']" 3 "Some [''Custom'']" "[''Domain-Name'', ''IPv4-Addr'']"
    "[]" None "[]" "JStr '' STIX''" "''stix''"]
  show ?thesis by simp
qed

section \<open>What truncation keeps\<close>

text \<open>The limits of a response, where the code enters it.\<close>

fun within_fields :: "(string \<times> jval) list \<Rightarrow> bool" and within_items :: "jval list \<Rightarrow> bool" where
  "within_fields [] = True"
| "within_fields ((key, value) # rest) =
     ((case value of JStr s \<Rightarrow> length s \<le> field_limit key | JDict d \<Rightarrow> within_fields d
       | JList xs \<Rightarrow> length xs \<le> 100 \<and> within_items xs | _ \<Rightarrow> True) \<and> within_fields rest)"
| "within_items [] = True"
| "within_items (x # xs) = ((case x of JDict d \<Rightarrow> within_fields d | _ \<Rightarrow> True) \<and> within_items xs)"

lemma field_limit_ge: "3 \<le> field_limit key"
  by (simp add: field_limit_def MAX_DESCRIPTION_LENGTH_def MAX_PATTERN_LENGTH_def)

lemma truncate_string_length:
  "3 \<le> n \<Longrightarrow> length (the (truncate_string (Some s) n)) = min (length s) n"
  by (auto simp: truncate_string_def)

lemma truncate_string_fits: "length s \<le> n \<Longrightarrow> truncate_string (Some s) n = Some s"
  by (simp add: truncate_string_def)

lemma length_truncate_items: "length (fst (truncate_items path i xs)) = length xs"
  by (induction xs arbitrary: i) (simp_all add: Let_def case_prod_beta)

lemma truncated_within:
  "within_fields (fst (truncate_fields path d))" "within_items (fst (truncate_items path i xs))"
proof (induction path d and path i xs rule: truncate_fields_truncate_items.induct)
  case (2 path key v rest)
  have r: "within_fields (fst (truncate_fields path rest))" by (rule "2.IH"(3) [OF refl refl prod.collapse])
  show ?case
  proof (cases v)
    case (JStr s)
    then show ?thesis using r truncate_string_length [of "field_limit key" s, OF field_limit_ge] by (simp add: Let_def case_prod_beta)
  next
    case (JDict d)
    then show ?thesis using r 2 by (simp add: Let_def case_prod_beta)
  next
    case (JList xs)
    then show ?thesis using r 2 by (simp add: Let_def case_prod_beta length_truncate_items)
  qed (use r in \<open>simp_all add: Let_def case_prod_beta\<close>)
next
  case (4 path i x xs)
  then show ?case by (cases x) (simp_all add: Let_def case_prod_beta)
qed simp_all

lemma within_unchanged:
  "within_fields d \<Longrightarrow> truncate_fields path d = (d, [])" "within_items xs \<Longrightarrow> truncate_items path i xs = (xs, [])"
proof (induction path d and path i xs rule: truncate_fields_truncate_items.induct)
  case (2 path key v rest)
  have "within_fields rest" using "2.prems" by simp
  then have r: "truncate_fields path rest = (rest, [])" by (rule "2.IH"(3) [OF refl refl prod.collapse])
  show ?case
  proof (cases v)
    case (JList xs)
    then have xs: "take 100 xs = xs" "within_items xs" using "2.prems" by simp_all
    then have "truncate_items (sub_path path key) 0 xs = (xs, [])" using "2.IH"(1) [OF refl JList] by simp
    then show ?thesis using JList xs "2.prems" r by simp
  next
    case (JDict d)
    then have "truncate_fields (sub_path path key) d = (d, [])" using "2.IH"(2) [OF refl JDict] "2.prems" by simp
    then show ?thesis using JDict r by simp
  qed (use r "2.prems" in \<open>simp_all add: truncate_string_fits\<close>)
next
  case (4 path i x xs)
  then show ?case by (cases x) simp_all
qed simp_all

lemma uncut_within:
  "snd (truncate_fields path d) = [] \<Longrightarrow> within_fields d" "snd (truncate_items path i xs) = [] \<Longrightarrow> within_items xs"
proof (induction path d and path i xs rule: truncate_fields_truncate_items.induct)
  case (2 path key v rest)
  have "snd (truncate_fields path rest) = []" using "2.prems" by (simp add: Let_def case_prod_beta)
  then have r: "within_fields rest" by (rule "2.IH"(3) [OF refl refl prod.collapse])
  show ?case
  proof (cases v)
    case (JList xs)
    then have xs: "length xs \<le> 100" "snd (truncate_items (sub_path path key) 0 (take 100 xs)) = []"
      using "2.prems" by (simp_all add: Let_def case_prod_beta split: if_splits)
    then have "within_items xs" using "2.IH"(1) [OF refl JList] by simp
    then show ?thesis using JList xs r by simp
  next
    case (JDict d)
    then have "within_fields d" using "2.IH"(2) [OF refl JDict] "2.prems" by (simp add: Let_def case_prod_beta)
    then show ?thesis using JDict r by simp
  qed (use r "2.prems" in \<open>simp_all add: Let_def case_prod_beta split: if_splits\<close>)
next
  case (4 path i x xs)
  then show ?case by (cases x) (simp_all add: Let_def case_prod_beta)
qed simp_all

text \<open>Truncation of a response.  Afterwards every text field of an object is within the limit of its name and
  every list within 100 items, wherever objects lie in fields or lists of the response; truncating again
  changes nothing; and the list of cuts is empty exactly when nothing was changed, which is
  exactly when the response was within its limits.\<close>

theorem truncation_exact:
  "within_fields (fst (truncate_fields path d)) \<and>
   truncate_fields path' (fst (truncate_fields path d)) = (fst (truncate_fields path d), []) \<and>
   (snd (truncate_fields path d) = [] \<longleftrightarrow> fst (truncate_fields path d) = d) \<and>
   (snd (truncate_fields path d) = [] \<longleftrightarrow> within_fields d)"
proof (intro conjI)
  let ?r = "fst (truncate_fields path d)"
  show w: "within_fields ?r" by (rule truncated_within)
  show "truncate_fields path' ?r = (?r, [])" by (rule within_unchanged(1) [OF w])
  show cut: "snd (truncate_fields path d) = [] \<longleftrightarrow> within_fields d"
  proof
    assume "snd (truncate_fields path d) = []"
    then show "within_fields d" by (rule uncut_within)
  next
    assume "within_fields d"
    then have "truncate_fields path d = (d, [])" by (rule within_unchanged)
    then show "snd (truncate_fields path d) = []" by (simp only: snd_conv)
  qed
  show "snd (truncate_fields path d) = [] \<longleftrightarrow> ?r = d"
  proof
    assume "snd (truncate_fields path d) = []"
    then have "within_fields d" unfolding cut .
    then have "truncate_fields path d = (d, [])" by (rule within_unchanged)
    then show "?r = d" by (simp only: fst_conv)
  next
    assume "?r = d"
    then show "snd (truncate_fields path d) = []" unfolding cut using w by (rule subst)
  qed
qed

section \<open>What is logged\<close>

definition hex_value :: "char \<Rightarrow> nat" where
  "hex_value c = (if code c < 58 then code c - 48 else code c - 87)"

text \<open>Reading an escaped text back.\<close>

fun unescape :: "string \<Rightarrow> string" where
  "unescape (a # b # s) =
     (if a \<noteq> CHR 0x5C then a # unescape (b # s)
      else if b = CHR ''t'' then char_of (9 :: nat) # unescape s
      else if b = CHR ''n'' then char_of (10 :: nat) # unescape s
      else if b = CHR ''r'' then char_of (13 :: nat) # unescape s
      else if b = CHR ''x'' then char_of (16 * hex_value (hd s) + hex_value (hd (tl s))) # unescape (drop 2 s)
      else b # unescape s)"
| "unescape s = s"

lemma hex_digit_code: "n < 16 \<Longrightarrow> code (hex_digit n) = (if n < 10 then 48 + n else 87 + n)"
  by (simp add: hex_digit_def take_bit_eq_mod)

lemma hex_value_digit: "n < 16 \<Longrightarrow> hex_value (hex_digit n) = n"
  by (simp add: hex_value_def hex_digit_code)

lemma hex_digit_printable: "n < 16 \<Longrightarrow> in_range 32 126 (hex_digit n)"
  by (simp add: in_range_def hex_digit_code)

lemma char_halves: "code c div 16 < 16 \<and> code c mod 16 < 16"
  using of_char_bound [of c] by (simp add: less_mult_imp_div_less)

lemma unescape_char: "unescape (escape_char c @ s) = c # unescape s"
proof -
  have split: "16 * (code c div 16) + code c mod 16 = code c" by simp
  have plain: "unescape (c # s) = c # unescape s" if "c \<noteq> CHR 0x5C" using that by (cases s) simp_all
  have ch: "char_of n = c" if "code c = n" for n using that by auto
  show ?thesis
    using plain char_halves [of c] split unfolding escape_char_def
    by (auto simp: hex_value_digit ch)
qed

lemma unescape_escape: "unescape (unicode_escape s) = s"
  by (induction s) (simp_all add: unicode_escape_def unescape_char)

lemma escape_printable: "list_all (in_range 32 126) (unicode_escape s)"
proof -
  have "list_all (in_range 32 126) (escape_char c)" for c
    using char_halves [of c] hex_digit_printable
    by (simp add: escape_char_def) (simp add: in_range_def)
  then show ?thesis by (auto simp: unicode_escape_def list_all_iff)
qed

text \<open>An object in which no sensitive name keeps its value, as far as objects are nested in objects.\<close>

fun hides_secrets :: "(string \<times> jval) list \<Rightarrow> bool" where
  "hides_secrets [] = True"
| "hides_secrets ((key, value) # rest) =
     ((if sensitive_key key then value = JStr ''***REDACTED***'' else (case value of JDict d \<Rightarrow> hides_secrets d | _ \<Rightarrow> True)) \<and>
      hides_secrets rest)"

lemma filter_hides: "hides_secrets (filter_sensitive d)"
proof (induction d rule: filter_sensitive.induct)
  case (2 key v rest)
  then show ?case by (cases v) simp_all
qed simp

text \<open>Log records.  A logged text consists of printable ASCII characters only, so it cannot break a line
  or forge a record, is at most 514 characters long, and can be read back unless it was cut;
  and a logged object keeps its names, but no value under a sensitive name, at any depth of nested objects.\<close>

theorem logged_record_safe:
  "list_all (in_range 32 126) (log_text s) \<and> length (log_text s) \<le> 514 \<and>
   (unescape (log_text s) = s \<or> length (unicode_escape s) > 500) \<and>
   hides_secrets (filter_sensitive d) \<and> map fst (filter_sensitive d) = map fst d"
proof -
  have p: "list_all (in_range 32 126) (take 500 (unicode_escape s))"
    using escape_printable [of s] by (auto simp: list_all_iff dest: in_set_takeD)
  have "list_all (in_range 32 126) ''...[truncated]''" by (simp add: in_range_def)
  with p have "list_all (in_range 32 126) (log_text s)"
    using escape_printable [of s] by (simp add: log_text_def Let_def)
  moreover have "length (log_text s) \<le> 514" by (simp add: log_text_def Let_def)
  moreover have "unescape (log_text s) = s \<or> length (unicode_escape s) > 500"
    by (simp add: log_text_def Let_def unescape_escape)
  moreover have "map fst (filter_sensitive d) = map fst d" by (induction d rule: filter_sensitive.induct) auto
  ultimately show ?thesis using filter_hides by blast
qed

section \<open>Accepted dates\<close>

lemma group_digits:
  "i \<le> length s \<Longrightarrow> (j, h) \<in> set (rx_match s (Group k (digits_rx n)) i g) \<Longrightarrow>
     j = i + n \<and> j \<le> length s \<and> list_all ascii_digit (take n (drop i s)) \<and> h = g(k := Some (take n (drop i s)))"
  using rx_match_classes [of i s "replicate n ascii_digit" "[]" g]
  by (auto simp: digits_rx_def list_all2_conv_all_nth list_all_length split: if_splits)

lemma cats_step:
  "(j, h) \<in> set (rx_match s (cats (r # rs)) i g) \<Longrightarrow>
     \<exists>j' h'. (j', h') \<in> set (rx_match s r i g) \<and> (j, h) \<in> set (rx_match s (cats rs) j' h')"
  by (auto simp: rx_cats_Cons)

definition date_text :: "string \<Rightarrow> string \<Rightarrow> string \<Rightarrow> string \<Rightarrow> bool" where
  "date_text v y m d \<longleftrightarrow> length y = 4 \<and> length m = 2 \<and> length d = 2 \<and> list_all ascii_digit (y @ m @ d) \<and>
     (\<exists>time. v = y @ ''-'' @ m @ ''-'' @ d @ time)"

lemma time_rx_keeps:
  assumes "(j, h) \<in> set (rx_match v (cats [time_rx, LineEnd]) i g)" "k < 4"
  shows "h k = g k"
  by (rule rx_match_keeps [OF assms(1)])
    (use \<open>k < 4\<close> in \<open>auto simp: time_rx_def Plus_def Opt_def lit_def digits_rx_def numeral_2_eq_2\<close>)

lemma date_match:
  assumes m: "(j, h) \<in> set (rx_match v ISO_DATE_PATTERN 0 no_groups)"
  shows "\<exists>y m d. date_text v y m d \<and> h 1 = Some y \<and> h 2 = Some m \<and> h 3 = Some d"
proof -
  from cats_step [OF m [unfolded ISO_DATE_PATTERN_def]]
  have "(j, h) \<in> set (rx_match v (cats [Group 1 (digits_rx 4), lit ''-'', Group 2 (digits_rx 2), lit ''-'',
      Group 3 (digits_rx 2), time_rx, LineEnd]) 0 no_groups)"
    by auto
  from cats_step [OF this] obtain j1 h1 where 1: "(j1, h1) \<in> set (rx_match v (Group 1 (digits_rx 4)) 0 no_groups)"
    and m1: "(j, h) \<in> set (rx_match v (cats [lit ''-'', Group 2 (digits_rx 2), lit ''-'',
      Group 3 (digits_rx 2), time_rx, LineEnd]) j1 h1)"
    by blast
  from group_digits [OF _ 1] have d1: "j1 = 4" "4 \<le> length v" "list_all ascii_digit (take 4 v)"
    "h1 = no_groups(1 := Some (take 4 v))"
    by simp_all
  from cats_step [OF m1] have s1: "4 < length v" "v ! 4 = CHR ''-''"
    and m2: "(j, h) \<in> set (rx_match v (cats [Group 2 (digits_rx 2), lit ''-'', Group 3 (digits_rx 2), time_rx, LineEnd]) 5 h1)"
    unfolding rx_match_lit1 d1(1) by auto
  from cats_step [OF m2] obtain j2 h2 where 2: "(j2, h2) \<in> set (rx_match v (Group 2 (digits_rx 2)) 5 h1)"
    and m3: "(j, h) \<in> set (rx_match v (cats [lit ''-'', Group 3 (digits_rx 2), time_rx, LineEnd]) j2 h2)"
    by blast
  from group_digits [OF _ 2] s1 have d2: "j2 = 7" "7 \<le> length v" "list_all ascii_digit (take 2 (drop 5 v))"
    "h2 = h1(2 := Some (take 2 (drop 5 v)))"
    by simp_all
  from cats_step [OF m3] have s2: "7 < length v" "v ! 7 = CHR ''-''"
    and m4: "(j, h) \<in> set (rx_match v (cats [Group 3 (digits_rx 2), time_rx, LineEnd]) 8 h2)"
    unfolding rx_match_lit1 d2(1) by auto
  from cats_step [OF m4] obtain j3 h3 where 3: "(j3, h3) \<in> set (rx_match v (Group 3 (digits_rx 2)) 8 h2)"
    and m5: "(j, h) \<in> set (rx_match v (cats [time_rx, LineEnd]) j3 h3)"
    by blast
  from group_digits [OF _ 3] s2 have d3: "j3 = 10" "10 \<le> length v" "list_all ascii_digit (take 2 (drop 8 v))"
    "h3 = h2(3 := Some (take 2 (drop 8 v)))"
    by simp_all
  have "v = take 4 v @ take 1 (drop 4 v) @ take 2 (drop 5 v) @ take 1 (drop 7 v) @ take 2 (drop 8 v) @ drop 10 v"
    using append_take_drop_id [of 4 v] append_take_drop_id [of 1 "drop 4 v"] append_take_drop_id [of 2 "drop 5 v"]
      append_take_drop_id [of 1 "drop 7 v"] append_take_drop_id [of 2 "drop 8 v"]
    by (simp del: append_take_drop_id)
  moreover have "take 1 (drop 4 v) = ''-''" "take 1 (drop 7 v) = ''-''"
    using s1 s2 by (simp_all add: take_Suc hd_drop_conv_nth One_nat_def)
  ultimately have "date_text v (take 4 v) (take 2 (drop 5 v)) (take 2 (drop 8 v))"
    using d1(3) d2(3) d3(2,3) unfolding date_text_def by auto
  with time_rx_keeps [OF m5] d1(4) d2(4) d3(4) show ?thesis by auto
qed

text \<open>A date filter the request layer accepts is the stripped text, at most fifty characters, and
  it starts with four digits, two digits and two digits separated by dashes, whose values are a year
  from 1970 to 2100, a month from 1 to 12 and a day from 1 to 31.\<close>

theorem accepted_date_form:
  assumes ok: "validate_date_filter (JStr s) field = Inr (Some v)"
  shows "v = strip s \<and> length v \<le> 50 \<and>
     (\<exists>y m d. date_text v y m d \<and> 1970 \<le> int_digits y \<and> int_digits y \<le> 2100 \<and>
       1 \<le> int_digits m \<and> int_digits m \<le> 12 \<and> 1 \<le> int_digits d \<and> int_digits d \<le> 31)"
proof -
  from ok have v: "v = strip s" and l: "length v \<le> 50" and ne: "rx_match v ISO_DATE_PATTERN 0 no_groups \<noteq> []"
    unfolding validate_date_filter_def by (auto simp: Let_def split: if_splits list.splits)
  from ne obtain j g r where r: "rx_match v ISO_DATE_PATTERN 0 no_groups = (j, g) # r"
    by (cases "rx_match v ISO_DATE_PATTERN 0 no_groups") auto
  from ok have "1970 \<le> group_int g 1 \<and> group_int g 1 \<le> 2100 \<and> 1 \<le> group_int g 2 \<and> group_int g 2 \<le> 12 \<and>
      1 \<le> group_int g 3 \<and> group_int g 3 \<le> 31"
    unfolding validate_date_filter_def v [symmetric]
    by (auto simp: Let_def r v [symmetric] split: if_splits)
  moreover obtain y m d where "date_text v y m d" "g 1 = Some y" "g 2 = Some m" "g 3 = Some d"
    using date_match [of j g v] r by auto
  ultimately show ?thesis using v l by (auto simp: group_int_def)
qed

theorem accepted_date_form_witness:
  "strip '' 2024-02-31'' = ''2024-02-31'' \<and> (\<exists>y m d. date_text ''2024-02-31'' y m d \<and> int_digits d \<le> 31)"
proof -
  have "validate_date_filter (JStr '' 2024-02-31'') ''date'' = Inr (Some ''2024-02-31'')"
    by code_simp
  from accepted_date_form [OF this] show ?thesis by auto
qed

section \<open>Behaviours worth knowing\<close>

text \<open>Every month has thirty-one days for the filter.\<close>

lemma impossible_day_accepted:
  "validate_date_filter (JStr ''2024-02-31'') ''created_after'' = Inr (Some ''2024-02-31'')"
  by code_simp

text \<open>A text that stands in a list is not a field: it is never cut.\<close>

lemma long_text_in_list_kept:
  "truncate_fields [] [(''description'', JList [JStr (replicate 5000 (CHR ''a''))])] =
     ([(''description'', JList [JStr (replicate 5000 (CHR ''a''))])], [])"
  by simp

text \<open>A response above the size limit is marked, not made smaller.\<close>

lemma oversize_only_marked:
  "within_fields d \<Longrightarrow> n < json_length d \<Longrightarrow>
     truncate_response json_length d n =
       AList.update ''_original_size'' (JNum (int (json_length d))) (AList.update ''_truncated'' (JBool True) d)"
  by (simp add: truncate_response_def within_unchanged)

text \<open>The filter of sensitive names does not enter lists.\<close>

lemma secret_in_list_logged:
  "sanitize_for_log (JDict [(''items'', JList [JDict [(''password'', JStr ''x'')]])]) =
     JDict [(''items'', JList [JDict [(''password'', JStr ''x'')]])]"
  by code_simp

end
