(* ===== verification/Spec2Isabelle.thy ===== *)
theory Spec2Isabelle
  imports
    Gateway_Sample
    Gateway_Auth
    Investigation_Store
    Ioc_Values
    Path_Resolution
    Shell_Command
    Path_Redaction
    Rate_Limit
    Response_Override
    Response_Cap
    Ttl_Cache
    Custody_Ledger
    Evidence_Admission
    Triage_Check
    Opencti_Retry
    Opencti_Validation
begin

text \<open>
  This development models the decisions of sift-mcps, a gateway through which an assistant
  runs forensic tools on the sealed evidence of a case, in Isabelle/HOL.  Source paths are
  below \<open>src/packages/\<close>.

  \<^bold>\<open>The program and its parts.\<close>  A gateway (\<open>sift-gateway\<close>) authenticates callers, limits their rate
  and asks the evidence authority whether a case may be worked on.  A command of the assistant
  goes to the core (\<open>sift-core\<close>), which checks it against a policy of programs and paths,
  binds the evidence it names to the very files that were sealed, scrubs the environment and
  runs it; what comes back has the locations of the host removed.  Beside it stand services:
  triage of Windows artefacts against tables of known good and known bad
  (\<open>windows-triage-mcp\<close>) and threat intelligence from a remote server (\<open>opencti-mcp\<close>) with its
  caches, limits, breaker and retries.

  \<^bold>\<open>Language and host.\<close>
  \<^item> \<open>Sift_Prelude\<close>: the result type of code that raises, sequencing of results, generic lemmas on
    lists and maps, and the locales shared by the components: an object whose calls keep an
    invariant (\<open>guarded_object\<close>) and a forward simulation between two objects (\<open>simulation\<close>).  The
    middlewares of the gateway have a locale of their own (\<open>layer\<close>, below).
  \<^item> \<open>Py_String\<close>, \<open>Py_Text\<close>, \<open>Py_Value\<close>, \<open>Py_Regex\<close>, \<open>Py_Shlex\<close>: what the sources use of Python: string
    methods, splitting and stripping, decimal numerals, values of documents and their truth,
    regular expressions by backtracking, and \<open>shlex.split\<close>.  Text is Latin-1, one
    \<open>char\<close> per character; \<open>Triage_Unicode\<close> uses lists of code points instead.
  \<^item> \<open>Host\<close>: the file system as a tree of directories, files and symbolic links, path resolution
    and \<open>pathlib\<close>, environment variables and the active-case context
    (\<open>sift_core/active_case_context.py\<close>).  Resolution is a \<open>partial_function\<close>: a cycle of links gives
    no result and is the error the code meets.  \<open>Path_Resolution\<close> shows when it ends: exactly when no link that a
    path meets leads to a link that leads to itself.

  \<^bold>\<open>The command boundary\<close> (\<open>sift_core/execute\<close>).
  \<^item> \<open>Security_Policy\<close> (\<open>security_policy.py\<close>, \<open>catalog.py\<close>): the default policy, merging of an operator
    document, the document passed in the environment, the loader and its cache.  The deny floor
    survives every document, and a policy written to the environment is read back unchanged.
  \<^item> \<open>Runtime_Acl\<close> (\<open>runtime_acl.py\<close>): the scrubbed environment of a command and the guard of authority
    paths.  No secret name reaches a command.
  \<^item> \<open>Command_Parser\<close> (\<open>security.py\<close>): cutting a line at its operators and parsing one stage into
    arguments and redirections.  Nothing of a line is lost, and parsed operators are supported.
  \<^item> \<open>Path_Policy\<close> (\<open>security.py\<close>, \<open>case_io.py\<close>): validation of input, output, mutation and removal
    targets with links resolved; exactly the paths inside the writable or readable part of the
    case are accepted, and the text returned is accepted again unchanged.
  \<^item> \<open>Shell_Command\<close> (\<open>security.py\<close>): \<open>validate_shell_command\<close> with every check; theorems on the
    programs, arguments, redirections and targets of the stages it returns.
  \<^item> \<open>Path_Redaction\<close> (\<open>security.py\<close>): removal of locations from results and references to outputs.

  \<^bold>\<open>The gateway\<close> (\<open>sift_gateway\<close>).
  \<^item> \<open>Rate_Limit\<close> (\<open>rate_limit.py\<close>): the sliding-window limiter with its clean-up; it refines the
    counter that keeps the whole history, by the locale \<open>simulation\<close>.
  \<^item> \<open>Custody_Ledger\<close> (\<open>custody/ledger.py\<close>): verification of the chain of custody events, export and
    anchoring.
  \<^item> \<open>Evidence_Admission\<close> (\<open>custody/admission.py\<close>, \<open>evidence_gate.py\<close>, \<open>execute/evidence_binding.py\<close>): the
    custody gate, resolution of a reference to a sealed version, the final open with its checks
    of identity, and rewriting of operands to descriptors.
  \<^item> \<open>Response_Guard\<close>, \<open>Response_Paths\<close>, \<open>Response_Content\<close>, \<open>Response_Cap\<close> (\<open>response_guard.py\<close>): what an assistant
    receives.  Secrets, control sequences and locations are removed from texts and from structured values
    at any depth, and the whole is cut to a cap; \<open>guard_tool_result\<close> composes the passes.
    \<open>Py_Regex_Lang\<close> relates the matcher to the language of an expression, and \<open>Json_Value\<close> has the values.
  \<^item> \<open>Response_Override\<close> (\<open>response_guard.py\<close>): the override with its time, a \<open>simulation\<close> of the history of calls.
  \<^item> \<open>Audit_Helpers\<close> (\<open>audit_helpers.py\<close>): the ids an audit record names and the bounded details it keeps.

  \<^bold>\<open>A tool call at the gateway\<close> (\<open>policy_middleware.py\<close>).  A middleware makes a handler from the next one; a handler takes the context of
  the call, the request and the state of the gateway.  The ten middlewares are, from the outermost to the innermost:
  \<^item> \<open>Gateway_Access\<close>: control plane, scopes and rate of the caller, authority of the add-on, active case;
  \<^item> \<open>Gateway_Envelope\<close>: the row of the request before the call, the id given out and the receipt after it;
  \<^item> \<open>Gateway_Binding\<close>: the arguments that name the case, the custody gate and the sealed versions of every reference;
  \<^item> \<open>Gateway_Response\<close>: the response guard with its log; \<open>Gateway_Jobs\<close>: ingest status and the queue of long jobs.

  \<open>Gateway_State\<close> has the records of the call, of what it leaves (log, audit rows, jobs, calls of backends) and of the services, which are
  parameters: the case service, the evidence authority, the audit table, the queue, the backends, JSON, identifiers and clock.
  \<open>Gateway_Tools\<close> (\<open>server.py\<close>, \<open>agent_tools.py\<close>) has what is known of a tool; \<open>Evidence_References\<close> (\<open>evidence_admission.py\<close>) what
  its arguments refer to; \<open>Gateway_Identity\<close> (\<open>identity.py\<close>, \<open>mcp_endpoint.py\<close>) callers and scopes; \<open>Gateway_Auth\<close> (\<open>supabase_auth.py\<close>)
  how a token becomes an identity, with the cache of the resolver: what it hands out was validated within the
  time to live and not revoked since.

  \<open>Gateway_Policy\<close> composes the ten.  The locale \<open>layer\<close> states what each promises: a call that reaches a backend through it has met the
  condition of the layer and goes on once; layers compose (\<open>layer_then\<close>), each middleware interprets the locale, and so does the
  whole.  From it follow authorisation, binding to the case, sealed evidence and the row before the action.
  \<open>Active_Case\<close> is the case service (\<open>active_case.py\<close>): its tables are lists, each method is one transaction, and the constraints of
  the schema that its writes meet are tests of the model; \<open>Case_Metadata\<close> is the filling of a case row from its file.  Who enters a case,
  who changes one, and the order of the tables (one active case, keys without duplicates, an event for every change) are proved of every
  sequence of calls, and \<open>Gateway_Case\<close> puts this service behind the gateway: a call that reaches a case tool is of a member.
  \<open>Gateway_Sample\<close> runs a call that comes through.  Calls are one after another; an attempt to write the log file is recorded
  whether it succeeds or not.

  \<^bold>\<open>The investigation\<close> (\<open>sift_core\<close>).
  \<^item> \<open>Investigation_Store\<close> (\<open>investigation_store.py\<close>): findings, events, indicators and tasks as rows with versions; what an agent
    writes, what an examiner decides, what a report takes.  Of every sequence of calls from empty tables it is shown that only a review
    approves or rejects and that agents leave such rows alone, that a version names one content, and that the digest of every reported item is that of its content.
  \<^item> \<open>Ioc_Values\<close> (\<open>ioc_helpers.py\<close>): the types and keys of indicators.

  \<^bold>\<open>Triage\<close> (\<open>windows_triage_mcp\<close>).
  \<^item> \<open>Triage_Paths\<close> (\<open>analysis/paths.py\<close>, \<open>analysis/hashes.py\<close>), \<open>Triage_Unicode\<close> (\<open>analysis/unicode.py\<close>)
    and \<open>Triage_Verdicts\<close> (\<open>analysis/filename.py\<close>, \<open>analysis/verdicts.py\<close>): normal forms, disguised
    names, entropy and verdicts.  The edit distance is the least number of edits; entropy is
    the real number, compared with the threshold by a test on whole numbers.
  \<^item> \<open>Triage_Check\<close> (\<open>server.py\<close>, \<open>db/context.py\<close>): the checks of files, processes, services and hashes.

  \<^bold>\<open>Threat intelligence\<close> (\<open>opencti_mcp\<close>).
  \<^item> \<open>Ttl_Cache\<close> (\<open>cache.py\<close>), \<open>Circuit_Breaker\<close> (\<open>client.py\<close>), \<open>Adaptive_Metrics\<close> (\<open>adaptive.py\<close>) and
    \<open>Opencti_Retry\<close> (\<open>client.py\<close>): the cache of answers, the breaker as a state machine and as the
    implementation of a log of failures, the recommended settings, and calls with retries.
  \<^item> \<open>Opencti_Ioc\<close> and \<open>Opencti_Validation\<close> (\<open>validation.py\<close>): recognition of indicators, whose forms are
    proved to exclude each other, the validators of identifiers, vocabularies and dates, the
    truncation of responses and what is logged.  The length of a JSON text is a parameter.

  \<^bold>\<open>Conventions.\<close>  Objects are records, methods take and return them, with the clock as an argument;
  clock readings are whole ticks, and measured latencies and delays are real numbers in place of
  floats.  Exceptions are the left values of a sum.  Recursion is structural or has a measure;
  there is no fuel.  Code outside the repository is an argument: the database queries, the
  YAML and JSON parsers and printers, SHA-256, the Unicode tables, the remote server, the clock and
  the jitter.

  \<^bold>\<open>Not modelled.\<close>  HTTP and MCP wiring, the issuing of tokens and the sign-in of the portal, process creation,
  artefact parsers and the search cluster, the portal, and the custody mutations, whose effect is
  in SQL functions of the database.  Locks are not modelled: each method is one step, as it
  is under the lock the source takes.
\<close>

end
